(* ===== verification/Kp_Prelude.thy ===== *)
theory Kp_Prelude
  imports Complex_Main "HOL-Library.List_Lexorder" "HOL-Library.Char_ord" "HOL-Library.Sublist"
begin

text \<open>
  Shared ground of the model of kuberport's TypeScript front end: JavaScript objects as
  association lists in enumeration order, the string and array operations the code uses, the
  numbers and values of parsed JSON or YAML, and two interfaces that several components share
  (a keyed store, and a component driven by events).

  Strings are lists of \<^typ>\<open>char\<close>, that is JavaScript strings whose code units are below 256;
  \<open>toLowerCase\<close> and \<open>trim\<close> are exact on that range. Object keys are never array indices
  (\<open>"0"\<close>, \<open>"17"\<close>), which JavaScript would enumerate first.
\<close>

named_theorems obj_simps \<open>lookup after an object update\<close>
named_theorems obj_intros \<open>object updates keep keys distinct\<close>

section \<open>Objects\<close>

type_synonym ('k, 'v) obj = "('k \<times> 'v) list"

abbreviation oget :: "('k, 'v) obj \<Rightarrow> 'k \<Rightarrow> 'v option" where
  "oget \<equiv> map_of"

text \<open>\<open>o[k] = v\<close>: an existing key keeps its position, a new one goes last.\<close>

fun oset :: "('k, 'v) obj \<Rightarrow> 'k \<Rightarrow> 'v \<Rightarrow> ('k, 'v) obj" where
  "oset [] k v = [(k, v)]"
| "oset ((k', v') # es) k v = (if k' = k then (k, v) # es else (k', v') # oset es k v)"

text \<open>\<open>delete o[k]\<close>, and the rest pattern \<open>const {[k]: _, ...rest} = o\<close>.\<close>

definition odel :: "('k, 'v) obj \<Rightarrow> 'k \<Rightarrow> ('k, 'v) obj" where
  "odel es k = filter (\<lambda>e. fst e \<noteq> k) es"

text \<open>\<open>{...o, ...p}\<close>, and a loop that assigns the entries of \<open>p\<close> in order.\<close>

fun ospread :: "('k, 'v) obj \<Rightarrow> ('k, 'v) obj \<Rightarrow> ('k, 'v) obj" where
  "ospread es [] = es"
| "ospread es ((k, v) # p) = ospread (oset es k v) p"

definition okeys :: "('k, 'v) obj \<Rightarrow> 'k list" where
  "okeys es = map fst es"

definition obj_ok :: "('k, 'v) obj \<Rightarrow> bool" where
  "obj_ok es \<longleftrightarrow> distinct (map fst es)"

lemma oget_oset [obj_simps, simp]: "oget (oset es k v) j = (if j = k then Some v else oget es j)"
  by (induction es k v rule: oset.induct) auto

lemma oget_odel [obj_simps, simp]: "oget (odel es k) j = (if j = k then None else oget es j)"
  by (induction es) (auto simp: odel_def)

lemma set_keys_oset [simp]: "fst ` set (oset es k v) = insert k (fst ` set es)"
  by (induction es k v rule: oset.induct) auto

lemma obj_ok_Nil [obj_intros, simp]: "obj_ok []"
  by (simp add: obj_ok_def)

lemma obj_ok_oset [obj_intros]: "obj_ok es \<Longrightarrow> obj_ok (oset es k v)"
  by (induction es k v rule: oset.induct) (auto simp: obj_ok_def)

lemma obj_ok_odel [obj_intros]: "obj_ok es \<Longrightarrow> obj_ok (odel es k)"
  by (induction es) (auto simp: obj_ok_def odel_def)

lemma obj_ok_ospread [obj_intros]: "obj_ok es \<Longrightarrow> obj_ok (ospread es p)"
  by (induction es p rule: ospread.induct) (auto intro: obj_ok_oset)

lemma oset_new: "k \<notin> fst ` set es \<Longrightarrow> oset es k v = es @ [(k, v)]"
  by (induction es k v rule: oset.induct) auto

lemma oget_ospread [obj_simps]:
  "oget (ospread es p) j = (case oget (rev p) j of None \<Rightarrow> oget es j | Some v \<Rightarrow> Some v)"
  by (induction es p rule: ospread.induct) (auto simp: map_add_def split: option.splits)

lemma oget_rev: "obj_ok p \<Longrightarrow> oget (rev p) j = oget p j"
  by (induction p) (auto simp: obj_ok_def map_add_def dom_map_of_conv_image_fst [symmetric] dom_def
      rev_map [symmetric] split: option.splits dest: map_of_SomeD)

lemma oget_ospread_ok [obj_simps]:
  "obj_ok p \<Longrightarrow> oget (ospread es p) j = (case oget p j of None \<Rightarrow> oget es j | Some v \<Rightarrow> Some v)"
  by (simp add: oget_ospread oget_rev)

lemma ospread_Nil_ok: "obj_ok (es @ p) \<Longrightarrow> ospread es p = es @ p"
proof (induction p arbitrary: es)
  case Nil
  then show ?case by simp
next
  case (Cons e p)
  obtain k v where e: "e = (k, v)" by force
  from Cons.prems e have "oset es k v = es @ [(k, v)]"
    by (intro oset_new) (auto simp: obj_ok_def)
  with Cons e show ?case by simp
qed

lemma in_okeys: "k \<in> set (okeys es) \<longleftrightarrow> oget es k \<noteq> None"
  by (induction es) (auto simp: okeys_def)

section \<open>Lists\<close>

text \<open>Change the first element that satisfies a test, as assigning through \<open>find\<close> does.\<close>

fun update_first :: "('a \<Rightarrow> bool) \<Rightarrow> ('a \<Rightarrow> 'a) \<Rightarrow> 'a list \<Rightarrow> 'a list" where
  "update_first P f [] = []"
| "update_first P f (x # xs) = (if P x then f x # xs else x # update_first P f xs)"

lemma map_update_first: "(\<And>x. g (f x) = g x) \<Longrightarrow> map g (update_first P f xs) = map g xs"
  by (induction xs) auto

lemma find_update_first:
  "(\<And>x. P (f x) = P x) \<Longrightarrow> find P (update_first P f xs) = map_option f (find P xs)"
  by (induction xs) auto

lemma find_append: "find P (xs @ ys) = (case find P xs of None \<Rightarrow> find P ys | Some x \<Rightarrow> Some x)"
  by (induction xs) auto

text \<open>Splitting at the last occurrence of a separator is unique.\<close>

lemma split_last_eq:
  "xs @ c # ys = xs' @ c # ys' \<Longrightarrow> c \<notin> set ys \<Longrightarrow> c \<notin> set ys' \<Longrightarrow> xs = xs' \<and> ys = ys'"
proof (induction xs arbitrary: xs')
  case Nil
  then show ?case by (cases xs') auto
next
  case (Cons x xs)
  then show ?case by (cases xs') auto
qed

section \<open>Interfaces shared by the components\<close>

text \<open>
  A keyed store: what a client may rely on after it has put or deleted an entry. JavaScript
  objects (form values, editor fields, cookies) and the sessions table provide it.
\<close>

locale keyed_store =
  fixes look :: "'m \<Rightarrow> 'k \<Rightarrow> 'v option"
    and put :: "'m \<Rightarrow> 'k \<Rightarrow> 'v \<Rightarrow> 'm"
    and del :: "'m \<Rightarrow> 'k \<Rightarrow> 'm"
    and ok :: "'m \<Rightarrow> bool"
  assumes look_put: "ok m \<Longrightarrow> look (put m k v) j = (if j = k then Some v else look m j)"
    and look_del: "ok m \<Longrightarrow> look (del m k) j = (if j = k then None else look m j)"
    and ok_put: "ok m \<Longrightarrow> ok (put m k v)"
    and ok_del: "ok m \<Longrightarrow> ok (del m k)"
begin

lemma look_put_same: "ok m \<Longrightarrow> look (put m k v) k = Some v"
  by (simp add: look_put)

lemma look_put_other: "ok m \<Longrightarrow> j \<noteq> k \<Longrightarrow> look (put m k v) j = look m j"
  by (simp add: look_put)

lemma del_put: "ok m \<Longrightarrow> look (del (put m k v) k) = look (del m k)"
  by (auto simp: look_del look_put ok_put)

lemma ok_foldl_put: "ok m \<Longrightarrow> ok (foldl (\<lambda>m e. put m (fst e) (snd e)) m es)"
  by (induction es arbitrary: m) (auto intro: ok_put)

lemma look_foldl_put:
  "ok m \<Longrightarrow> look (foldl (\<lambda>m e. put m (fst e) (snd e)) m es) j =
     (case map_of (rev es) j of None \<Rightarrow> look m j | Some v \<Rightarrow> Some v)"
  by (induction es arbitrary: m) (auto simp: look_put ok_put map_add_def split: option.splits)

end

interpretation ob: keyed_store oget oset odel obj_ok
  by unfold_locales (auto intro: obj_intros)

text \<open>
  A component driven by events: every handler is one step of its state, and what every step
  keeps holds after any sequence of events.
\<close>

locale event_component =
  fixes step :: "'s \<Rightarrow> 'e \<Rightarrow> 's"
    and inv :: "'s \<Rightarrow> bool"
  assumes step_inv: "inv s \<Longrightarrow> inv (step s e)"
begin

lemma run_inv: "inv s \<Longrightarrow> inv (foldl step s es)"
  by (induction es arbitrary: s) (auto intro: step_inv)

lemma run_prefix_inv: "inv s \<Longrightarrow> foldl step s (es @ fs) = t \<Longrightarrow> inv (foldl step s es) \<and> inv t"
  by (auto intro: run_inv)

end

end
