(* ===== verification/Kp_Js.thy ===== *)
theory Kp_Js
  imports Kp_Prelude
begin

text \<open>
  The part of JavaScript's standard library the front end uses: string operations, the text of
  an integer, \<open>Number(text)\<close>, parsed values, sets built from arrays, and the result of \<open>fetch\<close>.
\<close>

section \<open>Strings\<close>

definition js_space :: "char \<Rightarrow> bool" where
  "js_space c \<longleftrightarrow> of_char c \<in> {9, 10, 11, 12, 13, 32, 160 :: nat}"

definition js_trim :: "string \<Rightarrow> string" where
  "js_trim s = rev (dropWhile js_space (rev (dropWhile js_space s)))"

definition js_lower_char :: "char \<Rightarrow> char" where
  "js_lower_char c = (let n = of_char c :: nat in
     if 65 \<le> n \<and> n \<le> 90 \<or> 192 \<le> n \<and> n \<le> 222 \<and> n \<noteq> 215 then char_of (n + 32) else c)"

definition js_lower :: "string \<Rightarrow> string" where
  "js_lower s = map js_lower_char s"

definition starts_with :: "string \<Rightarrow> string \<Rightarrow> bool" where
  "starts_with s p \<longleftrightarrow> take (length p) s = p"

definition str_includes :: "string \<Rightarrow> string \<Rightarrow> bool" where
  "str_includes s p \<longleftrightarrow> sublist p s"

text \<open>\<open>s || d\<close> on a string that may be missing: the empty string counts as missing.\<close>

definition or_str :: "string option \<Rightarrow> string \<Rightarrow> string" where
  "or_str s d = (case s of None \<Rightarrow> d | Some t \<Rightarrow> if t = [] then d else t)"

text \<open>\<open>s ?? d\<close>: only a missing value (undefined or null) is replaced.\<close>

definition nullish :: "'a option \<Rightarrow> 'a \<Rightarrow> 'a" where
  "nullish s d = (case s of None \<Rightarrow> d | Some t \<Rightarrow> t)"

definition truthy_str :: "string option \<Rightarrow> bool" where
  "truthy_str s \<longleftrightarrow> (case s of None \<Rightarrow> False | Some t \<Rightarrow> t \<noteq> [])"

lemma nullish_simps [simp]: "nullish None d = d" "nullish (Some t) d = t"
  by (simp_all add: nullish_def)

lemma truthy_str_simps [simp]: "\<not> truthy_str None" "truthy_str (Some t) \<longleftrightarrow> t \<noteq> []"
  by (simp_all add: truthy_str_def)

lemma starts_with_iff: "starts_with s p \<longleftrightarrow> (\<exists>r. s = p @ r)"
  by (auto simp: starts_with_def) (metis append_take_drop_id)

lemma starts_with_append [simp]: "starts_with (p @ r) p"
  by (simp add: starts_with_def)

lemma js_trim_idem [simp]: "js_trim (js_trim s) = js_trim s"
proof -
  define u where "u = dropWhile js_space s"
  define w where "w = dropWhile js_space (rev u)"
  have trim: "js_trim s = rev w" by (simp add: js_trim_def w_def u_def)
  show ?thesis
  proof (cases "w = []")
    case True
    then have "js_trim s = []" by (simp add: trim)
    then show ?thesis by (simp only:) (simp add: js_trim_def)
  next
    case False
    obtain k where "rev u = k @ w" using takeWhile_dropWhile_id [of js_space "rev u"] by (metis w_def)
    then have u: "u = rev w @ rev k" by (metis rev_append rev_rev_ident)
    with False have "u \<noteq> []" "hd u = hd (rev w)" by auto
    then have "\<not> js_space (hd (rev w))" using hd_dropWhile [of js_space s] by (simp add: u_def)
    moreover have "\<not> js_space (hd w)" using hd_dropWhile [of js_space "rev u"] False by (simp add: w_def)
    moreover have "dropWhile js_space xs = xs" if "xs \<noteq> [] \<longrightarrow> \<not> js_space (hd xs)" for xs
      using that by (cases xs) auto
    ultimately have "js_trim (rev w) = rev w" by (simp add: js_trim_def)
    then show ?thesis by (simp only: trim)
  qed
qed

text \<open>\<open>Array.from(new Set(xs))\<close>: first occurrences, in order.\<close>

fun js_uniq_acc :: "'a list \<Rightarrow> 'a list \<Rightarrow> 'a list" where
  "js_uniq_acc seen [] = []"
| "js_uniq_acc seen (x # xs) =
     (if x \<in> set seen then js_uniq_acc seen xs else x # js_uniq_acc (x # seen) xs)"

definition js_uniq :: "'a list \<Rightarrow> 'a list" where
  "js_uniq xs = js_uniq_acc [] xs"

lemma js_uniq_acc_props:
  "set (js_uniq_acc seen xs) = set xs - set seen \<and> distinct (js_uniq_acc seen xs)"
  by (induction seen xs rule: js_uniq_acc.induct) auto

lemma set_js_uniq [simp]: "set (js_uniq xs) = set xs"
  using js_uniq_acc_props [of "[]" xs] by (simp add: js_uniq_def)

lemma distinct_js_uniq [simp]: "distinct (js_uniq xs)"
  using js_uniq_acc_props [of "[]" xs] by (simp add: js_uniq_def)

text \<open>The path of a property below a path: \<open>path ? `${path}.${name}` : name\<close>.\<close>

definition child_path :: "string \<Rightarrow> string \<Rightarrow> string" where
  "child_path pre name = (if pre = [] then name else pre @ ''.'' @ name)"

section \<open>Numbers\<close>

text \<open>
  Numbers are exact rationals with NaN and the infinities: the rounding of doubles and the sign
  of zero are not modelled, so arithmetic is exact where a double is (integers up to \<open>2 ^ 53\<close>).
\<close>

datatype jnum = NaN | Infty bool | Num rat

fun nat_digits :: "nat \<Rightarrow> string" where
  "nat_digits n = (if n < 10 then [char_of (48 + n)] else nat_digits (n div 10) @ [char_of (48 + n mod 10)])"

declare nat_digits.simps [simp del]

definition int_text :: "int \<Rightarrow> string" where
  "int_text i = (if i < 0 then CHR ''-'' # nat_digits (nat (- i)) else nat_digits (nat i))"

definition is_digit :: "char \<Rightarrow> bool" where
  "is_digit c \<longleftrightarrow> 48 \<le> (of_char c :: nat) \<and> (of_char c :: nat) \<le> 57"

definition digit_val :: "char \<Rightarrow> nat" where
  "digit_val c = of_char c - 48"

definition digits_val :: "string \<Rightarrow> nat" where
  "digits_val ds = foldl (\<lambda>a c. 10 * a + digit_val c) 0 ds"

lemma is_digit_char_of [simp]: "d < 10 \<Longrightarrow> is_digit (char_of (48 + d :: nat))"
  by (simp add: is_digit_def)

lemma digit_val_char_of [simp]: "d < 10 \<Longrightarrow> digit_val (char_of (48 + d :: nat)) = d"
  by (simp add: digit_val_def)

lemma nat_digits_digits: "list_all is_digit (nat_digits n)"
  by (induction n rule: nat_digits.induct) (subst nat_digits.simps, simp)

lemma nat_digits_nonempty [simp]: "nat_digits n \<noteq> []"
  by (subst nat_digits.simps) simp

lemma digits_val_snoc: "digits_val (ds @ [c]) = 10 * digits_val ds + digit_val c"
  by (simp add: digits_val_def)

lemma digits_val_nat_digits [simp]: "digits_val (nat_digits n) = n"
proof (induction n rule: nat_digits.induct)
  case (1 n)
  show ?case
  proof (cases "n < 10")
    case True
    then show ?thesis by (subst nat_digits.simps) (simp add: digits_val_def)
  next
    case False
    with 1 show ?thesis by (subst nat_digits.simps) (simp add: digits_val_snoc)
  qed
qed

lemma nat_digits_inject [simp]: "nat_digits m = nat_digits n \<longleftrightarrow> m = n"
  by (metis digits_val_nat_digits)

text \<open>
  \<open>Number(text)\<close>: white space is trimmed, the empty text is 0, a decimal literal with optional
  sign, fraction and exponent, \<open>Infinity\<close>, or an unsigned literal with a \<open>0x\<close>, \<open>0o\<close> or \<open>0b\<close>
  prefix; anything else is NaN.
\<close>

definition split_digits :: "string \<Rightarrow> string \<times> string" where
  "split_digits s = (takeWhile is_digit s, dropWhile is_digit s)"

definition parse_exponent :: "string \<Rightarrow> int option" where
  "parse_exponent s = (case s of [] \<Rightarrow> Some 0
   | c # r \<Rightarrow>
      if c = CHR ''e'' \<or> c = CHR ''E''
      then (let neg = (r \<noteq> [] \<and> hd r = CHR ''-'');
                ds = (if r \<noteq> [] \<and> (hd r = CHR ''-'' \<or> hd r = CHR ''+'') then tl r else r)
            in if ds \<noteq> [] \<and> list_all is_digit ds
               then Some (if neg then - int (digits_val ds) else int (digits_val ds)) else None)
      else None)"

definition pow10 :: "int \<Rightarrow> rat" where
  "pow10 e = (if 0 \<le> e then 10 ^ nat e else 1 / 10 ^ nat (- e))"

definition parse_unsigned :: "string \<Rightarrow> jnum" where
  "parse_unsigned s =
     (if s = ''Infinity'' then Infty True
      else let (ip, r) = split_digits s;
               (fp, r') = (if r \<noteq> [] \<and> hd r = CHR ''.'' then split_digits (tl r) else ([], r))
           in if ip = [] \<and> fp = [] then NaN
              else (case parse_exponent r' of None \<Rightarrow> NaN
                    | Some e \<Rightarrow> Num (of_nat (digits_val (ip @ fp)) * pow10 (e - int (length fp)))))"

definition radix_digit :: "nat \<Rightarrow> char \<Rightarrow> nat option" where
  "radix_digit b c = (let n = of_char (js_lower_char c) :: nat;
       d = (if is_digit c then n - 48 else if 97 \<le> n \<and> n \<le> 122 then n - 87 else b)
     in if d < b then Some d else None)"

definition parse_radix :: "nat \<Rightarrow> string \<Rightarrow> jnum" where
  "parse_radix b s = (if s = [] \<or> list_ex (\<lambda>c. radix_digit b c = None) s then NaN
     else Num (of_nat (foldl (\<lambda>a c. b * a + the (radix_digit b c)) 0 s)))"

fun jneg :: "jnum \<Rightarrow> jnum" where
  "jneg NaN = NaN"
| "jneg (Infty b) = Infty (\<not> b)"
| "jneg (Num q) = Num (- q)"

definition parse_number :: "string \<Rightarrow> jnum" where
  "parse_number t =
     (if t = [] then Num 0
      else if take 2 t \<in> {''0x'', ''0X''} then parse_radix 16 (drop 2 t)
      else if take 2 t \<in> {''0o'', ''0O''} then parse_radix 8 (drop 2 t)
      else if take 2 t \<in> {''0b'', ''0B''} then parse_radix 2 (drop 2 t)
      else if hd t = CHR ''-'' then jneg (parse_unsigned (tl t))
      else if hd t = CHR ''+'' then parse_unsigned (tl t)
      else parse_unsigned t)"

definition js_Number :: "string \<Rightarrow> jnum" where
  "js_Number s = parse_number (js_trim s)"

text \<open>The texts the editor produces from integers read back as these integers.\<close>

lemma digit_not_space: "is_digit c \<Longrightarrow> \<not> js_space c"
  by (auto simp: is_digit_def js_space_def)

lemma list_all_takeWhile: "list_all P xs \<Longrightarrow> takeWhile P xs = xs \<and> dropWhile P xs = []"
  by (induction xs) auto

lemma js_trim_no_space: "\<forall>c \<in> set s. \<not> js_space c \<Longrightarrow> js_trim s = s"
proof -
  assume a: "\<forall>c \<in> set s. \<not> js_space c"
  have "dropWhile js_space xs = xs" if "\<forall>c \<in> set xs. \<not> js_space c" for xs
    using that by (cases xs) auto
  from this [of s] this [of "rev s"] a show ?thesis by (simp add: js_trim_def)
qed

lemma hd_digits_not: "list_all is_digit s \<Longrightarrow> \<not> is_digit c \<Longrightarrow> c \<notin> set s"
  by (auto simp: list_all_iff)

lemma not_digits: "\<not> is_digit CHR ''x''" "\<not> is_digit CHR ''X''" "\<not> is_digit CHR ''o''" "\<not> is_digit CHR ''O''"
  "\<not> is_digit CHR ''b''" "\<not> is_digit CHR ''B''" "\<not> is_digit CHR ''-''" "\<not> is_digit CHR ''+''"
  "\<not> is_digit CHR ''I''" "\<not> is_digit CHR ''.''"
  by (simp_all add: is_digit_def)

lemma parse_unsigned_digits:
  assumes "list_all is_digit s" and "s \<noteq> []"
  shows "parse_unsigned s = Num (of_nat (digits_val s))"
proof -
  have "s \<noteq> ''Infinity''" using assms(1) not_digits by auto
  moreover have "split_digits s = (s, [])"
    using list_all_takeWhile [OF assms(1)] by (simp add: split_digits_def)
  ultimately show ?thesis using assms(2)
    by (simp add: parse_unsigned_def parse_exponent_def pow10_def)
qed

lemma take2_digits:
  assumes "list_all is_digit s" and "\<not> is_digit c"
  shows "take 2 s \<noteq> [CHR ''0'', c]"
proof
  assume "take 2 s = [CHR ''0'', c]"
  then have "c \<in> set (take 2 s)" by simp
  then have "c \<in> set s" by (rule in_set_takeD)
  with assms show False by (auto simp: list_all_iff)
qed

lemma js_Number_int_text [simp]: "js_Number (int_text i) = Num (of_int i)"
proof -
  define ds where "ds = nat_digits (nat \<bar>i\<bar>)"
  have ds: "list_all is_digit ds" "ds \<noteq> []" "digits_val ds = nat \<bar>i\<bar>"
    by (simp_all add: ds_def nat_digits_digits)
  have tx: "int_text i = (if i < 0 then CHR ''-'' # ds else ds)"
    by (simp add: int_text_def ds_def)
  have "\<forall>c \<in> set (int_text i). \<not> js_space c"
    using ds(1) digit_not_space by (auto simp: tx list_all_iff js_space_def)
  then have trim: "js_trim (int_text i) = int_text i" by (rule js_trim_no_space)
  have hds: "hd ds \<noteq> CHR ''-''" "hd ds \<noteq> CHR ''+''"
    using ds(1,2) not_digits by (cases ds; auto)+
  have no_prefix: "take 2 ds \<noteq> [CHR ''0'', c]" if "\<not> is_digit c" for c
    using ds(1) that by (rule take2_digits)
  have "parse_number ds = parse_unsigned ds"
    using hds no_prefix ds(2) by (simp add: parse_number_def not_digits)
  moreover have "parse_number (CHR ''-'' # ds) = jneg (parse_unsigned ds)"
    by (cases ds) (simp_all add: parse_number_def)
  ultimately have "parse_number (int_text i) = Num (of_int i)"
    using ds by (auto simp: tx parse_unsigned_digits)
  then show ?thesis by (simp add: js_Number_def trim)
qed

section \<open>Values\<close>

text \<open>
  A value as \<open>typeof\<close> and \<open>Array.isArray\<close> tell them apart; \<open>JOther t\<close> is a value of another
  type \<open>t\<close> (bigint, symbol, function).
\<close>

datatype jsval = JUndef | JNull | JBool bool | JNum jnum | JStr string
  | JArr "jsval list" | JObj "(string \<times> jsval) list" | JOther string

fun jfield :: "jsval \<Rightarrow> string \<Rightarrow> jsval" where
  "jfield (JObj es) k = nullish (oget es k) JUndef"
| "jfield _ k = JUndef"

text \<open>The entries a loop or a spread takes from an object.\<close>

fun entries_of :: "jsval \<Rightarrow> (string \<times> jsval) list" where
  "entries_of (JObj es) = es"
| "entries_of _ = []"

fun jtruthy :: "jsval \<Rightarrow> bool" where
  "jtruthy JUndef = False"
| "jtruthy JNull = False"
| "jtruthy (JBool b) = b"
| "jtruthy (JNum n) = (n \<noteq> NaN \<and> n \<noteq> Num 0)"
| "jtruthy (JStr s) = (s \<noteq> [])"
| "jtruthy (JArr _) = True"
| "jtruthy (JObj _) = True"
| "jtruthy (JOther _) = True"

fun jis_object :: "jsval \<Rightarrow> bool" where
  "jis_object JNull = True"
| "jis_object (JArr _) = True"
| "jis_object (JObj _) = True"
| "jis_object _ = False"

fun jstr_or :: "jsval \<Rightarrow> string \<Rightarrow> string" where
  "jstr_or (JStr s) d = s"
| "jstr_or _ d = d"

text \<open>\<open>String(v)\<close>. The text of a fraction, of a number of at least \<open>10 ^ 21\<close>, of an array, an object
  or another value is the argument's.\<close>

definition js_String :: "(jsval \<Rightarrow> string) \<Rightarrow> jsval \<Rightarrow> string" where
  "js_String other v = (case v of
     JUndef \<Rightarrow> ''undefined'' | JNull \<Rightarrow> ''null'' | JBool b \<Rightarrow> (if b then ''true'' else ''false'')
   | JStr s \<Rightarrow> s
   | JNum n \<Rightarrow> (case n of NaN \<Rightarrow> ''NaN'' | Infty b \<Rightarrow> (if b then ''Infinity'' else ''-Infinity'')
       | Num q \<Rightarrow> if q = of_int \<lfloor>q\<rfloor> \<and> \<bar>q\<bar> < 10 ^ 21 then int_text \<lfloor>q\<rfloor> else other v)
   | _ \<Rightarrow> other v)"

text \<open>\<open>v ?? d\<close> on a value.\<close>

definition jnullish :: "jsval \<Rightarrow> jsval \<Rightarrow> jsval" where
  "jnullish v d = (if v = JUndef \<or> v = JNull then d else v)"

lemma js_String_int [simp]: "\<bar>i\<bar> < 10 ^ 21 \<Longrightarrow> js_String other (JNum (Num (of_int i))) = int_text i"
proof -
  assume "\<bar>i\<bar> < 10 ^ 21"
  then have "\<bar>of_int i :: rat\<bar> < of_int (10 ^ 21)" unfolding of_int_abs [symmetric] of_int_less_iff .
  then show ?thesis by (simp add: js_String_def)
qed

section \<open>The result of \<open>fetch\<close>\<close>

text \<open>
  A response carries its status, its body as text and what \<open>json()\<close> gives: the decoded body, or
  the message of the exception it throws. The body has the type the code casts it to. A call of
  \<open>fetch\<close> gives a response or rejects with the message of an error.
\<close>

record 'b response =
  rstatus :: nat
  rstatusText :: string
  rtext :: string
  rjson :: "string + 'b"

type_synonym 'b outcome = "string + 'b response"

definition rok :: "'b response \<Rightarrow> bool" where
  "rok r \<longleftrightarrow> 200 \<le> rstatus r \<and> rstatus r \<le> 299"

datatype http_method = GET | HEAD | POST | PUT | PATCH | DELETE | OPTIONS

end
