(* ===== verification/Open_Api.thy ===== *)
theory Open_Api
  imports Kp_Js
begin

text \<open>
  \<open>frontend/lib/openapi.ts\<close>: the OpenAPI v3 documents of a cluster. \<open>parseIndex\<close> lists the
  GroupVersions, \<open>findKindSchema\<close> finds a kind's schema, \<open>resolveRefs\<close> inlines its \<open>$ref\<close> and
  \<open>allOf\<close> entries and \<open>flattenSchema\<close> lists its fields.

  \<open>resolveRefs\<close> recurses along \<open>$ref\<close>, so it has no structural termination argument. It is
  defined with fuel; \<open>resolve_terminates\<close> shows that some fuel is always enough and
  \<open>resolveRefs_mono\<close> that more fuel changes nothing.
\<close>

record gvk =
  g_group :: string
  g_version :: string
  g_kind :: string

text \<open>\<open>interface SchemaNode\<close>; a missing property is \<^term>\<open>None\<close>.\<close>

datatype node = Node
  (nd_type: "string option") (nd_format: "string option") (nd_description: "string option")
  (nd_required: "string list option") (nd_props: "(string \<times> node) list option")
  (nd_items: "node option") (nd_enum: "jsval list option") (nd_ref: "string option")
  (nd_allOf: "node list option") (nd_gvks: "gvk list option")

type_synonym schemas = "(string, node) obj"

definition empty_node :: node where
  "empty_node = Node None None None None None None None None None None"

section \<open>The index\<close>

definition strip_prefix :: "string \<Rightarrow> string \<Rightarrow> string" where
  "strip_prefix p s = (if starts_with s p then drop (length p) s else s)"

definition parseIndex :: "string list option \<Rightarrow> string list" where
  "parseIndex paths =
     map (\<lambda>p. strip_prefix ''api/'' (strip_prefix ''apis/'' p))
       (filter (\<lambda>p. starts_with p ''apis/'' \<or> p = ''api/v1'') (nullish paths []))"

section \<open>Resolving references\<close>

definition ref_name :: "string \<Rightarrow> string" where
  "ref_name r = strip_prefix ''#/components/schemas/'' r"

definition cycle_node :: "string \<Rightarrow> node" where
  "cycle_node name = Node (Some ''object'') None (Some (''(cycle: '' @ name @ '')''))
     None None None None None None None"

definition or_opt :: "'a option \<Rightarrow> 'a option \<Rightarrow> 'a option" where
  "or_opt a b = (case b of None \<Rightarrow> a | Some _ \<Rightarrow> b)"

text \<open>\<open>{...a, ...b}\<close> on two schema nodes.\<close>

definition node_spread :: "node \<Rightarrow> node \<Rightarrow> node" where
  "node_spread a b = Node
     (or_opt (nd_type a) (nd_type b)) (or_opt (nd_format a) (nd_format b))
     (or_opt (nd_description a) (nd_description b)) (or_opt (nd_required a) (nd_required b))
     (or_opt (nd_props a) (nd_props b)) (or_opt (nd_items a) (nd_items b))
     (or_opt (nd_enum a) (nd_enum b)) (or_opt (nd_ref a) (nd_ref b))
     (or_opt (nd_allOf a) (nd_allOf b)) (or_opt (nd_gvks a) (nd_gvks b))"

fun set_required :: "string list \<Rightarrow> node \<Rightarrow> node" where
  "set_required rq (Node t f d r p i e rf a g) = Node t f d (Some rq) p i e rf a g"

fun set_props :: "(string \<times> node) list \<Rightarrow> node \<Rightarrow> node" where
  "set_props ps (Node t f d r p i e rf a g) = Node t f d r (Some ps) i e rf a g"

fun set_items :: "node \<Rightarrow> node \<Rightarrow> node" where
  "set_items it (Node t f d r p i e rf a g) = Node t f d r p (Some it) e rf a g"

fun drop_allOf :: "node \<Rightarrow> node" where
  "drop_allOf (Node t f d r p i e rf a g) = Node t f d r p i e rf None g"

text \<open>\<open>{...a, ...b, required: union, properties: union}\<close>, used for each branch and for the parent.\<close>

definition merge_nodes :: "node \<Rightarrow> node \<Rightarrow> node" where
  "merge_nodes a b =
     set_props (ospread (nullish (nd_props a) []) (nullish (nd_props b) []))
       (set_required (js_uniq (nullish (nd_required a) [] @ nullish (nd_required b) []))
         (node_spread a b))"

primrec merge_branches :: "(node \<Rightarrow> node option) \<Rightarrow> node \<Rightarrow> node list \<Rightarrow> node option" where
  "merge_branches g merged [] = Some merged"
| "merge_branches g merged (sub # subs) =
     (case g sub of None \<Rightarrow> None | Some r \<Rightarrow> merge_branches g (merge_nodes merged r) subs)"

primrec resolve_props :: "(node \<Rightarrow> node option) \<Rightarrow> (string \<times> node) list \<Rightarrow> (string \<times> node) list option" where
  "resolve_props g [] = Some []"
| "resolve_props g (e # es) =
     (case g (snd e) of None \<Rightarrow> None
      | Some v \<Rightarrow> map_option (\<lambda>r. (fst e, v) # r) (resolve_props g es))"

definition resolve_children :: "(node \<Rightarrow> node option) \<Rightarrow> node \<Rightarrow> node option" where
  "resolve_children g n =
     (case (case nd_props n of None \<Rightarrow> Some n
            | Some ps \<Rightarrow> map_option (\<lambda>ps'. set_props ps' n) (resolve_props g ps)) of
        None \<Rightarrow> None
      | Some out \<Rightarrow> (case nd_items n of None \<Rightarrow> Some out
                    | Some it \<Rightarrow> map_option (\<lambda>it'. set_items it' out) (g it)))"

definition has_allOf :: "node \<Rightarrow> bool" where
  "has_allOf n \<longleftrightarrow> nullish (nd_allOf n) [] \<noteq> []"

primrec resolveRefs :: "nat \<Rightarrow> schemas \<Rightarrow> string list \<Rightarrow> node \<Rightarrow> node option" where
  "resolveRefs 0 S seen n = None"
| "resolveRefs (Suc fuel) S seen n =
     (if truthy_str (nd_ref n) then
        (let name = ref_name (the (nd_ref n)) in
         if name \<in> set seen then Some (cycle_node name)
         else (case oget S name of None \<Rightarrow> Some n
               | Some target \<Rightarrow> resolveRefs fuel S (name # seen) target))
      else if has_allOf n then
        (case merge_branches (resolveRefs fuel S seen) empty_node (the (nd_allOf n)) of
           None \<Rightarrow> None
         | Some merged \<Rightarrow> resolveRefs fuel S seen (merge_nodes merged (drop_allOf n)))
      else resolve_children (resolveRefs fuel S seen) n)"

text \<open>The nodes \<open>resolveRefs\<close> leaves: no \<open>allOf\<close>, and the only \<open>$ref\<close>s left name no schema.\<close>

inductive resolved :: "schemas \<Rightarrow> node \<Rightarrow> bool" for S where
  dangling: "truthy_str (nd_ref n) \<Longrightarrow> oget S (ref_name (the (nd_ref n))) = None \<Longrightarrow> resolved S n"
| plain: "\<not> truthy_str (nd_ref n) \<Longrightarrow> \<not> has_allOf n \<Longrightarrow>
     \<forall>k v. (k, v) \<in> set (nullish (nd_props n) []) \<longrightarrow> resolved S v \<Longrightarrow>
     \<forall>it. nd_items n = Some it \<longrightarrow> resolved S it \<Longrightarrow> resolved S n"

inductive_cases resolvedE: "resolved S n"

text \<open>No \<open>$ref\<close> is the empty string, anywhere in the node.\<close>

inductive refs_named :: "node \<Rightarrow> bool" where
  "nd_ref n \<noteq> Some [] \<Longrightarrow>
   \<forall>k v. (k, v) \<in> set (nullish (nd_props n) []) \<longrightarrow> refs_named v \<Longrightarrow>
   \<forall>it. nd_items n = Some it \<longrightarrow> refs_named it \<Longrightarrow>
   \<forall>s \<in> set (nullish (nd_allOf n) []). refs_named s \<Longrightarrow> refs_named n"

inductive_cases refs_namedE: "refs_named n"

lemma nd_set_props [simp]:
  "nd_ref (set_props ps n) = nd_ref n" "nd_allOf (set_props ps n) = nd_allOf n"
  "nd_props (set_props ps n) = Some ps" "nd_items (set_props ps n) = nd_items n"
  "nd_required (set_props ps n) = nd_required n" "nd_gvks (set_props ps n) = nd_gvks n"
  by (cases n; simp)+

lemma nd_set_required [simp]:
  "nd_ref (set_required rq n) = nd_ref n" "nd_allOf (set_required rq n) = nd_allOf n"
  "nd_props (set_required rq n) = nd_props n" "nd_items (set_required rq n) = nd_items n"
  "nd_required (set_required rq n) = Some rq"
  by (cases n; simp)+

lemma nd_set_items [simp]:
  "nd_ref (set_items it n) = nd_ref n" "nd_allOf (set_items it n) = nd_allOf n"
  "nd_props (set_items it n) = nd_props n" "nd_items (set_items it n) = Some it"
  by (cases n; simp)+

lemma nd_drop_allOf [simp]:
  "nd_ref (drop_allOf n) = nd_ref n" "nd_allOf (drop_allOf n) = None"
  "nd_props (drop_allOf n) = nd_props n" "nd_items (drop_allOf n) = nd_items n"
  "nd_required (drop_allOf n) = nd_required n"
  by (cases n; simp)+

lemma set_props_id [simp]: "nd_props n = Some ps \<Longrightarrow> set_props ps n = n"
  by (cases n) simp

lemma set_items_id [simp]: "nd_items n = Some it \<Longrightarrow> set_items it n = n"
  by (cases n) simp

lemma nd_empty_node [simp]:
  "nd_ref empty_node = None" "nd_allOf empty_node = None" "nd_props empty_node = None"
  "nd_items empty_node = None" "nd_required empty_node = None"
  by (simp_all add: empty_node_def)

lemma nd_cycle_node [simp]:
  "nd_ref (cycle_node m) = None" "nd_allOf (cycle_node m) = None" "nd_props (cycle_node m) = None"
  "nd_items (cycle_node m) = None"
  by (simp_all add: cycle_node_def)

lemma nd_merge_nodes [simp]:
  "nd_ref (merge_nodes a b) = or_opt (nd_ref a) (nd_ref b)"
  "nd_allOf (merge_nodes a b) = or_opt (nd_allOf a) (nd_allOf b)"
  "nd_items (merge_nodes a b) = or_opt (nd_items a) (nd_items b)"
  "nd_props (merge_nodes a b) = Some (ospread (nullish (nd_props a) []) (nullish (nd_props b) []))"
  "nd_required (merge_nodes a b) =
     Some (js_uniq (nullish (nd_required a) [] @ nullish (nd_required b) []))"
  by (simp_all add: merge_nodes_def node_spread_def)


text \<open>One unfolding, case by case; the equation itself would unfold on and on.\<close>

declare resolveRefs.simps(2) [simp del]

lemma resolve_ref: "truthy_str (nd_ref n) \<Longrightarrow> resolveRefs (Suc f) S seen n =
    (if ref_name (the (nd_ref n)) \<in> set seen then Some (cycle_node (ref_name (the (nd_ref n))))
     else (case oget S (ref_name (the (nd_ref n))) of None \<Rightarrow> Some n
           | Some target \<Rightarrow> resolveRefs f S (ref_name (the (nd_ref n)) # seen) target))"
  by (simp add: resolveRefs.simps Let_def)

lemma resolve_all: "\<not> truthy_str (nd_ref n) \<Longrightarrow> has_allOf n \<Longrightarrow> resolveRefs (Suc f) S seen n =
    (case merge_branches (resolveRefs f S seen) empty_node (the (nd_allOf n)) of None \<Rightarrow> None
     | Some m \<Rightarrow> resolveRefs f S seen (merge_nodes m (drop_allOf n)))"
  by (simp add: resolveRefs.simps)

lemma resolve_plain: "\<not> truthy_str (nd_ref n) \<Longrightarrow> \<not> has_allOf n \<Longrightarrow>
    resolveRefs (Suc f) S seen n = resolve_children (resolveRefs f S seen) n"
  by (simp add: resolveRefs.simps)

lemmas resolve_step = resolve_ref resolve_all resolve_plain

text \<open>More fuel changes nothing.\<close>

lemma merge_branches_mono:
  "\<forall>s r. g s = Some r \<longrightarrow> h s = Some r \<Longrightarrow> merge_branches g m ss = Some x \<Longrightarrow> merge_branches h m ss = Some x"
  by (induction ss arbitrary: m) (auto split: option.splits)

lemma resolve_props_mono:
  "\<forall>s r. g s = Some r \<longrightarrow> h s = Some r \<Longrightarrow> resolve_props g ps = Some qs \<Longrightarrow> resolve_props h ps = Some qs"
  by (induction ps arbitrary: qs) (auto split: option.splits)

lemma resolve_children_mono:
  assumes "\<forall>s r. g s = Some r \<longrightarrow> h s = Some r" and "resolve_children g n = Some x"
  shows "resolve_children h n = Some x"
  using assms resolve_props_mono [OF assms(1)]
  by (auto simp: resolve_children_def split: option.splits)

lemma resolveRefs_Suc: "resolveRefs f S seen n = Some r \<Longrightarrow> resolveRefs (Suc f) S seen n = Some r"
proof (induction f arbitrary: seen n r)
  case 0
  then show ?case by simp
next
  case (Suc f)
  have IH: "\<forall>s r. resolveRefs f S seen s = Some r \<longrightarrow> resolveRefs (Suc f) S seen s = Some r" for seen
    using Suc.IH by blast
  consider "truthy_str (nd_ref n)" | "\<not> truthy_str (nd_ref n)" "has_allOf n"
    | "\<not> truthy_str (nd_ref n)" "\<not> has_allOf n" by blast
  then show ?case
  proof cases
    case 1
    with Suc.prems IH show ?thesis by (auto simp: resolve_ref split: option.splits if_splits)
  next
    case 2
    with Suc.prems obtain m where
      m: "merge_branches (resolveRefs f S seen) empty_node (the (nd_allOf n)) = Some m"
      and r: "resolveRefs f S seen (merge_nodes m (drop_allOf n)) = Some r"
      by (auto simp: resolve_all split: option.splits)
    from merge_branches_mono [OF IH m] IH r 2 show ?thesis by (simp add: resolve_all)
  next
    case 3
    with Suc.prems have "resolve_children (resolveRefs f S seen) n = Some r" by (simp add: resolve_plain)
    from resolve_children_mono [OF IH this] 3 show ?thesis by (simp add: resolve_plain)
  qed
qed

lemma resolveRefs_mono:
  assumes "resolveRefs f S seen n = Some r" and "f \<le> g"
  shows "resolveRefs g S seen n = Some r"
  using assms(2,1) by (induction rule: dec_induct) (auto intro: resolveRefs_Suc)

lemma resolveRefs_max:
  "\<forall>s r. resolveRefs f S seen s = Some r \<longrightarrow> resolveRefs (max f g) S seen s = Some r"
  "\<forall>s r. resolveRefs g S seen s = Some r \<longrightarrow> resolveRefs (max f g) S seen s = Some r"
  by (auto intro: resolveRefs_mono)

text \<open>Fuel for every child gives fuel for the node.\<close>

lemma resolve_props_fuel:
  assumes "\<forall>e \<in> set ps. \<exists>f r. resolveRefs f S seen (snd e) = Some r \<and> Q (snd e) r"
  shows "\<exists>f qs. resolve_props (resolveRefs f S seen) ps = Some qs \<and>
           list_all2 (\<lambda>e q. fst e = fst q \<and> Q (snd e) (snd q)) ps qs"
  using assms
proof (induction ps)
  case Nil
  then show ?case by simp
next
  case (Cons e ps)
  then obtain f r f' qs where e: "resolveRefs f S seen (snd e) = Some r" "Q (snd e) r"
    and ps: "resolve_props (resolveRefs f' S seen) ps = Some qs"
      "list_all2 (\<lambda>e q. fst e = fst q \<and> Q (snd e) (snd q)) ps qs"
    by fastforce
  have "resolveRefs (max f f') S seen (snd e) = Some r"
    using e(1) resolveRefs_max(1) by blast
  moreover have "resolve_props (resolveRefs (max f f') S seen) ps = Some qs"
    using resolveRefs_max(2) ps(1) by (rule resolve_props_mono)
  ultimately have "resolve_props (resolveRefs (max f f') S seen) (e # ps) = Some ((fst e, r) # qs)"
    by simp
  with e(2) ps(2) show ?case by (intro exI [of _ "max f f'"] exI [of _ "(fst e, r) # qs"]) simp
qed

lemma resolve_children_fuel:
  assumes ps: "\<forall>k v. (k, v) \<in> set (nullish (nd_props n) []) \<longrightarrow>
      (\<exists>f r. resolveRefs f S seen v = Some r \<and> Q v r)"
    and it: "\<forall>it. nd_items n = Some it \<longrightarrow> (\<exists>f r. resolveRefs f S seen it = Some r \<and> Q it r)"
  obtains f r where "resolve_children (resolveRefs f S seen) n = Some r"
    "nd_ref r = nd_ref n" "nd_allOf r = nd_allOf n"
    "rel_option (list_all2 (\<lambda>e q. fst e = fst q \<and> Q (snd e) (snd q))) (nd_props n) (nd_props r)"
    "rel_option Q (nd_items n) (nd_items r)"
    "(\<forall>v w. Q v w \<longrightarrow> w = v) \<Longrightarrow> r = n"
proof -
  define R where "R = list_all2 (\<lambda>e q. fst e = fst q \<and> Q (snd e) (snd (q :: string \<times> node)))"
  have R_id: "R as bs \<Longrightarrow> \<forall>v w. Q v w \<longrightarrow> w = v \<Longrightarrow> bs = as" for as bs
    unfolding R_def by (induction rule: list_all2_induct) (auto simp: prod_eq_iff)
  have "\<exists>f out. (case nd_props n of None \<Rightarrow> Some n
            | Some ps \<Rightarrow> map_option (\<lambda>ps'. set_props ps' n) (resolve_props (resolveRefs f S seen) ps)) = Some out
        \<and> nd_ref out = nd_ref n \<and> nd_allOf out = nd_allOf n \<and> nd_items out = nd_items n
        \<and> rel_option R (nd_props n) (nd_props out) \<and> ((\<forall>v w. Q v w \<longrightarrow> w = v) \<longrightarrow> out = n)"
  proof (cases "nd_props n")
    case None
    then show ?thesis by simp
  next
    case (Some qs)
    with ps have "\<forall>e \<in> set qs. \<exists>f r. resolveRefs f S seen (snd e) = Some r \<and> Q (snd e) r" by auto
    from resolve_props_fuel [OF this] obtain f qs' where
      "resolve_props (resolveRefs f S seen) qs = Some qs'" "R qs qs'" by (auto simp: R_def)
    with Some R_id [of qs qs'] show ?thesis
      by (intro exI [of _ f] exI [of _ "set_props qs' n"]) auto
  qed
  then obtain f out where out: "(case nd_props n of None \<Rightarrow> Some n
            | Some ps \<Rightarrow> map_option (\<lambda>ps'. set_props ps' n) (resolve_props (resolveRefs f S seen) ps)) = Some out"
      "nd_ref out = nd_ref n" "nd_allOf out = nd_allOf n" "nd_items out = nd_items n"
      "rel_option R (nd_props n) (nd_props out)" "(\<forall>v w. Q v w \<longrightarrow> w = v) \<Longrightarrow> out = n"
    by blast
  show thesis
  proof (cases "nd_items n")
    case None
    with out show thesis
      by (intro that [of f out]) (simp_all add: resolve_children_def R_def)
  next
    case (Some i)
    with it obtain f' r where i: "resolveRefs f' S seen i = Some r" "Q i r" by auto
    let ?g = "resolveRefs (max f f') S seen"
    have "(case nd_props n of None \<Rightarrow> Some n
            | Some ps \<Rightarrow> map_option (\<lambda>ps'. set_props ps' n) (resolve_props ?g ps)) = Some out"
      using out(1) by (cases "nd_props n") (auto dest: resolve_props_mono [OF resolveRefs_max(1) [of f S seen f']])
    moreover have "?g i = Some r" using i(1) resolveRefs_max(2) by blast
    ultimately have "resolve_children ?g n = Some (set_items r out)"
      using Some by (simp add: resolve_children_def)
    moreover have "set_items r out = n" if id: "\<forall>v w. Q v w \<longrightarrow> w = v"
    proof -
      from id i(2) have "r = i" by blast
      with out(6) [OF id] Some show ?thesis by simp
    qed
    ultimately show thesis using out i(2) Some
      by (intro that [of "max f f'" "set_items r out"]) (simp_all add: R_def)
  qed
qed


text \<open>A resolved node resolves to itself.\<close>

lemma resolved_fixed:
  assumes "resolved S n" and "set seen \<subseteq> dom (oget S)"
  shows "\<exists>f. resolveRefs f S seen n = Some n"
  using assms
proof (induction rule: resolved.induct)
  case (dangling n)
  then have "ref_name (the (nd_ref n)) \<notin> set seen" by auto
  with dangling have "resolveRefs (Suc 0) S seen n = Some n" by (simp add: resolve_ref)
  then show ?case ..
next
  case (plain n)
  then have "\<forall>k v. (k, v) \<in> set (nullish (nd_props n) []) \<longrightarrow> (\<exists>f r. resolveRefs f S seen v = Some r \<and> r = v)"
    and "\<forall>it. nd_items n = Some it \<longrightarrow> (\<exists>f r. resolveRefs f S seen it = Some r \<and> r = it)"
    by blast+
  then obtain f where "resolve_children (resolveRefs f S seen) n = Some n"
    by (rule resolve_children_fuel [where Q = "\<lambda>v r. r = v"]) auto
  with plain have "resolveRefs (Suc f) S seen n = Some n" by (simp add: resolve_plain)
  then show ?case ..
qed

text \<open>What resolving gives: resolved, and without an empty \<open>$ref\<close> at its top.\<close>

definition clean :: "schemas \<Rightarrow> node \<Rightarrow> bool" where
  "clean S n \<longleftrightarrow> resolved S n \<and> nd_ref n \<noteq> Some []"

lemma not_truthy_ref: "nd_ref n \<noteq> Some [] \<Longrightarrow> \<not> truthy_str (nd_ref n) \<Longrightarrow> nd_ref n = None"
  by (cases "nd_ref n") auto

lemma set_ospread: "set (ospread es ps) \<subseteq> set es \<union> set ps"
proof (induction es ps rule: ospread.induct)
  case (2 es k v p)
  have "set (oset es k v) \<subseteq> insert (k, v) (set es)"
    by (induction es k v rule: oset.induct) auto
  with 2 show ?case by auto
qed simp

lemma clean_empty: "clean S empty_node"
  by (auto simp: clean_def has_allOf_def intro: resolved.plain)

lemma clean_cycle: "clean S (cycle_node m)"
  by (auto simp: clean_def has_allOf_def intro: resolved.plain)

lemma has_allOf_merge: "\<not> has_allOf a \<Longrightarrow> \<not> has_allOf b \<Longrightarrow> \<not> has_allOf (merge_nodes a b)"
  by (auto simp: has_allOf_def or_opt_def nullish_def split: option.splits)

lemma resolved_children:
  assumes "resolved S n" and "\<not> truthy_str (nd_ref n)"
  shows "\<not> has_allOf n" and "(k, v) \<in> set (nullish (nd_props n) []) \<Longrightarrow> resolved S v"
    and "nd_items n = Some it \<Longrightarrow> resolved S it"
  using assms by (auto elim: resolved.cases)

lemma merge_props_in:
  "(k, v) \<in> set (nullish (nd_props (merge_nodes a b)) []) \<Longrightarrow>
     (k, v) \<in> set (nullish (nd_props a) []) \<or> (k, v) \<in> set (nullish (nd_props b) [])"
  using set_ospread by auto

lemma clean_merge:
  assumes "clean S a" and "clean S b"
  shows "clean S (merge_nodes a b)"
proof (cases "truthy_str (nd_ref b)")
  case True
  with assms(2) have "nd_ref (merge_nodes a b) = nd_ref b" "oget S (ref_name (the (nd_ref b))) = None"
    by (auto simp: clean_def or_opt_def truthy_str_def split: option.splits elim: resolved.cases)
  with True show ?thesis by (auto simp: clean_def intro: resolved.dangling)
next
  case False
  with assms(2) have b: "nd_ref b = None" by (auto simp: clean_def dest: not_truthy_ref)
  then have ref: "nd_ref (merge_nodes a b) = nd_ref a" by (simp add: or_opt_def)
  show ?thesis
  proof (cases "truthy_str (nd_ref a)")
    case True
    with assms(1) have "oget S (ref_name (the (nd_ref a))) = None"
      by (auto simp: clean_def elim: resolved.cases)
    with True ref show ?thesis by (auto simp: clean_def intro: resolved.dangling)
  next
    case no_a: False
    from assms have a: "resolved S a" and b': "resolved S b" by (simp_all add: clean_def)
    note ca = resolved_children [OF a no_a] and cb = resolved_children [OF b' False]
    have "resolved S (merge_nodes a b)"
    proof (rule resolved.plain)
      show "\<not> truthy_str (nd_ref (merge_nodes a b))" using ref no_a by simp
      show "\<not> has_allOf (merge_nodes a b)" using ca(1) cb(1) by (rule has_allOf_merge)
      show "\<forall>k v. (k, v) \<in> set (nullish (nd_props (merge_nodes a b)) []) \<longrightarrow> resolved S v"
        using merge_props_in ca(2) cb(2) by blast
      show "\<forall>it. nd_items (merge_nodes a b) = Some it \<longrightarrow> resolved S it"
        using ca(3) cb(3) by (auto simp: or_opt_def split: option.splits)
    qed
    with ref assms(1) show ?thesis by (simp add: clean_def)
  qed
qed

lemma merge_branches_clean:
  assumes "\<forall>s \<in> set ss. \<exists>f r. resolveRefs f S seen s = Some r \<and> clean S r" and "clean S m"
  shows "\<exists>f r. merge_branches (resolveRefs f S seen) m ss = Some r \<and> clean S r"
  using assms
proof (induction ss arbitrary: m)
  case Nil
  then show ?case by simp
next
  case (Cons s ss)
  then obtain f r where s: "resolveRefs f S seen s = Some r" and "clean S r" by auto
  with Cons.prems(2) have "clean S (merge_nodes m r)" by (blast intro: clean_merge)
  with Cons.IH [of "merge_nodes m r"] Cons.prems(1) obtain f' x where
    x: "merge_branches (resolveRefs f' S seen) (merge_nodes m r) ss = Some x" "clean S x" by auto
  have "merge_branches (resolveRefs (max f f') S seen) (merge_nodes m r) ss = Some x"
    using resolveRefs_max(2) x(1) by (rule merge_branches_mono)
  moreover have "resolveRefs (max f f') S seen s = Some r" using s resolveRefs_max(1) by blast
  ultimately have "merge_branches (resolveRefs (max f f') S seen) m (s # ss) = Some x" by simp
  with x(2) show ?case by blast
qed


text \<open>
  Termination: the number of schemas not yet on the path falls at every \<open>$ref\<close>, and between two
  of them the recursion goes into the node, except for the merged node after an \<open>allOf\<close>, whose
  children are resolved already or children of the node itself.
\<close>

lemma rel_props_all:
  "list_all2 (\<lambda>e q. fst e = fst q \<and> P (snd q)) ps qs \<Longrightarrow> (k, v) \<in> set qs \<Longrightarrow> P v"
  by (induction rule: list_all2_induct) auto

lemma resolved_after_children:
  assumes "\<not> truthy_str (nd_ref n)" and "\<not> has_allOf n"
    and "nd_ref r = nd_ref n" and "nd_allOf r = nd_allOf n"
    and ps: "rel_option (list_all2 (\<lambda>e q. fst e = fst q \<and> resolved S (snd q))) ps0 (nd_props r)"
    and it: "rel_option (\<lambda>_ q. resolved S q) it0 (nd_items r)"
  shows "resolved S r"
proof (rule resolved.plain)
  show "\<not> truthy_str (nd_ref r)" "\<not> has_allOf r" using assms(1-4) by (simp_all add: has_allOf_def)
  show "\<forall>k v. (k, v) \<in> set (nullish (nd_props r) []) \<longrightarrow> resolved S v"
    using ps by (cases ps0; cases "nd_props r") (auto dest: rel_props_all)
  show "\<forall>it. nd_items r = Some it \<longrightarrow> resolved S it"
    using it by (cases it0) auto
qed

lemma resolve_merged:
  assumes m: "clean S m" and n: "nd_ref n = None" and seen: "set seen \<subseteq> dom (oget S)"
    and props: "\<forall>k v. (k, v) \<in> set (nullish (nd_props n) []) \<longrightarrow> (\<exists>f r. resolveRefs f S seen v = Some r \<and> clean S r)"
    and items: "\<forall>it. nd_items n = Some it \<longrightarrow> (\<exists>f r. resolveRefs f S seen it = Some r \<and> clean S r)"
  shows "\<exists>f r. resolveRefs f S seen (merge_nodes m (drop_allOf n)) = Some r \<and> clean S r"
proof (cases "truthy_str (nd_ref m)")
  case True
  with m have dangl: "oget S (ref_name (the (nd_ref m))) = None"
    by (auto simp: clean_def elim: resolved.cases)
  let ?c = "merge_nodes m (drop_allOf n)"
  have ref: "nd_ref ?c = nd_ref m" using n by (simp add: or_opt_def)
  from dangl seen have "ref_name (the (nd_ref m)) \<notin> set seen" by auto
  with True dangl ref have "resolveRefs (Suc 0) S seen ?c = Some ?c" by (simp add: resolve_ref)
  moreover have "clean S ?c" using True dangl ref m by (auto simp: clean_def intro: resolved.dangling)
  ultimately show ?thesis by blast
next
  case False
  let ?c = "merge_nodes m (drop_allOf n)"
  from m have rm: "resolved S m" by (simp add: clean_def)
  note cm = resolved_children [OF rm False]
  have ref: "nd_ref ?c = nd_ref m" using n by (simp add: or_opt_def)
  have no_all: "\<not> has_allOf ?c" using cm(1) by (intro has_allOf_merge) (simp_all add: has_allOf_def)
  have self: "\<exists>f r. resolveRefs f S seen v = Some r \<and> resolved S r" if "resolved S v" for v
    using resolved_fixed [OF that seen] that by blast
  have "\<forall>k v. (k, v) \<in> set (nullish (nd_props ?c) []) \<longrightarrow> (\<exists>f r. resolveRefs f S seen v = Some r \<and> resolved S r)"
    using merge_props_in [of _ _ m "drop_allOf n"] cm(2) props self by (fastforce simp: clean_def)
  moreover have "\<forall>it. nd_items ?c = Some it \<longrightarrow> (\<exists>f r. resolveRefs f S seen it = Some r \<and> resolved S r)"
    using cm(3) items self by (fastforce simp: or_opt_def clean_def split: option.splits)
  ultimately obtain f r where fr: "resolve_children (resolveRefs f S seen) ?c = Some r"
    "nd_ref r = nd_ref ?c" "nd_allOf r = nd_allOf ?c"
    "rel_option (list_all2 (\<lambda>e q. fst e = fst q \<and> resolved S (snd q))) (nd_props ?c) (nd_props r)"
    "rel_option (\<lambda>_ q. resolved S q) (nd_items ?c) (nd_items r)"
    by (rule resolve_children_fuel [where Q = "\<lambda>_ r. resolved S r"]) blast
  have "resolveRefs (Suc f) S seen ?c = Some r" using fr(1) ref False no_all by (simp add: resolve_plain)
  moreover have "clean S r"
    using resolved_after_children [OF _ no_all fr(2-5)] fr(2) ref m False by (simp add: clean_def)
  ultimately show ?thesis by blast
qed

lemma resolve_clean:
  assumes S: "\<forall>k v. oget S k = Some v \<longrightarrow> refs_named v"
  shows "refs_named n \<Longrightarrow> set seen \<subseteq> dom (oget S) \<Longrightarrow>
     \<exists>f r. resolveRefs f S seen n = Some r \<and> clean S r"
proof (induction "card (dom (oget S) - set seen)" arbitrary: seen n rule: less_induct)
  case less
  from less.prems show ?case
  proof (induction rule: refs_named.induct)
    case (1 n)
    consider "truthy_str (nd_ref n)" | "\<not> truthy_str (nd_ref n)" "has_allOf n"
      | "\<not> truthy_str (nd_ref n)" "\<not> has_allOf n" by blast
    then show ?case
    proof cases
      case a: 1
      let ?m = "ref_name (the (nd_ref n))"
      consider "?m \<in> set seen" | "?m \<notin> set seen" "oget S ?m = None"
        | t where "?m \<notin> set seen" "oget S ?m = Some t" by fastforce
      then show ?thesis
      proof cases
        case 1
        with a have "resolveRefs (Suc 0) S seen n = Some (cycle_node ?m)" by (simp add: resolve_ref)
        then show ?thesis using clean_cycle by blast
      next
        case 2
        with a have "resolveRefs (Suc 0) S seen n = Some n" by (simp add: resolve_ref)
        moreover have "clean S n" using a 2 "1.hyps"(1) by (auto simp: clean_def intro: resolved.dangling)
        ultimately show ?thesis by blast
      next
        case (3 t)
        then have dm: "?m \<in> dom (oget S)" by auto
        then have "card (dom (oget S) - set (?m # seen)) < card (dom (oget S) - set seen)"
          using 3(1) by (intro psubset_card_mono) (auto simp: finite_dom_map_of)
        moreover have "refs_named t" using S 3(2) by blast
        ultimately obtain f r where "resolveRefs f S (?m # seen) t = Some r" "clean S r"
          using less.hyps [of "?m # seen" t] less.prems(2) dm by auto
        with a 3 have "resolveRefs (Suc f) S seen n = Some r" by (simp add: resolve_ref)
        with \<open>clean S r\<close> show ?thesis by blast
      qed
    next
      case b: 2
      have "\<forall>s \<in> set (the (nd_allOf n)). \<exists>f r. resolveRefs f S seen s = Some r \<and> clean S r"
        using "1.IH" "1.prems" b(2) by (cases "nd_allOf n") (auto simp: has_allOf_def)
      from merge_branches_clean [OF this clean_empty] obtain f m where
        m: "merge_branches (resolveRefs f S seen) empty_node (the (nd_allOf n)) = Some m" "clean S m"
        by blast
      have "nd_ref n = None" using b(1) "1.hyps"(1) by (blast dest: not_truthy_ref)
      from resolve_merged [OF m(2) this] "1.IH" "1.prems" obtain f' r where
        r: "resolveRefs f' S seen (merge_nodes m (drop_allOf n)) = Some r" "clean S r"
        by blast
      have "merge_branches (resolveRefs (max f f') S seen) empty_node (the (nd_allOf n)) = Some m"
        using resolveRefs_max(1) m(1) by (rule merge_branches_mono)
      moreover have "resolveRefs (max f f') S seen (merge_nodes m (drop_allOf n)) = Some r"
        using r(1) resolveRefs_max(2) by blast
      ultimately have "resolveRefs (Suc (max f f')) S seen n = Some r" using b by (simp add: resolve_all)
      with r(2) show ?thesis by blast
    next
      case c: 3
      have "\<forall>k v. (k, v) \<in> set (nullish (nd_props n) []) \<longrightarrow> (\<exists>f r. resolveRefs f S seen v = Some r \<and> resolved S r)"
        and "\<forall>it. nd_items n = Some it \<longrightarrow> (\<exists>f r. resolveRefs f S seen it = Some r \<and> resolved S r)"
        using "1.IH" "1.prems" unfolding clean_def by blast+
      then obtain f r where fr: "resolve_children (resolveRefs f S seen) n = Some r"
        "nd_ref r = nd_ref n" "nd_allOf r = nd_allOf n"
        "rel_option (list_all2 (\<lambda>e q. fst e = fst q \<and> resolved S (snd q))) (nd_props n) (nd_props r)"
        "rel_option (\<lambda>_ q. resolved S q) (nd_items n) (nd_items r)"
        by (rule resolve_children_fuel [where Q = "\<lambda>_ r. resolved S r"]) blast
      have "resolveRefs (Suc f) S seen n = Some r" using fr(1) c by (simp add: resolve_plain)
      moreover have "clean S r"
        using resolved_after_children [OF c fr(2-5)] fr(2) "1.hyps"(1) by (simp add: clean_def)
      ultimately show ?thesis by blast
    qed
  qed
qed


section \<open>Finding a kind\<close>

definition has_gvk :: "string \<Rightarrow> string \<Rightarrow> string \<Rightarrow> node \<Rightarrow> bool" where
  "has_gvk grp version kind s =
     (case nd_gvks s of None \<Rightarrow> False
      | Some gvks \<Rightarrow> list_ex (\<lambda>g. g_group g = grp \<and> g_version g = version \<and> g_kind g = kind) gvks)"

text \<open>\<^term>\<open>None\<close> is out of fuel, \<^term>\<open>Some None\<close> is the code's \<open>null\<close>.\<close>

definition findKindSchema ::
  "nat \<Rightarrow> schemas option \<Rightarrow> string \<Rightarrow> string \<Rightarrow> string \<Rightarrow> node option option" where
  "findKindSchema fuel doc grp version kind =
     (let S = nullish doc [] in
      case find (\<lambda>e. has_gvk grp version kind (snd e)) S of
        None \<Rightarrow> Some None
      | Some e \<Rightarrow> map_option Some (resolveRefs fuel S [] (snd e)))"


definition cyclic_doc :: schemas where
  "cyclic_doc = [(''io.Foo'', Node (Some ''object'') None (Some ''a foo'') (Some [''self''])
      (Some [(''self'', Node None None (Some ''own text'') None None None None None
                (Some [Node None None None None None None None (Some ''#/components/schemas/io.Foo'') None None]) None),
             (''name'', Node (Some ''string'') None None None None None None None None None)])
      None None None None (Some [\<lparr>g_group = ''demo'', g_version = ''v1'', g_kind = ''Foo''\<rparr>]))]"

lemma refs_named_leaf: "nd_ref n \<noteq> Some [] \<Longrightarrow> nd_props n = None \<Longrightarrow> nd_items n = None \<Longrightarrow>
    nd_allOf n = None \<Longrightarrow> refs_named n"
  by (rule refs_named.intros) auto

lemma cyclic_doc_named: "oget cyclic_doc k = Some v \<Longrightarrow> refs_named v"
  by (auto simp: cyclic_doc_def split: if_splits intro!: refs_named.intros [of "Node _ _ _ _ _ _ _ _ _ _"])


text \<open>\<open>findKindSchema\<close> gives null exactly when no schema carries the group, version and
  kind; otherwise it gives, for all sufficient fuel, the resolved form of the first schema that does.\<close>

lemma find_kind_schema_spec:
  assumes "\<forall>k v. oget (nullish doc []) k = Some v \<longrightarrow> refs_named v" and "obj_ok (nullish doc [])"
  shows "\<exists>f. \<forall>g \<ge> f. findKindSchema g doc grp version kind =
     (case find (\<lambda>e. has_gvk grp version kind (snd e)) (nullish doc []) of
        None \<Rightarrow> Some None
      | Some e \<Rightarrow> Some (resolveRefs g (nullish doc []) [] (snd e)))
     \<and> (findKindSchema g doc grp version kind = Some None \<longleftrightarrow>
          (\<forall>e \<in> set (nullish doc []). \<not> has_gvk grp version kind (snd e)))
     \<and> (\<forall>r. findKindSchema g doc grp version kind = Some (Some r) \<longrightarrow> resolved (nullish doc []) r)"
proof (cases "find (\<lambda>e. has_gvk grp version kind (snd e)) (nullish doc [])")
  case None
  then have "findKindSchema g doc grp version kind = Some None" for g
    by (simp add: findKindSchema_def)
  moreover have "\<forall>e \<in> set (nullish doc []). \<not> has_gvk grp version kind (snd e)"
    using None by (auto simp: find_None_iff)
  ultimately show ?thesis using None by simp
next
  case (Some e)
  then have e: "e \<in> set (nullish doc [])" "has_gvk grp version kind (snd e)"
    by (auto simp: find_Some_iff)
  from e(1) assms(2) have "oget (nullish doc []) (fst e) = Some (snd e)"
    by (metis obj_ok_def map_of_is_SomeI prod.collapse)
  with assms(1) have "refs_named (snd e)" by blast
  from resolve_clean [OF assms(1) this, of "[]"] obtain f r where
    r: "resolveRefs f (nullish doc []) [] (snd e) = Some r" "resolved (nullish doc []) r"
    by (auto simp: clean_def)
  have "resolveRefs g (nullish doc []) [] (snd e) = Some r" if "f \<le> g" for g
    using r(1) that by (rule resolveRefs_mono)
  with Some e r(2) show ?thesis
    by (intro exI [of _ f]) (auto simp: findKindSchema_def Let_def)
qed

lemma find_kind_schema_spec_witness:
  "\<exists>f. \<forall>g \<ge> f. findKindSchema g (Some cyclic_doc) ''demo'' ''v1'' ''Foo'' =
      Some (resolveRefs g cyclic_doc [] (snd (hd cyclic_doc)))"
  using find_kind_schema_spec [of "Some cyclic_doc" "''demo''" "''v1''" "''Foo''"] cyclic_doc_named
  by (auto simp: cyclic_doc_def has_gvk_def obj_ok_def)

section \<open>Flattening\<close>

record flat_field =
  ff_path :: string
  ff_node :: node
  ff_required :: bool

lemma size_prop_child: "nd_props n = Some ps \<Longrightarrow> (k, c) \<in> set ps \<Longrightarrow> size c < size n"
proof -
  assume p: "nd_props n = Some ps" and c: "(k, c) \<in> set ps"
  from c have "size_prod (\<lambda>_. 0) size (k, c) \<le> size_list (size_prod (\<lambda>_. 0) size) ps"
    by (rule size_list_estimation') simp
  with p show ?thesis by (cases n) (simp add: size_option_def)
qed

lemma size_items_child: "nd_items n = Some c \<Longrightarrow> size c < size n"
  by (cases n) (simp add: size_option_def)

function flattenSchema :: "string \<Rightarrow> node \<Rightarrow> flat_field list" where
  "flattenSchema pre rt =
     (if nd_type rt = Some ''object'' \<and> nd_props rt \<noteq> None then
        concat (map (\<lambda>(name, child).
            \<lparr>ff_path = child_path pre name, ff_node = child,
             ff_required = (name \<in> set (nullish (nd_required rt) []))\<rparr>
            # flattenSchema (child_path pre name) child) (the (nd_props rt)))
      else if nd_type rt = Some ''array'' \<and> nd_items rt \<noteq> None then
        \<lparr>ff_path = pre @ ''[0]'', ff_node = the (nd_items rt), ff_required = False\<rparr>
        # flattenSchema (pre @ ''[0]'') (the (nd_items rt))
      else [])"
  by pat_completeness auto
termination
  by (relation "measure (\<lambda>(_, n). size n)") (auto intro: size_prop_child size_items_child)

declare flattenSchema.simps [simp del]


lemma flatten_object:
  "nd_type n = Some ''object'' \<Longrightarrow> nd_props n = Some ps \<Longrightarrow> flattenSchema pre n =
     concat (map (\<lambda>(name, child).
        \<lparr>ff_path = child_path pre name, ff_node = child,
         ff_required = (name \<in> set (nullish (nd_required n) []))\<rparr>
        # flattenSchema (child_path pre name) child) ps)"
  by (subst flattenSchema.simps) simp

lemma flatten_array:
  "nd_type n = Some ''array'' \<Longrightarrow> nd_items n = Some it \<Longrightarrow> flattenSchema pre n =
     \<lparr>ff_path = pre @ ''[0]'', ff_node = it, ff_required = False\<rparr> # flattenSchema (pre @ ''[0]'') it"
  by (subst flattenSchema.simps) simp

lemma flatten_other:
  "\<not> (nd_type n = Some ''object'' \<and> nd_props n \<noteq> None) \<Longrightarrow>
   \<not> (nd_type n = Some ''array'' \<and> nd_items n \<noteq> None) \<Longrightarrow> flattenSchema pre n = []"
  by (subst flattenSchema.simps) auto

text \<open>
  The specification: a position is a list of property names and \<open>[0]\<close> steps; \<open>schema_at\<close> says
  which schema is there and whether its parent requires it, \<open>path_text\<close> how the position is written.
\<close>

datatype step = Prop string | Elem

fun path_text :: "string \<Rightarrow> step list \<Rightarrow> string" where
  "path_text pre [] = pre"
| "path_text pre (Prop k # ts) = path_text (child_path pre k) ts"
| "path_text pre (Elem # ts) = path_text (pre @ ''[0]'') ts"

inductive schema_at :: "node \<Rightarrow> step list \<Rightarrow> node \<Rightarrow> bool \<Rightarrow> bool" where
  at_prop: "nd_type n = Some ''object'' \<Longrightarrow> nd_props n = Some ps \<Longrightarrow> (k, c) \<in> set ps \<Longrightarrow>
     schema_at n [Prop k] c (k \<in> set (nullish (nd_required n) []))"
| at_elem: "nd_type n = Some ''array'' \<Longrightarrow> nd_items n = Some c \<Longrightarrow> schema_at n [Elem] c False"
| at_prop_deep: "nd_type n = Some ''object'' \<Longrightarrow> nd_props n = Some ps \<Longrightarrow> (k, c) \<in> set ps \<Longrightarrow>
     schema_at c ts m rq \<Longrightarrow> schema_at n (Prop k # ts) m rq"
| at_elem_deep: "nd_type n = Some ''array'' \<Longrightarrow> nd_items n = Some c \<Longrightarrow>
     schema_at c ts m rq \<Longrightarrow> schema_at n (Elem # ts) m rq"

lemma flatten_complete:
  "schema_at n ts m rq \<Longrightarrow>
     \<lparr>ff_path = path_text pre ts, ff_node = m, ff_required = rq\<rparr> \<in> set (flattenSchema pre n)"
proof (induction arbitrary: pre rule: schema_at.induct)
  case (at_prop n ps k c)
  then show ?case by (force simp: flatten_object)
next
  case (at_elem n c)
  then show ?case by (simp add: flatten_array)
next
  case (at_prop_deep n ps k c ts m rq)
  then have "\<lparr>ff_path = path_text (child_path pre k) ts, ff_node = m, ff_required = rq\<rparr>
      \<in> set (flattenSchema (child_path pre k) c)" by blast
  with at_prop_deep.hyps(1-3) show ?case by (force simp: flatten_object)
next
  case (at_elem_deep n c ts m rq)
  then show ?case by (simp add: flatten_array)
qed

lemma flatten_sound:
  "f \<in> set (flattenSchema pre n) \<Longrightarrow>
     \<exists>ts. ff_path f = path_text pre ts \<and> schema_at n ts (ff_node f) (ff_required f)"
proof (induction pre n arbitrary: f rule: flattenSchema.induct)
  case (1 pre n)
  consider ps where "nd_type n = Some ''object''" "nd_props n = Some ps"
    | it where "nd_type n = Some ''array''" "nd_items n = Some it"
    | "\<not> (nd_type n = Some ''object'' \<and> nd_props n \<noteq> None)"
      "\<not> (nd_type n = Some ''array'' \<and> nd_items n \<noteq> None)" by fastforce
  then show ?case
  proof cases
    case (1 ps)
    with "1.prems" obtain k c where kc: "(k, c) \<in> set ps"
      and f: "f = \<lparr>ff_path = child_path pre k, ff_node = c, ff_required = (k \<in> set (nullish (nd_required n) []))\<rparr>
        \<or> f \<in> set (flattenSchema (child_path pre k) c)"
      by (auto simp: flatten_object)
    from f show ?thesis
    proof
      assume "f \<in> set (flattenSchema (child_path pre k) c)"
      then obtain ts where "ff_path f = path_text (child_path pre k) ts"
        "schema_at c ts (ff_node f) (ff_required f)"
        using "1.IH"(1) 1 kc by fastforce
      with 1 kc show ?thesis
        by (intro exI [of _ "Prop k # ts"]) (auto intro: schema_at.at_prop_deep)
    next
      assume "f = \<lparr>ff_path = child_path pre k, ff_node = c, ff_required = (k \<in> set (nullish (nd_required n) []))\<rparr>"
      with 1 kc show ?thesis by (intro exI [of _ "[Prop k]"]) (auto intro: schema_at.at_prop)
    qed
  next
    case (2 it)
    with "1.prems" have f: "f = \<lparr>ff_path = pre @ ''[0]'', ff_node = it, ff_required = False\<rparr>
        \<or> f \<in> set (flattenSchema (pre @ ''[0]'') it)"
      by (simp add: flatten_array)
    from f show ?thesis
    proof
      assume "f \<in> set (flattenSchema (pre @ ''[0]'') it)"
      then obtain ts where "ff_path f = path_text (pre @ ''[0]'') ts"
        "schema_at it ts (ff_node f) (ff_required f)"
        using "1.IH"(2) 2 by fastforce
      with 2 show ?thesis by (intro exI [of _ "Elem # ts"]) (auto intro: schema_at.at_elem_deep)
    next
      assume "f = \<lparr>ff_path = pre @ ''[0]'', ff_node = it, ff_required = False\<rparr>"
      with 2 show ?thesis by (intro exI [of _ "[Elem]"]) (auto intro: schema_at.at_elem)
    qed
  next
    case 3
    with "1.prems" show ?thesis by (simp add: flatten_other)
  qed
qed

text \<open>\<open>flattenSchema\<close> lists every position of the schema below the root and nothing else:
  an entry is in the list exactly when its path is the text of a position, its node is the schema
  there, and its required flag is what the parent object says.\<close>

lemma flatten_schema_spec:
  "f \<in> set (flattenSchema [] n) \<longleftrightarrow>
     (\<exists>ts. ff_path f = path_text [] ts \<and> schema_at n ts (ff_node f) (ff_required f))"
proof
  assume "\<exists>ts. ff_path f = path_text [] ts \<and> schema_at n ts (ff_node f) (ff_required f)"
  then obtain ts where "ff_path f = path_text [] ts" "schema_at n ts (ff_node f) (ff_required f)" by blast
  with flatten_complete [of n ts "ff_node f" "ff_required f" "[]"]
  show "f \<in> set (flattenSchema [] n)" by (cases f) simp
qed (rule flatten_sound)

end
