(* ===== verification/Schema_Tree.thy ===== *)
theory Schema_Tree
  imports Open_Api
begin

text \<open>
  \<open>frontend/components/SchemaTree.tsx\<close>: the collapsible tree of a kind's schema in the template
  editor. Its state is the set of expanded paths; \<open>renderNode\<close> draws the rows, and a click on a row
  selects its field and, for a row with children, toggles it.
\<close>

datatype field_mode = Fixed | Exposed

datatype marker = Open_Mark | Closed_Mark | Leaf_Mark

text \<open>One \<open>li\<close>: its path, the schema node handed to \<open>onSelect\<close>, indentation, highlighting, marker,
  label, type, badge, whether a click toggles it, and the nested list.\<close>

datatype row = Row (row_path: string) (row_node: node) (row_depth: nat) (row_selected: bool)
  (row_marker: marker) (row_label: string) (row_type: string) (row_badge: "field_mode option")
  (row_toggles: bool) (row_kids: "row list")

definition has_kids :: "node \<Rightarrow> bool" where
  "has_kids c \<longleftrightarrow> nd_type c = Some ''object'' \<and> nd_props c \<noteq> None
     \<or> nd_type c = Some ''array'' \<and> nd_items c \<noteq> None"

definition mode_at :: "(string, field_mode) obj option \<Rightarrow> string \<Rightarrow> field_mode option" where
  "mode_at flds p = (case flds of None \<Rightarrow> None | Some fs \<Rightarrow> oget fs p)"

function renderNode :: "string \<Rightarrow> node \<Rightarrow> nat \<Rightarrow> string set \<Rightarrow> string option \<Rightarrow>
    (string, field_mode) obj option \<Rightarrow> row list" where
  "renderNode path n depth expanded selected flds =
     (if nd_type n = Some ''object'' \<and> nd_props n \<noteq> None then
        map (\<lambda>(name, child).
            let p = child_path path name; isExp = (p \<in> expanded)
            in Row p child depth (selected = Some p)
                 (if has_kids child then (if isExp then Open_Mark else Closed_Mark) else Leaf_Mark)
                 name (nullish (nd_type child) ''?'') (mode_at flds p) (has_kids child)
                 (if isExp then renderNode p child (depth + 1) expanded selected flds else []))
          (the (nd_props n))
      else if nd_type n = Some ''array'' \<and> nd_items n \<noteq> None then
        (let p = path @ ''[0]''; isExp = (p \<in> expanded); it = the (nd_items n)
         in [Row p it depth (selected = Some p) (if isExp then Open_Mark else Closed_Mark)
               ''[0]'' (nullish (nd_type it) ''?'') (mode_at flds p) True
               (if isExp then renderNode p it (depth + 1) expanded selected flds else [])])
      else [])"
  by pat_completeness auto
termination
  by (relation "measure (\<lambda>(_, n, _). size n)") (auto intro: size_prop_child size_items_child)

declare renderNode.simps [simp del]

definition initially_expanded :: "string set" where
  "initially_expanded = {''spec'', ''metadata''}"

text \<open>The click handler of a row: what is handed to \<open>onSelect\<close>, and the new set.\<close>

definition click_row :: "string set \<Rightarrow> row \<Rightarrow> (string \<times> node) \<times> string set" where
  "click_row expanded r = ((row_path r, row_node r),
     if row_toggles r
     then (if row_path r \<in> expanded then expanded - {row_path r} else insert (row_path r) expanded)
     else expanded)"

text \<open>The rows on the screen, from top to bottom.\<close>

fun visible_rows :: "row \<Rightarrow> row list" where
  "visible_rows (Row p n d s m l t b tg kids) = Row p n d s m l t b tg kids # concat (map visible_rows kids)"

definition shown :: "row list \<Rightarrow> (string \<times> node) list" where
  "shown rs = map (\<lambda>r. (row_path r, row_node r)) (concat (map visible_rows rs))"

lemma shown_Nil [simp]: "shown [] = []"
  by (simp add: shown_def)

lemma shown_Cons [simp]: "shown (r # rs) = (row_path r, row_node r) # shown (row_kids r) @ shown rs"
  by (cases r) (simp add: shown_def)

abbreviation flat_pairs :: "flat_field list \<Rightarrow> (string \<times> node) list" where
  "flat_pairs fs \<equiv> map (\<lambda>f. (ff_path f, ff_node f)) fs"

lemma render_object:
  "nd_type n = Some ''object'' \<Longrightarrow> nd_props n = Some ps \<Longrightarrow>
     shown (renderNode path n d E s fs) = concat (map (\<lambda>(k, c). (child_path path k, c) #
        shown (if child_path path k \<in> E then renderNode (child_path path k) c (d + 1) E s fs else [])) ps)"
proof -
  assume a: "nd_type n = Some ''object''" "nd_props n = Some ps"
  have "shown (map (\<lambda>(k, c). Row (child_path path k) c d (s = Some (child_path path k))
      (m k c) k (t c) (b k) (has_kids c) (K k c)) qs)
     = concat (map (\<lambda>(k, c). (child_path path k, c) # shown (K k c)) qs)" for m t b K qs
    by (induction qs) auto
  with a show ?thesis by (subst renderNode.simps) (simp add: Let_def)
qed

lemma render_array:
  "nd_type n = Some ''array'' \<Longrightarrow> nd_items n = Some it \<Longrightarrow>
     shown (renderNode path n d E s fs) = (path @ ''[0]'', it) #
        shown (if path @ ''[0]'' \<in> E then renderNode (path @ ''[0]'') it (d + 1) E s fs else [])"
  by (subst renderNode.simps) (simp add: Let_def)

lemma render_other:
  "\<not> (nd_type n = Some ''object'' \<and> nd_props n \<noteq> None) \<Longrightarrow>
   \<not> (nd_type n = Some ''array'' \<and> nd_items n \<noteq> None) \<Longrightarrow> renderNode path n d E s fs = []"
  by (subst renderNode.simps) auto

lemma subseq_concat: "\<forall>x \<in> set xs. subseq (f x) (g x) \<Longrightarrow> subseq (concat (map f xs)) (concat (map g xs))"
  by (induction xs) (auto intro: list_emb_append_mono)

lemma node_shapes:
  obtains ps where "nd_type n = Some ''object''" "nd_props n = Some ps"
  | it where "nd_type n = Some ''array''" "nd_items n = Some it"
  | "\<not> (nd_type n = Some ''object'' \<and> nd_props n \<noteq> None)"
    "\<not> (nd_type n = Some ''array'' \<and> nd_items n \<noteq> None)"
  by fastforce

lemma shown_subseq_flat: "subseq (shown (renderNode path n d E s fs)) (flat_pairs (flattenSchema path n))"
proof (induction path n arbitrary: d rule: flattenSchema.induct)
  case (1 path n)
  show ?case
  proof (cases n rule: node_shapes)
    case (1 ps)
    have "\<forall>e \<in> set ps. subseq
       ((\<lambda>(k, c). (child_path path k, c) #
          shown (if child_path path k \<in> E then renderNode (child_path path k) c (d + 1) E s fs else [])) e)
       ((\<lambda>(k, c). (child_path path k, c) # flat_pairs (flattenSchema (child_path path k) c)) e)"
      using "1.IH"(1) 1 by auto
    from subseq_concat [OF this] show ?thesis
      using 1 by (simp add: render_object flatten_object map_concat comp_def case_prod_unfold)
  next
    case (2 it)
    with "1.IH"(2) show ?thesis by (auto simp: render_array flatten_array)
  next
    case 3
    then show ?thesis by (simp add: render_other)
  qed
qed

lemma shown_all_flat:
  "ff_path ` set (flattenSchema path n) \<subseteq> E \<Longrightarrow>
     shown (renderNode path n d E s fs) = flat_pairs (flattenSchema path n)"
proof (induction path n arbitrary: d rule: flattenSchema.induct)
  case (1 path n)
  show ?case
  proof (cases n rule: node_shapes)
    case (1 ps)
    have "(\<lambda>(k, c). (child_path path k, c) #
          shown (if child_path path k \<in> E then renderNode (child_path path k) c (d + 1) E s fs else [])) e
       = (\<lambda>(k, c). (child_path path k, c) # flat_pairs (flattenSchema (child_path path k) c)) e"
      if "e \<in> set ps" for e
    proof -
      obtain k c where e: "e = (k, c)" by force
      have sub: "insert (child_path path k) (ff_path ` set (flattenSchema (child_path path k) c)) \<subseteq> E"
        using "1.prems" that 1 e by (force simp: flatten_object)
      then have "shown (renderNode (child_path path k) c (d + 1) E s fs)
          = flat_pairs (flattenSchema (child_path path k) c)"
        using "1.IH"(1) 1 that e by auto
      with sub e show ?thesis by simp
    qed
    then show ?thesis
      using 1 by (simp add: render_object flatten_object map_concat comp_def case_prod_unfold cong: map_cong)
  next
    case (2 it)
    with "1.IH"(2) "1.prems" show ?thesis by (auto simp: render_array flatten_array)
  next
    case 3
    then show ?thesis by (simp add: render_other flatten_other)
  qed
qed

text \<open>Whatever is expanded, the rows of the tree are fields of \<open>flattenSchema\<close> in its
  order; once every path is expanded the tree shows exactly that list, so every field of a schema
  can be reached and selected.\<close>

lemma tree_shows_flattened:
  "subseq (shown (renderNode [] n 0 E sel fs)) (flat_pairs (flattenSchema [] n))
   \<and> (ff_path ` set (flattenSchema [] n) \<subseteq> E \<longrightarrow>
        shown (renderNode [] n 0 E sel fs) = flat_pairs (flattenSchema [] n))"
  by (intro conjI impI shown_subseq_flat shown_all_flat)

definition small_schema :: node where
  "small_schema = Node (Some ''object'') None None None
     (Some [(''spec'', Node (Some ''array'') None None None None
        (Some (Node (Some ''string'') None None None None None None None None None)) None None None None)])
     None None None None None"

lemma small_schema_flat:
  "map ff_path (flattenSchema [] small_schema) = [''spec'', ''spec[0]'']"
  by (simp add: small_schema_def flattenSchema.simps child_path_def)

lemma tree_shows_flattened_witness:
  "shown (renderNode [] small_schema 0 {''spec'', ''spec[0]''} None None)
     = flat_pairs (flattenSchema [] small_schema)"
proof -
  have "ff_path ` set (flattenSchema [] small_schema) = {''spec'', ''spec[0]''}"
    using arg_cong [OF small_schema_flat, of set] by simp
  with tree_shows_flattened [of small_schema "{''spec'', ''spec[0]''}" None None] show ?thesis by simp
qed

end
