(* ===== verification/Yaml_To_Ui.thy ===== *)
theory Yaml_To_Ui
  imports Kp_Js
begin

text \<open>
  \<open>frontend/lib/yaml-to-ui-state.ts\<close>: turning a template written as YAML into the state of the
  visual editor. The YAML parser is not part of the repository: its result, one value or one error
  per document and the decoded ui-spec, is the argument of \<open>yamlToUIState\<close>.
\<close>

text \<open>An entry of the ui-spec, with what parsing keeps of the fields of \<open>ui-spec-to-zod.ts\<close>.\<close>

record ui_entry =
  e_path :: string
  e_label :: string
  e_help :: "string option"
  e_type :: string
  e_min :: "jnum option"
  e_max :: "jnum option"
  e_pattern :: "string option"
  e_values :: "string list option"
  e_default :: "jsval option"
  e_required :: "bool option"
  e_minLength :: "jnum option"
  e_maxLength :: "jnum option"
  e_placeholder :: "string option"

datatype ui_field = UFixed jsval | UExposed ui_entry

record ui_resource =
  r_apiVersion :: string
  r_kind :: string
  r_name :: string
  r_fields :: "(string, ui_field) obj"

datatype warning =
    ParseError string
  | UnsupportedType string string
  | ResourceSkipped string string string
  | MetadataNotObject string string
  | PathUnparseable string
  | MissingResource string string
  | SpecParseError string

text \<open>A parsed document: the first of its errors, or its value.\<close>

datatype ydoc = DocError string | DocValue jsval

section \<open>Scalars\<close>

type_synonym walk_acc = "(string, ui_field) obj \<times> warning list"

definition index_path :: "string \<Rightarrow> nat \<Rightarrow> string" where
  "index_path path i = path @ ''['' @ nat_digits i @ '']''"

function walkScalars :: "jsval \<Rightarrow> string \<Rightarrow> walk_acc \<Rightarrow> walk_acc"
  and walk_items :: "jsval list \<Rightarrow> nat \<Rightarrow> string \<Rightarrow> walk_acc \<Rightarrow> walk_acc"
  and walk_entries :: "(string \<times> jsval) list \<Rightarrow> string \<Rightarrow> walk_acc \<Rightarrow> walk_acc" where
  "walkScalars JNull path acc = (oset (fst acc) path (UFixed JNull), snd acc)"
| "walkScalars JUndef path acc = (oset (fst acc) path (UFixed JUndef), snd acc)"
| "walkScalars (JStr s) path acc = (oset (fst acc) path (UFixed (JStr s)), snd acc)"
| "walkScalars (JNum n) path acc = (oset (fst acc) path (UFixed (JNum n)), snd acc)"
| "walkScalars (JBool b) path acc = (oset (fst acc) path (UFixed (JBool b)), snd acc)"
| "walkScalars (JArr xs) path acc = walk_items xs 0 path acc"
| "walkScalars (JObj es) path acc = walk_entries es path acc"
| "walkScalars (JOther t) path acc = (fst acc, snd acc @ [UnsupportedType path t])"
| "walk_items [] i path acc = acc"
| "walk_items (x # xs) i path acc = walk_items xs (Suc i) path (walkScalars x (index_path path i) acc)"
| "walk_entries [] path acc = acc"
| "walk_entries ((k, v) # es) path acc = walk_entries es path (walkScalars v (child_path path k) acc)"
  by pat_completeness auto
termination
  by (relation "measure (\<lambda>x. case x of Inl (v, _, _) \<Rightarrow> size v
        | Inr (Inl (xs, _, _, _)) \<Rightarrow> size_list size xs
        | Inr (Inr (es, _, _)) \<Rightarrow> size_list (size_prod (\<lambda>_. 0) size) es)") simp_all

section \<open>Documents\<close>

text \<open>One property of a document's top level.\<close>

definition walk_metadata :: "(string \<times> jsval) list \<Rightarrow> walk_acc \<Rightarrow> walk_acc" where
  "walk_metadata es acc = foldl (\<lambda>acc e.
     if fst e = ''name'' then acc else walkScalars (snd e) (''metadata.'' @ fst e) acc) acc es"

definition walk_top :: "string \<Rightarrow> string \<Rightarrow> walk_acc \<Rightarrow> string \<times> jsval \<Rightarrow> walk_acc" where
  "walk_top kind name acc e =
     (if fst e = ''apiVersion'' \<or> fst e = ''kind'' then acc
      else if fst e = ''metadata'' then
        (case snd e of
           JObj es \<Rightarrow> walk_metadata es acc
         | _ \<Rightarrow> (fst acc, snd acc @ [MetadataNotObject kind name]))
      else walkScalars (snd e) (fst e) acc)"

type_synonym convert_acc = "ui_resource list \<times> warning list"

definition convert_doc :: "convert_acc \<Rightarrow> ydoc \<Rightarrow> convert_acc" where
  "convert_doc acc doc = (case doc of
     DocError m \<Rightarrow> (fst acc, snd acc @ [ParseError m])
   | DocValue v \<Rightarrow>
      (if \<not> jtruthy v \<or> \<not> jis_object v then acc
       else let apiVersion = jstr_or (jfield v ''apiVersion'') [];
                kind = jstr_or (jfield v ''kind'') [];
                metadata = jfield v ''metadata'';
                name = (if jtruthy metadata then jstr_or (jfield metadata ''name'') [] else [])
            in if apiVersion = [] \<or> kind = [] \<or> name = []
               then (fst acc, snd acc @ [ResourceSkipped apiVersion kind name])
               else let (flds, ws) = foldl (walk_top kind name) ([], snd acc) (entries_of v)
                    in (fst acc @ [\<lparr>r_apiVersion = apiVersion, r_kind = kind, r_name = name, r_fields = flds\<rparr>], ws)))"

section \<open>The ui-spec\<close>

definition is_word_char :: "char \<Rightarrow> bool" where
  "is_word_char c \<longleftrightarrow> (let n = of_char c :: nat in
     48 \<le> n \<and> n \<le> 57 \<or> 65 \<le> n \<and> n \<le> 90 \<or> 97 \<le> n \<and> n \<le> 122 \<or> n = 95)"

text \<open>The match of \<open>/^(\w+)\[([^\]]+)\]\.(.+)$/\<close>: kind, name and the path inside the resource.\<close>

definition parse_spec_path :: "string \<Rightarrow> (string \<times> string \<times> string) option" where
  "parse_spec_path s =
     (let kind = takeWhile is_word_char s; r = dropWhile is_word_char s;
          name = takeWhile (\<lambda>c. c \<noteq> CHR '']'') (drop 1 r); r' = dropWhile (\<lambda>c. c \<noteq> CHR '']'') (drop 1 r);
          sub = drop 2 r'
      in if kind \<noteq> [] \<and> take 1 r = ''['' \<and> name \<noteq> [] \<and> take 2 r' = ''].''
            \<and> sub \<noteq> [] \<and> list_all (\<lambda>c. of_char c \<noteq> (10 :: nat) \<and> of_char c \<noteq> (13 :: nat)) sub
         then Some (kind, name, sub) else None)"

definition is_resource :: "string \<Rightarrow> string \<Rightarrow> ui_resource \<Rightarrow> bool" where
  "is_resource kind name r \<longleftrightarrow> r_kind r = kind \<and> r_name r = name"

definition expose :: "string \<Rightarrow> ui_entry \<Rightarrow> ui_resource \<Rightarrow> ui_resource" where
  "expose sub entry r = r\<lparr>r_fields := oset (r_fields r) sub (UExposed entry)\<rparr>"

definition apply_entry :: "convert_acc \<Rightarrow> ui_entry \<Rightarrow> convert_acc" where
  "apply_entry acc entry = (case parse_spec_path (e_path entry) of
     None \<Rightarrow> (fst acc, snd acc @ [PathUnparseable (e_path entry)])
   | Some (kind, name, sub) \<Rightarrow>
      (if list_ex (is_resource kind name) (fst acc)
       then (update_first (is_resource kind name) (expose sub entry) (fst acc), snd acc)
       else (fst acc, snd acc @ [MissingResource kind name])))"

text \<open>The two arguments are the parser's results: the documents, and the ui-spec, an error, null
  (or no \<open>fields\<close>) or its entries.\<close>

definition yamlToUIState :: "ydoc list \<Rightarrow> string + ui_entry list option \<Rightarrow> convert_acc" where
  "yamlToUIState docs spec =
     (let acc = foldl convert_doc ([], []) docs in
      case spec of
        Inl m \<Rightarrow> (fst acc, snd acc @ [SpecParseError m])
      | Inr entries \<Rightarrow> foldl apply_entry acc (nullish entries []))"

section \<open>No scalar is lost\<close>

text \<open>
  The specification of the conversion: a position in a value, the value there, and the text of the
  position. Texts determine positions as long as keys are free of the three separators.
\<close>

datatype pstep = Key string | Idx nat

fun ptext :: "string \<Rightarrow> pstep list \<Rightarrow> string" where
  "ptext p [] = p"
| "ptext p (Key k # ts) = ptext (child_path p k) ts"
| "ptext p (Idx i # ts) = ptext (index_path p i) ts"

fun value_at :: "jsval \<Rightarrow> pstep list \<Rightarrow> jsval option" where
  "value_at v [] = Some v"
| "value_at (JObj es) (Key k # ts) = (case oget es k of None \<Rightarrow> None | Some v \<Rightarrow> value_at v ts)"
| "value_at (JArr xs) (Idx i # ts) = (if i < length xs then value_at (xs ! i) ts else None)"
| "value_at _ _ = None"

fun scalar :: "jsval \<Rightarrow> bool" where
  "scalar (JArr _) = False"
| "scalar (JObj _) = False"
| "scalar (JOther _) = False"
| "scalar _ = True"

definition safe_key :: "string \<Rightarrow> bool" where
  "safe_key k \<longleftrightarrow> k \<noteq> [] \<and> CHR ''.'' \<notin> set k \<and> CHR ''['' \<notin> set k \<and> CHR '']'' \<notin> set k"

text \<open>Values of JSON or YAML whose objects have distinct, safe keys.\<close>

inductive plain :: "jsval \<Rightarrow> bool" where
  plain_scalar: "scalar v \<Longrightarrow> plain v"
| plain_arr: "\<forall>x \<in> set xs. plain x \<Longrightarrow> plain (JArr xs)"
| plain_obj: "obj_ok es \<Longrightarrow> \<forall>e \<in> set es. safe_key (fst e) \<and> plain (snd e) \<Longrightarrow> plain (JObj es)"

inductive_simps plain_simps [simp]: "plain (JArr xs)" "plain (JObj es)" "plain (JOther t)"

definition safe_step :: "pstep \<Rightarrow> bool" where
  "safe_step t = (case t of Key k \<Rightarrow> safe_key k | Idx _ \<Rightarrow> True)"

definition ext_path :: "string \<Rightarrow> pstep \<Rightarrow> string" where
  "ext_path p t = (case t of Key k \<Rightarrow> child_path p k | Idx i \<Rightarrow> index_path p i)"

lemma ptext_snoc: "ptext p (ts @ [t]) = ext_path (ptext p ts) t"
  by (induction p ts rule: ptext.induct) (auto simp: ext_path_def split: pstep.split)

lemma digits_no_bracket: "CHR ''['' \<notin> set (nat_digits i)"
  using nat_digits_digits [of i] by (auto simp: list_all_iff is_digit_def)

lemma last_ext: "safe_step t \<Longrightarrow> last (ext_path p t) = CHR '']'' \<longleftrightarrow> (\<exists>i. t = Idx i)"
  by (auto simp: ext_path_def child_path_def index_path_def safe_step_def safe_key_def split: pstep.split)
    (metis last_in_set)+

lemma ext_path_inj:
  assumes "ext_path p t = ext_path q u" and t: "safe_step t" and u: "safe_step u"
  shows "p = q \<and> t = u"
proof (cases t)
  case (Idx i)
  with assms last_ext [OF t, of p] last_ext [OF u, of q] obtain j where u': "u = Idx j" by auto
  with Idx assms(1) have "p @ CHR ''['' # nat_digits i = q @ CHR ''['' # nat_digits j"
    by (simp add: ext_path_def index_path_def)
  with split_last_eq [OF this] Idx u' show ?thesis by (simp add: digits_no_bracket)
next
  case (Key k)
  with assms last_ext [OF t, of p] last_ext [OF u, of q] obtain l where u': "u = Key l"
    by (cases u) auto
  have k: "CHR ''.'' \<notin> set k" "CHR ''.'' \<notin> set l"
    using t u Key u' by (auto simp: safe_step_def safe_key_def)
  from Key u' assms(1) have "child_path p k = child_path q l" by (simp add: ext_path_def)
  then show ?thesis
    using split_last_eq [of p "CHR ''.''" k q l] k Key u'
    by (auto simp: child_path_def split: if_splits)
qed

lemma ext_path_nonempty: "safe_step t \<Longrightarrow> ext_path p t \<noteq> []"
  by (auto simp: ext_path_def child_path_def index_path_def safe_step_def safe_key_def split: pstep.split)

lemma ptext_inj:
  "ptext [] ts = ptext [] us \<Longrightarrow> list_all safe_step ts \<Longrightarrow> list_all safe_step us \<Longrightarrow> ts = us"
proof (induction ts arbitrary: us rule: rev_induct)
  case Nil
  then show ?case by (cases us rule: rev_exhaust) (auto simp: ptext_snoc ext_path_nonempty eq_commute [of "[]"])
next
  case (snoc t ts)
  show ?case
  proof (cases us rule: rev_exhaust)
    case Nil
    with snoc.prems show ?thesis by (auto simp: ptext_snoc ext_path_nonempty)
  next
    case (snoc us' u)
    with snoc.prems have "ext_path (ptext [] ts) t = ext_path (ptext [] us') u"
      "safe_step t" "safe_step u" by (auto simp: ptext_snoc)
    from ext_path_inj [OF this] snoc.IH [of us'] snoc.prems snoc show ?thesis by auto
  qed
qed

text \<open>The scalars of a value with their positions, in the order the walk meets them.\<close>

function positions :: "jsval \<Rightarrow> (pstep list \<times> jsval) list"
  and positions_items :: "nat \<Rightarrow> jsval list \<Rightarrow> (pstep list \<times> jsval) list"
  and positions_entries :: "(string \<times> jsval) list \<Rightarrow> (pstep list \<times> jsval) list" where
  "positions v = (case v of JArr xs \<Rightarrow> positions_items 0 xs | JObj es \<Rightarrow> positions_entries es
     | JOther _ \<Rightarrow> [] | _ \<Rightarrow> [([], v)])"
| "positions_items i [] = []"
| "positions_items i (x # xs) = map (\<lambda>(ts, y). (Idx i # ts, y)) (positions x) @ positions_items (Suc i) xs"
| "positions_entries [] = []"
| "positions_entries ((k, v) # es) = map (\<lambda>(ts, y). (Key k # ts, y)) (positions v) @ positions_entries es"
  by pat_completeness auto
termination
  by (relation "measure (\<lambda>x. case x of Inl v \<Rightarrow> size v | Inr (Inl (_, xs)) \<Rightarrow> size_list size xs
        | Inr (Inr es) \<Rightarrow> size_list (size_prod (\<lambda>_. 0) size) es)") simp_all

declare positions.simps [simp del]

lemma positions_simps [simp]:
  "scalar v \<Longrightarrow> positions v = [([], v)]" "positions (JArr xs) = positions_items 0 xs"
  "positions (JObj es) = positions_entries es" "positions (JOther t) = []"
  by (cases v; simp add: positions.simps) (simp_all add: positions.simps)

lemma ospread_append: "ospread es (p @ q) = ospread (ospread es p) q"
  by (induction es p rule: ospread.induct) auto

definition fixed_at :: "string \<Rightarrow> (pstep list \<times> jsval) list \<Rightarrow> (string, ui_field) obj" where
  "fixed_at p l = map (\<lambda>(ts, y). (ptext p ts, UFixed y)) l"

lemma fixed_at_append [simp]: "fixed_at p (l @ l') = fixed_at p l @ fixed_at p l'"
  by (simp add: fixed_at_def)

lemma fixed_at_Idx [simp]: "fixed_at p (map (\<lambda>(ts, y). (Idx i # ts, y)) l) = fixed_at (index_path p i) l"
  by (simp add: fixed_at_def case_prod_unfold)

lemma fixed_at_Key [simp]: "fixed_at p (map (\<lambda>(ts, y). (Key k # ts, y)) l) = fixed_at (child_path p k) l"
  by (simp add: fixed_at_def case_prod_unfold)

lemma walk_positions:
  "plain v \<Longrightarrow> walkScalars v p acc = (ospread (fst acc) (fixed_at p (positions v)), snd acc)"
  "\<forall>x \<in> set xs. plain x \<Longrightarrow>
     walk_items xs i p acc = (ospread (fst acc) (fixed_at p (positions_items i xs)), snd acc)"
  "\<forall>e \<in> set es. plain (snd e) \<Longrightarrow>
     walk_entries es p acc = (ospread (fst acc) (fixed_at p (positions_entries es)), snd acc)"
proof (induction v p acc and xs i p acc and es p acc rule: walkScalars_walk_items_walk_entries.induct)
qed (auto simp: ospread_append, simp_all add: fixed_at_def)

lemma value_at_scalar [simp]: "scalar v \<Longrightarrow> value_at v ts = (if ts = [] then Some v else None)"
  by (cases v; cases ts rule: list.exhaust) auto

lemma in_positions_items:
  "(ts, y) \<in> set (positions_items i zs) \<longleftrightarrow>
     (\<exists>j < length zs. \<exists>us. ts = Idx (i + j) # us \<and> (us, y) \<in> set (positions (zs ! j)))"
proof (induction zs arbitrary: i)
  case Nil
  then show ?case by simp
next
  case (Cons z zs)
  have "(ts, y) \<in> set (positions_items i (z # zs)) \<longleftrightarrow>
      (\<exists>us. ts = Idx i # us \<and> (us, y) \<in> set (positions z)) \<or> (ts, y) \<in> set (positions_items (Suc i) zs)"
    by auto
  with Cons.IH [of "Suc i"] show ?case by (simp add: Ex_less_Suc2)
qed

lemma in_positions_entries:
  "(ts, y) \<in> set (positions_entries es) \<longleftrightarrow>
     (\<exists>k v us. (k, v) \<in> set es \<and> ts = Key k # us \<and> (us, y) \<in> set (positions v))"
proof (induction es)
  case Nil
  then show ?case by simp
next
  case (Cons e es)
  obtain k v where e: "e = (k, v)" by force
  have "(ts, y) \<in> set (positions_entries (e # es)) \<longleftrightarrow>
      (\<exists>us. ts = Key k # us \<and> (us, y) \<in> set (positions v)) \<or> (ts, y) \<in> set (positions_entries es)"
    by (auto simp: e)
  with Cons.IH show ?case unfolding e by auto
qed

lemma value_at_JArr:
  "value_at (JArr xs) ts = Some y \<longleftrightarrow> ts = [] \<and> y = JArr xs
     \<or> (\<exists>j < length xs. \<exists>us. ts = Idx j # us \<and> value_at (xs ! j) us = Some y)"
  by (cases ts; cases "hd ts") auto

lemma value_at_JObj:
  "value_at (JObj es) ts = Some y \<longleftrightarrow> ts = [] \<and> y = JObj es
     \<or> (\<exists>k v us. oget es k = Some v \<and> ts = Key k # us \<and> value_at v us = Some y)"
  by (cases ts; cases "hd ts") (auto split: option.splits)

lemma positions_value_at:
  "plain v \<Longrightarrow> (ts, y) \<in> set (positions v) \<longleftrightarrow> value_at v ts = Some y \<and> scalar y"
proof (induction v arbitrary: ts y)
  case (JArr xs)
  then have "(us, y) \<in> set (positions (xs ! j)) \<longleftrightarrow> value_at (xs ! j) us = Some y \<and> scalar y"
    if "j < length xs" for j us
    using that by auto
  then show ?case by (auto simp: in_positions_items value_at_JArr)
next
  case (JObj es)
  then have "oget es k = Some v \<longleftrightarrow> (k, v) \<in> set es" for k v
    by (auto simp: obj_ok_def)
  moreover have "(us, y) \<in> set (positions v) \<longleftrightarrow> value_at v us = Some y \<and> scalar y"
    if "(k, v) \<in> set es" for k v us
    using that JObj.IH [of "(k, v)" v us y] JObj.prems by fastforce
  ultimately show ?case unfolding positions_simps in_positions_entries value_at_JObj by (metis scalar.simps(2))
qed auto

text \<open>What the conversion leaves out, because the resource record holds it: \<open>apiVersion\<close>, \<open>kind\<close>
  and \<open>metadata.name\<close>.\<close>

definition strip_entry :: "string \<times> jsval \<Rightarrow> string \<times> jsval" where
  "strip_entry e = (if fst e = ''metadata''
     then (''metadata'', JObj (filter (\<lambda>m. fst m \<noteq> ''name'') (entries_of (snd e)))) else e)"

definition strip_doc :: "(string \<times> jsval) list \<Rightarrow> (string \<times> jsval) list" where
  "strip_doc es = map strip_entry (filter (\<lambda>e. fst e \<noteq> ''apiVersion'' \<and> fst e \<noteq> ''kind'') es)"

lemma walk_metadata_entries:
  "walk_metadata ms acc = walk_entries (filter (\<lambda>m. fst m \<noteq> ''name'') ms) ''metadata'' acc"
  unfolding walk_metadata_def
  by (induction ms arbitrary: acc) (auto simp: child_path_def)

lemma walk_top_entries:
  "\<forall>e \<in> set es. fst e = ''metadata'' \<longrightarrow> (\<exists>ms. snd e = JObj ms) \<Longrightarrow>
     foldl (walk_top kind name) acc es = walk_entries (strip_doc es) [] acc"
  by (induction es arbitrary: acc)
    (auto simp: strip_doc_def strip_entry_def walk_top_def walk_metadata_entries child_path_def)

lemma obj_ok_filter: "obj_ok es \<Longrightarrow> obj_ok (filter P es)"
  by (induction es) (auto simp: obj_ok_def)

lemma plain_strip:
  assumes "plain (JObj es)" and "\<forall>e \<in> set es. fst e = ''metadata'' \<longrightarrow> (\<exists>ms. snd e = JObj ms)"
  shows "plain (JObj (strip_doc es))"
proof -
  have keys: "map fst (strip_doc es) = filter (\<lambda>k. k \<noteq> ''apiVersion'' \<and> k \<noteq> ''kind'') (map fst es)"
    by (induction es) (auto simp: strip_doc_def strip_entry_def)
  have "safe_key (fst (strip_entry e)) \<and> plain (snd (strip_entry e))" if "e \<in> set es" for e
    using that assms by (fastforce simp: strip_entry_def intro: obj_ok_filter)
  moreover have "set (strip_doc es) \<subseteq> strip_entry ` set es" by (auto simp: strip_doc_def)
  ultimately have "\<forall>e \<in> set (strip_doc es). safe_key (fst e) \<and> plain (snd e)" by blast
  moreover have "obj_ok (strip_doc es)" using assms(1) by (simp add: obj_ok_def keys)
  ultimately show ?thesis by simp
qed

lemma value_at_safe: "plain v \<Longrightarrow> value_at v ts = Some y \<Longrightarrow> list_all safe_step ts"
proof (induction v ts rule: value_at.induct)
  case (2 es k ts)
  then obtain v where v: "oget es k = Some v" "value_at v ts = Some y" by (auto split: option.splits)
  then have "(k, v) \<in> set es" by (auto dest: map_of_SomeD)
  with 2 v show ?case by (auto simp: safe_step_def)
qed (auto simp: safe_step_def split: if_splits)

lemma oget_fixed_positions:
  assumes "plain v"
  shows "oget (ospread [] (fixed_at [] (positions v))) p = Some f \<longleftrightarrow>
     (\<exists>ts y. p = ptext [] ts \<and> value_at v ts = Some y \<and> scalar y \<and> f = UFixed y)" (is "?L \<longleftrightarrow> ?R")
proof -
  let ?l = "fixed_at [] (positions v)"
  have in_l: "(p, f) \<in> set ?l \<longleftrightarrow>
      (\<exists>ts y. p = ptext [] ts \<and> value_at v ts = Some y \<and> scalar y \<and> f = UFixed y)" for f
  proof -
    have "(p, f) \<in> set ?l \<longleftrightarrow> (\<exists>ts y. (ts, y) \<in> set (positions v) \<and> p = ptext [] ts \<and> f = UFixed y)"
      by (force simp: fixed_at_def)
    then show ?thesis using positions_value_at [OF assms] by auto
  qed
  have unique: "f = g" if "(p, f) \<in> set ?l" "(p, g) \<in> set ?l" for f g
    using that unfolding in_l using ptext_inj value_at_safe [OF assms] by (metis option.inject)
  have "oget (ospread [] ?l) p = oget (rev ?l) p"
    by (simp add: oget_ospread split: option.split)
  moreover have "oget (rev ?l) p = Some f \<longleftrightarrow> (p, f) \<in> set ?l"
  proof
    assume "(p, f) \<in> set ?l"
    then obtain g where g: "oget (rev ?l) p = Some g"
      by (cases "oget (rev ?l) p") (force simp: map_of_eq_None_iff)+
    then have "(p, g) \<in> set ?l" using map_of_SomeD by fastforce
    with unique \<open>(p, f) \<in> set ?l\<close> g show "oget (rev ?l) p = Some f" by auto
  qed (auto dest: map_of_SomeD)
  ultimately show ?thesis by (simp add: in_l)
qed

lemma convert_positions:
  assumes "plain (JObj es)"
    and "oget es ''apiVersion'' = Some (JStr a)" and "oget es ''kind'' = Some (JStr k)"
    and "oget es ''metadata'' = Some (JObj ms)" and "oget ms ''name'' = Some (JStr n)"
    and "a \<noteq> []" and "k \<noteq> []" and "n \<noteq> []"
  shows "convert_doc (rs, ws) (DocValue (JObj es)) =
      (rs @ [\<lparr>r_apiVersion = a, r_kind = k, r_name = n,
         r_fields = ospread [] (fixed_at [] (positions (JObj (strip_doc es))))\<rparr>], ws)
    \<and> plain (JObj (strip_doc es))"
proof -
  have "oget es k' = Some v" if "(k', v) \<in> set es" for k' v
    using assms(1) that by (auto simp: obj_ok_def elim: plain.cases)
  with assms(4) have meta: "\<forall>e \<in> set es. fst e = ''metadata'' \<longrightarrow> (\<exists>ms. snd e = JObj ms)"
    by fastforce
  note pl = plain_strip [OF assms(1) meta]
  have "foldl (walk_top k n) ([], ws) es
      = (ospread [] (fixed_at [] (positions (JObj (strip_doc es)))), ws)"
    using walk_positions(3) [of "strip_doc es" "[]" "([], ws)"] pl
    by (simp add: walk_top_entries [OF meta])
  with pl show ?thesis
    using assms by (simp add: convert_doc_def)
qed

text \<open>Property C14: converting a document with an \<open>apiVersion\<close>, a \<open>kind\<close> and a \<open>metadata.name\<close> whose keys
  are free of \<open>.\<close>, \<open>[\<close> and \<open>]\<close> adds one resource and no warning; its fields are exactly the scalars of
  the document other than these three, each fixed to its value under the text of its position.\<close>

theorem convert_keeps_scalars:
  assumes "plain (JObj es)"
    and "oget es ''apiVersion'' = Some (JStr a)" and "oget es ''kind'' = Some (JStr k)"
    and "oget es ''metadata'' = Some (JObj ms)" and "oget ms ''name'' = Some (JStr n)"
    and "a \<noteq> []" and "k \<noteq> []" and "n \<noteq> []"
  shows "\<exists>flds. convert_doc (rs, ws) (DocValue (JObj es)) =
      (rs @ [\<lparr>r_apiVersion = a, r_kind = k, r_name = n, r_fields = flds\<rparr>], ws)
    \<and> (\<forall>p f. oget flds p = Some f \<longleftrightarrow>
        (\<exists>ts y. p = ptext [] ts \<and> value_at (JObj (strip_doc es)) ts = Some y \<and> scalar y \<and> f = UFixed y))"
proof -
  note c = convert_positions [OF assms, of rs ws]
  from c [THEN conjunct1] oget_fixed_positions [OF c [THEN conjunct2]] show ?thesis by (intro exI conjI allI)
qed

definition web_deployment :: "string \<Rightarrow> (string \<times> jsval) list" where
  "web_deployment img = [(''apiVersion'', JStr ''apps/v1''), (''kind'', JStr ''Deployment''),
     (''metadata'', JObj [(''name'', JStr ''web''), (''labels'', JObj [(''app'', JStr ''web'')])]),
     (''spec'', JObj [(''replicas'', JNum (Num 3)),
        (''containers'', JArr [JObj [(''image'', JStr img)]])])]"

lemma web_deployment_plain: "plain (JObj (web_deployment img))"
  by (auto simp: web_deployment_def obj_ok_def safe_key_def intro: plain_scalar)

lemma convert_keeps_scalars_witness:
  "\<exists>flds. convert_doc ([], []) (DocValue (JObj (web_deployment ''nginx''))) =
      ([\<lparr>r_apiVersion = ''apps/v1'', r_kind = ''Deployment'', r_name = ''web'', r_fields = flds\<rparr>], [])
    \<and> (\<forall>p f. oget flds p = Some f \<longleftrightarrow> (\<exists>ts y. p = ptext [] ts
        \<and> value_at (JObj (strip_doc (web_deployment ''nginx''))) ts = Some y \<and> scalar y \<and> f = UFixed y))"
  using convert_keeps_scalars [OF web_deployment_plain, of "''nginx''" "''apps/v1''" "''Deployment''"
      "[(''name'', JStr ''web''), (''labels'', JObj [(''app'', JStr ''web'')])]" "''web''" "[]" "[]"]
  by (simp add: web_deployment_def)

section \<open>What is lost\<close>

lemma walk_entries_append: "walk_entries (es @ ds) p acc = walk_entries ds p (walk_entries es p acc)"
proof (induction es arbitrary: acc)
  case (Cons e es)
  then show ?case by (cases e) (simp only: append_Cons walk_entries.simps)
qed simp

text \<open>An empty mapping or list, such as \<open>emptyDir: {}\<close>, is dropped without a warning: a
  document with it and the document without it convert to the same state and the same warnings,
  at the top level and inside any nested mapping.\<close>

lemma empty_containers_dropped:
  assumes "c = JObj [] \<or> c = JArr []"
  shows "walkScalars (JObj (es @ (k, c) # ds)) p acc = walkScalars (JObj (es @ ds)) p acc
    \<and> (k \<notin> {''apiVersion'', ''kind'', ''metadata''} \<longrightarrow>
        yamlToUIState (docs @ [DocValue (JObj (es @ (k, c) # ds))]) spec
          = yamlToUIState (docs @ [DocValue (JObj (es @ ds))]) spec)"
proof -
  have walk: "walkScalars c q acc = acc" for q acc using assms by auto
  have "convert_doc a (DocValue (JObj (es @ (k, c) # ds))) = convert_doc a (DocValue (JObj (es @ ds)))"
    if k: "k \<notin> {''apiVersion'', ''kind'', ''metadata''}" for a
  proof -
    have "jfield (JObj (es @ (k, c) # ds)) j = jfield (JObj (es @ ds)) j"
      if "j \<in> {''apiVersion'', ''kind'', ''metadata''}" for j
    proof -
      have "j \<noteq> k" using k that by blast
      then show ?thesis by (simp add: map_add_def split: option.split)
    qed
    moreover have "foldl (walk_top kd nm) b (entries_of (JObj (es @ (k, c) # ds)))
        = foldl (walk_top kd nm) b (entries_of (JObj (es @ ds)))" for kd nm b
      using k by (simp add: walk_top_def walk)
    ultimately show ?thesis by (simp add: convert_doc_def Let_def del: jfield.simps entries_of.simps)
  qed
  then show ?thesis
    by (auto simp: walk_entries_append walk yamlToUIState_def)
qed

lemma empty_containers_dropped_witness:
  "yamlToUIState [DocValue (JObj (web_deployment ''nginx'' @ [(''volumes'', JObj [])]))] (Inr None)
     = yamlToUIState [DocValue (JObj (web_deployment ''nginx''))] (Inr None)"
  using empty_containers_dropped [of "JObj []" "web_deployment ''nginx''" "''volumes''" "[]" "[]" "([], [])" "[]" "Inr None"]
  by simp

section \<open>Exposed fields\<close>

definition applicable :: "ui_resource list \<Rightarrow> ui_entry \<Rightarrow> bool" where
  "applicable rs e = (case parse_spec_path (e_path e) of None \<Rightarrow> False
     | Some (kind, name, sub) \<Rightarrow> list_ex (is_resource kind name) rs)"

definition field_at :: "ui_resource list \<Rightarrow> string \<times> string \<times> string \<Rightarrow> ui_field option" where
  "field_at rs t = (case t of (kind, name, sub) \<Rightarrow>
     (case find (is_resource kind name) rs of None \<Rightarrow> None | Some r \<Rightarrow> oget (r_fields r) sub))"

definition res_ids :: "ui_resource list \<Rightarrow> (string \<times> string \<times> string) list" where
  "res_ids rs = map (\<lambda>r. (r_apiVersion r, r_kind r, r_name r)) rs"

lemma is_resource_expose [simp]: "is_resource k n (expose sub e r) = is_resource k n r"
  by (simp add: is_resource_def expose_def)

lemma apply_entry_ids: "res_ids (fst (apply_entry acc e)) = res_ids (fst acc)"
  by (auto simp: apply_entry_def res_ids_def expose_def intro!: map_update_first split: option.split)

lemma list_ex_ids: "res_ids rs = res_ids ss \<Longrightarrow> list_ex (is_resource k n) rs = list_ex (is_resource k n) ss"
proof -
  have "list_ex (is_resource k n) rs = list_ex (\<lambda>(_, k', n'). k' = k \<and> n' = n) (res_ids rs)" for rs
    by (induction rs) (auto simp: res_ids_def is_resource_def)
  then show "res_ids rs = res_ids ss \<Longrightarrow> ?thesis" by simp
qed

lemma applicable_ids:
  assumes "res_ids rs = res_ids ss"
  shows "applicable rs e = applicable ss e"
proof -
  have "list_ex (is_resource k n) rs = list_ex (is_resource k n) ss" for k n
    using assms by (rule list_ex_ids)
  then show ?thesis by (simp add: applicable_def split: option.split)
qed

lemma apply_entry_warns:
  "length (snd (apply_entry acc e)) = length (snd acc) + (if applicable (fst acc) e then 0 else 1)"
  by (auto simp: apply_entry_def applicable_def split: option.split)

lemma find_other_update:
  "\<not> (k = k' \<and> n = n') \<Longrightarrow>
     find (is_resource k n) (update_first (is_resource k' n') (expose s e) rs) = find (is_resource k n) rs"
  by (induction rs) (auto simp: is_resource_def expose_def)

lemma list_ex_find: "list_ex P xs \<Longrightarrow> \<exists>x. find P xs = Some x"
  by (induction xs) auto

lemma field_at_apply:
  "field_at (fst (apply_entry acc e)) t =
     (if applicable (fst acc) e \<and> parse_spec_path (e_path e) = Some t then Some (UExposed e)
      else field_at (fst acc) t)"
proof (cases "parse_spec_path (e_path e)")
  case None
  then show ?thesis by (simp add: apply_entry_def applicable_def)
next
  case (Some u)
  obtain k n s where u: "u = (k, n, s)" by (cases u)
  obtain k' n' s' where t: "t = (k', n', s')" by (cases t)
  show ?thesis
  proof (cases "list_ex (is_resource k n) (fst acc)")
    case False
    with Some u show ?thesis by (simp add: apply_entry_def applicable_def)
  next
    case True
    from list_ex_find [OF True] obtain r where r: "find (is_resource k n) (fst acc) = Some r" by blast
    have "find (is_resource k n) (update_first (is_resource k n) (expose s e) (fst acc)) = Some (expose s e r)"
      by (simp add: find_update_first r)
    with True r Some u t show ?thesis
      by (cases "k' = k \<and> n' = n")
        (auto simp: apply_entry_def applicable_def field_at_def expose_def find_other_update)
  qed
qed

lemma foldl_apply_entry:
  "res_ids (fst (foldl apply_entry acc es)) = res_ids (fst acc)
   \<and> length (snd (foldl apply_entry acc es)) = length (snd acc) + length (filter (\<lambda>e. \<not> applicable (fst acc) e) es)
   \<and> field_at (fst (foldl apply_entry acc es)) t =
       (case find (\<lambda>e. applicable (fst acc) e \<and> parse_spec_path (e_path e) = Some t) (rev es) of
          None \<Rightarrow> field_at (fst acc) t | Some e \<Rightarrow> Some (UExposed e))"
proof (induction es rule: rev_induct)
  case Nil
  then show ?case by simp
next
  case (snoc e es)
  let ?acc = "foldl apply_entry acc es"
  have app: "applicable (fst ?acc) e = applicable (fst acc) e"
    using snoc by (intro applicable_ids) simp
  from snoc show ?case
    by (auto simp: apply_entry_ids apply_entry_warns field_at_apply app split: option.split)
qed

text \<open>Property C34: no ui-spec entry is dropped in silence. The resources stay the ones the documents
  gave; every entry whose path does not name one of them adds one warning; and the field an entry
  names holds the last entry naming it, exposed, while all other fields keep their value.\<close>

theorem entries_exposed_or_warned:
  "let acc = foldl convert_doc ([], []) docs; result = yamlToUIState docs (Inr (Some entries)) in
     res_ids (fst result) = res_ids (fst acc)
     \<and> length (snd result) = length (snd acc) + length (filter (\<lambda>e. \<not> applicable (fst acc) e) entries)
     \<and> (\<forall>t. field_at (fst result) t =
          (case find (\<lambda>e. applicable (fst acc) e \<and> parse_spec_path (e_path e) = Some t) (rev entries) of
             None \<Rightarrow> field_at (fst acc) t | Some e \<Rightarrow> Some (UExposed e)))"
  using foldl_apply_entry by (simp add: yamlToUIState_def Let_def)

definition image_entry :: ui_entry where
  "image_entry = \<lparr>e_path = ''Deployment[web].spec.containers[0].image'', e_label = ''image'', e_help = None,
     e_type = ''string'', e_min = None, e_max = None, e_pattern = None, e_values = None, e_default = None,
     e_required = None, e_minLength = None, e_maxLength = None, e_placeholder = None\<rparr>"

lemma image_entry_path:
  "parse_spec_path (e_path image_entry) = Some (''Deployment'', ''web'', ''spec.containers[0].image'')"
  by (simp add: image_entry_def parse_spec_path_def is_word_char_def)

lemma nat_digits_0 [simp]: "nat_digits 0 = ''0''"
  by code_simp

text \<open>Exposing a field that has no default forgets the value the resources gave it: the
  template of the README, with its image exposed and no default, converts to the same state and
  without a warning whatever image its resources name.\<close>

lemma exposed_value_forgotten:
  "yamlToUIState [DocValue (JObj (web_deployment img))] (Inr (Some [image_entry]))
     = yamlToUIState [DocValue (JObj (web_deployment img'))] (Inr (Some [image_entry]))
   \<and> snd (yamlToUIState [DocValue (JObj (web_deployment img))] (Inr (Some [image_entry]))) = []"
proof -
  have "convert_doc ([], []) (DocValue (JObj (web_deployment i))) =
     ([\<lparr>r_apiVersion = ''apps/v1'', r_kind = ''Deployment'', r_name = ''web'',
        r_fields = [(''metadata.labels'' @ ''.app'', UFixed (JStr ''web'')), (''spec.replicas'', UFixed (JNum (Num 3))),
          (''spec.containers[0].image'', UFixed (JStr i))]\<rparr>], [])" for i
    by (simp add: convert_doc_def web_deployment_def walk_top_def walk_metadata_def child_path_def index_path_def Let_def)
  then show ?thesis
    by (simp add: yamlToUIState_def apply_entry_def image_entry_path is_resource_def expose_def)
qed

end
