(* ===== verification/Session.thy ===== *)
theory Session
  imports Kp_Js "HOL-Library.Word"
begin

text \<open>
  \<open>frontend/lib/session.ts\<close>: sessions of the server side of the front end. A session is a row of
  the \<open>sessions\<close> table, found by the value of the cookie \<open>kbp_sid\<close>; its tokens are stored
  encrypted.

  The environment of the process and what the code takes from outside are the record \<open>env\<close>:
  \<open>app_key\<close> and \<open>production\<close> are environment variables, \<open>seal\<close> and \<open>unseal\<close> are AES-256-GCM on text
  (key, initialisation vector, then text to tag and cipher text, and back, or the message of the
  exception). Random values and the two clocks (\<open>Date.now()\<close> in milliseconds, the database's
  \<open>now()\<close> on the same scale) are arguments of the operations that read them. Queries are taken not to fail, apart from
  an insert under an existing primary key.
\<close>

type_synonym byte = "8 word"

section \<open>Base64\<close>

definition b64_char :: "nat \<Rightarrow> char" where
  "b64_char n = (if n < 26 then char_of (65 + n) else if n < 52 then char_of (71 + n)
     else if n < 62 then char_of (n - 4) else if n = 62 then CHR ''+'' else CHR ''/'')"

definition b64_val :: "char \<Rightarrow> nat option" where
  "b64_val c = (let n = of_char c :: nat in
     if 65 \<le> n \<and> n \<le> 90 then Some (n - 65) else if 97 \<le> n \<and> n \<le> 122 then Some (n - 71)
     else if 48 \<le> n \<and> n \<le> 57 then Some (n + 4) else if c = CHR ''+'' \<or> c = CHR ''-'' then Some 62
     else if c = CHR ''/'' \<or> c = CHR ''_'' then Some 63 else None)"

fun b64_sextets :: "byte list \<Rightarrow> nat list" where
  "b64_sextets [] = []"
| "b64_sextets [x] = [unat x div 4, unat x mod 4 * 16]"
| "b64_sextets [x, y] = [unat x div 4, unat x mod 4 * 16 + unat y div 16, unat y mod 16 * 4]"
| "b64_sextets (x # y # z # r) = unat x div 4 # (unat x mod 4 * 16 + unat y div 16)
     # (unat y mod 16 * 4 + unat z div 64) # unat z mod 64 # b64_sextets r"

definition b64_encode :: "byte list \<Rightarrow> string" where
  "b64_encode bs = map b64_char (b64_sextets bs) @ replicate (if length bs mod 3 = 0 then 0 else 3 - length bs mod 3) CHR ''=''"

fun b64_bytes :: "nat list \<Rightarrow> byte list" where
  "b64_bytes (p # q # r # s # t) = word_of_nat (p * 4 + q div 16) # word_of_nat (q mod 16 * 16 + r div 4)
     # word_of_nat (r mod 4 * 64 + s) # b64_bytes t"
| "b64_bytes [p, q, r] = [word_of_nat (p * 4 + q div 16), word_of_nat (q mod 16 * 16 + r div 4)]"
| "b64_bytes [p, q] = [word_of_nat (p * 4 + q div 16)]"
| "b64_bytes _ = []"

text \<open>Characters outside the alphabet are skipped and decoding ends at the padding.\<close>

definition b64_decode :: "string \<Rightarrow> byte list" where
  "b64_decode s = b64_bytes (List.map_filter b64_val (takeWhile (\<lambda>c. c \<noteq> CHR ''='') s))"

lemma b64_val_char: "n < 64 \<Longrightarrow> b64_val (b64_char n) = Some n"
  by (auto simp: b64_val_def b64_char_def Let_def)

lemma b64_char_not_pad: "n < 64 \<Longrightarrow> b64_char n \<noteq> CHR ''=''"
  using b64_val_char [of n] by (auto simp: b64_val_def)

lemma byte_lt: "unat (x :: byte) < 256"
  using unsigned_less [of x] by simp

lemma sextet_bounds:
  "unat (x :: byte) div 4 < 64" "unat x mod 4 * 16 < 64" "unat x mod 4 * 16 + unat (y :: byte) div 16 < 64"
  "unat y mod 16 * 4 < 64" "unat y mod 16 * 4 + unat (z :: byte) div 64 < 64" "unat z mod 64 < 64"
  using byte_lt [of x] byte_lt [of y] byte_lt [of z] by auto

lemma sextets_lt: "\<forall>n \<in> set (b64_sextets bs). n < 64"
  using sextet_bounds by (induction bs rule: b64_sextets.induct) auto

lemma bytes_sextets: "b64_bytes (b64_sextets bs) = bs"
proof -
  have "x div 4 * 4 + (x mod 4 * 16 + y) div 16 = x" if "y < 16" for x y :: nat
    using that by (simp add: mult.commute)
  moreover have "(x mod 4 * 16 + y div 16) mod 16 * 16 + (y mod 16 * 4 + z) div 4 = y"
    if "z < 4" "y < 256" for x y z :: nat
  proof -
    have "y div 16 < 16" using that by auto
    then have "(x mod 4 * 16 + y div 16) mod 16 = y div 16" by simp
    moreover have "(y mod 16 * 4 + z) div 4 = y mod 16" using that by simp
    ultimately show ?thesis by simp
  qed
  moreover have "(y mod 16 * 4 + z div 64) mod 4 * 64 + z mod 64 = z" if "z < 256" for y z :: nat
  proof -
    have "z div 64 < 4" using that by auto
    then show ?thesis by simp
  qed
  ultimately show ?thesis
    using byte_lt
    by (induction bs rule: b64_sextets.induct) (auto simp: div_less_iff_less_mult)
qed

theorem b64_decode_encode [simp]: "b64_decode (b64_encode bs) = bs"
proof -
  have "takeWhile (\<lambda>c. c \<noteq> CHR ''='') (map b64_char ns @ replicate k CHR ''='') = map b64_char ns"
    if "\<forall>n \<in> set ns. n < 64" for ns k
    using that b64_char_not_pad by (induction ns) (auto simp: takeWhile_replicate)
  moreover have "List.map_filter b64_val (map b64_char ns) = ns" if "\<forall>n \<in> set ns. n < 64" for ns
    using that b64_val_char by (induction ns) (auto simp: List.map_filter_def)
  ultimately show ?thesis using sextets_lt [of bs] by (simp add: b64_decode_def b64_encode_def bytes_sextets)
qed

section \<open>Keys and encryption\<close>

record env =
  app_key :: "string option"
  production :: bool
  seal :: "byte list \<Rightarrow> byte list \<Rightarrow> string \<Rightarrow> byte list \<times> byte list"
  unseal :: "byte list \<Rightarrow> byte list \<Rightarrow> byte list \<Rightarrow> byte list \<Rightarrow> string + string"

definition getKey :: "env \<Rightarrow> string + byte list" where
  "getKey e = (if \<not> truthy_str (app_key e) then Inl ''APP_ENCRYPTION_KEY_B64 is not set''
     else let key = b64_decode (the (app_key e)) in
       if length key \<noteq> 32
       then Inl (''APP_ENCRYPTION_KEY_B64 must decode to 32 bytes (got '' @ nat_digits (length key) @ '')'')
       else Inr key)"

text \<open>\<open>crypto.randomBytes(n)\<close> reads the next bytes of a source of randomness.\<close>

type_synonym source = "nat \<Rightarrow> byte"

definition randomBytes :: "source \<Rightarrow> nat \<Rightarrow> byte list" where
  "randomBytes src n = map src [0..<n]"

definition encrypt :: "env \<Rightarrow> source \<Rightarrow> string \<Rightarrow> string + string" where
  "encrypt e src plain = (case getKey e of Inl m \<Rightarrow> Inl m
   | Inr key \<Rightarrow> let iv = randomBytes src 12; (tag, enc) = seal e key iv plain in Inr (b64_encode (iv @ tag @ enc)))"

definition decrypt :: "env \<Rightarrow> string \<Rightarrow> string + string" where
  "decrypt e b64 = (case getKey e of Inl m \<Rightarrow> Inl m
   | Inr key \<Rightarrow> let buf = b64_decode b64; iv = take 12 buf; tag = take 16 (drop 12 buf); enc = drop 28 buf
       in unseal e key iv tag enc)"

text \<open>What Node's documentation says of the cipher: a 16 byte tag, and what was sealed opens.\<close>

definition cipher_laws :: "env \<Rightarrow> bool" where
  "cipher_laws e \<longleftrightarrow> (\<forall>key iv p. length (fst (seal e key iv p)) = 16
     \<and> (length key = 32 \<and> length iv = 12 \<longrightarrow>
          unseal e key iv (fst (seal e key iv p)) (snd (seal e key iv p)) = Inr p))"

lemma decrypt_encrypt:
  assumes "cipher_laws e" and "encrypt e src p = Inr c"
  shows "decrypt e c = Inr p"
proof -
  obtain key where key: "getKey e = Inr key" using assms(2) by (cases "getKey e") (auto simp: encrypt_def)
  then have "length key = 32" by (auto simp: getKey_def Let_def split: if_splits)
  moreover define iv where "iv = randomBytes src 12"
  moreover have "length iv = 12" by (simp add: iv_def randomBytes_def)
  moreover obtain tag enc where seal: "seal e key iv p = (tag, enc)" by force
  moreover from seal assms(1) have "length tag = 16"
    and "length key = 32 \<and> length iv = 12 \<Longrightarrow> unseal e key iv tag enc = Inr p"
    unfolding cipher_laws_def by (metis fst_conv snd_conv)+
  ultimately show ?thesis using assms(2) key by (auto simp: encrypt_def decrypt_def Let_def)
qed

lemma b64_encode_Nil: "b64_encode bs = [] \<longleftrightarrow> bs = []"
  by (cases bs rule: b64_sextets.cases) (auto simp: b64_encode_def)

lemma encrypt_nonempty: "encrypt e src p = Inr c \<Longrightarrow> c \<noteq> []"
  by (auto simp: encrypt_def randomBytes_def b64_encode_Nil Let_def case_prod_unfold split: sum.splits)

lemma encrypt_total: "getKey e = Inr key \<Longrightarrow> \<exists>c. encrypt e src p = Inr c"
  by (simp add: encrypt_def Let_def case_prod_unfold)

section \<open>The sessions table and the cookies of a request\<close>

record session_row =
  row_user :: string
  row_id_token :: string
  row_refresh :: "string option"
  row_exp :: int
  row_expires :: int

record cookie =
  c_value :: string
  c_httpOnly :: bool
  c_secure :: bool
  c_sameSite :: string
  c_path :: string
  c_expires :: "int option"
  c_maxAge :: "int option"

record server =
  db_sessions :: "(string, session_row) obj"
  cookies :: "(string, cookie) obj"

record session =
  sid :: string
  userId :: string
  idToken :: string
  refreshToken :: "string option"
  idTokenExp :: int

abbreviation COOKIE :: string where
  "COOKIE \<equiv> ''kbp_sid''"

definition cookie_value :: "server \<Rightarrow> string \<Rightarrow> string option" where
  "cookie_value s name = map_option c_value (oget (cookies s) name)"

definition delete_session :: "server \<Rightarrow> string \<Rightarrow> server" where
  "delete_session s i = s\<lparr>db_sessions := odel (db_sessions s) i\<rparr>"

text \<open>Encrypting the pair of tokens, in the order the parameters are evaluated.\<close>

definition encrypt_tokens :: "env \<Rightarrow> source \<times> source \<Rightarrow> string \<Rightarrow> string option \<Rightarrow> string + string \<times> string option" where
  "encrypt_tokens e srcs idTok refresh = (case encrypt e (fst srcs) idTok of Inl m \<Rightarrow> Inl m
   | Inr a \<Rightarrow> if truthy_str refresh
       then (case encrypt e (snd srcs) (the refresh) of Inl m \<Rightarrow> Inl m | Inr b \<Rightarrow> Inr (a, Some b))
       else Inr (a, None))"

definition createSession :: "env \<Rightarrow> int \<Rightarrow> string \<Rightarrow> source \<times> source \<Rightarrow> string \<Rightarrow> string
    \<Rightarrow> string option \<Rightarrow> int \<Rightarrow> server \<Rightarrow> server \<times> (string + unit)" where
  "createSession e now uuid srcs user idTok refresh tokExp s =
     (let expiresAt = now + 24 * 3600 * 1000 in
      case encrypt_tokens e srcs idTok refresh of Inl m \<Rightarrow> (s, Inl m)
      | Inr (a, b) \<Rightarrow>
         if oget (db_sessions s) uuid \<noteq> None then (s, Inl ''duplicate key'')
         else (s\<lparr>db_sessions := oset (db_sessions s) uuid
                   \<lparr>row_user = user, row_id_token = a, row_refresh = b, row_exp = tokExp, row_expires = expiresAt\<rparr>,
                 cookies := oset (cookies s) COOKIE
                   \<lparr>c_value = uuid, c_httpOnly = True, c_secure = production e, c_sameSite = ''lax'',
                    c_path = ''/'', c_expires = Some expiresAt, c_maxAge = None\<rparr>\<rparr>, Inr ()))"

definition row_session :: "env \<Rightarrow> string \<Rightarrow> session_row \<Rightarrow> string + session" where
  "row_session e i r = (case decrypt e (row_id_token r) of Inl m \<Rightarrow> Inl m
   | Inr tok \<Rightarrow>
      if truthy_str (row_refresh r)
      then (case decrypt e (the (row_refresh r)) of Inl m \<Rightarrow> Inl m
            | Inr ref \<Rightarrow> Inr \<lparr>sid = i, userId = row_user r, idToken = tok, refreshToken = Some ref, idTokenExp = row_exp r\<rparr>)
      else Inr \<lparr>sid = i, userId = row_user r, idToken = tok, refreshToken = None, idTokenExp = row_exp r\<rparr>)"

definition getSession :: "env \<Rightarrow> int \<Rightarrow> server \<Rightarrow> server \<times> session option" where
  "getSession e db_now s =
     (if \<not> truthy_str (cookie_value s COOKIE) then (s, None)
      else let i = the (cookie_value s COOKIE) in
       case oget (db_sessions s) i of None \<Rightarrow> (s, None)
       | Some r \<Rightarrow>
          if row_expires r \<le> db_now then (s, None)
          else (case row_session e i r of Inr ss \<Rightarrow> (s, Some ss)
                | Inl m \<Rightarrow> (delete_session s i, None)))"

definition updateSessionTokens :: "env \<Rightarrow> source \<times> source \<Rightarrow> string \<Rightarrow> string \<Rightarrow> string option \<Rightarrow> int
    \<Rightarrow> server \<Rightarrow> server \<times> (string + unit)" where
  "updateSessionTokens e srcs i idTok refresh tokExp s =
     (case encrypt_tokens e srcs idTok refresh of Inl m \<Rightarrow> (s, Inl m)
      | Inr (a, b) \<Rightarrow>
         (case oget (db_sessions s) i of None \<Rightarrow> (s, Inr ())
          | Some r \<Rightarrow> (s\<lparr>db_sessions := oset (db_sessions s) i
               (r\<lparr>row_id_token := a, row_refresh := b, row_exp := tokExp\<rparr>)\<rparr>, Inr ())))"

definition destroySession :: "server \<Rightarrow> server" where
  "destroySession s =
     (let s' = (if truthy_str (cookie_value s COOKIE) then delete_session s (the (cookie_value s COOKIE)) else s)
      in s'\<lparr>cookies := odel (cookies s') COOKIE\<rparr>)"

section \<open>Refreshing\<close>

text \<open>What the token endpoint answers; the lifetime is in seconds.\<close>

record tokens =
  t_id_token :: "string option"
  t_refresh_token :: "string option"
  t_expiresIn :: "nat option"

definition token_exp :: "int \<Rightarrow> tokens \<Rightarrow> int" where
  "token_exp now t = (case t_expiresIn t of
     Some n \<Rightarrow> if n = 0 then now + 3600 * 1000 else now + int n * 1000
   | None \<Rightarrow> now + 3600 * 1000)"

definition getValidToken :: "env \<Rightarrow> int \<Rightarrow> source \<times> source \<Rightarrow> (string \<Rightarrow> string + tokens)
    \<Rightarrow> session \<Rightarrow> server \<Rightarrow> server \<times> string option" where
  "getValidToken e now srcs refreshTokenGrant ss s =
     (if idTokenExp ss > now + 60000 then (s, Some (idToken ss))
      else if \<not> truthy_str (refreshToken ss) then (s, None)
      else case refreshTokenGrant (the (refreshToken ss)) of
        Inl m \<Rightarrow> (delete_session s (sid ss), None)
      | Inr t \<Rightarrow>
         if \<not> truthy_str (t_id_token t) then (s, None)
         else (case updateSessionTokens e srcs (sid ss) (the (t_id_token t))
                 (Some (nullish (t_refresh_token t) (the (refreshToken ss)))) (token_exp now t) s of
             (s', Inr _) \<Rightarrow> (s', t_id_token t)
           | (s', Inl m) \<Rightarrow> (delete_session s' (sid ss), None)))"

text \<open>
  A keyed store in the table: the queries of this file select, insert or update, and delete one row
  by its primary key.
\<close>

definition find_row :: "server \<Rightarrow> string \<Rightarrow> session_row option" where
  "find_row s i = oget (db_sessions s) i"

definition put_row :: "server \<Rightarrow> string \<Rightarrow> session_row \<Rightarrow> server" where
  "put_row s i r = s\<lparr>db_sessions := oset (db_sessions s) i r\<rparr>"

definition table_ok :: "server \<Rightarrow> bool" where
  "table_ok s \<longleftrightarrow> obj_ok (db_sessions s)"

interpretation tab: keyed_store find_row put_row delete_session table_ok
  by unfold_locales (auto simp: find_row_def put_row_def delete_session_def table_ok_def intro: obj_intros)

section \<open>What a request may rely on\<close>

definition valid_env :: "env \<Rightarrow> bool" where
  "valid_env e \<longleftrightarrow> cipher_laws e \<and> (\<exists>key. getKey e = Inr key)"

text \<open>\<open>r ? x : undefined\<close> on a refresh token: the empty string counts as none.\<close>

definition nonempty :: "string option \<Rightarrow> string option" where
  "nonempty r = (if truthy_str r then r else None)"

lemma encrypt_tokens_readable:
  assumes "valid_env e"
  shows "\<exists>a b. encrypt_tokens e srcs idTok refresh = Inr (a, b) \<and>
     (\<forall>i u x y. row_session e i \<lparr>row_user = u, row_id_token = a, row_refresh = b, row_exp = x, row_expires = y\<rparr>
        = Inr \<lparr>sid = i, userId = u, idToken = idTok, refreshToken = nonempty refresh, idTokenExp = x\<rparr>)"
proof -
  from assms obtain key where k: "getKey e = Inr key" and laws: "cipher_laws e"
    by (auto simp: valid_env_def)
  obtain a where a: "encrypt e (fst srcs) idTok = Inr a" using encrypt_total [OF k] by blast
  obtain b where b: "encrypt e (snd srcs) (the refresh) = Inr b" using encrypt_total [OF k] by blast
  from decrypt_encrypt [OF laws a] decrypt_encrypt [OF laws b] a b encrypt_nonempty [OF b]
  show ?thesis
    by (cases refresh) (auto simp: encrypt_tokens_def row_session_def nonempty_def)
qed

text \<open>A request of a signed-in user, as \<open>lib/api-server.ts\<close> and the \<open>/api/v1\<close> route make it: the session, then
  its token.\<close>

definition session_token :: "env \<Rightarrow> int \<Rightarrow> int \<Rightarrow> source \<times> source \<Rightarrow> (string \<Rightarrow> string + tokens)
    \<Rightarrow> server \<Rightarrow> server \<times> string option" where
  "session_token e db_now now srcs grant s = (case getSession e db_now s of
     (s', None) \<Rightarrow> (s', None)
   | (s', Some ss) \<Rightarrow> getValidToken e now srcs grant ss s')"

definition readable :: "env \<Rightarrow> server \<Rightarrow> bool" where
  "readable e s \<longleftrightarrow> (\<forall>i r. find_row s i = Some r \<longrightarrow> (\<exists>ss. row_session e i r = Inr ss))"

lemma row_session_parts [simp]:
  "row_session e i r = Inr ss \<Longrightarrow> sid ss = i \<and> idTokenExp ss = row_exp r \<and> userId ss = row_user r"
  by (auto simp: row_session_def split: sum.splits if_splits)

lemma row_session_cong:
  "row_session e i (r\<lparr>row_id_token := a, row_refresh := b, row_exp := x\<rparr>) =
     row_session e i \<lparr>row_user = row_user r, row_id_token = a, row_refresh = b, row_exp = x, row_expires = row_expires r\<rparr>"
  by (cases r) (simp add: row_session_def)

lemma find_row_simps [simp]:
  "find_row (put_row s i r) j = (if j = i then Some r else find_row s j)"
  "find_row (delete_session s i) j = (if j = i then None else find_row s j)"
  "find_row (s\<lparr>cookies := jar\<rparr>) j = find_row s j"
  by (simp_all add: find_row_def put_row_def delete_session_def)

text \<open>What creating and updating do to the table under a valid environment.\<close>

lemma createSession_valid:
  assumes "valid_env e" and "find_row s i = None"
  shows "\<exists>s1 r. createSession e now i srcs user tok refresh x s = (s1, Inr ())
    \<and> (\<forall>j. find_row s1 j = find_row (put_row s i r) j) \<and> table_ok s1 = table_ok (put_row s i r)
    \<and> cookie_value s1 COOKIE = Some i \<and> row_expires r = now + 24 * 3600 * 1000
    \<and> row_session e i r = Inr \<lparr>sid = i, userId = user, idToken = tok, refreshToken = nonempty refresh, idTokenExp = x\<rparr>"
proof -
  from encrypt_tokens_readable [OF assms(1), of srcs tok refresh] obtain a b where
    ab: "encrypt_tokens e srcs tok refresh = Inr (a, b)" and
    rd: "\<And>i u x y. row_session e i \<lparr>row_user = u, row_id_token = a, row_refresh = b, row_exp = x, row_expires = y\<rparr>
        = Inr \<lparr>sid = i, userId = u, idToken = tok, refreshToken = nonempty refresh, idTokenExp = x\<rparr>" by blast
  define r where "r = \<lparr>row_user = user, row_id_token = a, row_refresh = b, row_exp = x,
      row_expires = now + 24 * 3600 * 1000\<rparr>"
  define s1 where "s1 = s\<lparr>db_sessions := oset (db_sessions s) i r,
      cookies := oset (cookies s) COOKIE \<lparr>c_value = i, c_httpOnly = True, c_secure = production e,
        c_sameSite = ''lax'', c_path = ''/'', c_expires = Some (now + 24 * 3600 * 1000), c_maxAge = None\<rparr>\<rparr>"
  have "createSession e now i srcs user tok refresh x s = (s1, Inr ())"
    using assms(2) by (simp add: createSession_def ab find_row_def s1_def r_def Let_def)
  then show ?thesis
    by (intro exI [of _ s1] exI [of _ r])
      (simp add: s1_def find_row_def put_row_def table_ok_def cookie_value_def, simp add: r_def rd)
qed

lemma updateSessionTokens_valid:
  assumes "valid_env e" and "find_row s i = Some r"
  shows "\<exists>r'. updateSessionTokens e srcs i tok refresh x s = (put_row s i r', Inr ())
    \<and> row_expires r' = row_expires r
    \<and> row_session e i r' = Inr \<lparr>sid = i, userId = row_user r, idToken = tok, refreshToken = nonempty refresh, idTokenExp = x\<rparr>"
proof -
  from encrypt_tokens_readable [OF assms(1), of srcs tok refresh] obtain a b where
    ab: "encrypt_tokens e srcs tok refresh = Inr (a, b)" and
    rd: "\<And>i u x y. row_session e i \<lparr>row_user = u, row_id_token = a, row_refresh = b, row_exp = x, row_expires = y\<rparr>
        = Inr \<lparr>sid = i, userId = u, idToken = tok, refreshToken = nonempty refresh, idTokenExp = x\<rparr>" by blast
  show ?thesis
    by (rule exI [of _ "r\<lparr>row_id_token := a, row_refresh := b, row_exp := x\<rparr>"])
      (use assms(2) in \<open>simp add: updateSessionTokens_def ab put_row_def find_row_def row_session_cong rd\<close>)
qed

lemma updateSessionTokens_absent:
  assumes "valid_env e" and "find_row s i = None"
  shows "updateSessionTokens e srcs i tok refresh x s = (s, Inr ())"
  using encrypt_tokens_readable [OF assms(1), of srcs tok refresh] assms(2)
  by (auto simp: updateSessionTokens_def find_row_def)

lemma getSession_cases:
  "getSession e t s =
     (case cookie_value s COOKIE of None \<Rightarrow> (s, None)
      | Some i \<Rightarrow> if i = [] then (s, None) else
         (case find_row s i of None \<Rightarrow> (s, None)
          | Some r \<Rightarrow> if row_expires r \<le> t then (s, None) else
             (case row_session e i r of Inr ss \<Rightarrow> (s, Some ss) | Inl m \<Rightarrow> (delete_session s i, None))))"
  by (auto simp: getSession_def find_row_def split: option.split)

text \<open>Property C11: a session lasts 24 hours from sign-in, whatever is in its tokens. Creating it under
  a fresh id stores it and sets the cookie; every request that carries the cookie gets back the user,
  the tokens and their expiry as they were given (an empty refresh token as none) until 24 hours have
  passed and nothing afterwards, without changing the table; signing out removes that row, and
  no step touches another row.\<close>

theorem session_life:
  assumes "valid_env e" and "find_row s i = None" and "i \<noteq> []"
  shows "\<exists>s1. createSession e now i srcs user tok refresh x s = (s1, Inr ())
    \<and> (\<forall>jar t. map_option c_value (oget jar COOKIE) = Some i \<longrightarrow>
         getSession e t (s1\<lparr>cookies := jar\<rparr>) = (s1\<lparr>cookies := jar\<rparr>,
           if t < now + 24 * 3600 * 1000
           then Some \<lparr>sid = i, userId = user, idToken = tok, refreshToken = nonempty refresh, idTokenExp = x\<rparr>
           else None))
    \<and> find_row (destroySession s1) i = None \<and> cookie_value (destroySession s1) COOKIE = None
    \<and> (\<forall>j. j \<noteq> i \<longrightarrow> find_row s1 j = find_row s j \<and> find_row (destroySession s1) j = find_row s j)"
proof -
  from createSession_valid [OF assms(1,2)] obtain s1 r where
    s1: "createSession e now i srcs user tok refresh x s = (s1, Inr ())"
      "\<And>j. find_row s1 j = find_row (put_row s i r) j" "cookie_value s1 COOKIE = Some i"
      "row_expires r = now + 24 * 3600 * 1000" and
    rd: "row_session e i r = Inr \<lparr>sid = i, userId = user, idToken = tok, refreshToken = nonempty refresh, idTokenExp = x\<rparr>"
    by blast
  have row: "find_row s1 j = (if j = i then Some r else find_row s j)" for j
    by (simp add: s1(2))
  have load: "getSession e t (s1\<lparr>cookies := jar\<rparr>) = (s1\<lparr>cookies := jar\<rparr>,
        if t < now + 24 * 3600 * 1000
        then Some \<lparr>sid = i, userId = user, idToken = tok, refreshToken = nonempty refresh, idTokenExp = x\<rparr>
        else None)" if "map_option c_value (oget jar COOKIE) = Some i" for jar t
  proof -
    have "cookie_value (s1\<lparr>cookies := jar\<rparr>) COOKIE = Some i" using that by (simp add: cookie_value_def)
    then show ?thesis using assms(3) s1(4) by (simp add: getSession_cases row rd)
  qed
  have out: "find_row (destroySession s1) j = (if j = i then None else find_row s j)" for j
    using s1(3) assms(3) by (simp add: destroySession_def row Let_def)
  have "cookie_value (destroySession s1) COOKIE = None"
    by (simp add: destroySession_def cookie_value_def Let_def)
  with s1(1) load out row show ?thesis by (intro exI [of _ s1]) simp
qed

section \<open>Tokens\<close>

text \<open>A live session: the cookie names a row that has not expired and whose tokens can be read.\<close>

definition live :: "env \<Rightarrow> int \<Rightarrow> server \<Rightarrow> session \<Rightarrow> bool" where
  "live e t s ss \<longleftrightarrow> (case cookie_value s COOKIE of None \<Rightarrow> False | Some i \<Rightarrow> i \<noteq> [] \<and>
     (case find_row s i of None \<Rightarrow> False | Some r \<Rightarrow> t < row_expires r \<and> row_session e i r = Inr ss))"

lemma live_getSession: "live e t s ss \<Longrightarrow> getSession e t s = (s, Some ss)"
  by (auto simp: live_def getSession_cases split: option.splits)

lemma getSession_live: "getSession e t s = (s', Some ss) \<Longrightarrow> s' = s \<and> live e t s ss"
  by (auto simp: live_def getSession_cases split: option.splits if_splits sum.splits)

definition grants :: "(string \<Rightarrow> string + tokens) \<Rightarrow> session \<Rightarrow> tokens \<Rightarrow> bool" where
  "grants grant ss tk \<longleftrightarrow> truthy_str (refreshToken ss) \<and> grant (the (refreshToken ss)) = Inr tk \<and> truthy_str (t_id_token tk)"

definition renewed :: "int \<Rightarrow> tokens \<Rightarrow> session \<Rightarrow> session" where
  "renewed now tk ss = ss\<lparr>idToken := the (t_id_token tk),
     refreshToken := nonempty (Some (nullish (t_refresh_token tk) (the (refreshToken ss)))),
     idTokenExp := token_exp now tk\<rparr>"

lemma getValidToken_renews:
  assumes "valid_env e" and "live e t s ss" and "idTokenExp ss \<le> now + 60000" and "grants grant ss tk"
  shows "\<exists>r'. getValidToken e now srcs grant ss s = (put_row s (sid ss) r', t_id_token tk)
    \<and> live e t (put_row s (sid ss) r') (renewed now tk ss)
    \<and> (\<forall>t' r. find_row s (sid ss) = Some r \<longrightarrow> (live e t' (put_row s (sid ss) r') (renewed now tk ss) \<longleftrightarrow> t' < row_expires r))"
proof -
  from assms(2) obtain i r where i: "cookie_value s COOKIE = Some i" "i \<noteq> []" "find_row s i = Some r"
    "t < row_expires r" "row_session e i r = Inr ss" by (auto simp: live_def split: option.splits)
  from i(5) have sid: "sid ss = i" "userId ss = row_user r" by simp_all
  from updateSessionTokens_valid [OF assms(1) i(3), of srcs "the (t_id_token tk)"
      "Some (nullish (t_refresh_token tk) (the (refreshToken ss)))" "token_exp now tk"]
  obtain r' where r': "updateSessionTokens e srcs i (the (t_id_token tk))
      (Some (nullish (t_refresh_token tk) (the (refreshToken ss)))) (token_exp now tk) s = (put_row s i r', Inr ())"
    "row_expires r' = row_expires r" and rd: "row_session e i r' = Inr (renewed now tk ss)"
    by (auto simp: renewed_def sid [symmetric])
  have jar: "cookie_value (put_row s i r') COOKIE = Some i" using i(1) by (simp add: cookie_value_def put_row_def)
  have live: "live e t' (put_row s i r') (renewed now tk ss) \<longleftrightarrow> t' < row_expires r" for t'
    using jar i(2) rd r'(2) by (simp add: live_def)
  show ?thesis
    by (rule exI [of _ r']) (use assms(3,4) i r'(1) live in \<open>simp add: getValidToken_def grants_def sid\<close>)
qed


text \<open>Property C40: two requests of one session that both find the token about to expire end the
  session when refresh tokens can be used only once. Both load the session, the first renews it, the
  endpoint then refuses the used refresh token to the second, and the second deletes the row with the
  tokens the first has just stored: it gets no token, and the user is signed out.\<close>

theorem refresh_race_signs_out:
  assumes "valid_env e" and "live e t s ss" and "idTokenExp ss \<le> now + 60000"
    and "grants grant ss tk" and "grant' (the (refreshToken ss)) = Inl m"
  shows "\<exists>s1 s2. getSession e t s = (s, Some ss)
    \<and> getValidToken e now srcs grant ss s = (s1, t_id_token tk)
    \<and> getSession e t s1 = (s1, Some (renewed now tk ss))
    \<and> getValidToken e now srcs' grant' ss s1 = (s2, None)
    \<and> find_row s2 (sid ss) = None \<and> getSession e t s2 = (s2, None)"
proof -
  from getValidToken_renews [OF assms(1-4), of srcs] obtain r' where
    r': "getValidToken e now srcs grant ss s = (put_row s (sid ss) r', t_id_token tk)"
    and lv: "live e t (put_row s (sid ss) r') (renewed now tk ss)" by blast
  from assms(2) have jar: "cookie_value s COOKIE = Some (sid ss)"
    by (auto simp: live_def split: option.splits)
  define s1 where "s1 = put_row s (sid ss) r'"
  have second: "getValidToken e now srcs' grant' ss s1 = (delete_session s1 (sid ss), None)"
    using assms(3-5) by (simp add: getValidToken_def grants_def)
  have "cookie_value (delete_session s1 (sid ss)) COOKIE = Some (sid ss)"
    using jar by (simp add: s1_def cookie_value_def delete_session_def put_row_def)
  then have "getSession e t (delete_session s1 (sid ss)) = (delete_session s1 (sid ss), None)"
    by (simp add: getSession_cases)
  with r' second live_getSession [OF assms(2)] live_getSession [OF lv] show ?thesis
    by (intro exI [of _ s1] exI [of _ "delete_session s1 (sid ss)"]) (simp add: s1_def)
qed

section \<open>Any sequence of requests\<close>

text \<open>
  What changes the state: signing in (under a new id), a request arriving with its cookies, loading
  the session, loading it and asking for its token, and signing out.
\<close>

datatype event =
    SignIn int string "source \<times> source" string string "string option" int
  | Arrive "(string, cookie) obj"
  | Load int
  | UseToken int int "source \<times> source" "string \<Rightarrow> string + tokens"
  | SignOut

fun handle :: "env \<Rightarrow> server \<Rightarrow> event \<Rightarrow> server" where
  "handle e s (SignIn now i srcs user tok refresh x) = fst (createSession e now i srcs user tok refresh x s)"
| "handle e s (Arrive jar) = s\<lparr>cookies := jar\<rparr>"
| "handle e s (Load t) = fst (getSession e t s)"
| "handle e s (UseToken t now srcs grant) = fst (session_token e t now srcs grant s)"
| "handle e s SignOut = destroySession s"

definition table_inv :: "env \<Rightarrow> server \<Rightarrow> bool" where
  "table_inv e s \<longleftrightarrow> table_ok s \<and> readable e s"

lemma table_inv_put: "table_inv e s \<Longrightarrow> row_session e i r = Inr ss \<Longrightarrow> table_inv e (put_row s i r)"
  by (auto simp: table_inv_def readable_def intro: tab.ok_put)

lemma table_inv_delete: "table_inv e s \<Longrightarrow> table_inv e (delete_session s i)"
  by (auto simp: table_inv_def readable_def intro: tab.ok_del)

lemma table_inv_cong: "table_inv e s \<Longrightarrow> (\<And>j. find_row s' j = find_row s j) \<Longrightarrow> table_ok s' = table_ok s \<Longrightarrow> table_inv e s'"
  by (simp add: table_inv_def readable_def)

lemma readable_getSession: "readable e s \<Longrightarrow> fst (getSession e t s) = s"
  by (force simp: readable_def getSession_cases split: option.split sum.split)

lemma table_inv_getValidToken:
  assumes "valid_env e" and "table_inv e s"
  shows "table_inv e (fst (getValidToken e now srcs grant ss s))"
proof -
  have "table_inv e (fst (updateSessionTokens e srcs i tok refresh x s))" for i tok refresh x
  proof (cases "find_row s i")
    case None
    then show ?thesis using updateSessionTokens_absent [OF assms(1)] assms(2) by simp
  next
    case (Some r)
    from updateSessionTokens_valid [OF assms(1) Some, of srcs tok refresh x] obtain r' ss where
      "updateSessionTokens e srcs i tok refresh x s = (put_row s i r', Inr ())" "row_session e i r' = Inr ss"
      by blast
    then show ?thesis using table_inv_put [OF assms(2)] by simp
  qed
  then have upd: "table_inv e s'" if "updateSessionTokens e srcs i tok refresh x s = (s', res)" for i tok refresh x s' res
    using that by (metis fst_conv)
  show ?thesis
    using assms(2) by (auto simp: getValidToken_def split: sum.split prod.split intro: table_inv_delete upd)
qed

lemma table_inv_handle:
  assumes "valid_env e" and "table_inv e s"
  shows "table_inv e (handle e s ev)"
proof (cases ev)
  case (SignIn now i srcs user tok refresh x)
  show ?thesis
  proof (cases "find_row s i")
    case None
    from createSession_valid [OF assms(1) None, of now srcs user tok refresh x] obtain s1 r ss where
      *: "createSession e now i srcs user tok refresh x s = (s1, Inr ())"
      "\<forall>j. find_row s1 j = find_row (put_row s i r) j" "table_ok s1 = table_ok (put_row s i r)"
      "row_session e i r = Inr ss" by blast
    with table_inv_cong [OF table_inv_put [OF assms(2) *(4)], of s1] SignIn show ?thesis by simp
  next
    case (Some r)
    then have "createSession e now i srcs user tok refresh x s =
        (s, snd (createSession e now i srcs user tok refresh x s))"
      by (simp add: createSession_def find_row_def Let_def split: sum.split)
    then show ?thesis using SignIn assms(2) by (metis fst_conv handle.simps(1))
  qed
next
  case (Arrive jar)
  then show ?thesis using table_inv_cong [OF assms(2), of "s\<lparr>cookies := jar\<rparr>"] by (simp add: table_ok_def)
next
  case (Load t)
  then show ?thesis using assms(2) by (simp add: table_inv_def readable_getSession)
next
  case (UseToken t now srcs grant)
  have "fst (getSession e t s) = s" using assms(2) by (simp add: table_inv_def readable_getSession)
  with UseToken assms(2) table_inv_getValidToken [OF assms] show ?thesis
    by (cases "getSession e t s") (auto simp: session_token_def split: option.split)
next
  case SignOut
  have "table_inv e (s'\<lparr>cookies := jar\<rparr>)" if "table_inv e s'" for s' jar
    using table_inv_cong [OF that, of "s'\<lparr>cookies := jar\<rparr>"] by (simp add: table_ok_def)
  with SignOut assms(2) table_inv_delete [OF assms(2)] show ?thesis by (simp add: destroySession_def Let_def)
qed

interpretation srv: event_component "handle e" "\<lambda>s. valid_env e \<longrightarrow> table_inv e s" for e
  by unfold_locales (use table_inv_handle in blast)

text \<open>Property C36: while the encryption key stays the same no session is lost by being loaded. From a
  table whose rows can be read, after any requests in any order every row can still be read, so
  loading a session leaves the table as it is and gives exactly the live session of its cookie.\<close>

theorem sessions_stay_readable:
  assumes "valid_env e" and "table_inv e s"
  shows "table_inv e (foldl (handle e) s evs)
    \<and> fst (getSession e t (foldl (handle e) s evs)) = foldl (handle e) s evs
    \<and> (snd (getSession e t (foldl (handle e) s evs)) = Some ss \<longleftrightarrow> live e t (foldl (handle e) s evs) ss)"
proof -
  have inv: "table_inv e (foldl (handle e) s evs)" using srv.run_inv [of e s evs] assms by blast
  then have "fst (getSession e t (foldl (handle e) s evs)) = foldl (handle e) s evs"
    by (simp add: table_inv_def readable_getSession)
  with inv show ?thesis using live_getSession getSession_live by (metis prod.collapse snd_conv)
qed

text \<open>A session whose tokens cannot be read (tampered with, or stored under another key) is
  ended by the first request that uses it: the request gets no session and no token, its row
  is deleted and all other rows stay. A missing or malformed key has the same effect.\<close>

lemma unreadable_session_deleted:
  assumes "cookie_value s COOKIE = Some i" and "i \<noteq> []" and "find_row s i = Some r"
    and "t < row_expires r" and "decrypt e (row_id_token r) = Inl m \<or> getKey e = Inl m"
  shows "getSession e t s = (delete_session s i, None)
    \<and> (\<forall>j. j \<noteq> i \<longrightarrow> find_row (delete_session s i) j = find_row s j)
    \<and> session_token e t now srcs grant s = (delete_session s i, None)"
proof -
  have "\<exists>m. row_session e i r = Inl m" using assms(5) by (auto simp: row_session_def decrypt_def)
  then have "getSession e t s = (delete_session s i, None)"
    using assms(1-4) by (auto simp: getSession_cases)
  then show ?thesis by (simp add: session_token_def)
qed

section \<open>Concrete instances\<close>

text \<open>A cipher that satisfies the laws without hiding anything, and a key of 32 bytes.\<close>

definition demo_env :: env where
  "demo_env = \<lparr>app_key = Some (b64_encode (replicate 32 7)), production = True,
     seal = (\<lambda>key iv p. (replicate 16 0, map (\<lambda>c. word_of_nat (of_char c)) p)),
     unseal = (\<lambda>key iv tag enc. Inr (map (\<lambda>b. char_of (unat b)) enc))\<rparr>"

lemma demo_env_valid: "valid_env demo_env"
proof -
  have "b64_encode (replicate 32 7) \<noteq> []" by (simp add: b64_encode_Nil)
  then show ?thesis
    by (simp add: valid_env_def cipher_laws_def demo_env_def getKey_def comp_def unat_of_nat)
qed

definition no_server :: server where
  "no_server = \<lparr>db_sessions = [], cookies = []\<rparr>"

definition zeros :: source where
  "zeros = (\<lambda>_. 0)"

lemma session_life_witness:
  "\<exists>s1. createSession demo_env 0 ''s1'' (zeros, zeros) ''u1'' ''tok'' (Some ''ref'') 3600000 no_server = (s1, Inr ())
    \<and> find_row (destroySession s1) ''s1'' = None"
  using session_life [OF demo_env_valid, of no_server "''s1''" 0 "(zeros, zeros)" "''u1''" "''tok''" "Some ''ref''" 3600000]
  by (auto simp: no_server_def find_row_def)

definition demo_server :: server where
  "demo_server = fst (createSession demo_env 0 ''s1'' (zeros, zeros) ''u1'' ''tok'' (Some ''ref'') 30000 no_server)"

definition demo_session :: session where
  "demo_session = \<lparr>sid = ''s1'', userId = ''u1'', idToken = ''tok'', refreshToken = Some ''ref'', idTokenExp = 30000\<rparr>"

definition demo_tokens :: tokens where
  "demo_tokens = \<lparr>t_id_token = Some ''tok2'', t_refresh_token = Some ''ref2'', t_expiresIn = Some 900\<rparr>"

lemma demo_live: "live demo_env 1000 demo_server demo_session"
proof -
  have "find_row no_server ''s1'' = None" by (simp add: no_server_def find_row_def)
  from createSession_valid [OF demo_env_valid this, of 0 "(zeros, zeros)" "''u1''" "''tok''" "Some ''ref''" 30000]
  show ?thesis by (auto simp: live_def demo_server_def demo_session_def nonempty_def)
qed

lemma demo_grants: "grants (\<lambda>_. Inr demo_tokens) demo_session demo_tokens"
  by (simp add: grants_def demo_session_def demo_tokens_def)


lemma refresh_race_signs_out_witness:
  "\<exists>s1 s2. getValidToken demo_env 1000 (zeros, zeros) (\<lambda>_. Inr demo_tokens) demo_session demo_server = (s1, Some ''tok2'')
    \<and> getValidToken demo_env 1000 (zeros, zeros) (\<lambda>_. Inl ''invalid_grant'') demo_session s1 = (s2, None)
    \<and> getSession demo_env 1000 s2 = (s2, None)"
  using refresh_race_signs_out [OF demo_env_valid demo_live _ demo_grants, of 1000 "\<lambda>_. Inl ''invalid_grant''"
      "''invalid_grant''" "(zeros, zeros)" "(zeros, zeros)"]
  by (auto simp: demo_session_def demo_tokens_def)

lemma no_server_inv: "table_inv demo_env no_server"
  by (simp add: table_inv_def table_ok_def readable_def no_server_def find_row_def)

lemma sessions_stay_readable_witness:
  "table_inv demo_env (foldl (handle demo_env) no_server
     [SignIn 0 ''s1'' (zeros, zeros) ''u1'' ''tok'' None 30000, Load 10, SignOut])"
  using sessions_stay_readable [OF demo_env_valid no_server_inv] by blast

lemma unreadable_session_deleted_witness:
  "getSession (demo_env\<lparr>app_key := None\<rparr>) 1000 demo_server = (delete_session demo_server ''s1'', None)"
proof -
  from demo_live obtain r where "cookie_value demo_server COOKIE = Some ''s1''" "find_row demo_server ''s1'' = Some r"
    "1000 < row_expires r"
    by (auto simp: live_def demo_session_def split: option.splits dest!: row_session_parts)
  from unreadable_session_deleted [OF this(1) _ this(2,3), of "demo_env\<lparr>app_key := None\<rparr>"
      "''APP_ENCRYPTION_KEY_B64 is not set''"]
  show ?thesis by (simp add: getKey_def)
qed

end
