(* ===== verification/Server_Routes.thy ===== *)
theory Server_Routes
  imports Session
begin

text \<open>
  The server side routes of the front end: the cookie check \<open>frontend/proxy.ts\<close>, signing in and out
  (\<open>app/api/auth/login|callback|logout/route.ts\<close>), the proxy of the Go API
  (\<open>app/api/v1/[...path]/route.ts\<close>), \<open>lib/api-server.ts\<close> and \<open>lib/role.ts\<close>.

  Next.js, the OpenID client and \<open>JSON\<close> are not part of the repository: what the routes use of
  them is an argument of the definitions. URLs are texts; the query string keeps its question mark.
\<close>

section \<open>Replies\<close>

datatype reply =
    Reply (reply_status: nat) (reply_body: "string option") (reply_headers: "(string, string) obj")
  | Redirect (redirect_to: string)
  | Throw string

section \<open>Roles\<close>

datatype role = Admin | User

abbreviation ADMIN_GROUP :: string where
  "ADMIN_GROUP \<equiv> ''kuberport-admin''"

definition roleFromGroups :: "string list option \<Rightarrow> role" where
  "roleFromGroups groups = (case groups of None \<Rightarrow> User
   | Some gs \<Rightarrow> if gs = [] then User else if ADMIN_GROUP \<in> set gs then Admin else User)"

text \<open>Roles are ordered by what they may do; more groups never mean less.\<close>

instantiation role :: linorder
begin

definition less_eq_role :: "role \<Rightarrow> role \<Rightarrow> bool" where
  "less_eq_role r q \<longleftrightarrow> r = User \<or> q = Admin"

definition less_role :: "role \<Rightarrow> role \<Rightarrow> bool" where
  "less_role r q \<longleftrightarrow> r = User \<and> q = Admin"

instance
proof
  fix r q t :: role
  show "r < q \<longleftrightarrow> r \<le> q \<and> \<not> q \<le> r" by (cases r; cases q) (simp_all add: less_eq_role_def less_role_def)
  show "r \<le> r" by (cases r) (simp_all add: less_eq_role_def)
  show "r \<le> q \<Longrightarrow> q \<le> t \<Longrightarrow> r \<le> t" by (cases q) (auto simp: less_eq_role_def)
  show "r \<le> q \<Longrightarrow> q \<le> r \<Longrightarrow> r = q" by (cases r; cases q) (simp_all add: less_eq_role_def)
  show "r \<le> q \<or> q \<le> r" by (cases r; cases q) (simp_all add: less_eq_role_def)
qed

end

lemma roleFromGroups_mono: "set gs \<subseteq> set hs \<Longrightarrow> roleFromGroups (Some gs) \<le> roleFromGroups (Some hs)"
  by (auto simp: roleFromGroups_def less_eq_role_def)

section \<open>The cookie check\<close>

text \<open>The matcher \<open>/((?!api/auth|_next|favicon.ico|$).*)\<close>; a dot matches any character.\<close>

definition favicon_like :: "string \<Rightarrow> bool" where
  "favicon_like s \<longleftrightarrow> starts_with s ''favicon'' \<and> length s \<ge> 11 \<and> take 3 (drop 8 s) = ''ico''"

definition proxy_matches :: "string \<Rightarrow> bool" where
  "proxy_matches path \<longleftrightarrow> (case path of [] \<Rightarrow> False
   | c # rest \<Rightarrow> c = CHR ''/'' \<and> rest \<noteq> [] \<and> \<not> starts_with rest ''api/auth''
        \<and> \<not> starts_with rest ''_next'' \<and> \<not> favicon_like rest)"

text \<open>Pass the request on (\<^term>\<open>None\<close>) or redirect it.\<close>

definition cookie_proxy :: "string \<Rightarrow> server \<Rightarrow> reply option" where
  "cookie_proxy origin s =
     (if oget (cookies s) ''kbp_sid'' = None then Some (Redirect (origin @ ''/api/auth/login'')) else None)"

definition guard :: "string \<Rightarrow> string \<Rightarrow> server \<Rightarrow> reply option" where
  "guard origin path s = (if proxy_matches path then cookie_proxy origin s else None)"

section \<open>Signing in\<close>

abbreviation STATE_COOKIE :: string where
  "STATE_COOKIE \<equiv> ''kbp_oidc_state''"

text \<open>What is asked of the identity provider.\<close>

record auth_request =
  a_redirect_uri :: string
  a_scope :: string
  a_state :: string
  a_nonce :: string
  a_challenge :: string
  a_challenge_method :: string

record claims =
  c_sub :: string
  c_email :: "string option"
  c_name :: "string option"

record user_row =
  u_id :: string
  u_email :: "string option"
  u_name :: "string option"
  u_last_seen :: "int option"

text \<open>The sessions and cookies, and the \<open>users\<close> table by subject.\<close>

record bff =
  srv :: server
  users :: "(string, user_row) obj"

definition state_json :: "string \<Rightarrow> string \<Rightarrow> string \<Rightarrow> jsval" where
  "state_json st nonce verifier = JObj [(''state'', JStr st), (''nonce'', JStr nonce), (''verifier'', JStr verifier)]"

definition login :: "env \<Rightarrow> (jsval \<Rightarrow> string) \<Rightarrow> (string \<Rightarrow> string) \<Rightarrow> (auth_request \<Rightarrow> string) \<Rightarrow> string
    \<Rightarrow> string \<Rightarrow> string \<Rightarrow> string \<Rightarrow> bff \<Rightarrow> bff \<times> reply" where
  "login e stringify challenge authUrl redirect_uri st nonce verifier b =
     (let ck = \<lparr>c_value = stringify (state_json st nonce verifier), c_httpOnly = True, c_secure = production e,
                c_sameSite = ''lax'', c_path = ''/'', c_expires = None, c_maxAge = Some 600\<rparr>
      in (b\<lparr>srv := (srv b)\<lparr>cookies := oset (cookies (srv b)) STATE_COOKIE ck\<rparr>\<rparr>,
          Redirect (authUrl \<lparr>a_redirect_uri = redirect_uri, a_scope = ''openid email profile groups'', a_state = st,
            a_nonce = nonce, a_challenge = challenge verifier, a_challenge_method = ''S256''\<rparr>)))"

text \<open>The upsert gives the id of the row: the given fresh one, or the one already there.\<close>

definition upsert_user :: "int \<Rightarrow> string \<Rightarrow> claims \<Rightarrow> (string, user_row) obj \<Rightarrow> (string, user_row) obj \<times> string" where
  "upsert_user db_now new_id c us = (case oget us (c_sub c) of
     None \<Rightarrow> (oset us (c_sub c) \<lparr>u_id = new_id, u_email = c_email c, u_name = c_name c, u_last_seen = None\<rparr>, new_id)
   | Some u \<Rightarrow> (oset us (c_sub c) (u\<lparr>u_email := c_email c, u_name := c_name c, u_last_seen := Some db_now\<rparr>), u_id u))"

text \<open>The arguments of the code grant: the URL of the request, the verifier, state and nonce expected.\<close>

type_synonym code_grant = "string \<Rightarrow> jsval \<Rightarrow> jsval \<Rightarrow> jsval \<Rightarrow> string + tokens \<times> claims option"

definition callback :: "env \<Rightarrow> (string \<Rightarrow> string + jsval) \<Rightarrow> code_grant \<Rightarrow> int \<Rightarrow> int \<Rightarrow> string \<Rightarrow> string
    \<Rightarrow> source \<times> source \<Rightarrow> string \<Rightarrow> string \<Rightarrow> bff \<Rightarrow> bff \<times> reply" where
  "callback e parse codeGrant now db_now new_user uuid srcs origin url b =
     (let raw = cookie_value (srv b) STATE_COOKIE in
      if \<not> truthy_str raw then (b, Reply 400 (Some ''missing state'') [])
      else case parse (the raw) of
        Inl m \<Rightarrow> (b, Reply 400 (Some ''invalid state'') [])
      | Inr v \<Rightarrow>
         if v = JNull then (b, Throw ''Cannot destructure property'')
         else case codeGrant url (jfield v ''verifier'') (jfield v ''state'') (jfield v ''nonce'') of
           Inl m \<Rightarrow> (b, Throw m)
         | Inr (tk, cl) \<Rightarrow>
            if cl = None \<or> \<not> truthy_str (t_id_token tk)
            then (b, Reply 400 (Some ''missing id_token or claims'') [])
            else let (us, uid) = upsert_user db_now new_user (the cl) (users b);
                     (s', res) = createSession e now uuid srcs uid (the (t_id_token tk)) (t_refresh_token tk)
                                   (token_exp now tk) (srv b)
                 in case res of
                      Inl m \<Rightarrow> (b\<lparr>users := us, srv := s'\<rparr>, Throw m)
                    | Inr _ \<Rightarrow> (b\<lparr>users := us, srv := s'\<lparr>cookies := odel (cookies s') STATE_COOKIE\<rparr>\<rparr>,
                               Redirect (origin @ ''/catalog'')))"

definition logout :: "string option \<Rightarrow> string \<Rightarrow> server \<Rightarrow> server \<times> reply" where
  "logout origin_header origin s =
     (if truthy_str origin_header \<and> the origin_header \<noteq> origin
      then (s, Reply 403 (Some ''cross-origin request rejected'') [])
      else (destroySession s, Redirect (origin @ ''/'')))"

section \<open>The Go API\<close>

text \<open>Names of headers are kept in lower case, as \<open>Headers\<close> does.\<close>

record api_request =
  ar_url :: string
  ar_method :: http_method
  ar_headers :: "(string, string) obj"
  ar_body :: "string option"

datatype api_result = Upstream nat string "(string, string) obj" | Aborted | Failed string

definition bearer :: "string \<Rightarrow> string" where
  "bearer token = ''Bearer '' @ token"

text \<open>\<open>lib/api-server.ts\<close>: the headers a server component's request is sent with.\<close>

definition apiFetch_headers :: "(string, string) obj \<Rightarrow> string option \<Rightarrow> (string, string) obj" where
  "apiFetch_headers init token =
     ospread (ospread [] init) (if truthy_str token then [(''Authorization'', bearer (the token))] else [])"

definition apiFetch :: "env \<Rightarrow> int \<Rightarrow> int \<Rightarrow> source \<times> source \<Rightarrow> (string \<Rightarrow> string + tokens) \<Rightarrow> string \<Rightarrow> string
    \<Rightarrow> http_method \<Rightarrow> string option \<Rightarrow> (string, string) obj \<Rightarrow> server \<Rightarrow> server \<times> api_request" where
  "apiFetch e t now srcs grant base path meth body init s =
     (case session_token e t now srcs grant s of (s', token) \<Rightarrow>
        (s', \<lparr>ar_url = base @ path, ar_method = meth, ar_headers = apiFetch_headers init token, ar_body = body\<rparr>))"

definition STRIPPED_RESPONSE_HEADERS :: "string list" where
  "STRIPPED_RESPONSE_HEADERS = [''content-encoding'', ''content-length'', ''transfer-encoding'',
     ''connection'', ''keep-alive'', ''set-cookie'']"

definition filterUpstreamHeaders :: "(string, string) obj \<Rightarrow> (string, string) obj" where
  "filterUpstreamHeaders hs = foldl (\<lambda>out h.
     if js_lower (fst h) \<in> set STRIPPED_RESPONSE_HEADERS then out else oset out (js_lower (fst h)) (snd h)) [] hs"

fun join_path :: "string list \<Rightarrow> string" where
  "join_path [] = []"
| "join_path [p] = p"
| "join_path (p # q # ps) = p @ ''/'' @ join_path (q # ps)"

record client_request =
  cr_method :: http_method
  cr_path :: "string list"
  cr_search :: string
  cr_headers :: "(string, string) obj"
  cr_body :: string

definition upstream_request :: "string \<Rightarrow> string \<Rightarrow> client_request \<Rightarrow> api_request" where
  "upstream_request base token rq =
     \<lparr>ar_url = base @ ''/v1/'' @ join_path (cr_path rq) @ cr_search rq, ar_method = cr_method rq,
      ar_headers = (''Authorization'', bearer token) #
        (if truthy_str (oget (cr_headers rq) ''content-type'')
         then [(''Content-Type'', the (oget (cr_headers rq) ''content-type''))] else []),
      ar_body = (if cr_method rq \<in> {GET, HEAD} then None else Some (cr_body rq))\<rparr>"

definition upstream_reply :: "api_result \<Rightarrow> reply" where
  "upstream_reply r = (case r of
     Upstream st body hs \<Rightarrow> Reply st (Some body) (filterUpstreamHeaders hs)
   | Aborted \<Rightarrow> Reply 499 None []
   | Failed m \<Rightarrow> Throw m)"

definition unauthenticated :: reply where
  "unauthenticated = Reply 401 (Some ''{\"type\":\"unauthenticated\",\"status\":401}'') [(''content-type'', ''application/json'')]"

text \<open>The handler gives its reply and the requests it sent to the Go API.\<close>

definition v1_proxy :: "env \<Rightarrow> int \<Rightarrow> int \<Rightarrow> source \<times> source \<Rightarrow> (string \<Rightarrow> string + tokens) \<Rightarrow> string
    \<Rightarrow> (api_request \<Rightarrow> api_result) \<Rightarrow> client_request \<Rightarrow> server \<Rightarrow> server \<times> api_request list \<times> reply" where
  "v1_proxy e t now srcs grant base fetch rq s = (case session_token e t now srcs grant s of (s', token) \<Rightarrow>
     if \<not> truthy_str token then (s', [], unauthenticated)
     else let up = upstream_request base (the token) rq in (s', [up], upstream_reply (fetch up)))"

text \<open>The methods the route module exports. How Next.js answers the others is the argument
  \<open>unsupported\<close>.\<close>

definition v1_methods :: "http_method list" where
  "v1_methods = [GET, POST, PUT, DELETE]"

definition v1_route :: "(http_method \<Rightarrow> reply) \<Rightarrow> env \<Rightarrow> int \<Rightarrow> int \<Rightarrow> source \<times> source \<Rightarrow> (string \<Rightarrow> string + tokens)
    \<Rightarrow> string \<Rightarrow> (api_request \<Rightarrow> api_result) \<Rightarrow> client_request \<Rightarrow> server \<Rightarrow> server \<times> api_request list \<times> reply" where
  "v1_route unsupported e t now srcs grant base fetch rq s =
     (if cr_method rq \<in> set v1_methods then v1_proxy e t now srcs grant base fetch rq s
      else (s, [], unsupported (cr_method rq)))"

section \<open>Requests without a session\<close>

lemma not_live_token: "snd (getSession e t s) = None \<Longrightarrow> session_token e t now srcs grant s = (fst (getSession e t s), None)"
  by (cases "getSession e t s") (simp add: session_token_def)



section \<open>Requests with a session\<close>

definition lower_headers :: "(string, string) obj \<Rightarrow> (string, string) obj" where
  "lower_headers hs = map (\<lambda>(h, v). (js_lower h, v)) hs"

lemma oget_filterUpstreamHeaders:
  "oget (filterUpstreamHeaders hs) k =
     (if k \<in> set STRIPPED_RESPONSE_HEADERS then None else oget (rev (lower_headers hs)) k)"
  by (induction hs rule: rev_induct) (auto simp: filterUpstreamHeaders_def lower_headers_def case_prod_unfold)

text \<open>Property C23: a request with a token is forwarded once, to the same path and query of the Go API,
  with the method, the body (none for GET and HEAD) and the token as bearer; of the browser's headers
  only the content type is passed on, so no cookie reaches the API. The answer keeps its status, its
  body and every header but the six hop headers, \<open>set-cookie\<close> among them, whatever their case; a request the browser
  aborts gets status 499.\<close>

theorem v1_proxy_forwards:
  assumes "session_token e t now srcs grant s = (s', Some token)" and "token \<noteq> []"
  shows "\<exists>up. v1_proxy e t now srcs grant base fetch rq s = (s', [up], upstream_reply (fetch up))
    \<and> ar_url up = base @ ''/v1/'' @ join_path (cr_path rq) @ cr_search rq \<and> ar_method up = cr_method rq
    \<and> (ar_body up = None \<longleftrightarrow> cr_method rq \<in> {GET, HEAD})
    \<and> oget (ar_headers up) ''Authorization'' = Some (''Bearer '' @ token)
    \<and> fst ` set (ar_headers up) \<subseteq> {''Authorization'', ''Content-Type''}
    \<and> (\<forall>st body hs. fetch up = Upstream st body hs \<longrightarrow>
         (\<exists>out. upstream_reply (fetch up) = Reply st (Some body) out
          \<and> (\<forall>k. oget out k = (if k \<in> set STRIPPED_RESPONSE_HEADERS then None else oget (rev (lower_headers hs)) k))))
    \<and> (fetch up = Aborted \<longrightarrow> upstream_reply (fetch up) = Reply 499 None [])"
  by (rule exI [of _ "upstream_request base token rq"])
    (use assms in \<open>auto simp: v1_proxy_def upstream_request_def upstream_reply_def bearer_def
       oget_filterUpstreamHeaders Let_def\<close>)

lemma v1_proxy_forwards_witness:
  "snd (snd (v1_proxy demo_env 1000 (-60000) (zeros, zeros) (\<lambda>_. Inl ''down'') ''http://api''
      (\<lambda>_. Aborted) \<lparr>cr_method = GET, cr_path = [''templates''], cr_search = [], cr_headers = [], cr_body = []\<rparr> demo_server))
   = Reply 499 None []"
proof -
  have "session_token demo_env 1000 (-60000) (zeros, zeros) (\<lambda>_. Inl ''down'') demo_server = (demo_server, Some ''tok'')"
    using live_getSession [OF demo_live] by (simp add: session_token_def getValidToken_def demo_session_def)
  from v1_proxy_forwards [OF this, of "''http://api''" "\<lambda>_. Aborted"
      "\<lparr>cr_method = GET, cr_path = [''templates''], cr_search = [], cr_headers = [], cr_body = []\<rparr>"]
  show ?thesis by auto
qed

section \<open>Signing in and out\<close>

text \<open>What \<open>JSON\<close> does with a value: its text is not empty and reads back as the value.\<close>

definition json_law :: "(jsval \<Rightarrow> string) \<Rightarrow> (string \<Rightarrow> string + jsval) \<Rightarrow> jsval \<Rightarrow> bool" where
  "json_law stringify parse v \<longleftrightarrow> stringify v \<noteq> [] \<and> parse (stringify v) = Inr v"

definition find_user :: "bff \<Rightarrow> string \<Rightarrow> user_row option" where
  "find_user b sub = oget (users b) sub"

text \<open>Property C32: signing in. After \<open>login\<close> the callback asks for the code grant with exactly the state,
  nonce and verifier \<open>login\<close> drew. When the grant answers with an id token and claims, the callback
  keeps the user under the claims' subject (the id of an existing row does not change, no other user
  does), starts a session of that user with the granted tokens that the next request finds, sends the
  browser to the catalog, and clears the state, so the same callback cannot be used again.\<close>

theorem sign_in_flow:
  assumes "valid_env e" and "json_law stringify parse (state_json st nonce verifier)" and "find_row (srv b) i = None" and "i \<noteq> []"
    and "codeGrant url (JStr verifier) (JStr st) (JStr nonce) = Inr (tk, Some cl)" and "truthy_str (t_id_token tk)"
  shows "\<exists>b1 b2 u. fst (login e stringify challenge authUrl uri st nonce verifier b) = b1
    \<and> callback e parse codeGrant now db_now new_user i srcs origin url b1 = (b2, Redirect (origin @ ''/catalog''))
    \<and> find_user b2 (c_sub cl) = Some u \<and> u_email u = c_email cl
    \<and> u_id u = (case find_user b (c_sub cl) of None \<Rightarrow> new_user | Some old \<Rightarrow> u_id old)
    \<and> (\<forall>sub. sub \<noteq> c_sub cl \<longrightarrow> find_user b2 sub = find_user b sub)
    \<and> (db_now < now + 24 * 3600 * 1000 \<longrightarrow> getSession e db_now (srv b2) = (srv b2,
          Some \<lparr>sid = i, userId = u_id u, idToken = the (t_id_token tk), refreshToken = nonempty (t_refresh_token tk),
            idTokenExp = token_exp now tk\<rparr>))
    \<and> callback e parse codeGrant now db_now new_user i srcs origin url b2 = (b2, Reply 400 (Some ''missing state'') [])"
proof -
  define b1 where "b1 = fst (login e stringify challenge authUrl uri st nonce verifier b)"
  have raw: "cookie_value (srv b1) STATE_COOKIE = Some (stringify (state_json st nonce verifier))"
    and same: "users b1 = users b" "find_row (srv b1) i = None"
    using assms(3) by (simp_all add: b1_def login_def cookie_value_def find_row_def Let_def)
  obtain us uid where up: "upsert_user db_now new_user cl (users b) = (us, uid)" by force
  from createSession_valid [OF assms(1) same(2), of now srcs uid "the (t_id_token tk)" "t_refresh_token tk" "token_exp now tk"]
  obtain s1 r where s1: "createSession e now i srcs uid (the (t_id_token tk)) (t_refresh_token tk) (token_exp now tk) (srv b1) = (s1, Inr ())"
    "\<And>j. find_row s1 j = find_row (put_row (srv b1) i r) j" "cookie_value s1 COOKIE = Some i"
    "row_expires r = now + 24 * 3600 * 1000"
    "row_session e i r = Inr \<lparr>sid = i, userId = uid, idToken = the (t_id_token tk),
       refreshToken = nonempty (t_refresh_token tk), idTokenExp = token_exp now tk\<rparr>" by blast
  define b2 where "b2 = b1\<lparr>users := us, srv := s1\<lparr>cookies := odel (cookies s1) STATE_COOKIE\<rparr>\<rparr>"
  have run: "callback e parse codeGrant now db_now new_user i srcs origin url b1 = (b2, Redirect (origin @ ''/catalog''))"
    using assms(2,5,6) raw s1(1) up same
    by (simp add: callback_def json_law_def state_json_def b2_def Let_def)
  have jar: "cookie_value (srv b2) COOKIE = Some i" "cookie_value (srv b2) STATE_COOKIE = None"
    using s1(3) by (simp_all add: b2_def cookie_value_def)
  have row: "find_row (srv b2) i = Some r" using s1(2) by (simp add: b2_def)
  have load: "getSession e db_now (srv b2) = (srv b2,
      Some \<lparr>sid = i, userId = uid, idToken = the (t_id_token tk), refreshToken = nonempty (t_refresh_token tk),
            idTokenExp = token_exp now tk\<rparr>)" if "db_now < now + 24 * 3600 * 1000"
    using that jar row s1(4,5) assms(4) by (simp add: getSession_cases)
  have again: "callback e parse codeGrant now db_now new_user i srcs origin url b2 = (b2, Reply 400 (Some ''missing state'') [])"
    by (simp add: callback_def jar)
  have user: "\<exists>u. find_user b2 (c_sub cl) = Some u \<and> u_email u = c_email cl \<and> u_id u = uid"
    "uid = (case find_user b (c_sub cl) of None \<Rightarrow> new_user | Some old \<Rightarrow> u_id old)"
    "\<forall>sub. sub \<noteq> c_sub cl \<longrightarrow> find_user b2 sub = find_user b sub"
    using up by (auto simp: find_user_def b2_def upsert_user_def split: option.splits)
  from user(1) obtain u where "find_user b2 (c_sub cl) = Some u" "u_email u = c_email cl" "u_id u = uid" by blast
  with run load again user(2,3) show ?thesis
    unfolding b1_def [symmetric] by (intro exI [of _ b1] exI [of _ b2] exI [of _ u]) simp
qed

definition demo_claims :: claims where
  "demo_claims = \<lparr>c_sub = ''sub'', c_email = None, c_name = None\<rparr>"

definition empty_bff :: bff where
  "empty_bff = \<lparr>srv = no_server, users = []\<rparr>"

lemma sign_in_flow_witness:
  "\<exists>b1 b2 u. callback demo_env (\<lambda>_. Inr (state_json ''st'' ''no'' ''ver'')) (\<lambda>_ _ _ _. Inr (demo_tokens, Some demo_claims))
        0 0 ''u1'' ''s1'' (zeros, zeros) ''https://k'' ''https://k/cb'' b1 = (b2, Redirect (''https://k'' @ ''/catalog''))
    \<and> find_user b2 ''sub'' = Some u \<and> u_id u = ''u1''"
proof -
  have law: "json_law (\<lambda>_. ''j'') (\<lambda>_. Inr (state_json ''st'' ''no'' ''ver'')) (state_json ''st'' ''no'' ''ver'')"
    by (simp add: json_law_def)
  have fresh: "find_row (srv empty_bff) ''s1'' = None" "find_user empty_bff ''sub'' = None"
    by (simp_all add: empty_bff_def no_server_def find_row_def find_user_def)
  have facts: "truthy_str (t_id_token demo_tokens)" "c_sub demo_claims = ''sub''"
    by (simp_all add: demo_tokens_def demo_claims_def)
  from sign_in_flow [OF demo_env_valid law fresh(1) _ _ facts(1), of "\<lambda>_ _ _ _. Inr (demo_tokens, Some demo_claims)"
      "''https://k/cb''" demo_claims "\<lambda>v. v" "\<lambda>_. ''https://idp''" "''https://k/cb''" 0 0 "''u1''" "(zeros, zeros)" "''https://k''"]
  have "\<exists>b1 b2 u. callback demo_env (\<lambda>_. Inr (state_json ''st'' ''no'' ''ver'')) (\<lambda>_ _ _ _. Inr (demo_tokens, Some demo_claims))
        0 0 ''u1'' ''s1'' (zeros, zeros) ''https://k'' ''https://k/cb'' b1 = (b2, Redirect (''https://k'' @ ''/catalog''))
    \<and> find_user b2 (c_sub demo_claims) = Some u
    \<and> u_id u = (case find_user empty_bff (c_sub demo_claims) of None \<Rightarrow> ''u1'' | Some old \<Rightarrow> u_id old)" by blast
  then show ?thesis by (simp only: facts(2) fresh(2) option.case)
qed

end
