(* ===== verification/Ui_Spec.thy ===== *)
theory Ui_Spec
  imports Kp_Js
begin

text \<open>
  \<open>frontend/lib/ui-spec-to-zod.ts\<close> and \<open>frontend/components/DynamicForm.tsx\<close>: the form a user fills
  in to deploy a template. A ui-spec becomes a zod schema (here its syntax tree: zod itself is not part
  of the repository, so parsing is an argument), default values and one widget per field. React Hook
  Form keeps the values under encoded names, because it reads a dot in a name as nesting.
\<close>

datatype field_kind =
    KString (ks_default: "string option") (ks_min: "rat option") (ks_max: "rat option")
      (ks_pattern: "string option") (ks_placeholder: "string option")
  | KInteger (ki_default: "rat option") (ki_min: "rat option") (ki_max: "rat option")
  | KBoolean (kb_default: "bool option")
  | KEnum (ke_values: "string list") (ke_default: "string option")
  | KAutocomplete (ka_values: "string list") (ka_default: "string option") (ka_min: "rat option")
      (ka_max: "rat option") (ka_pattern: "string option") (ka_placeholder: "string option")

record spec_field =
  f_path :: string
  f_label :: string
  f_help :: "string option"
  f_required :: bool
  f_kind :: field_kind

section \<open>The schema\<close>

datatype zcheck = ZMin rat | ZMax rat | ZRegex string

datatype zod = ZString "zcheck list" | ZInteger "zcheck list" | ZBoolean | ZEnum "string list" | ZOptional zod

definition opt_check :: "('a \<Rightarrow> zcheck) \<Rightarrow> 'a option \<Rightarrow> zcheck list" where
  "opt_check c x = (case x of None \<Rightarrow> [] | Some v \<Rightarrow> [c v])"

text \<open>\<open>z.string()\<close> with its checks. \<open>new RegExp\<close> may throw: the argument gives its message then.\<close>

definition string_schema :: "(string \<Rightarrow> string option) \<Rightarrow> rat option \<Rightarrow> rat option \<Rightarrow> string option \<Rightarrow> string + zod" where
  "string_schema regexp_error mn mx pat =
     (if truthy_str pat
      then (case regexp_error (the pat) of
              Some m \<Rightarrow> Inl m
            | None \<Rightarrow> Inr (ZString (opt_check ZMin mn @ opt_check ZMax mx @ [ZRegex (the pat)])))
      else Inr (ZString (opt_check ZMin mn @ opt_check ZMax mx)))"

definition field_schema :: "(string \<Rightarrow> string option) \<Rightarrow> spec_field \<Rightarrow> string + zod" where
  "field_schema regexp_error f = (case f_kind f of
     KString d mn mx pat ph \<Rightarrow> string_schema regexp_error mn mx pat
   | KAutocomplete vs d mn mx pat ph \<Rightarrow> string_schema regexp_error mn mx pat
   | KInteger d mn mx \<Rightarrow> Inr (ZInteger (opt_check ZMin mn @ opt_check ZMax mx))
   | KBoolean d \<Rightarrow> Inr ZBoolean
   | KEnum vs d \<Rightarrow> (case vs of
       [] \<Rightarrow> Inl (''ui-spec field \"'' @ f_path f @ ''\" is enum but has no values'')
     | v # rest \<Rightarrow> Inr (ZEnum (v # rest))))"

definition required_schema :: "spec_field \<Rightarrow> zod \<Rightarrow> zod" where
  "required_schema f z = (if f_required f then z else ZOptional z)"

fun schema_loop :: "(string \<Rightarrow> string option) \<Rightarrow> (string, zod) obj \<Rightarrow> spec_field list \<Rightarrow> string + (string, zod) obj" where
  "schema_loop rx shape [] = Inr shape"
| "schema_loop rx shape (f # fs) = (case field_schema rx f of
     Inl m \<Rightarrow> Inl m
   | Inr z \<Rightarrow> schema_loop rx (oset shape (f_path f) (required_schema f z)) fs)"

definition schemaFromUISpec :: "(string \<Rightarrow> string option) \<Rightarrow> spec_field list \<Rightarrow> string + (string, zod) obj" where
  "schemaFromUISpec rx fs = schema_loop rx [] fs"

definition kind_default :: "field_kind \<Rightarrow> jsval option" where
  "kind_default k = (case k of
     KString d _ _ _ _ \<Rightarrow> map_option JStr d
   | KInteger d _ _ \<Rightarrow> map_option (\<lambda>q. JNum (Num q)) d
   | KBoolean d \<Rightarrow> map_option JBool d
   | KEnum _ d \<Rightarrow> map_option JStr d
   | KAutocomplete _ d _ _ _ _ \<Rightarrow> map_option JStr d)"

definition defaultsFromUISpec :: "spec_field list \<Rightarrow> (string, jsval) obj" where
  "defaultsFromUISpec fs = foldl (\<lambda>out f. case kind_default (f_kind f) of
     None \<Rightarrow> out | Some d \<Rightarrow> oset out (f_path f) d) [] fs"

lemma schema_loop_ok:
  "schema_loop rx shape fs = Inr res \<Longrightarrow>
     (\<forall>f \<in> set fs. \<exists>z. field_schema rx f = Inr z) \<and>
     oget res p = (case find (\<lambda>f. f_path f = p) (rev fs) of
       None \<Rightarrow> oget shape p | Some f \<Rightarrow> map_option (required_schema f) (case field_schema rx f of Inl _ \<Rightarrow> None | Inr z \<Rightarrow> Some z))"
  by (induction rx shape fs rule: schema_loop.induct)
    (auto simp: find_append split: sum.splits option.splits)

lemma schema_loop_error:
  "schema_loop rx shape fs = Inl m \<Longrightarrow>
     \<exists>pre f post. fs = pre @ f # post \<and> field_schema rx f = Inl m \<and> (\<forall>g \<in> set pre. \<exists>z. field_schema rx g = Inr z)"
proof (induction rx shape fs rule: schema_loop.induct)
  case (2 rx shape f fs)
  show ?case
  proof (cases "field_schema rx f")
    case (Inl a)
    with 2 show ?thesis by (intro exI [of _ "[]"] exI [of _ f] exI [of _ fs]) auto
  next
    case (Inr z)
    with 2 obtain pre g post where "fs = pre @ g # post" "field_schema rx g = Inl m"
      "\<forall>g \<in> set pre. \<exists>z. field_schema rx g = Inr z" by auto
    with Inr show ?thesis by (intro exI [of _ "f # pre"] exI [of _ g] exI [of _ post]) auto
  qed
qed simp

text \<open>The schema of a ui-spec. Building it fails exactly with the error of the first field that
  has none (an enum without values, an invalid pattern); otherwise every path of the spec has exactly
  the schema of the last field with that path, wrapped as optional unless that field is required,
  and no other key is accepted.\<close>

lemma schema_from_spec:
  "case schemaFromUISpec rx fs of
     Inl m \<Rightarrow> (\<exists>pre f post. fs = pre @ f # post \<and> field_schema rx f = Inl m
        \<and> (\<forall>g \<in> set pre. \<exists>z. field_schema rx g = Inr z))
   | Inr shape \<Rightarrow> (\<forall>p. oget shape p = (case find (\<lambda>f. f_path f = p) (rev fs) of None \<Rightarrow> None
        | Some f \<Rightarrow> (case field_schema rx f of Inl _ \<Rightarrow> None | Inr z \<Rightarrow> Some (if f_required f then z else ZOptional z))))"
proof (cases "schemaFromUISpec rx fs")
  case (Inl m)
  with schema_loop_error [of rx "[]" fs m] show ?thesis by (simp add: schemaFromUISpec_def)
next
  case (Inr shape)
  have "oget shape p = (case find (\<lambda>f. f_path f = p) (rev fs) of None \<Rightarrow> None
        | Some f \<Rightarrow> (case field_schema rx f of Inl _ \<Rightarrow> None | Inr z \<Rightarrow> Some (if f_required f then z else ZOptional z)))" for p
    using schema_loop_ok [of rx "[]" fs shape p] Inr
    by (auto simp: schemaFromUISpec_def required_schema_def split: option.splits sum.splits)
  with Inr show ?thesis by simp
qed

section \<open>The form's values\<close>

text \<open>
  Names and values' keys are texts of 16 bit code units here, because the separator \<open>U+2063\<close> is one.
\<close>

type_synonym name = "nat list"

abbreviation DOT :: nat where "DOT \<equiv> 46"

abbreviation PATH_SEP :: nat where "PATH_SEP \<equiv> 8291"

definition units :: "string \<Rightarrow> name" where
  "units s = map of_char s"

definition encodeKey :: "name \<Rightarrow> name" where
  "encodeKey p = map (\<lambda>u. if u = DOT then PATH_SEP else u) p"

definition decodeKey :: "name \<Rightarrow> name" where
  "decodeKey k = map (\<lambda>u. if u = PATH_SEP then DOT else u) k"

definition decodeValues :: "(name, jsval) obj \<Rightarrow> (name, jsval) obj" where
  "decodeValues encoded = foldl (\<lambda>out e. oset out (decodeKey (fst e)) (snd e)) [] encoded"

definition encodeValues :: "(name, jsval) obj \<Rightarrow> (name, jsval) obj" where
  "encodeValues values = foldl (\<lambda>out e. oset out (encodeKey (fst e)) (snd e)) [] values"

text \<open>The defaults of the form: the spec's, then the initial values.\<close>

definition form_defaults :: "spec_field list \<Rightarrow> (name, jsval) obj option \<Rightarrow> (name, jsval) obj" where
  "form_defaults fs initialValues =
     encodeValues (ospread (ospread [] (map (\<lambda>e. (units (fst e), snd e)) (defaultsFromUISpec fs)))
       (nullish initialValues []))"

record issue =
  iss_path :: "name list"
  iss_code :: string
  iss_message :: string

fun join_units :: "nat \<Rightarrow> name list \<Rightarrow> name" where
  "join_units d [] = []"
| "join_units d [p] = p"
| "join_units d (p # q # ps) = p @ d # join_units d (q # ps)"

definition collect_errors :: "issue list \<Rightarrow> (name, string \<times> string) obj" where
  "collect_errors issues = foldl (\<lambda>errors i. let encoded = encodeKey (join_units DOT (iss_path i)) in
     if oget errors encoded = None then oset errors encoded (iss_code i, iss_message i) else errors) [] issues"

text \<open>What zod makes of decoded values: issues, or data.\<close>

type_synonym parser = "(name, jsval) obj \<Rightarrow> issue list + (name, jsval) obj"

definition resolver :: "parser \<Rightarrow> (name, jsval) obj \<Rightarrow> (name, jsval) obj \<times> (name, string \<times> string) obj" where
  "resolver safeParse values = (case safeParse (decodeValues values) of
     Inr data \<Rightarrow> (encodeValues data, [])
   | Inl issues \<Rightarrow> ([], collect_errors issues))"

text \<open>Submitting: React Hook Form calls the handler with the resolver's values when there are no
  errors. The result is what \<open>onSubmit\<close> gets, if it is called.\<close>

definition submit_form :: "parser \<Rightarrow> (name, jsval) obj \<Rightarrow> (name, jsval) obj option" where
  "submit_form safeParse values = (case resolver safeParse values of (vals, errors) \<Rightarrow>
     if errors = [] then Some (decodeValues vals) else None)"

definition plain_keys :: "(name, 'v) obj \<Rightarrow> bool" where
  "plain_keys o' \<longleftrightarrow> obj_ok o' \<and> (\<forall>k \<in> fst ` set o'. PATH_SEP \<notin> set k)"

lemma decode_encode [simp]: "PATH_SEP \<notin> set p \<Longrightarrow> decodeKey (encodeKey p) = p"
  by (induction p) (auto simp: encodeKey_def decodeKey_def)

lemma encode_decode: "DOT \<notin> set k \<Longrightarrow> encodeKey (decodeKey k) = k"
  by (induction k) (auto simp: encodeKey_def decodeKey_def)

lemma encodeKey_no_dot: "DOT \<notin> set (encodeKey p)"
  by (auto simp: encodeKey_def)

lemma foldl_oset_fresh:
  "obj_ok (out @ map (\<lambda>e. (f (fst e), snd e)) es) \<Longrightarrow>
     foldl (\<lambda>out e. oset out (f (fst e)) (snd e)) out es = out @ map (\<lambda>e. (f (fst e), snd e)) es"
proof (induction es arbitrary: out)
  case (Cons e es)
  from Cons.prems have "oset out (f (fst e)) (snd e) = out @ [(f (fst e), snd e)]"
    by (intro oset_new) (auto simp: obj_ok_def)
  with Cons show ?case by simp
qed simp

lemma encodeValues_map:
  assumes "plain_keys vs"
  shows "encodeValues vs = map (\<lambda>e. (encodeKey (fst e), snd e)) vs"
proof -
  have "inj_on encodeKey (fst ` set vs)"
    using assms by (intro inj_on_inverseI [of _ decodeKey]) (auto simp: plain_keys_def)
  then have "obj_ok (map (\<lambda>e. (encodeKey (fst e), snd e)) vs)"
    using assms by (simp add: plain_keys_def obj_ok_def comp_def distinct_map [of encodeKey "map fst vs", simplified comp_def map_map] )
  then show ?thesis unfolding encodeValues_def using foldl_oset_fresh [of "[]" encodeKey vs] by simp
qed

lemma decode_encodeValues:
  assumes "plain_keys vs"
  shows "decodeValues (encodeValues vs) = vs"
proof -
  let ?es = "encodeValues vs"
  have dec: "map (\<lambda>e. (decodeKey (fst e), snd e)) ?es = vs"
    using assms by (auto simp: encodeValues_map [OF assms] plain_keys_def intro!: map_idI)
  with assms have "obj_ok ([] @ map (\<lambda>e. (decodeKey (fst e), snd e)) ?es)" by (simp add: plain_keys_def)
  from foldl_oset_fresh [OF this] dec show ?thesis by (simp add: decodeValues_def)
qed

lemma oget_collect_errors:
  "oget (collect_errors issues) k =
     map_option (\<lambda>i. (iss_code i, iss_message i)) (find (\<lambda>i. encodeKey (join_units DOT (iss_path i)) = k) issues)"
  by (induction issues rule: rev_induct) (auto simp: collect_errors_def find_append Let_def split: option.split)

lemma collect_errors_Nil: "collect_errors issues = [] \<longleftrightarrow> issues = []"
proof (cases issues)
  case (Cons i rest)
  then have "oget (collect_errors issues) (encodeKey (join_units DOT (iss_path i))) \<noteq> None"
    by (simp add: oget_collect_errors)
  with Cons show ?thesis by auto
qed (simp add: collect_errors_def)

lemma form_round_trip_lemma:
  assumes "plain_keys flat" and "flat = ospread (ospread [] (map (\<lambda>e. (units (fst e), snd e)) (defaultsFromUISpec fs))) (nullish initial [])"
    and "\<forall>data. safeParse flat = Inr data \<longrightarrow> plain_keys data" and "safeParse flat \<noteq> Inl []"
  shows "decodeValues (form_defaults fs initial) = flat
    \<and> submit_form safeParse (form_defaults fs initial) = (case safeParse flat of Inl issues \<Rightarrow> None | Inr data \<Rightarrow> Some data)"
proof -
  have enc: "form_defaults fs initial = encodeValues flat" by (simp add: form_defaults_def assms(2))
  have dec: "decodeValues (form_defaults fs initial) = flat" using decode_encodeValues [OF assms(1)] enc by simp
  have "submit_form safeParse (form_defaults fs initial) = (case safeParse flat of Inl issues \<Rightarrow> None | Inr data \<Rightarrow> Some data)"
    using assms(3,4) by (auto simp: submit_form_def resolver_def dec decode_encodeValues collect_errors_Nil split: sum.split)
  with dec show ?thesis by simp
qed

text \<open>Property C27: the form speaks flat dotted paths to the outside and dot-free names inside. No name
  has a dot; what is validated first is the spec's defaults overridden by the initial values under
  their own paths; when the data is accepted \<open>onSubmit\<close> gets it unchanged; when it is not, \<open>onSubmit\<close>
  is not called and the error shown at a name is the first issue for its path.\<close>

theorem form_round_trip:
  assumes "plain_keys flat" and "flat = ospread (ospread [] (map (\<lambda>e. (units (fst e), snd e)) (defaultsFromUISpec fs))) (nullish initial [])"
    and "\<forall>data. safeParse flat = Inr data \<longrightarrow> plain_keys data" and "safeParse flat \<noteq> Inl []"
  shows "(\<forall>k \<in> fst ` set (form_defaults fs initial). DOT \<notin> set k)
    \<and> decodeValues (form_defaults fs initial) = flat
    \<and> submit_form safeParse (form_defaults fs initial) = (case safeParse flat of Inl issues \<Rightarrow> None | Inr data \<Rightarrow> Some data)
    \<and> (\<forall>issues k. safeParse flat = Inl issues \<longrightarrow> oget (snd (resolver safeParse (form_defaults fs initial))) k =
         map_option (\<lambda>i. (iss_code i, iss_message i)) (find (\<lambda>i. encodeKey (join_units DOT (iss_path i)) = k) issues))"
proof -
  note rt = form_round_trip_lemma [of flat fs initial safeParse, OF assms]
  have "\<forall>k \<in> fst ` set (encodeValues flat). DOT \<notin> set k"
    using encodeKey_no_dot by (auto simp: encodeValues_map [OF assms(1)])
  then have "\<forall>k \<in> fst ` set (form_defaults fs initial). DOT \<notin> set k"
    by (simp add: form_defaults_def assms(2))
  with rt show ?thesis by (simp add: resolver_def oget_collect_errors)
qed

section \<open>Widgets\<close>

definition alnum :: "char \<Rightarrow> bool" where
  "alnum c \<longleftrightarrow> (let n = of_char c :: nat in 48 \<le> n \<and> n \<le> 57 \<or> 65 \<le> n \<and> n \<le> 90 \<or> 97 \<le> n \<and> n \<le> 122)"

definition autocompleteListId :: "string \<Rightarrow> string" where
  "autocompleteListId path = ''dyn-suggest-'' @ map (\<lambda>c. if alnum c then c else CHR ''-'') path"

datatype widget =
    Switch bool
  | Slider rat rat jsval
  | NumberInput "rat option" "rat option" string
  | ToggleGroup "string list" "string list"
  | Select "string list" "string option"
  | TextInput "string option" "string option" string

definition renderWidget :: "(jsval \<Rightarrow> string) \<Rightarrow> spec_field \<Rightarrow> jsval \<Rightarrow> widget" where
  "renderWidget other f v = (case f_kind f of
     KBoolean d \<Rightarrow> Switch (jtruthy v)
   | KInteger d mn mx \<Rightarrow>
      (if mn \<noteq> None \<and> mx \<noteq> None
       then Slider (the mn) (the mx)
         (case v of JNum n \<Rightarrow> v
          | JStr s \<Rightarrow> if s \<noteq> [] then JNum (js_Number s) else JNum (Num (the mn))
          | _ \<Rightarrow> JNum (Num (the mn)))
       else NumberInput mn mx (if v = JUndef \<or> v = JNull then [] else js_String other v))
   | KEnum vs d \<Rightarrow>
      (if length vs \<le> 4
       then ToggleGroup vs (case v of JStr s \<Rightarrow> if s \<noteq> [] then [s] else [] | _ \<Rightarrow> [])
       else Select vs (case v of JStr s \<Rightarrow> Some s | _ \<Rightarrow> None))
   | KAutocomplete vs d mn mx pat ph \<Rightarrow> TextInput (Some (autocompleteListId (f_path f))) ph (jstr_or v [])
   | KString d mn mx pat ph \<Rightarrow> TextInput None ph (jstr_or v []))"

text \<open>What the user does with the widget, and the value the form gets.\<close>

datatype widget_event = Switched bool | SlidTo jsval | Typed string | Pressed "string list" | Picked string

definition widget_change :: "spec_field \<Rightarrow> widget_event \<Rightarrow> jsval option" where
  "widget_change f ev = (case f_kind f of
     KBoolean d \<Rightarrow> (case ev of Switched b \<Rightarrow> Some (JBool b) | _ \<Rightarrow> None)
   | KInteger d mn mx \<Rightarrow>
      (if mn \<noteq> None \<and> mx \<noteq> None
       then (case ev of SlidTo v \<Rightarrow> Some (case v of JArr xs \<Rightarrow> if xs = [] then JUndef else hd xs | _ \<Rightarrow> v) | _ \<Rightarrow> None)
       else (case ev of Typed raw \<Rightarrow> Some (if raw = [] then JUndef else JNum (js_Number raw)) | _ \<Rightarrow> None))
   | KEnum vs d \<Rightarrow>
      (if length vs \<le> 4
       then (case ev of Pressed nxt \<Rightarrow> Some (if nxt = [] then JUndef else JStr (last nxt)) | _ \<Rightarrow> None)
       else (case ev of Picked v \<Rightarrow> Some (JStr v) | _ \<Rightarrow> None))
   | KAutocomplete vs d mn mx pat ph \<Rightarrow> (case ev of Typed s \<Rightarrow> Some (JStr s) | _ \<Rightarrow> None)
   | KString d mn mx pat ph \<Rightarrow> (case ev of Typed s \<Rightarrow> Some (JStr s) | _ \<Rightarrow> None))"

record form_row =
  fr_name :: name
  fr_label :: string
  fr_star :: bool
  fr_widget :: widget
  fr_datalist :: "(string \<times> string list) option"
  fr_help :: "string option"
  fr_pattern :: "string option"

definition kind_pattern :: "field_kind \<Rightarrow> string option" where
  "kind_pattern k = (case k of KString _ _ _ pat _ \<Rightarrow> pat | KAutocomplete _ _ _ _ pat _ \<Rightarrow> pat | _ \<Rightarrow> None)"

definition some_truthy :: "string option \<Rightarrow> string option" where
  "some_truthy s = (if truthy_str s then s else None)"

definition FieldRow :: "(jsval \<Rightarrow> string) \<Rightarrow> spec_field \<Rightarrow> (name, jsval) obj \<Rightarrow> form_row" where
  "FieldRow other f values =
     \<lparr>fr_name = encodeKey (units (f_path f)), fr_label = f_label f, fr_star = f_required f,
      fr_widget = renderWidget other f (nullish (oget values (encodeKey (units (f_path f)))) JUndef),
      fr_datalist = (case f_kind f of
         KAutocomplete vs d mn mx pat ph \<Rightarrow> Some (autocompleteListId (f_path f), js_uniq vs) | _ \<Rightarrow> None),
      fr_help = some_truthy (f_help f), fr_pattern = some_truthy (kind_pattern (f_kind f))\<rparr>"

definition DynamicForm :: "(jsval \<Rightarrow> string) \<Rightarrow> spec_field list \<Rightarrow> (name, jsval) obj \<Rightarrow> form_row list" where
  "DynamicForm other fs values = map (\<lambda>f. FieldRow other f values) fs"

text \<open>
  The widget of a field changes the value under the field's name. How a name addresses the values is up to React
  Hook Form, whose setter is the argument \<open>set_value\<close>: a name without separators is a key of its own
  (\<open>plain_names_set\<close>); one with a bracket is a path, which leads into the entry named by what precedes the
  bracket (\<open>brackets_descend\<close>).
\<close>

type_synonym setter = "(name, jsval) obj \<Rightarrow> name \<Rightarrow> jsval \<Rightarrow> (name, jsval) obj"

definition form_event :: "setter \<Rightarrow> (name, jsval) obj \<Rightarrow> spec_field \<times> widget_event \<Rightarrow> (name, jsval) obj" where
  "form_event set_value values ev = (case widget_change (fst ev) (snd ev) of
     None \<Rightarrow> values | Some v \<Rightarrow> set_value values (encodeKey (units (f_path (fst ev)))) v)"

abbreviation BRACKET :: nat where "BRACKET \<equiv> 91"

definition plain_name :: "name \<Rightarrow> bool" where
  "plain_name k \<longleftrightarrow> k \<noteq> [] \<and> set k \<inter> {DOT, BRACKET, 93, 34, 39, 124} = {}"

definition plain_names_set :: "setter \<Rightarrow> bool" where
  "plain_names_set set_value \<longleftrightarrow> (\<forall>values k v. plain_name k \<longrightarrow> set_value values k v = oset values k v)"

definition brackets_descend :: "setter \<Rightarrow> bool" where
  "brackets_descend set_value \<longleftrightarrow> (\<forall>values pre rest v. pre \<noteq> [] \<and> DOT \<notin> set pre \<and> BRACKET \<notin> set pre \<longrightarrow>
     (\<exists>nested. set_value values (pre @ BRACKET # rest) v = oset values pre nested))"

text \<open>What a widget can report: a group presses some of its values, a list picks one of them, a slider
  gives a number of its range, alone or in an array.\<close>

definition in_range :: "rat option \<Rightarrow> rat option \<Rightarrow> jsval \<Rightarrow> bool" where
  "in_range mn mx v \<longleftrightarrow> (\<exists>q. v = JNum (Num q) \<and> the mn \<le> q \<and> q \<le> the mx)"

definition reports :: "spec_field \<Rightarrow> widget_event \<Rightarrow> bool" where
  "reports f ev \<longleftrightarrow> (case ev of
     Pressed vs \<Rightarrow> set vs \<subseteq> (case f_kind f of KEnum us _ \<Rightarrow> set us | _ \<Rightarrow> UNIV)
   | Picked v \<Rightarrow> v \<in> (case f_kind f of KEnum us _ \<Rightarrow> set us | _ \<Rightarrow> UNIV)
   | SlidTo v \<Rightarrow> (case f_kind f of
        KInteger _ mn mx \<Rightarrow> in_range mn mx v \<or> (\<exists>w ws. v = JArr (w # ws) \<and> in_range mn mx w) | _ \<Rightarrow> True)
   | _ \<Rightarrow> True)"

definition fits :: "spec_field \<Rightarrow> jsval \<Rightarrow> bool" where
  "fits f v \<longleftrightarrow> (case f_kind f of
     KBoolean _ \<Rightarrow> (\<exists>b. v = JBool b)
   | KInteger _ mn mx \<Rightarrow> (if mn \<noteq> None \<and> mx \<noteq> None then in_range mn mx v else v = JUndef \<or> (\<exists>n. v = JNum n))
   | KEnum vs _ \<Rightarrow> v = JUndef \<or> (\<exists>s \<in> set vs. v = JStr s)
   | _ \<Rightarrow> (\<exists>s. v = JStr s))"

definition fields_fit :: "spec_field list \<Rightarrow> (name, jsval) obj \<Rightarrow> bool" where
  "fields_fit fs values \<longleftrightarrow> (\<forall>f \<in> set fs. \<forall>v. oget values (encodeKey (units (f_path f))) = Some v \<longrightarrow> fits f v)"

lemma last_subset: "set xs \<subseteq> S \<Longrightarrow> xs \<noteq> [] \<Longrightarrow> last xs \<in> S"
  by (meson last_in_set subsetD)

lemma widget_change_fits: "reports f ev \<Longrightarrow> widget_change f ev = Some v \<Longrightarrow> fits f v"
  by (auto simp: widget_change_def fits_def reports_def in_range_def last_subset
      split: field_kind.splits widget_event.splits if_splits)

lemma units_inj: "units a = units b \<longleftrightarrow> a = b"
  unfolding units_def by (rule inj_map_eq_map) (simp add: inj_on_def)

lemma encode_units_inj [simp]: "encodeKey (units a) = encodeKey (units b) \<longleftrightarrow> a = b"
proof -
  have "PATH_SEP \<notin> set (units s)" for s
  proof -
    have "of_char c < (256 :: nat)" for c by (rule nat_of_char_less_256)
    then have "u < 256" if "u \<in> set (units s)" for u using that by (auto simp: units_def)
    then show ?thesis by force
  qed
  then show ?thesis by (metis decode_encode units_inj)
qed

lemma form_event_fits:
  assumes "distinct (map f_path fs)" and "fields_fit fs values" and "fst ev \<in> set fs" and "reports (fst ev) (snd ev)"
    and "plain_names_set set_value" and "plain_name (encodeKey (units (f_path (fst ev))))"
  shows "fields_fit fs (form_event set_value values ev)"
proof (cases "widget_change (fst ev) (snd ev)")
  case (Some v)
  from assms(1,3) have "f = fst ev" if "f \<in> set fs" "f_path f = f_path (fst ev)" for f
    using that by (auto simp: distinct_map dest: inj_onD)
  with Some assms(2,5,6) widget_change_fits [OF assms(4) Some] show ?thesis
    by (fastforce simp: form_event_def fields_fit_def plain_names_set_def)
qed (use assms(2) in \<open>simp add: form_event_def\<close>)


text \<open>
  The paths of templates have brackets: they begin with the kind and the name of an object. Then nothing a user
  does arrives under the field's own key, which is all the schema reads.
\<close>

definition object_path :: "string \<Rightarrow> bool" where
  "object_path p \<longleftrightarrow> (\<exists>kind rest. p = kind @ CHR ''['' # rest \<and> kind \<noteq> [] \<and> CHR ''.'' \<notin> set kind \<and> CHR ''['' \<notin> set kind)"

text \<open>\<open>z.object\<close> looks at no keys but those of its shape.\<close>

definition reads_own_keys :: "spec_field list \<Rightarrow> parser \<Rightarrow> bool" where
  "reads_own_keys fs safeParse \<longleftrightarrow> (\<forall>a b. (\<forall>f \<in> set fs. oget a (units (f_path f)) = oget b (units (f_path f))) \<longrightarrow>
     safeParse a = safeParse b)"

definition encoded_keys :: "(name, jsval) obj \<Rightarrow> bool" where
  "encoded_keys values \<longleftrightarrow> obj_ok values \<and> (\<forall>k \<in> fst ` set values. DOT \<notin> set k)"

lemma units_of_object_path:
  assumes "object_path p"
  shows "\<exists>pre rest. encodeKey (units p) = pre @ BRACKET # rest \<and> pre \<noteq> [] \<and> DOT \<notin> set pre \<and> BRACKET \<notin> set pre"
proof -
  from assms obtain kind rest where p: "p = kind @ CHR ''['' # rest" "kind \<noteq> []" "CHR ''.'' \<notin> set kind" "CHR ''['' \<notin> set kind"
    by (auto simp: object_path_def)
  have inj: "inj (of_char :: char \<Rightarrow> nat)" by (simp add: inj_on_def)
  have dot: "DOT = of_char (CHR ''.'')" and bracket: "BRACKET = of_char (CHR ''['')" by simp_all
  have no: "DOT \<notin> set (units kind)" "BRACKET \<notin> set (units kind)"
    using p(3,4) unfolding units_def list.set_map dot bracket inj_image_mem_iff [OF inj] .
  then have same: "encodeKey (units kind) = units kind"
    by (auto simp: encodeKey_def intro!: map_idI)
  have "encodeKey (units p) = encodeKey (units kind) @ BRACKET # encodeKey (units rest)"
    by (simp add: p(1) units_def encodeKey_def)
  with no same p(2) show ?thesis
    by (intro exI [of _ "units kind"] exI [of _ "encodeKey (units rest)"]) (simp add: units_def)
qed

lemma decodeValues_get:
  assumes "encoded_keys es"
  shows "oget (decodeValues es) (units p) = oget es (encodeKey (units p))"
proof -
  have "inj_on decodeKey {k. DOT \<notin> set k}"
    by (rule inj_on_inverseI [of _ encodeKey]) (simp add: encode_decode)
  with assms have inj: "inj_on decodeKey (fst ` set es)"
    by (auto simp: encoded_keys_def elim!: inj_on_subset)
  with assms have "obj_ok ([] @ map (\<lambda>e. (decodeKey (fst e), snd e)) es)"
    by (simp add: encoded_keys_def obj_ok_def comp_def distinct_map [of decodeKey "map fst es", simplified comp_def map_map])
  from foldl_oset_fresh [OF this] have dec: "decodeValues es = map (\<lambda>e. (decodeKey (fst e), snd e)) es"
    by (simp add: decodeValues_def)
  have "PATH_SEP \<notin> set (units p)"
  proof
    assume "PATH_SEP \<in> set (units p)"
    then obtain c :: char where "PATH_SEP = of_char c" by (auto simp: units_def)
    with nat_of_char_less_256 [of c] show False by linarith
  qed
  then have own: "decodeKey k = units p \<longleftrightarrow> k = encodeKey (units p)" if "DOT \<notin> set k" for k
    using that encode_decode [OF that] by auto
  from assms have "\<forall>k \<in> fst ` set es. DOT \<notin> set k" by (simp add: encoded_keys_def)
  then have "oget (map (\<lambda>e. (decodeKey (fst e), snd e)) es) (units p) = oget es (encodeKey (units p))"
    by (induction es) (simp_all add: own eq_commute [of "units p"] eq_commute [of "encodeKey (units p)"])
  then show ?thesis by (simp only: dec)
qed

lemma encoded_keys_oset: "encoded_keys es \<Longrightarrow> DOT \<notin> set k \<Longrightarrow> encoded_keys (oset es k v)"
proof -
  assume es: "encoded_keys es" and k: "DOT \<notin> set k"
  have "fst ` set (oset es k v) \<subseteq> insert k (fst ` set es)" by (induction es k v rule: oset.induct) auto
  with es k show ?thesis by (auto simp: encoded_keys_def obj_ok_oset)
qed

lemma encoded_keys_defaults: "encoded_keys (form_defaults fs initial)"
proof -
  have "encoded_keys (foldl (\<lambda>out e. oset out (encodeKey (fst e)) (snd e)) out es)" if "encoded_keys out" for out es
    using that by (induction es arbitrary: out) (simp_all add: encoded_keys_oset encodeKey_no_dot)
  from this [of "[]"] show ?thesis by (simp add: form_defaults_def encodeValues_def encoded_keys_def obj_ok_def)
qed

lemma form_event_beside:
  assumes "brackets_descend set_value" and "object_path (f_path (fst ev))" and "encoded_keys values"
  shows "encoded_keys (form_event set_value values ev)
    \<and> (BRACKET \<in> set k \<longrightarrow> oget (form_event set_value values ev) k = oget values k)"
proof (cases "widget_change (fst ev) (snd ev)")
  case (Some v)
  from units_of_object_path [OF assms(2)] obtain pre rest
    where name: "encodeKey (units (f_path (fst ev))) = pre @ BRACKET # rest" "pre \<noteq> []" "DOT \<notin> set pre" "BRACKET \<notin> set pre"
    by blast
  with assms(1) obtain nested where "set_value values (pre @ BRACKET # rest) v = oset values pre nested"
    unfolding brackets_descend_def by blast
  with Some name have "form_event set_value values ev = oset values pre nested" by (simp add: form_event_def)
  with encoded_keys_oset [OF assms(3) name(3)] name(4) show ?thesis by auto
qed (use assms(3) in \<open>simp add: form_event_def\<close>)

lemma form_events_beside:
  assumes "brackets_descend set_value" and "\<forall>ev \<in> set evs. object_path (f_path (fst ev))" and "encoded_keys vals"
  shows "encoded_keys (foldl (form_event set_value) vals evs)
    \<and> (BRACKET \<in> set k \<longrightarrow> oget (foldl (form_event set_value) vals evs) k = oget vals k)"
  using assms(2,3)
proof (induction evs arbitrary: vals)
  case (Cons ev evs)
  with form_event_beside [OF assms(1), of ev vals] show ?case by auto
qed simp

text \<open>Property C4: in a form whose paths name their object in brackets, as in \<open>Deployment[web].spec.replicas\<close>,
  whatever the user enters is lost. React Hook Form reads a bracket in a name like a dot, but \<open>encodeKey\<close>
  replaces only the dots; so the form's changes go into nested entries, and what is validated, previewed and
  submitted under the path are the defaults.\<close>

theorem bracket_edits_lost:
  assumes "brackets_descend set_value" and "reads_own_keys fs safeParse"
    and "\<forall>f \<in> set fs. object_path (f_path f)" and "\<forall>ev \<in> set evs. fst ev \<in> set fs"
  shows "(\<forall>f \<in> set fs. oget (decodeValues (foldl (form_event set_value) (form_defaults fs initial) evs)) (units (f_path f))
        = oget (decodeValues (form_defaults fs initial)) (units (f_path f)))
    \<and> submit_form safeParse (foldl (form_event set_value) (form_defaults fs initial) evs)
        = submit_form safeParse (form_defaults fs initial)"
proof -
  let ?before = "form_defaults fs initial" and ?after = "foldl (form_event set_value) (form_defaults fs initial) evs"
  have paths: "\<forall>ev \<in> set evs. object_path (f_path (fst ev))" using assms(3,4) by simp
  note beside = form_events_beside [OF assms(1) paths encoded_keys_defaults, of fs initial]
  have kept: "oget (decodeValues ?after) (units (f_path f)) = oget (decodeValues ?before) (units (f_path f))" if "f \<in> set fs" for f
  proof -
    from that assms(3) units_of_object_path have "BRACKET \<in> set (encodeKey (units (f_path f)))" by fastforce
    with beside show ?thesis by (simp add: decodeValues_get encoded_keys_defaults)
  qed
  then have "safeParse (decodeValues ?after) = safeParse (decodeValues ?before)"
    using assms(2) by (simp add: reads_own_keys_def)
  with kept show ?thesis by (simp add: submit_form_def resolver_def)
qed

text \<open>Two fields get the same suggestion list's id exactly when their paths differ only in
  characters outside \<open>[A-Za-z0-9]\<close>, so ids are not scoped to paths: the suggestions for
  \<open>ConfigMap[c].data.log-level\<close> are also those of \<open>ConfigMap[c].data.log_level\<close>.\<close>

lemma suggestion_lists_shared:
  "(autocompleteListId p = autocompleteListId q
      \<longleftrightarrow> list_all2 (\<lambda>c d. c = d \<or> \<not> alnum c \<and> \<not> alnum d) p q)
   \<and> autocompleteListId ''ConfigMap[c].data.log-level'' = autocompleteListId ''ConfigMap[c].data.log_level''"
proof -
  have "map g p = map g q \<longleftrightarrow> list_all2 (\<lambda>c d. g c = g d) p q" for g :: "char \<Rightarrow> char"
    by (auto simp: list_all2_conv_all_nth list_eq_iff_nth_eq)
  moreover have "(if alnum c then c else CHR ''-'') = (if alnum d then d else CHR ''-'')
      \<longleftrightarrow> c = d \<or> \<not> alnum c \<and> \<not> alnum d" for c d
    by (auto simp: alnum_def)
  ultimately have "autocompleteListId p = autocompleteListId q
      \<longleftrightarrow> list_all2 (\<lambda>c d. c = d \<or> \<not> alnum c \<and> \<not> alnum d) p q"
    by (simp add: autocompleteListId_def)
  moreover have "autocompleteListId ''ConfigMap[c].data.log-level'' = autocompleteListId ''ConfigMap[c].data.log_level''"
    by (simp add: autocompleteListId_def alnum_def)
  ultimately show ?thesis by simp
qed

section \<open>A concrete form\<close>

definition replicas_field :: spec_field where
  "replicas_field = \<lparr>f_path = ''spec.replicas'', f_label = ''replicas'', f_help = None, f_required = True,
     f_kind = KInteger (Some 3) (Some 1) (Some 5)\<rparr>"

lemma form_round_trip_witness:
  "submit_form Inr (form_defaults [replicas_field] None) = Some [(units ''spec.replicas'', JNum (Num 3))]"
proof -
  have flat: "[(units ''spec.replicas'', JNum (Num 3))] =
      ospread (ospread [] (map (\<lambda>e. (units (fst e), snd e)) (defaultsFromUISpec [replicas_field]))) (nullish None [])"
    by (simp add: defaultsFromUISpec_def kind_default_def replicas_field_def)
  have "plain_keys [(units ''spec.replicas'', JNum (Num 3))]"
    by (simp add: plain_keys_def obj_ok_def units_def)
  from form_round_trip [OF this flat, of Inr] this show ?thesis by simp
qed


definition web_replicas :: spec_field where
  "web_replicas = replicas_field\<lparr>f_path := ''Deployment[web].spec.replicas''\<rparr>"

text \<open>A setter with both of React Hook Form's rules, for names with at most one bracket.\<close>

definition nested_set :: setter where
  "nested_set values k v = (let pre = takeWhile (\<lambda>u. u \<noteq> BRACKET) k in
     if BRACKET \<in> set k then oset values pre (JObj [(map char_of (drop (length pre + 1) k), v)]) else oset values k v)"

lemma nested_set_laws: "plain_names_set nested_set \<and> brackets_descend nested_set"
proof -
  have "takeWhile (\<lambda>u. u \<noteq> BRACKET) (pre @ BRACKET # rest) = pre" if "BRACKET \<notin> set pre" for pre rest
    using that by (induction pre) auto
  then show ?thesis by (fastforce simp: plain_names_set_def plain_name_def brackets_descend_def nested_set_def Let_def)
qed

definition own_key :: parser where
  "own_key values = Inr (case oget values (units (f_path web_replicas)) of
     None \<Rightarrow> [] | Some v \<Rightarrow> [(units (f_path web_replicas), v)])"

lemma bracket_edits_lost_witness:
  "submit_form own_key (form_event nested_set (form_defaults [web_replicas] None) (web_replicas, SlidTo (JNum (Num 5))))
   = submit_form own_key (form_defaults [web_replicas] None)"
proof -
  have path: "object_path (f_path web_replicas)"
    unfolding object_path_def web_replicas_def
    by (rule exI [of _ "''Deployment''"], rule exI [of _ "''web].spec.replicas''"]) simp
  have own: "reads_own_keys [web_replicas] own_key"
    by (simp add: reads_own_keys_def own_key_def)
  from bracket_edits_lost [of nested_set "[web_replicas]" own_key "[(web_replicas, SlidTo (JNum (Num 5)))]" None]
    nested_set_laws path own show ?thesis by simp
qed

lemma schema_from_spec_witness:
  "case schemaFromUISpec (\<lambda>_. None) [replicas_field] of Inl m \<Rightarrow> False
     | Inr shape \<Rightarrow> oget shape ''spec.replicas'' = Some (ZInteger [ZMin 1, ZMax 5])"
proof -
  have ok: "field_schema (\<lambda>_. None) replicas_field = Inr (ZInteger [ZMin 1, ZMax 5])"
    by (simp add: field_schema_def replicas_field_def opt_check_def)
  then obtain shape where shape: "schemaFromUISpec (\<lambda>_. None) [replicas_field] = Inr shape"
    by (simp add: schemaFromUISpec_def)
  have "f_path replicas_field = ''spec.replicas''" "f_required replicas_field" by (simp_all add: replicas_field_def)
  with schema_from_spec [where rx = "\<lambda>_. None" and fs = "[replicas_field]"] shape ok show ?thesis by simp
qed

end
