(* ===== verification/Field_Inspector.thy ===== *)
theory Field_Inspector
  imports Open_Api
begin

text \<open>
  \<open>frontend/components/FieldInspector.tsx\<close>: the panel of the template editor that says what happens
  to one field of a resource. The field is fixed to a value or exposed to the users of the template
  with a description; every control reports the field's whole new state.
\<close>

datatype ui_type = TString | TInteger | TBoolean | TEnum | TAutocomplete

record ins_spec =
  i_label :: string
  i_type :: ui_type
  i_min :: "jnum option"
  i_max :: "jnum option"
  i_pattern :: "string option"
  i_values :: "string list option"
  i_default :: jsval
  i_required :: "bool option"
  i_help :: "string option"

datatype ins_field = InsFixed jsval | InsExposed ins_spec

definition STRING_COMPATIBLE :: "ui_type list" where
  "STRING_COMPATIBLE = [TString, TEnum, TAutocomplete]"

definition mapSchemaType :: "node \<Rightarrow> ui_type" where
  "mapSchemaType n =
     (if nd_enum n \<noteq> None then TEnum
      else if nd_type n = Some ''integer'' \<or> nd_type n = Some ''number'' then TInteger
      else if nd_type n = Some ''boolean'' then TBoolean else TString)"

definition defaultFor :: "ui_type \<Rightarrow> jsval" where
  "defaultFor t = (case t of TInteger \<Rightarrow> JNum (Num 0) | TBoolean \<Rightarrow> JBool False | _ \<Rightarrow> JStr [])"

definition coerce :: "string \<Rightarrow> ui_type \<Rightarrow> jsval" where
  "coerce raw t = (case t of
     TInteger \<Rightarrow> if raw = [] then JUndef else JNum (js_Number raw)
   | TBoolean \<Rightarrow> JBool (raw = ''true'')
   | _ \<Rightarrow> JStr raw)"

text \<open>\<open>x ? Number(x) : undefined\<close>, for the bounds.\<close>

definition bound_of :: "string \<Rightarrow> jnum option" where
  "bound_of x = (if x = [] then None else Some (js_Number x))"

section \<open>What is on the screen\<close>

record panel =
  p_path :: string
  p_mode :: "bool option" \<comment> \<open>highlighted: the fixed button (\<^term>\<open>True\<close>), the exposed one, neither\<close>
  p_clear :: bool
  p_fixed :: "string option"
  p_types :: "ui_type option"
  p_label :: "string option"
  p_default :: "string option"
  p_values :: "string list option"
  p_bounds :: "(string \<times> string) option"
  p_required :: "bool option"

definition text_of :: "(jsval \<Rightarrow> string) \<Rightarrow> jsval \<Rightarrow> string" where
  "text_of other v = js_String other (jnullish v (JStr []))"

definition num_text :: "(jsval \<Rightarrow> string) \<Rightarrow> jnum option \<Rightarrow> string" where
  "num_text other n = (case n of None \<Rightarrow> [] | Some x \<Rightarrow> js_String other (JNum x))"

definition FieldInspector :: "(jsval \<Rightarrow> string) \<Rightarrow> string \<Rightarrow> node \<Rightarrow> ins_field option \<Rightarrow> panel" where
  "FieldInspector other path node v =
     (let empty = \<lparr>p_path = path, p_mode = None, p_clear = v \<noteq> None, p_fixed = None, p_types = None,
         p_label = None, p_default = None, p_values = None, p_bounds = None, p_required = None\<rparr> in
      case v of
        None \<Rightarrow> empty
      | Some (InsFixed fv) \<Rightarrow> empty\<lparr>p_mode := Some True, p_fixed := Some (text_of other fv)\<rparr>
      | Some (InsExposed sp) \<Rightarrow> empty\<lparr>p_mode := Some False,
          p_types := (if mapSchemaType node \<in> set STRING_COMPATIBLE then Some (i_type sp) else None),
          p_label := Some (i_label sp), p_default := Some (text_of other (i_default sp)),
          p_values := (if i_type sp = TEnum \<or> i_type sp = TAutocomplete then Some (nullish (i_values sp) []) else None),
          p_bounds := (if i_type sp = TInteger then Some (num_text other (i_min sp), num_text other (i_max sp)) else None),
          p_required := Some (nullish (i_required sp) False)\<rparr>)"

section \<open>The controls\<close>

datatype control =
    FixButton
  | ExposeButton
  | ClearButton
  | TypeFixed string
  | PickType ui_type
  | EditLabel string
  | EditDefault string
  | EditValue nat string
  | RemoveValue nat
  | AddValue
  | EditMin string
  | EditMax string
  | SetRequired bool

text \<open>The controls on the screen for a state of the field.\<close>

definition enabled :: "node \<Rightarrow> ins_field option \<Rightarrow> control \<Rightarrow> bool" where
  "enabled node v c = (case c of
     FixButton \<Rightarrow> True | ExposeButton \<Rightarrow> True | ClearButton \<Rightarrow> v \<noteq> None
   | TypeFixed _ \<Rightarrow> (case v of Some (InsFixed _) \<Rightarrow> True | _ \<Rightarrow> False)
   | _ \<Rightarrow> (case v of Some (InsExposed sp) \<Rightarrow>
       (case c of
          PickType t \<Rightarrow> mapSchemaType node \<in> set STRING_COMPATIBLE \<and> t \<in> set STRING_COMPATIBLE
        | EditValue i _ \<Rightarrow> i_type sp \<in> {TEnum, TAutocomplete} \<and> i < length (nullish (i_values sp) [])
        | RemoveValue i \<Rightarrow> i_type sp \<in> {TEnum, TAutocomplete} \<and> i < length (nullish (i_values sp) [])
        | AddValue \<Rightarrow> i_type sp \<in> {TEnum, TAutocomplete}
        | EditMin _ \<Rightarrow> i_type sp = TInteger | EditMax _ \<Rightarrow> i_type sp = TInteger
        | _ \<Rightarrow> True)
     | _ \<Rightarrow> False))"

definition remove_nth :: "nat \<Rightarrow> 'a list \<Rightarrow> 'a list" where
  "remove_nth i xs = take i xs @ drop (Suc i) xs"

definition exposed_update :: "ins_spec \<Rightarrow> control \<Rightarrow> ins_spec" where
  "exposed_update sp c = (case c of
     PickType t \<Rightarrow> sp\<lparr>i_type := t\<rparr>
   | EditLabel x \<Rightarrow> sp\<lparr>i_label := x\<rparr>
   | EditDefault x \<Rightarrow> sp\<lparr>i_default := coerce x (i_type sp)\<rparr>
   | EditValue i x \<Rightarrow> sp\<lparr>i_values := Some ((nullish (i_values sp) [])[i := x])\<rparr>
   | RemoveValue i \<Rightarrow> sp\<lparr>i_values := Some (remove_nth i (nullish (i_values sp) []))\<rparr>
   | AddValue \<Rightarrow> sp\<lparr>i_values := Some (nullish (i_values sp) [] @ [[]])\<rparr>
   | EditMin x \<Rightarrow> sp\<lparr>i_min := bound_of x\<rparr>
   | EditMax x \<Rightarrow> sp\<lparr>i_max := bound_of x\<rparr>
   | SetRequired b \<Rightarrow> sp\<lparr>i_required := Some b\<rparr>
   | _ \<Rightarrow> sp)"

definition fresh_spec :: "string \<Rightarrow> ui_type \<Rightarrow> ins_spec" where
  "fresh_spec path t = \<lparr>i_label = path, i_type = t, i_min = None, i_max = None, i_pattern = None, i_values = None,
     i_default = JUndef, i_required = Some False, i_help = None\<rparr>"

text \<open>A control reports the new state through \<open>onChange\<close>, or clears it through \<open>onClear\<close>.\<close>

definition use_control :: "string \<Rightarrow> node \<Rightarrow> ins_field option \<Rightarrow> control \<Rightarrow> ins_field option" where
  "use_control path node v c =
     (if \<not> enabled node v c then v
      else case c of
        FixButton \<Rightarrow> Some (InsFixed (defaultFor (mapSchemaType node)))
      | ExposeButton \<Rightarrow> Some (InsExposed (fresh_spec path (mapSchemaType node)))
      | ClearButton \<Rightarrow> None
      | TypeFixed x \<Rightarrow> Some (InsFixed (coerce x (mapSchemaType node)))
      | _ \<Rightarrow> (case v of Some (InsExposed sp) \<Rightarrow> Some (InsExposed (exposed_update sp c)) | _ \<Rightarrow> v))"

section \<open>What the panel keeps\<close>

text \<open>A value of a type as the panel writes it.\<close>

definition of_type :: "ui_type \<Rightarrow> jsval \<Rightarrow> bool" where
  "of_type t v = (case t of
     TInteger \<Rightarrow> v = JUndef \<or> (\<exists>n. v = JNum n) | TBoolean \<Rightarrow> (\<exists>b. v = JBool b) | _ \<Rightarrow> (\<exists>s. v = JStr s))"

definition sort_of :: "ui_type \<Rightarrow> ui_type" where
  "sort_of t = (if t \<in> set STRING_COMPATIBLE then TString else t)"

definition field_ok :: "node \<Rightarrow> ins_field option \<Rightarrow> bool" where
  "field_ok node v = (case v of None \<Rightarrow> True
   | Some (InsFixed fv) \<Rightarrow> of_type (mapSchemaType node) fv
   | Some (InsExposed sp) \<Rightarrow> sort_of (i_type sp) = sort_of (mapSchemaType node)
       \<and> (i_default sp = JUndef \<or> of_type (i_type sp) (i_default sp)))"

lemma coerce_of_type: "of_type t (coerce x t)"
  by (cases t) (auto simp: of_type_def coerce_def)

lemma default_of_type: "of_type t (defaultFor t)"
  by (cases t) (auto simp: of_type_def defaultFor_def)

lemma of_type_strings: "t \<in> set STRING_COMPATIBLE \<Longrightarrow> of_type t v \<longleftrightarrow> (\<exists>s. v = JStr s)"
  by (auto simp: STRING_COMPATIBLE_def of_type_def)

lemma TString_compatible [simp]: "TString \<in> set STRING_COMPATIBLE"
  by (simp add: STRING_COMPATIBLE_def)

lemma field_ok_step: "field_ok node v \<Longrightarrow> field_ok node (use_control path node v c)"
proof -
  assume ok: "field_ok node v"
  show ?thesis
  proof (cases "\<exists>t. c = PickType t")
    case True
    with ok show ?thesis
      by (auto simp: use_control_def enabled_def field_ok_def exposed_update_def sort_of_def of_type_strings
          split: option.splits ins_field.splits if_splits)
  next
    case False
    with ok show ?thesis
      by (auto simp: use_control_def enabled_def field_ok_def exposed_update_def fresh_spec_def
          coerce_of_type default_of_type split: option.splits ins_field.splits control.splits)
  qed
qed

interpretation insp: event_component "use_control path node" "field_ok node" for path node
  by unfold_locales (rule field_ok_step)

text \<open>Whatever controls are used in whatever order, the field stays of the schema's sort. A
  fixed value is of the schema's type; an exposed field keeps that type, up to the choice between
  text, enum and suggestions, and its default is of its type or missing.\<close>

lemma inspector_keeps_type:
  assumes "field_ok node v"
  shows "case foldl (use_control path node) v cs of None \<Rightarrow> True
     | Some (InsFixed fv) \<Rightarrow> of_type (mapSchemaType node) fv
     | Some (InsExposed sp) \<Rightarrow> sort_of (i_type sp) = sort_of (mapSchemaType node)
         \<and> (i_default sp = JUndef \<or> of_type (i_type sp) (i_default sp))"
  using insp.run_inv [OF assms] unfolding field_ok_def .

definition type_node :: "string \<Rightarrow> node" where
  "type_node t = Node (Some t) None None None None None None None None None"

lemma inspector_keeps_type_witness:
  "case foldl (use_control ''p'' (type_node ''string'')) None [ExposeButton, PickType TEnum, EditDefault ''a''] of
     None \<Rightarrow> True | Some (InsFixed fv) \<Rightarrow> of_type (mapSchemaType (type_node ''string'')) fv
   | Some (InsExposed sp) \<Rightarrow> sort_of (i_type sp) = sort_of (mapSchemaType (type_node ''string'')) \<and> (i_default sp = JUndef \<or> of_type (i_type sp) (i_default sp))"
  using inspector_keeps_type [of "type_node ''string''" None "''p''" "[ExposeButton, PickType TEnum, EditDefault ''a'']"]
  by (simp add: field_ok_def)

text \<open>Fixing an integer field. The text of an integer is stored as that integer and shown as
  the text that was typed; but a minus sign on its own, the first key of every negative number, is
  stored as NaN and shown as the text \<open>NaN\<close>, so a negative value cannot be typed key by key.\<close>

lemma typed_integers:
  assumes "mapSchemaType node = TInteger" and "\<bar>i\<bar> < 10 ^ 21"
  shows "use_control path node (Some (InsFixed fv)) (TypeFixed (int_text i)) = Some (InsFixed (JNum (Num (of_int i))))
    \<and> p_fixed (FieldInspector other path node (Some (InsFixed (JNum (Num (of_int i)))))) = Some (int_text i)
    \<and> use_control path node (Some (InsFixed fv)) (TypeFixed ''-'') = Some (InsFixed (JNum NaN))
    \<and> p_fixed (FieldInspector other path node (Some (InsFixed (JNum NaN)))) = Some ''NaN''"
proof -
  have minus: "js_Number ''-'' = NaN"
    by (simp add: js_Number_def js_trim_def js_space_def parse_number_def parse_unsigned_def split_digits_def)
  have "int_text i \<noteq> []" by (simp add: int_text_def)
  moreover have "text_of other (JNum (Num (of_int i))) = int_text i"
    by (simp add: text_of_def jnullish_def js_String_int [OF assms(2)])
  moreover have "text_of other (JNum NaN) = ''NaN''"
    by (simp add: text_of_def jnullish_def js_String_def)
  ultimately show ?thesis
    using assms(1) minus by (simp add: use_control_def enabled_def coerce_def FieldInspector_def Let_def)
qed

lemma typed_integers_witness:
  "use_control ''p'' (type_node ''integer'') (Some (InsFixed (JNum (Num 0)))) (TypeFixed ''-'') = Some (InsFixed (JNum NaN))"
  using typed_integers [of "type_node ''integer''" 0 "''p''"] by (simp add: type_node_def mapSchemaType_def)

text \<open>Changing how a text field is entered keeps everything else. After any choices of text,
  enum or suggestions, the last one \<open>t\<close>, the description is the one before with type \<open>t\<close>: values,
  default, label and flags are untouched, and no empty value is added. The button of the mode the
  field is already in is no such choice: it resets the description.\<close>

lemma type_choice_keeps_rest:
  assumes "mapSchemaType node \<in> set STRING_COMPATIBLE" and "set ts \<subseteq> set STRING_COMPATIBLE" and "t \<in> set STRING_COMPATIBLE"
  shows "foldl (use_control path node) (Some (InsExposed sp)) (map PickType (ts @ [t])) = Some (InsExposed (sp\<lparr>i_type := t\<rparr>))
    \<and> use_control path node (Some (InsExposed sp)) ExposeButton = Some (InsExposed (fresh_spec path (mapSchemaType node)))"
proof -
  have pick: "use_control path node (Some (InsExposed q)) (PickType u) = Some (InsExposed (q\<lparr>i_type := u\<rparr>))"
    if "u \<in> set STRING_COMPATIBLE" for u q
    using assms(1) that by (simp add: use_control_def enabled_def exposed_update_def)
  have "\<exists>q. foldl (use_control path node) (Some (InsExposed sp)) (map PickType ts) = Some (InsExposed q)
      \<and> q\<lparr>i_type := t\<rparr> = sp\<lparr>i_type := t\<rparr>"
    using assms(2)
  proof (induction ts rule: rev_induct)
    case (snoc u us)
    then obtain q where "foldl (use_control path node) (Some (InsExposed sp)) (map PickType us) = Some (InsExposed q)"
      "q\<lparr>i_type := t\<rparr> = sp\<lparr>i_type := t\<rparr>" by auto
    with snoc.prems pick [of u q] show ?case by (cases q; cases sp) simp
  qed auto
  then show ?thesis using pick [OF assms(3)] by (auto simp: use_control_def enabled_def)
qed

lemma type_choice_keeps_rest_witness:
  "foldl (use_control ''p'' (type_node ''string'')) (Some (InsExposed (fresh_spec ''p'' TString))) [PickType TEnum, PickType TAutocomplete]
     = Some (InsExposed (fresh_spec ''p'' TAutocomplete))"
  using type_choice_keeps_rest [of "type_node ''string''" "[TEnum]" TAutocomplete "''p''" "fresh_spec ''p'' TString"]
  by (simp add: type_node_def mapSchemaType_def STRING_COMPATIBLE_def fresh_spec_def)

end
