(* ===== verification/Log_Stream.thy ===== *)
theory Log_Stream
  imports Kp_Js
begin

text \<open>
  \<open>frontend/components/LogsPanel.tsx\<close>: the live logs of a release. A stream follows the server's
  events and keeps the last lines; choosing another instance starts a new stream.

  The events are the browser's: an event of type \<open>log\<close> or \<open>error\<close> with its data parsed as JSON (or the
  message of the exception; a connection error has no data, so parsing fails), the opening of the
  connection, and the Clear button. An \<open>error\<close> event, sent by the server or not, runs the listener
  and then \<open>onerror\<close>, since both listen to the type \<open>error\<close>.
\<close>

type_synonym entry = "(string, jsval) obj"

datatype status = Connecting | Connected | Disconnected

abbreviation LINE_CAP :: nat where
  "LINE_CAP \<equiv> 2000"

record stream =
  lines :: "entry list"
  status :: status
  seqRef :: nat

definition new_stream :: stream where
  "new_stream = \<lparr>lines = [], status = Connecting, seqRef = 0\<rparr>"

datatype stream_event =
    LogEvent "string + jsval"
  | ErrorEvent int "string + jsval"
  | Opened
  | Cleared

definition js_num :: "nat \<Rightarrow> jsval" where
  "js_num n = JNum (Num (of_nat n))"

text \<open>\<open>xs.slice(-n)\<close> for a positive \<open>n\<close>.\<close>

definition lastn :: "nat \<Rightarrow> 'a list \<Rightarrow> 'a list" where
  "lastn n xs = drop (length xs - n) xs"

definition append_entry :: "stream \<Rightarrow> entry \<Rightarrow> stream" where
  "append_entry s en =
     (let n = Suc (seqRef s); nxt = ospread [(''id'', js_num n)] en;
          trimmed = (if LINE_CAP \<le> length (lines s) then lastn (LINE_CAP - 1) (lines s) else lines s)
      in s\<lparr>seqRef := n, lines := trimmed @ [nxt]\<rparr>)"

text \<open>What a listener appends, if anything.\<close>

definition log_entry :: "string + jsval \<Rightarrow> entry option" where
  "log_entry d = (case d of Inl m \<Rightarrow> None | Inr v \<Rightarrow> Some (oset (entries_of v) ''kind'' (JStr ''log'')))"

definition error_entry :: "int \<Rightarrow> string + jsval \<Rightarrow> entry option" where
  "error_entry now d = (case d of Inl m \<Rightarrow> None
   | Inr v \<Rightarrow> if v = JNull then None
       else Some [(''time'', JNum (Num (of_int now))), (''pod'', JStr ''kuberport''),
              (''text'', jfield v ''error''), (''kind'', JStr ''error'')])"

definition append_opt :: "stream \<Rightarrow> entry option \<Rightarrow> stream" where
  "append_opt s en = (case en of None \<Rightarrow> s | Some x \<Rightarrow> append_entry s x)"

fun stream_step :: "stream \<Rightarrow> stream_event \<Rightarrow> stream" where
  "stream_step s (LogEvent d) = append_opt s (log_entry d)"
| "stream_step s (ErrorEvent now d) = (append_opt s (error_entry now d))\<lparr>status := Disconnected\<rparr>"
| "stream_step s Opened = s\<lparr>status := Connected\<rparr>"
| "stream_step s Cleared = s\<lparr>lines := []\<rparr>"

text \<open>The panel: the stream is keyed by the instance.\<close>

record logs_panel =
  pod_choice :: string
  autoscroll :: bool
  stream :: stream

datatype panel_event = PickInstance "string option" | SetAutoscroll bool | StreamEvent stream_event

definition panel_step :: "logs_panel \<Rightarrow> panel_event \<Rightarrow> logs_panel" where
  "panel_step p ev = (case ev of
     PickInstance v \<Rightarrow> (let i = nullish v ''all'' in
        if i = pod_choice p then p else p\<lparr>pod_choice := i, stream := new_stream\<rparr>)
   | SetAutoscroll b \<Rightarrow> p\<lparr>autoscroll := b\<rparr>
   | StreamEvent e \<Rightarrow> p\<lparr>stream := stream_step (stream p) e\<rparr>)"

definition new_panel :: logs_panel where
  "new_panel = \<lparr>pod_choice = ''all'', autoscroll = True, stream = new_stream\<rparr>"

definition dot_label :: "status \<Rightarrow> string" where
  "dot_label st = (case st of Connected \<Rightarrow> ''connected'' | Connecting \<Rightarrow> ''connecting'' | Disconnected \<Rightarrow> ''disconnected'')"

section \<open>The cap\<close>

lemma lastn_snoc: "0 < n \<Longrightarrow> lastn n (xs @ [x]) = (if n \<le> length xs then lastn (n - 1) xs else xs) @ [x]"
  by (auto simp: lastn_def Suc_diff_le)

lemma length_lastn [simp]: "length (lastn n xs) = min n (length xs)"
  by (simp add: lastn_def)

lemma append_entry_simps:
  "lines (append_entry s en) = lastn LINE_CAP (lines s @ [ospread [(''id'', js_num (Suc (seqRef s)))] en])"
  "seqRef (append_entry s en) = Suc (seqRef s)" "status (append_entry s en) = status s"
  by (simp_all add: append_entry_def lastn_snoc)

definition capped :: "logs_panel \<Rightarrow> bool" where
  "capped p \<longleftrightarrow> length (lines (stream p)) \<le> LINE_CAP"

lemma capped_step: "capped p \<Longrightarrow> capped (panel_step p ev)"
proof -
  have opt: "length (lines (append_opt s en)) \<le> LINE_CAP" if "length (lines s) \<le> LINE_CAP" for s en
    using that by (cases en) (auto simp: append_opt_def append_entry_simps)
  have "length (lines (stream_step s e)) \<le> LINE_CAP" if "length (lines s) \<le> LINE_CAP" for s e
    using that opt by (cases e) auto
  then show "capped p \<Longrightarrow> ?thesis"
    by (auto simp: capped_def panel_step_def new_stream_def Let_def split: panel_event.split)
qed

interpretation logs: event_component panel_step capped
  by unfold_locales (rule capped_step)

section \<open>Which lines are shown\<close>

text \<open>What an event appends, and the entries a sequence of events appends, numbered on from \<open>n\<close>.\<close>

definition appended :: "stream_event \<Rightarrow> entry option" where
  "appended e = (case e of LogEvent d \<Rightarrow> log_entry d | ErrorEvent now d \<Rightarrow> error_entry now d | _ \<Rightarrow> None)"

fun numbered :: "nat \<Rightarrow> entry list \<Rightarrow> entry list" where
  "numbered n [] = []"
| "numbered n (en # ens) = ospread [(''id'', js_num (Suc n))] en # numbered (Suc n) ens"

lemma numbered_append: "numbered n (xs @ ys) = numbered n xs @ numbered (n + length xs) ys"
  by (induction n xs rule: numbered.induct) auto

lemma length_numbered [simp]: "length (numbered n xs) = length xs"
  by (induction n xs rule: numbered.induct) auto

lemma map_filter_simps [simp]:
  "List.map_filter f [] = []"
  "List.map_filter f (x # xs) = (case f x of None \<Rightarrow> List.map_filter f xs | Some y \<Rightarrow> y # List.map_filter f xs)"
  by (simp_all add: List.map_filter_def split: option.split)

lemma map_filter_snoc: "List.map_filter f (xs @ [x]) = List.map_filter f xs @ (case f x of None \<Rightarrow> [] | Some y \<Rightarrow> [y])"
  by (induction xs) (auto split: option.split)

lemma lastn_append: "lastn n (lastn n xs @ ys) = lastn n (xs @ ys)"
  by (cases "length xs \<le> n") (simp_all add: lastn_def add.commute)

lemma stream_steps:
  assumes "Cleared \<notin> set evs" and "length (lines s) \<le> LINE_CAP"
  shows "lines (foldl stream_step s evs) = lastn LINE_CAP (lines s @ numbered (seqRef s) (List.map_filter appended evs))
    \<and> seqRef (foldl stream_step s evs) = seqRef s + length (List.map_filter appended evs)"
  using assms(1)
proof (induction evs rule: rev_induct)
  case Nil
  from assms(2) show ?case by (simp add: lastn_def)
next
  case (snoc e evs)
  let ?t = "foldl stream_step s evs"
  from snoc have IH: "lines ?t = lastn LINE_CAP (lines s @ numbered (seqRef s) (List.map_filter appended evs))"
    "seqRef ?t = seqRef s + length (List.map_filter appended evs)" by auto
  have step: "lines (stream_step ?t e) = lines (append_opt ?t (appended e)) \<and> seqRef (stream_step ?t e) = seqRef (append_opt ?t (appended e))"
    using snoc.prems by (cases e) (auto simp: appended_def append_opt_def)
  show ?case
  proof (cases "appended e")
    case None
    with step IH show ?thesis by (simp add: append_opt_def map_filter_snoc)
  next
    case (Some en)
    with step IH show ?thesis
      by (simp add: append_opt_def map_filter_snoc append_entry_simps numbered_append lastn_append)
  qed
qed

lemma numbered_ids:
  "\<forall>en \<in> set ens. oget (rev en) ''id'' = None \<Longrightarrow>
     map (\<lambda>l. oget l ''id'') (numbered n ens) = map (\<lambda>k. Some (js_num k)) [Suc n..<Suc n + length ens]"
proof (induction n ens rule: numbered.induct)
  case (2 n en ens)
  then show ?case by (simp add: oget_ospread upt_conv_Cons del: upt_Suc)
qed simp

text \<open>After any events the panel shows the last 2000 lines received since it was last
  cleared (or since the stream started), in the order they came: the parsed log lines and the
  server's error messages, malformed data and a connection error adding none. As long as the server sends no
  \<open>id\<close> of its own all shown lines have different ids, also across a Clear.\<close>

lemma logs_show_last_lines:
  assumes "Cleared \<notin> set evs" and "s = new_stream \<or> s = foldl stream_step new_stream (before @ [Cleared])"
  shows "lines (foldl stream_step s evs) = lastn 2000 (numbered (seqRef s) (List.map_filter appended evs))
    \<and> ((\<forall>en \<in> set (List.map_filter appended evs). oget (rev en) ''id'' = None) \<longrightarrow>
         distinct (map (\<lambda>l. oget l ''id'') (lines (foldl stream_step s evs))))"
proof -
  have "lines s = []" using assms(2) by (auto simp: new_stream_def)
  with stream_steps [OF assms(1), of s]
  have shown: "lines (foldl stream_step s evs) = lastn 2000 (numbered (seqRef s) (List.map_filter appended evs))" by simp
  moreover have "distinct (map (\<lambda>l. oget l ''id'') (lastn 2000 (numbered (seqRef s) (List.map_filter appended evs))))"
    if "\<forall>en \<in> set (List.map_filter appended evs). oget (rev en) ''id'' = None"
  proof -
    have "inj (\<lambda>k. Some (js_num k))" by (simp add: inj_def js_num_def)
    then have "distinct (map (\<lambda>l. oget l ''id'') (numbered (seqRef s) (List.map_filter appended evs)))"
      unfolding numbered_ids [OF that] by (simp add: distinct_map inj_on_subset [of _ UNIV])
    then show ?thesis by (simp add: lastn_def flip: drop_map)
  qed
  ultimately show ?thesis by simp
qed

lemma logs_show_last_lines_witness:
  "lines (foldl stream_step new_stream [Opened, LogEvent (Inr (JObj [(''pod'', JStr ''web''), (''text'', JStr ''hi'')]))])
     = [[(''id'', js_num 1), (''pod'', JStr ''web''), (''text'', JStr ''hi''), (''kind'', JStr ''log'')]]"
  using logs_show_last_lines [of "[Opened, LogEvent (Inr (JObj [(''pod'', JStr ''web''), (''text'', JStr ''hi'')]))]" new_stream]
  by (simp add: appended_def log_entry_def lastn_def new_stream_def)

text \<open>The panel never holds more than 2000 lines, whatever is chosen, received or cleared.\<close>

lemma logs_capped:
  "length (lines (stream (foldl panel_step new_panel evs))) \<le> 2000"
  using logs.run_inv [of new_panel evs] by (simp add: capped_def new_panel_def new_stream_def)

text \<open>An error message sent by the server makes the panel say that the connection is lost,
  and it keeps saying so while the connection stays open and log lines keep arriving.\<close>

lemma server_error_shows_disconnected:
  assumes "\<forall>e \<in> set evs. \<exists>d. e = LogEvent d" and "v \<noteq> JNull" and "s = foldl stream_step new_stream before"
  shows "status (foldl stream_step s (ErrorEvent now (Inr v) # evs)) = Disconnected
    \<and> lines (foldl stream_step s (ErrorEvent now (Inr v) # evs)) =
        lastn 2000 (lines s @ numbered (seqRef s) (List.map_filter appended (ErrorEvent now (Inr v) # evs)))"
proof -
  have cap: "length (lines s) \<le> LINE_CAP"
  proof -
    have "length (lines (foldl stream_step new_stream bs)) \<le> LINE_CAP" for bs
    proof (induction bs rule: rev_induct)
      case (snoc e bs)
      then show ?case
        using capped_step [of "\<lparr>pod_choice = [], autoscroll = True, stream = foldl stream_step new_stream bs\<rparr>" "StreamEvent e"]
        by (simp add: capped_def panel_step_def)
    qed (simp add: new_stream_def)
    then show ?thesis by (simp add: assms(3))
  qed
  have "status (foldl stream_step t evs) = status t" if "\<forall>e \<in> set evs. \<exists>d. e = LogEvent d" for t evs
    using that by (induction evs arbitrary: t) (auto simp: append_opt_def append_entry_simps split: option.split)
  with assms(1) have "status (foldl stream_step s (ErrorEvent now (Inr v) # evs)) = Disconnected" by simp
  moreover have "Cleared \<notin> set (ErrorEvent now (Inr v) # evs)" using assms(1) by auto
  ultimately show ?thesis using stream_steps [OF _ cap] by blast
qed

lemma server_error_shows_disconnected_witness:
  "status (foldl stream_step new_stream
     [Opened, ErrorEvent 0 (Inr (JObj [(''error'', JStr ''pod gone'')])), LogEvent (Inr (JObj []))]) = Disconnected"
  using server_error_shows_disconnected [of "[LogEvent (Inr (JObj []))]" "JObj [(''error'', JStr ''pod gone'')]"
      "stream_step new_stream Opened" "[Opened]" 0] by simp

end
