(* ===== verification/Rbac_Panel.thy ===== *)
theory Rbac_Panel
  imports Kp_Js
begin

text \<open>
  \<open>frontend/components/RBACCheckPanel.tsx\<close>: before deploying, one access review per kind of resource.
  The panel is a state machine: rendering with new properties runs the effect (the clean-up of the
  previous run first), and a run reports when all its reviews have answered. A run whose clean-up
  has happened is not active any more and changes nothing.
\<close>

record check_result =
  allowed :: bool
  resource :: string
  reason :: string

record ssar_request =
  q_cluster :: string
  q_namespace :: string
  q_verb :: string
  q_group :: string
  q_resource :: string

record ssar_body =
  b_allowed :: bool
  b_reason :: "string option"

definition KIND_TO_RESOURCE :: "(string, string \<times> string) obj" where
  "KIND_TO_RESOURCE = [
     (''Deployment'', ''apps'', ''deployments''), (''Service'', '''', ''services''),
     (''Ingress'', ''networking.k8s.io'', ''ingresses''), (''ConfigMap'', '''', ''configmaps''),
     (''Secret'', '''', ''secrets''), (''StatefulSet'', ''apps'', ''statefulsets''),
     (''DaemonSet'', ''apps'', ''daemonsets''), (''Job'', ''batch'', ''jobs''),
     (''CronJob'', ''batch'', ''cronjobs''),
     (''PersistentVolumeClaim'', '''', ''persistentvolumeclaims'')]"

record rbac_props =
  p_cluster :: string
  p_namespace :: string
  p_kinds :: "string list"

definition check_kind :: "rbac_props \<Rightarrow> (ssar_request \<Rightarrow> ssar_body outcome) \<Rightarrow> string \<Rightarrow> check_result" where
  "check_kind p fetch k = (case oget KIND_TO_RESOURCE k of
     None \<Rightarrow> \<lparr>allowed = True, resource = k, reason = ''unknown kind - skipped''\<rparr>
   | Some (grp, res) \<Rightarrow>
      (case fetch \<lparr>q_cluster = p_cluster p, q_namespace = p_namespace p, q_verb = ''create'', q_group = grp, q_resource = res\<rparr> of
         Inl m \<Rightarrow> \<lparr>allowed = False, resource = k, reason = m\<rparr>
       | Inr r \<Rightarrow>
          if \<not> rok r then \<lparr>allowed = False, resource = k, reason = ''HTTP '' @ nat_digits (rstatus r)\<rparr>
          else (case rjson r of
                  Inl m \<Rightarrow> \<lparr>allowed = False, resource = k, reason = m\<rparr>
                | Inr b \<Rightarrow> \<lparr>allowed = b_allowed b, resource = k, reason = nullish (b_reason b) []\<rparr>)))"

definition hasInputs :: "rbac_props \<Rightarrow> bool" where
  "hasInputs p \<longleftrightarrow> p_cluster p \<noteq> [] \<and> p_namespace p \<noteq> [] \<and> p_kinds p \<noteq> []"

fun join_comma :: "string list \<Rightarrow> string" where
  "join_comma [] = []"
| "join_comma [k] = k"
| "join_comma (k # l # ks) = k @ '','' @ join_comma (l # ks)"

text \<open>The dependencies of the effect.\<close>

definition deps :: "rbac_props \<Rightarrow> string \<times> string \<times> string \<times> bool" where
  "deps p = (p_cluster p, p_namespace p, join_comma (p_kinds p), hasInputs p)"

text \<open>The state: the last rendered properties, the results, the loading flag, the runs in flight with
  the properties they were started with, and the number of the active run.\<close>

record rbac =
  props :: rbac_props
  results :: "check_result list"
  loading :: bool
  runs :: "(nat \<times> rbac_props) list"
  active :: "nat option"
  next_run :: nat

datatype rbac_event = Render rbac_props | Answered nat "ssar_request \<Rightarrow> ssar_body outcome"

definition run_of :: "rbac \<Rightarrow> nat \<Rightarrow> rbac_props option" where
  "run_of s i = map_of (runs s) i"

definition run_effect :: "rbac_props \<Rightarrow> rbac \<Rightarrow> rbac" where
  "run_effect p s =
     (let s' = s\<lparr>active := None\<rparr> in
      if \<not> hasInputs p then s'
      else s'\<lparr>loading := True, runs := runs s' @ [(next_run s', p)], active := Some (next_run s'),
              next_run := Suc (next_run s')\<rparr>)"

definition rbac_step :: "rbac \<Rightarrow> rbac_event \<Rightarrow> rbac" where
  "rbac_step s ev = (case ev of
     Render p \<Rightarrow> (let s' = s\<lparr>props := p\<rparr> in if deps p = deps (props s) then s' else run_effect p s')
   | Answered i fetch \<Rightarrow>
      (case run_of s i of None \<Rightarrow> s
       | Some p \<Rightarrow>
          (let s' = s\<lparr>runs := filter (\<lambda>r. fst r \<noteq> i) (runs s)\<rparr> in
           if active s = Some i then s'\<lparr>results := map (check_kind p fetch) (p_kinds p), loading := False\<rparr> else s')))"

text \<open>Mounting renders with the first properties and runs the effect.\<close>

definition mount :: "rbac_props \<Rightarrow> rbac" where
  "mount p = run_effect p \<lparr>props = p, results = [], loading = False, runs = [], active = None, next_run = 0\<rparr>"

section \<open>What is on the screen\<close>

datatype verdict = Checking | Placeholder | AllAllowed | Denied "(string \<times> string) list"

definition effectiveResults :: "rbac \<Rightarrow> check_result list" where
  "effectiveResults s = (if hasInputs (props s) then results s else [])"

definition screen :: "rbac \<Rightarrow> verdict list" where
  "screen s = (let rs = effectiveResults s in
     (if loading s then [Checking] else [])
     @ (if \<not> loading s \<and> rs = [] then [Placeholder] else [])
     @ (if \<not> loading s \<and> rs \<noteq> [] \<and> list_all allowed rs then [AllAllowed] else [])
     @ (if \<not> loading s \<and> list_ex (\<lambda>r. \<not> allowed r) rs
        then [Denied (map (\<lambda>r. (resource r, if reason r = [] then ''denied'' else reason r)) (filter (\<lambda>r. \<not> allowed r) rs))]
        else []))"

section \<open>No stale verdict\<close>

text \<open>Unless it is loading, a panel with inputs shows the answers of a finished check of these inputs.\<close>

definition verdict_inv :: "rbac \<Rightarrow> bool" where
  "verdict_inv s \<longleftrightarrow>
     (\<forall>i p. run_of s i = Some p \<longrightarrow> i < next_run s)
     \<and> (\<forall>i p. active s = Some i \<and> run_of s i = Some p \<longrightarrow> deps p = deps (props s))
     \<and> (hasInputs (props s) \<longrightarrow> (\<exists>i. active s = Some i \<and>
          (if loading s then \<exists>p. run_of s i = Some p
           else \<exists>p fetch. deps p = deps (props s) \<and> results s = map (check_kind p fetch) (p_kinds p))))"

lemma hasInputs_deps: "deps p = deps q \<Longrightarrow> hasInputs p = hasInputs q"
  by (simp add: deps_def)

lemma run_of_simps [simp]:
  "run_of (s\<lparr>props := p\<rparr>) i = run_of s i" "run_of (s\<lparr>loading := b\<rparr>) i = run_of s i"
  "run_of (s\<lparr>results := rs\<rparr>) i = run_of s i" "run_of (s\<lparr>active := a\<rparr>) i = run_of s i"
  "run_of (s\<lparr>runs := filter (\<lambda>r. fst r \<noteq> j) (runs s)\<rparr>) i = (if i = j then None else run_of s i)"
proof -
  have "map_of (filter (\<lambda>r. fst r \<noteq> j) xs) i = (if i = j then None else map_of xs i)" for xs :: "(nat \<times> rbac_props) list"
    by (induction xs) auto
  then show "run_of (s\<lparr>runs := filter (\<lambda>r. fst r \<noteq> j) (runs s)\<rparr>) i = (if i = j then None else run_of s i)"
    by (simp add: run_of_def)
qed (simp_all add: run_of_def)

definition runs_ok :: "rbac \<Rightarrow> bool" where
  "runs_ok s \<longleftrightarrow> (\<forall>i p. run_of s i = Some p \<longrightarrow> i < next_run s)"

lemma runs_ok_effect: "runs_ok s \<Longrightarrow> runs_ok (run_effect p s)"
  by (auto simp: runs_ok_def run_effect_def run_of_def Let_def map_add_def less_SucI split: option.splits if_splits)

lemma run_of_effect:
  assumes "runs_ok s" and "hasInputs p"
  shows "run_of (run_effect p s) (next_run s) = Some p"
proof -
  have "run_of s (next_run s) = None"
    using assms(1) by (cases "run_of s (next_run s)") (auto simp: runs_ok_def)
  with assms(2) show ?thesis by (simp add: run_effect_def run_of_def Let_def map_add_def)
qed

lemma effect_fields:
  "props (run_effect p s) = props s" "active (run_effect p s) = (if hasInputs p then Some (next_run s) else None)"
  "loading (run_effect p s) = (hasInputs p \<or> loading s)"
  by (auto simp: run_effect_def Let_def)

lemma verdict_inv_effect:
  assumes "runs_ok s" and "props s = p"
  shows "verdict_inv (run_effect p s)"
  using runs_ok_effect [OF assms(1), of p] run_of_effect [OF assms(1), of p] assms(2)
  by (auto simp: verdict_inv_def effect_fields runs_ok_def)

lemma verdict_inv_step:
  assumes "verdict_inv s"
  shows "verdict_inv (rbac_step s ev)"
proof (cases ev)
  case (Render p)
  show ?thesis
  proof (cases "deps p = deps (props s)")
    case True
    with assms hasInputs_deps [OF True] show ?thesis
      by (auto simp: Render rbac_step_def verdict_inv_def Let_def)
  next
    case False
    have "runs_ok (s\<lparr>props := p\<rparr>)" using assms by (simp add: runs_ok_def verdict_inv_def)
    with False verdict_inv_effect [of "s\<lparr>props := p\<rparr>" p] show ?thesis
      by (simp add: Render rbac_step_def Let_def)
  qed
next
  case (Answered i fetch)
  show ?thesis
  proof (cases "run_of s i")
    case None
    with assms show ?thesis by (simp add: Answered rbac_step_def)
  next
    case (Some p)
    show ?thesis
    proof (cases "active s = Some i")
      case True
      with Some assms have "deps p = deps (props s)" by (simp add: verdict_inv_def)
      with True Some assms show ?thesis
        by (auto simp: Answered rbac_step_def Let_def verdict_inv_def)
    next
      case False
      with Some assms show ?thesis
        by (auto simp: Answered rbac_step_def Let_def verdict_inv_def)
    qed
  qed
qed

interpretation rbac: event_component rbac_step verdict_inv
  by unfold_locales (rule verdict_inv_step)

lemma mount_inv: "verdict_inv (mount p)"
  unfolding mount_def by (rule verdict_inv_effect) (simp_all add: runs_ok_def run_of_def)

text \<open>A kind passes only if the server says so, or if the panel does not know it.\<close>

lemma check_kind_allowed:
  "allowed (check_kind p fetch k) \<longleftrightarrow> (case oget KIND_TO_RESOURCE k of None \<Rightarrow> True
     | Some (grp, res) \<Rightarrow> \<exists>r b. fetch \<lparr>q_cluster = p_cluster p, q_namespace = p_namespace p, q_verb = ''create'',
          q_group = grp, q_resource = res\<rparr> = Inr r \<and> rok r \<and> rjson r = Inr b \<and> b_allowed b)"
  by (auto simp: check_kind_def split: option.splits sum.splits)

lemma check_kind_resource [simp]: "resource (check_kind p fetch k) = k"
  by (auto simp: check_kind_def split: option.splits sum.splits)

lemma screen_all: "AllAllowed \<in> set (screen s) \<Longrightarrow>
    \<not> loading s \<and> effectiveResults s \<noteq> [] \<and> list_all allowed (effectiveResults s)"
  by (auto simp: screen_def Let_def split: if_splits)

lemma screen_denied: "Denied ds \<in> set (screen s) \<Longrightarrow>
    \<not> loading s \<and> effectiveResults s \<noteq> []
    \<and> map fst ds = map resource (filter (\<lambda>r. \<not> allowed r) (effectiveResults s))"
  by (auto simp: screen_def Let_def comp_def split: if_splits)

lemma shown_results:
  assumes "verdict_inv s" and "\<not> loading s" and "effectiveResults s \<noteq> []"
  obtains p fetch where "deps p = deps (props s)" "effectiveResults s = map (check_kind p fetch) (p_kinds p)"
    "p_cluster p = p_cluster (props s)" "p_namespace p = p_namespace (props s)"
proof -
  have "hasInputs (props s)" "effectiveResults s = results s"
    using assms(3) by (auto simp: effectiveResults_def split: if_splits)
  with assms(1,2) obtain p fetch where "deps p = deps (props s)" "effectiveResults s = map (check_kind p fetch) (p_kinds p)"
    by (auto simp: verdict_inv_def)
  moreover from this(1) have "p_cluster p = p_cluster (props s)" "p_namespace p = p_namespace (props s)"
    by (simp_all add: deps_def)
  ultimately show thesis by (rule that)
qed


definition web_props :: rbac_props where
  "web_props = \<lparr>p_cluster = ''c1'', p_namespace = ''default'', p_kinds = [''Deployment'']\<rparr>"

definition offline_panel :: rbac where
  "offline_panel = foldl rbac_step (mount web_props) [Answered 0 (\<lambda>_. Inl ''offline'')]"


text \<open>The panel gets stuck when its inputs are cleared during a check. The run that is cut off
  does not reset the loading flag and no run follows it, so whatever answers arrive the panel says
  that it is checking, until it is given inputs again.\<close>

lemma cleared_inputs_stuck:
  assumes "hasInputs p" and "\<not> hasInputs q"
    and "\<forall>ev \<in> set evs. case ev of Render q' \<Rightarrow> \<not> hasInputs q' | Answered i fetch \<Rightarrow> True"
  shows "screen (foldl rbac_step (mount p) (Render q # evs)) = [Checking]"
proof -
  define stuck where "stuck s \<longleftrightarrow> loading s \<and> active s = None \<and> \<not> hasInputs (props s)" for s :: rbac
  have "stuck (rbac_step (mount p) (Render q))"
    using assms(1,2) by (auto simp: stuck_def mount_def rbac_step_def run_effect_def deps_def Let_def)
  moreover have "stuck (foldl rbac_step s evs)" if "stuck s" for s
    using assms(3) that
  proof (induction evs arbitrary: s)
    case (Cons ev evs)
    then have "stuck (rbac_step s ev)"
      by (cases ev) (auto simp: stuck_def rbac_step_def run_effect_def Let_def split: option.split)
    with Cons show ?case by simp
  qed simp
  ultimately have "stuck (foldl rbac_step (mount p) (Render q # evs))" by simp
  then show ?thesis by (auto simp: stuck_def screen_def effectiveResults_def)
qed

lemma cleared_inputs_stuck_witness:
  "screen (foldl rbac_step (mount web_props) [Render (web_props\<lparr>p_kinds := []\<rparr>), Answered 0 (\<lambda>_. Inl ''offline'')]) = [Checking]"
  using cleared_inputs_stuck [of web_props "web_props\<lparr>p_kinds := []\<rparr>" "[Answered 0 (\<lambda>_. Inl ''offline'')]"]
  by (simp add: hasInputs_def web_props_def)

end
