(* ===== verification/Deploy_Client.thy ===== *)
theory Deploy_Client
  imports Ui_Spec Rbac_Panel
begin

text \<open>
  Deploying a template: \<open>frontend/app/catalog/[name]/deploy/DeployClient.tsx\<close>, the two pages that open it
  (\<open>deploy/page.tsx\<close>, \<open>versions/[v]/deploy/page.tsx\<close>) and \<open>frontend/components/ResourcesPreview.tsx\<close>.

  The client is a state machine. Its events are what the user does (a control that is not on the
  screen or is disabled gives no event), the debounced preview firing, and the answers of the API,
  which come in any order. The YAML parser is an argument: the values of the documents of a text,
  or \<^term>\<open>None\<close> when it throws.
\<close>

section \<open>The resources of a rendered template\<close>

type_synonym yaml_parser = "string \<Rightarrow> jsval list option"

definition preview_resources :: "yaml_parser \<Rightarrow> string option \<Rightarrow> (string \<times> jsval) list" where
  "preview_resources parse rendered =
     (if \<not> truthy_str rendered then []
      else case parse (the rendered) of None \<Rightarrow> []
      | Some docs \<Rightarrow> map (\<lambda>x. (jstr_or (jfield x ''kind'') [],
            jnullish (jfield (jfield x ''metadata'') ''name'') (JStr ''(unnamed)'')))
          (filter (\<lambda>x. jtruthy x \<and> (case jfield x ''kind'' of JStr _ \<Rightarrow> True | _ \<Rightarrow> False)) docs))"

definition rendered_kinds :: "yaml_parser \<Rightarrow> string option \<Rightarrow> jsval list" where
  "rendered_kinds parse rendered =
     (if \<not> truthy_str rendered then []
      else case parse (the rendered) of None \<Rightarrow> []
      | Some docs \<Rightarrow> filter jtruthy (map (\<lambda>x. jfield x ''kind'') docs))"

text \<open>The notices of the preview: rendering, the hint, the list.\<close>

definition preview_notices :: "yaml_parser \<Rightarrow> string option \<Rightarrow> bool \<Rightarrow> bool \<times> bool \<times> (string \<times> jsval) list" where
  "preview_notices parse rendered pending =
     (let rs = preview_resources parse rendered in (pending, \<not> pending \<and> rs = [], rs))"

section \<open>The client\<close>

type_synonym form_values = "(name, jsval) obj"

record deploy_props =
  dp_template :: string
  dp_version :: nat
  dp_team :: "string option"
  dp_spec :: "spec_field list"
  dp_update :: "string option"
  dp_initial :: "form_values option"

datatype api_body =
    RenderBody form_values
  | UpdateBody nat form_values
  | CreateBody string nat string string string form_values

record deploy_request =
  dr_method :: http_method
  dr_url :: string
  dr_body :: api_body

record deploy =
  m_name :: string
  m_cluster :: string
  m_namespace :: string
  clusters :: "string list"
  clusters_pending :: bool
  rendered :: "string option"
  pending :: bool
  submitting :: bool
  err :: "string option"
  stored_cluster :: "string option"
  in_flight :: "(nat \<times> deploy_request) list"
  next_id :: nat
  sent :: "deploy_request list"
  pushed :: "string list"

datatype deploy_event =
    ClustersAnswer "string list outcome"
  | EditName string
  | EditNamespace string
  | PickCluster "string option"
  | PreviewFires form_values
  | SubmitForm form_values
  | Answer nat "string outcome"

definition isUpdate :: "deploy_props \<Rightarrow> bool" where
  "isUpdate p \<longleftrightarrow> truthy_str (dp_update p)"

definition mount_deploy :: "deploy_props \<Rightarrow> string option \<Rightarrow> deploy" where
  "mount_deploy p stored = \<lparr>m_name = [], m_cluster = [], m_namespace = ''default'', clusters = [],
     clusters_pending = (\<not> isUpdate p), rendered = None, pending = False, submitting = False, err = None,
     stored_cluster = stored, in_flight = [], next_id = 0, sent = [], pushed = []\<rparr>"

definition form_disabled :: "deploy_props \<Rightarrow> deploy \<Rightarrow> bool" where
  "form_disabled p s \<longleftrightarrow> \<not> isUpdate p \<and> m_cluster s = []"

definition preselect :: "string option \<Rightarrow> string list \<Rightarrow> string" where
  "preselect cached names =
     (if truthy_str cached \<and> the cached \<in> set names then the cached
      else case names of [] \<Rightarrow> [] | n # _ \<Rightarrow> n)"

definition clusters_answer :: "string list outcome \<Rightarrow> deploy \<Rightarrow> deploy" where
  "clusters_answer out s = (let s' = s\<lparr>clusters_pending := False\<rparr> in
     case out of Inl _ \<Rightarrow> s'
     | Inr r \<Rightarrow> if \<not> rok r then s'
        else (case rjson r of Inl _ \<Rightarrow> s'
              | Inr names \<Rightarrow> (let s'' = s'\<lparr>clusters := names\<rparr>; c = preselect (stored_cluster s) names in
                  if c \<noteq> [] then s''\<lparr>m_cluster := c\<rparr> else s'')))"

definition send :: "deploy_request \<Rightarrow> deploy \<Rightarrow> deploy" where
  "send r s = s\<lparr>in_flight := in_flight s @ [(next_id s, r)], next_id := Suc (next_id s), sent := sent s @ [r]\<rparr>"

definition preview_request :: "deploy_props \<Rightarrow> form_values \<Rightarrow> deploy_request" where
  "preview_request p v = \<lparr>dr_method = POST,
     dr_url = ''/api/v1/templates/'' @ dp_template p @ ''/render?version='' @ nat_digits (dp_version p), dr_body = RenderBody v\<rparr>"

definition submit_request :: "deploy_props \<Rightarrow> deploy \<Rightarrow> form_values \<Rightarrow> deploy_request" where
  "submit_request p s v =
     (if isUpdate p
      then \<lparr>dr_method = PUT, dr_url = ''/api/v1/releases/'' @ the (dp_update p), dr_body = UpdateBody (dp_version p) v\<rparr>
      else \<lparr>dr_method = POST, dr_url = ''/api/v1/releases'',
            dr_body = CreateBody (dp_template p) (dp_version p) (m_name s) (m_cluster s) (m_namespace s) v\<rparr>)"

definition preview_answer :: "string outcome \<Rightarrow> deploy \<Rightarrow> deploy" where
  "preview_answer out s =
     s\<lparr>rendered := (case out of Inl _ \<Rightarrow> None
         | Inr r \<Rightarrow> if \<not> rok r then None else (case rjson r of Inl _ \<Rightarrow> None | Inr y \<Rightarrow> Some y)),
       pending := False\<rparr>"

definition submit_answer :: "deploy_props \<Rightarrow> string outcome \<Rightarrow> deploy \<Rightarrow> deploy" where
  "submit_answer p out s =
     (case (case out of Inl m \<Rightarrow> Inl m
            | Inr r \<Rightarrow> if \<not> rok r then Inl (rtext r)
                else if isUpdate p then Inr (the (dp_update p)) else rjson r) of
        Inl m \<Rightarrow> s\<lparr>err := Some m, submitting := False\<rparr>
      | Inr i \<Rightarrow> s\<lparr>pushed := pushed s @ [''/releases/'' @ i], submitting := False\<rparr>)"

definition is_preview :: "deploy_request \<Rightarrow> bool" where
  "is_preview r = (case dr_body r of RenderBody _ \<Rightarrow> True | _ \<Rightarrow> False)"

definition deploy_step :: "deploy_props \<Rightarrow> deploy \<Rightarrow> deploy_event \<Rightarrow> deploy" where
  "deploy_step p s ev = (case ev of
     ClustersAnswer out \<Rightarrow> (if clusters_pending s then clusters_answer out s else s)
   | EditName x \<Rightarrow> (if isUpdate p then s else s\<lparr>m_name := x\<rparr>)
   | EditNamespace x \<Rightarrow> (if isUpdate p then s else s\<lparr>m_namespace := x\<rparr>)
   | PickCluster v \<Rightarrow>
      (if isUpdate p \<or> v \<noteq> None \<and> the v \<notin> set (clusters s) then s
       else let nxt = nullish v []; s' = s\<lparr>m_cluster := nxt\<rparr> in
         if nxt \<noteq> [] then s'\<lparr>stored_cluster := Some nxt\<rparr> else s')
   | PreviewFires v \<Rightarrow> send (preview_request p v) (s\<lparr>pending := True\<rparr>)
   | SubmitForm v \<Rightarrow>
      (if form_disabled p s then s else send (submit_request p s v) (s\<lparr>submitting := True, err := None\<rparr>))
   | Answer i out \<Rightarrow>
      (case map_of (in_flight s) i of None \<Rightarrow> s
       | Some r \<Rightarrow> let s' = s\<lparr>in_flight := filter (\<lambda>e. fst e \<noteq> i) (in_flight s)\<rparr> in
           if is_preview r then preview_answer out s' else submit_answer p out s'))"

text \<open>What is on the screen beside the form: the warning, and the properties of the access panel.\<close>

definition no_cluster_warning :: "deploy_props \<Rightarrow> deploy \<Rightarrow> bool" where
  "no_cluster_warning p s \<longleftrightarrow> \<not> isUpdate p \<and> clusters s = []"

definition rbac_panel_props :: "yaml_parser \<Rightarrow> deploy \<Rightarrow> rbac_props option" where
  "rbac_panel_props parse s =
     (if m_cluster s \<noteq> [] \<and> m_namespace s \<noteq> []
      then Some \<lparr>p_cluster = m_cluster s, p_namespace = m_namespace s,
                 p_kinds = map (\<lambda>k. jstr_or k []) (rendered_kinds parse (rendered s))\<rparr>
      else None)"

section \<open>The pages\<close>

record template_detail =
  td_current_version :: "nat option"
  td_team :: "string option"

record version_detail =
  vd_ui_spec :: "string option"
  vd_team :: "string option"

text \<open>A page is not found (\<^term>\<open>Inl []\<close>), fails with an exception, or opens the client. The ui-spec
  reads as \<^term>\<open>None\<close> when it is null or missing.\<close>

type_synonym spec_reader = "string \<Rightarrow> string + spec_field list option"

definition fetched :: "'b outcome \<Rightarrow> string + 'b" where
  "fetched out = (case out of Inl m \<Rightarrow> Inl m | Inr r \<Rightarrow> if \<not> rok r then Inl [] else rjson r)"

definition deploy_page :: "spec_reader \<Rightarrow> (string \<Rightarrow> template_detail outcome) \<Rightarrow> (string \<Rightarrow> version_detail outcome)
    \<Rightarrow> string \<Rightarrow> string option \<Rightarrow> string + deploy_props" where
  "deploy_page read apiT apiV nm updateId =
     (case fetched (apiT (''/v1/templates/'' @ nm)) of Inl m \<Rightarrow> Inl m
      | Inr t \<Rightarrow> (case td_current_version t of None \<Rightarrow> Inl []
        | Some n \<Rightarrow> (case fetched (apiV (''/v1/templates/'' @ nm @ ''/versions/'' @ nat_digits n)) of Inl m \<Rightarrow> Inl m
          | Inr v \<Rightarrow> (case read (nullish (vd_ui_spec v) []) of Inl m \<Rightarrow> Inl m
            | Inr spec \<Rightarrow> Inr \<lparr>dp_template = nm, dp_version = n, dp_team = td_team t, dp_spec = nullish spec [],
                dp_update = updateId, dp_initial = None\<rparr>))))"

definition version_number :: "string \<Rightarrow> nat option" where
  "version_number v = (case js_Number v of
     Num q \<Rightarrow> if q = of_int \<lfloor>q\<rfloor> \<and> 0 < q then Some (nat \<lfloor>q\<rfloor>) else None | _ \<Rightarrow> None)"

definition pinned_page :: "spec_reader \<Rightarrow> (string \<Rightarrow> version_detail outcome) \<Rightarrow> (string \<Rightarrow> form_values option outcome)
    \<Rightarrow> string \<Rightarrow> string \<Rightarrow> string option \<Rightarrow> string + deploy_props" where
  "pinned_page read apiV apiR nm v updateId =
     (case version_number v of None \<Rightarrow> Inl []
      | Some n \<Rightarrow> (case fetched (apiV (''/v1/templates/'' @ nm @ ''/versions/'' @ nat_digits n)) of Inl m \<Rightarrow> Inl m
        | Inr ver \<Rightarrow> if \<not> truthy_str (vd_ui_spec ver) then Inl []
            else (case read (the (vd_ui_spec ver)) of Inl m \<Rightarrow> Inl m
              | Inr spec \<Rightarrow>
                 (let props = \<lparr>dp_template = nm, dp_version = n, dp_team = vd_team ver, dp_spec = nullish spec [],
                        dp_update = updateId, dp_initial = None\<rparr> in
                  if truthy_str updateId
                  then (case apiR (''/v1/releases/'' @ the updateId) of
                          Inl m \<Rightarrow> Inl m
                        | Inr r \<Rightarrow> if \<not> rok r then Inr props
                            else (case rjson r of Inl m \<Rightarrow> Inl m
                                  | Inr vals \<Rightarrow> Inr (props\<lparr>dp_initial := vals\<rparr>)))
                  else Inr props))))"

section \<open>Requests\<close>

definition request_ok :: "deploy_props \<Rightarrow> string list \<Rightarrow> deploy_request \<Rightarrow> bool" where
  "request_ok p cs r \<longleftrightarrow> (case dr_body r of
     RenderBody v \<Rightarrow> r = preview_request p v
   | UpdateBody n v \<Rightarrow> isUpdate p \<and> dr_method r = PUT \<and> dr_url r = ''/api/v1/releases/'' @ the (dp_update p) \<and> n = dp_version p
   | CreateBody t n nm c ns v \<Rightarrow> \<not> isUpdate p \<and> dr_method r = POST \<and> dr_url r = ''/api/v1/releases''
       \<and> t = dp_template p \<and> n = dp_version p \<and> c \<noteq> [] \<and> c \<in> set cs)"

definition deploy_inv :: "deploy_props \<Rightarrow> deploy \<Rightarrow> bool" where
  "deploy_inv p s \<longleftrightarrow> (clusters s \<noteq> [] \<longrightarrow> \<not> clusters_pending s)
     \<and> (m_cluster s = [] \<or> m_cluster s \<in> set (clusters s))
     \<and> (\<forall>r \<in> set (sent s). request_ok p (clusters s) r)"

lemma preselect_in: "preselect cached names = [] \<or> preselect cached names \<in> set names"
  by (auto simp: preselect_def split: list.split)

lemma request_ok_more: "request_ok p [] r \<Longrightarrow> request_ok p cs r"
  by (auto simp: request_ok_def split: api_body.splits)

lemma inv_clusters:
  assumes "deploy_inv p s" and "clusters_pending s"
  shows "deploy_inv p (clusters_answer out s)"
proof -
  from assms have cs: "clusters s = []" "m_cluster s = []" "\<forall>r \<in> set (sent s). request_ok p [] r"
    by (auto simp: deploy_inv_def)
  then have more: "\<forall>r \<in> set (sent s). request_ok p names r" for names by (auto intro: request_ok_more)
  from cs more preselect_in [of "stored_cluster s"] show ?thesis
    by (auto simp: clusters_answer_def deploy_inv_def Let_def split: sum.split)
qed

lemma inv_submit: "deploy_inv p s \<Longrightarrow> \<not> form_disabled p s \<Longrightarrow> request_ok p (clusters s) (submit_request p s v)"
  by (auto simp: deploy_inv_def form_disabled_def request_ok_def submit_request_def)

lemma answer_fields:
  "clusters (preview_answer out s) = clusters s" "clusters (submit_answer p out s) = clusters s"
  "clusters_pending (preview_answer out s) = clusters_pending s" "clusters_pending (submit_answer p out s) = clusters_pending s"
  "m_cluster (preview_answer out s) = m_cluster s" "m_cluster (submit_answer p out s) = m_cluster s"
  "sent (preview_answer out s) = sent s" "sent (submit_answer p out s) = sent s"
  by (simp_all add: preview_answer_def submit_answer_def split: sum.split)

lemma deploy_inv_step:
  assumes "deploy_inv p s"
  shows "deploy_inv p (deploy_step p s ev)"
proof (cases ev)
  case (ClustersAnswer out)
  then show ?thesis using assms inv_clusters by (simp add: deploy_step_def)
next
  case (SubmitForm v)
  with assms inv_submit [OF assms] show ?thesis
    by (auto simp: deploy_step_def send_def deploy_inv_def)
next
  case (PreviewFires v)
  have "request_ok p (clusters s) (preview_request p v)" by (simp add: request_ok_def preview_request_def)
  with assms PreviewFires show ?thesis by (auto simp: deploy_step_def send_def deploy_inv_def)
next
  case (Answer i out)
  with assms show ?thesis by (auto simp: deploy_step_def deploy_inv_def answer_fields Let_def split: option.split)
next
  case (PickCluster v)
  with assms show ?thesis by (cases v) (auto simp: deploy_step_def deploy_inv_def Let_def)
next
  case (EditName x)
  with assms show ?thesis by (simp add: deploy_step_def deploy_inv_def)
next
  case (EditNamespace x)
  with assms show ?thesis by (simp add: deploy_step_def deploy_inv_def)
qed

interpretation deploy: event_component "deploy_step p" "deploy_inv p" for p
  by unfold_locales (rule deploy_inv_step)


definition web_deploy :: deploy_props where
  "web_deploy = \<lparr>dp_template = ''web'', dp_version = 2, dp_team = None, dp_spec = [replicas_field], dp_update = None, dp_initial = None\<rparr>"


text \<open>Submitting, and the answer to a request in flight.\<close>

lemma submit_step:
  assumes "\<not> form_disabled p s"
  shows "deploy_step p s (SubmitForm v) = send (submit_request p s v) (s\<lparr>submitting := True, err := None\<rparr>)"
  using assms by (simp add: deploy_step_def)

lemma submit_not_preview [simp]: "\<not> is_preview (submit_request p s v)"
  by (simp add: is_preview_def submit_request_def)

lemma is_preview_request [simp]: "is_preview (preview_request p v)"
  by (simp add: is_preview_def preview_request_def)

text \<open>Ids of requests in flight are smaller than the next one.\<close>

definition ids_ok :: "deploy \<Rightarrow> bool" where
  "ids_ok s \<longleftrightarrow> (\<forall>i \<in> fst ` set (in_flight s). i < next_id s)"

lemma map_of_sent: "ids_ok s \<Longrightarrow> map_of (in_flight s @ (next_id s, r) # rest) (next_id s) = Some r"
proof -
  assume "ids_ok s"
  then have "map_of (in_flight s) (next_id s) = None" by (force simp: ids_ok_def map_of_eq_None_iff)
  then show ?thesis by (simp add: map_add_def)
qed

lemma ids_ok_step: "ids_ok s \<Longrightarrow> ids_ok (deploy_step p s ev)"
proof -
  assume ok: "ids_ok s"
  have clusters: "ids_ok (clusters_answer out s)" for out
    using ok by (auto simp: clusters_answer_def ids_ok_def Let_def split: sum.split)
  have answers: "ids_ok (preview_answer out t)" "ids_ok (submit_answer p out t)" if "ids_ok t" for out t
    using that by (auto simp: preview_answer_def submit_answer_def ids_ok_def split: sum.split)
  have filtered: "ids_ok (s\<lparr>in_flight := filter P (in_flight s)\<rparr>)" for P using ok by (auto simp: ids_ok_def)
  show ?thesis
  proof (cases ev)
    case (ClustersAnswer out) then show ?thesis using clusters ok by (simp add: deploy_step_def)
  next
    case (Answer i out)
    then show ?thesis using answers filtered ok by (auto simp: deploy_step_def Let_def split: option.split)
  next
    case (PickCluster v)
    then show ?thesis using ok by (auto simp: deploy_step_def ids_ok_def Let_def)
  qed (use ok in \<open>auto simp: deploy_step_def send_def ids_ok_def less_SucI\<close>)
qed

interpretation deploy_ids: event_component "deploy_step p" ids_ok for p
  by unfold_locales (rule ids_ok_step)

lemma ids_ok_run: "ids_ok (foldl (deploy_step p) (mount_deploy p stored) evs)"
  by (rule deploy_ids.run_inv) (simp add: ids_ok_def mount_deploy_def)

text \<open>Submitting. The form sends one request, shows that it is submitting and clears the last
  error; when the answer comes, submitting ends in every case, and either the browser goes to the
  release (the new one's id, or the updated one's) and no error is shown, or it stays and the error is the server's
  text, or the message of the exception.\<close>

lemma submit_outcome:
  fixes v :: form_values
  assumes "s = foldl (deploy_step p) (mount_deploy p stored) evs" and "\<not> form_disabled p s"
  defines "s1 \<equiv> deploy_step p s (SubmitForm v)"
  shows "sent s1 = sent s @ [submit_request p s v] \<and> submitting s1 \<and> err s1 = None
    \<and> (\<forall>out. let s2 = deploy_step p s1 (Answer (next_id s) out) in \<not> submitting s2 \<and>
        (case out of
           Inl m \<Rightarrow> err s2 = Some m \<and> pushed s2 = pushed s
         | Inr r \<Rightarrow> if \<not> rok r then err s2 = Some (rtext r) \<and> pushed s2 = pushed s
             else if isUpdate p then err s2 = None \<and> pushed s2 = pushed s @ [''/releases/'' @ the (dp_update p)]
             else (case rjson r of Inl m \<Rightarrow> err s2 = Some m \<and> pushed s2 = pushed s
                   | Inr i \<Rightarrow> err s2 = None \<and> pushed s2 = pushed s @ [''/releases/'' @ i])))"
proof -
  have ids: "ids_ok s" by (simp add: assms(1) ids_ok_run)
  have s1: "s1 = send (submit_request p s v) (s\<lparr>submitting := True, err := None\<rparr>)"
    by (simp add: s1_def submit_step [OF assms(2)])
  have fl: "map_of (in_flight s1) (next_id s) = Some (submit_request p s v)"
    using map_of_sent [OF ids, of _ "[]"] by (simp add: s1 send_def)
  have "sent s1 = sent s @ [submit_request p s v] \<and> submitting s1 \<and> err s1 = None \<and> pushed s1 = pushed s"
    by (simp add: s1 send_def)
  then show ?thesis
    by (auto simp: deploy_step_def fl submit_answer_def Let_def split: sum.split)
qed

text \<open>Nothing stops a second submit while the first is being answered. Two submits in a row
  send the same request twice; with new releases both create one.\<close>

lemma double_submit:
  assumes "s = foldl (deploy_step p) (mount_deploy p stored) evs" and "\<not> form_disabled p s" and "\<not> isUpdate p"
  shows "sent (foldl (deploy_step p) s [SubmitForm v, SubmitForm v]) = sent s @ [submit_request p s v, submit_request p s v]
    \<and> dr_method (submit_request p s v) = POST \<and> dr_url (submit_request p s v) = ''/api/v1/releases''
    \<and> (\<forall>r r' i j. rok r \<and> rok r' \<and> rjson r = Inr i \<and> rjson r' = Inr j \<longrightarrow>
         pushed (foldl (deploy_step p) s [SubmitForm v, SubmitForm v, Answer (next_id s) (Inr r), Answer (Suc (next_id s)) (Inr r')])
           = pushed s @ [''/releases/'' @ i, ''/releases/'' @ j])"
proof -
  have ids: "ids_ok s" by (simp add: assms(1) ids_ok_run)
  let ?r = "submit_request p s v"
  define s1 where "s1 = deploy_step p s (SubmitForm v)"
  have s1: "s1 = send ?r (s\<lparr>submitting := True, err := None\<rparr>)" by (simp add: s1_def submit_step [OF assms(2)])
  have enabled: "\<not> form_disabled p s1" "submit_request p s1 v = ?r"
    using assms(2) by (simp_all add: s1 send_def form_disabled_def submit_request_def)
  define s2 where "s2 = deploy_step p s1 (SubmitForm v)"
  have s2: "s2 = send ?r (s1\<lparr>submitting := True, err := None\<rparr>)"
    using submit_step [OF enabled(1)] enabled(2) by (simp add: s2_def)
  have fl: "in_flight s2 = in_flight s @ [(next_id s, ?r), (Suc (next_id s), ?r)]" and same: "pushed s2 = pushed s" "sent s2 = sent s @ [?r, ?r]"
    by (simp_all add: s2 s1 send_def)
  have old: "map_of (in_flight s) (Suc (next_id s)) = None" "map_of (in_flight s) (next_id s) = None"
    using ids by (force simp: ids_ok_def map_of_eq_None_iff)+
  have rest: "filter (\<lambda>e. fst e \<noteq> next_id s) (in_flight s) = in_flight s"
    using ids by (intro filter_True) (auto simp: ids_ok_def)
  have "pushed (foldl (deploy_step p) s2 [Answer (next_id s) (Inr r), Answer (Suc (next_id s)) (Inr r')])
      = pushed s @ [''/releases/'' @ i, ''/releases/'' @ j]"
    if "rok r" "rok r'" "rjson r = Inr i" "rjson r' = Inr j" for r r' i j
    using that assms(3) by (simp add: deploy_step_def fl old map_add_def rest submit_answer_def same Let_def)
  then show ?thesis using same assms(3) by (simp add: s2_def s1_def submit_request_def)
qed

definition web_form :: form_values where
  "web_form = [(units ''spec.replicas'', JNum (Num 3))]"

definition update_deploy :: deploy_props where
  "update_deploy = web_deploy\<lparr>dp_update := Some ''r1''\<rparr>"

lemma submit_outcome_witness:
  "err (deploy_step update_deploy (deploy_step update_deploy (mount_deploy update_deploy None) (SubmitForm web_form))
      (Answer 0 (Inl ''offline''))) = Some ''offline''"
proof -
  have "\<not> form_disabled update_deploy (mount_deploy update_deploy None)"
    by (simp add: form_disabled_def isUpdate_def update_deploy_def)
  from conjunct2 [OF conjunct2 [OF conjunct2 [OF submit_outcome [OF _ this, of None "[]" web_form]]], rule_format, of "Inl ''offline''"]
  show ?thesis by (simp add: mount_deploy_def Let_def)
qed

definition ready :: deploy where
  "ready = foldl (deploy_step web_deploy) (mount_deploy web_deploy None)
     [ClustersAnswer (Inr \<lparr>rstatus = 200, rstatusText = [], rtext = [], rjson = Inr [''a'']\<rparr>)]"

lemma double_submit_witness:
  "length (sent (foldl (deploy_step web_deploy) ready [SubmitForm web_form, SubmitForm web_form])) = 2"
proof -
  have r: "\<not> form_disabled web_deploy ready" "\<not> isUpdate web_deploy" "sent ready = []"
    by (simp_all add: form_disabled_def ready_def deploy_step_def mount_deploy_def clusters_answer_def preselect_def
        rok_def isUpdate_def web_deploy_def Let_def)
  from conjunct1 [OF double_submit [OF ready_def r(1,2), of web_form]] r(3) show ?thesis by simp
qed

section \<open>Previews\<close>

definition preview_of :: "string outcome \<Rightarrow> string option" where
  "preview_of out = (case out of Inl _ \<Rightarrow> None
     | Inr r \<Rightarrow> if \<not> rok r then None else (case rjson r of Inl _ \<Rightarrow> None | Inr y \<Rightarrow> Some y))"

lemma preview_answer_fields:
  "rendered (preview_answer out s) = preview_of out" "pending (preview_answer out s) = False"
  by (simp_all add: preview_answer_def preview_of_def)

text \<open>The preview shows the answer that came last, not the answer for the values typed last.
  When a preview is answered before the next one fires, it shows the template rendered with its own
  values; when the answers of two previews arrive in the other order, the preview, and with it the
  access review's kinds, stay those of the older values, and it stops saying that it is rendering while
  the older answer is still missing.\<close>

lemma preview_races:
  assumes "s = foldl (deploy_step p) (mount_deploy p stored) evs"
  shows "rendered (foldl (deploy_step p) s [PreviewFires v, Answer (next_id s) out]) = preview_of out
    \<and> \<not> pending (foldl (deploy_step p) s [PreviewFires v, Answer (next_id s) out])
    \<and> \<not> pending (foldl (deploy_step p) s [PreviewFires v, PreviewFires w, Answer (Suc (next_id s)) out'])
    \<and> rendered (foldl (deploy_step p) s
        [PreviewFires v, PreviewFires w, Answer (Suc (next_id s)) out', Answer (next_id s) out]) = preview_of out"
proof -
  have ids: "ids_ok s" by (simp add: assms ids_ok_run)
  have old: "map_of (in_flight s) (Suc (next_id s)) = None" "map_of (in_flight s) (next_id s) = None"
    using ids by (force simp: ids_ok_def map_of_eq_None_iff)+
  have rest: "filter (\<lambda>e. fst e \<noteq> Suc (next_id s)) (in_flight s) = in_flight s"
    using ids by (intro filter_True) (auto simp: ids_ok_def)
  have fl: "in_flight (preview_answer o' t) = in_flight t" for o' t by (simp add: preview_answer_def)
  show ?thesis
    by (simp add: deploy_step_def send_def old rest fl map_add_def preview_answer_fields Let_def)
qed

lemma preview_races_witness:
  "rendered (foldl (deploy_step web_deploy) (mount_deploy web_deploy None)
     [PreviewFires web_form, PreviewFires [], Answer (Suc 0) (Inl ''late''),
      Answer 0 (Inr \<lparr>rstatus = 200, rstatusText = [], rtext = [], rjson = Inr ''old''\<rparr>)]) = Some ''old''"
  using preview_races [of "mount_deploy web_deploy None" web_deploy None "[]" web_form
      "Inr \<lparr>rstatus = 200, rstatusText = [], rtext = [], rjson = Inr ''old''\<rparr>" "[]" "Inl ''late''"]
  by (simp add: mount_deploy_def preview_of_def rok_def)

section \<open>Updating a release\<close>

text \<open>The pinned page updates a release from its own values. When the release is found its
  form starts from the ui-spec's defaults overridden by the release's values, and submitting it untouched
  sends exactly these, if they are accepted as they are, with a PUT to that release. The page of the
  current version given a release to update opens the same form without the release's values.\<close>

lemma pinned_update_prefilled:
  assumes "pinned_page read apiV apiR nm v (Some i) = Inr p" and "i \<noteq> []"
    and "apiR (''/v1/releases/'' @ i) = Inr r" and "rok r" and "rjson r = Inr (Some vals)"
    and "flat = ospread (ospread [] (map (\<lambda>e. (units (fst e), snd e)) (defaultsFromUISpec (dp_spec p)))) vals"
    and "plain_keys flat" and "safeParse flat = Inr flat"
  shows "dp_initial p = Some vals \<and> version_number v = Some (dp_version p)
    \<and> decodeValues (form_defaults (dp_spec p) (dp_initial p)) = flat
    \<and> (\<exists>w. submit_form safeParse (form_defaults (dp_spec p) (dp_initial p)) = Some w
        \<and> submit_request p s w = \<lparr>dr_method = PUT, dr_url = ''/api/v1/releases/'' @ i, dr_body = UpdateBody (dp_version p) flat\<rparr>)
    \<and> (\<forall>apiT p'. deploy_page read apiT apiV nm (Some i) = Inr p' \<longrightarrow> isUpdate p' \<and> dp_initial p' = None)"
proof -
  have p: "dp_initial p = Some vals" "version_number v = Some (dp_version p)" "dp_update p = Some i"
    using assms(1-5) by (auto simp: pinned_page_def Let_def split: option.splits sum.splits if_splits)
  have up: "isUpdate p" using p(3) assms(2) by (simp add: isUpdate_def)
  have "flat = ospread (ospread [] (map (\<lambda>e. (units (fst e), snd e)) (defaultsFromUISpec (dp_spec p)))) (nullish (dp_initial p) [])"
    by (simp add: p(1) assms(6))
  from form_round_trip_lemma [OF assms(7) this, of safeParse] assms(7,8)
  have "decodeValues (form_defaults (dp_spec p) (dp_initial p)) = flat"
    "submit_form safeParse (form_defaults (dp_spec p) (dp_initial p)) = Some flat" by simp_all
  moreover have "isUpdate p' \<and> dp_initial p' = None" if "deploy_page read apiT apiV nm (Some i) = Inr p'" for apiT p'
    using that assms(2) by (auto simp: deploy_page_def isUpdate_def split: option.splits sum.splits)
  ultimately show ?thesis using p up by (simp add: submit_request_def)
qed

lemma pinned_update_prefilled_witness:
  "\<exists>p. pinned_page (\<lambda>_. Inr (Some [replicas_field]))
        (\<lambda>_. Inr \<lparr>rstatus = 200, rstatusText = [], rtext = [], rjson = Inr \<lparr>vd_ui_spec = Some ''fields'', vd_team = None\<rparr>\<rparr>)
        (\<lambda>_. Inr \<lparr>rstatus = 200, rstatusText = [], rtext = [], rjson = Inr (Some [(units ''spec.replicas'', JNum (Num 5))])\<rparr>)
        ''web'' ''2'' (Some ''r1'') = Inr p
    \<and> decodeValues (form_defaults (dp_spec p) (dp_initial p)) = [(units ''spec.replicas'', JNum (Num 5))]"
proof -
  define vals where "vals = [(units ''spec.replicas'', JNum (Num 5))]"
  define apiV where "apiV = (\<lambda>_ :: string. Inr \<lparr>rstatus = 200, rstatusText = [], rtext = [],
      rjson = Inr \<lparr>vd_ui_spec = Some ''fields'', vd_team = None\<rparr>\<rparr> :: version_detail outcome)"
  define r where "r = \<lparr>rstatus = 200, rstatusText = [], rtext = [], rjson = Inr (Some vals) :: string + form_values option\<rparr>"
  define p where "p = \<lparr>dp_template = ''web'', dp_version = 2, dp_team = None, dp_spec = [replicas_field],
      dp_update = Some ''r1'', dp_initial = Some vals\<rparr>"
  have "js_Number (int_text 2) = Num 2" by (simp only: js_Number_int_text) simp
  moreover have "int_text 2 = ''2''" by code_simp
  ultimately have num: "version_number ''2'' = Some 2" by (simp add: version_number_def)
  have page: "pinned_page (\<lambda>_. Inr (Some [replicas_field])) apiV (\<lambda>_. Inr r) ''web'' ''2'' (Some ''r1'') = Inr p"
    by (simp add: pinned_page_def num fetched_def apiV_def r_def rok_def p_def)
  have flat: "vals = ospread (ospread [] (map (\<lambda>e. (units (fst e), snd e)) (defaultsFromUISpec (dp_spec p)))) vals"
    by (simp add: p_def vals_def defaultsFromUISpec_def kind_default_def replicas_field_def)
  have "plain_keys vals" by (simp add: vals_def plain_keys_def obj_ok_def units_def)
  have r: "rok r" "rjson r = Inr (Some vals)" "''r1'' \<noteq> []" by (simp_all add: r_def rok_def)
  have "decodeValues (form_defaults (dp_spec p) (dp_initial p)) = vals"
    by (rule conjunct1 [OF conjunct2 [OF conjunct2 [OF pinned_update_prefilled
        [where apiR = "\<lambda>_. Inr r" and safeParse = Inr, OF page r(3) refl r(1,2) flat \<open>plain_keys vals\<close> refl]]]])
  with page show ?thesis unfolding r_def apiV_def vals_def by blast
qed

end
