(* ===== verification/Template_Editor.thy ===== *)
theory Template_Editor
  imports Server_Routes Yaml_To_Ui Open_Api
begin

text \<open>
  The template editor: \<open>frontend/components/editor/MetaRow.tsx\<close> and \<open>BottomBar.tsx\<close>, the page of a new
  template (\<open>app/templates/new/page.tsx\<close>) and the page that edits a version
  (\<open>app/templates/[name]/versions/[v]/edit/page.tsx\<close>), both in their visual and YAML modes.

  A field of a resource is left abstract (the type variable): the pages only store what the field
  inspector reports. All four pages save the same way: a handler sends its requests one after the other,
  with the values it was called with, and stops at the first that is not accepted. That is the record
  \<open>saver\<close>; between a request and its answer any other event can happen. Messages written in Korean in the
  code are given in English.
\<close>

section \<open>The template's description\<close>

record tmeta =
  t_name :: string
  t_display :: "string option"
  t_team :: "string option"
  t_tags :: "string list"

record meta_flags =
  nameLocked :: bool
  readOnly :: bool
  hideTeam :: bool

datatype meta_event = MName string | MDisplay string | MTeam string | MRemoveTag string | MTypeTag string | MEnter

text \<open>The row keeps the text of the tag being typed; the description is its parent's.\<close>

definition meta_step :: "meta_flags \<Rightarrow> tmeta \<times> string \<Rightarrow> meta_event \<Rightarrow> tmeta \<times> string" where
  "meta_step fl s ev = (let (m, tagInput) = s in
     if readOnly fl then s
     else case ev of
       MName x \<Rightarrow> if nameLocked fl then s else (m\<lparr>t_name := x\<rparr>, tagInput)
     | MDisplay x \<Rightarrow> (m\<lparr>t_display := Some x\<rparr>, tagInput)
     | MTeam x \<Rightarrow> if hideTeam fl then s else (m\<lparr>t_team := Some x\<rparr>, tagInput)
     | MRemoveTag t \<Rightarrow> (m\<lparr>t_tags := filter (\<lambda>x. x \<noteq> t) (t_tags m)\<rparr>, tagInput)
     | MTypeTag x \<Rightarrow> (m, x)
     | MEnter \<Rightarrow>
        if js_trim tagInput \<noteq> []
        then (if js_trim tagInput \<in> set (t_tags m) then m else m\<lparr>t_tags := t_tags m @ [js_trim tagInput]\<rparr>, [])
        else s)"

section \<open>Saving\<close>

record 'f eres =
  er_apiVersion :: string
  er_kind :: string
  er_name :: string
  er_fields :: "(string, 'f) obj"

datatype 'f save_body =
    MetaPatch "string option" "string list option"
  | DraftPatch "'f eres list"
  | NewVersion "'f eres list"
  | YamlPatch string string
  | YamlVersion string string
  | CreateUi string string "string list" "string option" "'f eres list"
  | CreateYaml string string "string list" "string option" string string

record 'f save_request =
  sr_method :: http_method
  sr_path :: string
  sr_body :: "'f save_body"

text \<open>
  A page's saver: whether a save is going on, the requests of the running handler from the one being
  answered on, each with what its error message begins with, the error shown, and all the requests sent and pages
  gone to.
\<close>

record 'f saver =
  sv_saving :: bool
  sv_chain :: "(string \<times> 'f save_request) list"
  sv_err :: "string option"
  sv_sent :: "'f save_request list"
  sv_pushed :: "string list"

definition idle :: "'f saver" where
  "idle = \<lparr>sv_saving = False, sv_chain = [], sv_err = None, sv_sent = [], sv_pushed = []\<rparr>"

definition status_text :: "'b response \<Rightarrow> string" where
  "status_text r = nat_digits (rstatus r) @ '': '' @ rtext r"

definition begin_save :: "(string \<times> 'f save_request) list \<Rightarrow> 'f saver \<Rightarrow> 'f saver" where
  "begin_save chain v =
     v\<lparr>sv_saving := True, sv_err := None, sv_chain := chain, sv_sent := sv_sent v @ [snd (hd chain)]\<rparr>"

text \<open>An answer: a rejected request ends the handler with an exception that nobody catches, an error status with
  a message; once the last request is accepted the browser goes to \<open>target\<close>. Each way saving is over.\<close>

definition answer_save :: "string \<Rightarrow> 'f saver \<Rightarrow> unit outcome \<Rightarrow> 'f saver" where
  "answer_save target v out = (case sv_chain v of [] \<Rightarrow> v
   | c # rest \<Rightarrow>
      (case out of Inl m \<Rightarrow> v\<lparr>sv_saving := False, sv_chain := []\<rparr>
       | Inr r \<Rightarrow>
          if \<not> rok r then v\<lparr>sv_saving := False, sv_chain := [], sv_err := Some (fst c @ status_text r)\<rparr>
          else (case rest of
             [] \<Rightarrow> v\<lparr>sv_saving := False, sv_chain := [], sv_pushed := sv_pushed v @ [target]\<rparr>
           | d # _ \<Rightarrow> v\<lparr>sv_chain := rest, sv_sent := sv_sent v @ [snd d]\<rparr>)))"

section \<open>Editing a version in visual mode\<close>

record 'f version_answer =
  va_mode :: string
  va_state :: "'f eres list option"
  va_resources :: "string option"
  va_ui_spec :: "string option"
  va_status :: string

record template_answer =
  ta_name :: string
  ta_display :: string
  ta_tags :: "string list option"

record 'f ui_edit =
  st :: "'f eres list option"
  srcStatus :: string
  srcMode :: string
  convertWarnings :: "warning list"
  schemas :: schemas
  clusters :: "string list"
  cluster :: string
  session_cluster :: "string option"
  active :: "(nat \<times> string \<times> node) option"
  tm :: tmeta
  tagInput :: string
  initialMeta :: "tmeta option"
  sv :: "'f saver"

definition open_edit :: "string \<Rightarrow> string option \<Rightarrow> 'f ui_edit" where
  "open_edit nm remembered = \<lparr>st = None, srcStatus = [], srcMode = [], convertWarnings = [], schemas = [], clusters = [],
     cluster = [], session_cluster = remembered, active = None,
     tm = \<lparr>t_name = nm, t_display = None, t_team = None, t_tags = []\<rparr>, tagInput = [], initialMeta = None,
     sv = idle\<rparr>"

definition pick_remembered :: "string option \<Rightarrow> string list \<Rightarrow> string option" where
  "pick_remembered remembered names =
     (if truthy_str remembered \<and> the remembered \<in> set names then remembered
      else case names of [] \<Rightarrow> None | n # _ \<Rightarrow> Some n)"

definition loaded_version :: "(string \<Rightarrow> string \<Rightarrow> 'f eres list \<times> warning list) \<Rightarrow> 'f version_answer \<Rightarrow> 'f ui_edit \<Rightarrow> 'f ui_edit" where
  "loaded_version convert ver s =
     (let s' = s\<lparr>srcStatus := va_status ver, srcMode := va_mode ver\<rparr> in
      if va_mode ver = ''ui'' then s'\<lparr>st := va_state ver\<rparr>
      else (let (ui, ws) = convert (nullish (va_resources ver) []) (nullish (va_ui_spec ver) [])
            in s'\<lparr>st := Some ui, convertWarnings := ws\<rparr>))"

definition loaded_template :: "template_answer \<Rightarrow> 'f ui_edit \<Rightarrow> 'f ui_edit" where
  "loaded_template t s =
     (let m = \<lparr>t_name = ta_name t, t_display = Some (ta_display t), t_team = None, t_tags = nullish (ta_tags t) []\<rparr>
      in s\<lparr>tm := m, initialMeta := Some m\<rparr>)"

definition loaded_clusters :: "string list \<Rightarrow> 'f ui_edit \<Rightarrow> 'f ui_edit" where
  "loaded_clusters names s =
     (let s' = s\<lparr>clusters := names\<rparr>; pick = pick_remembered (session_cluster s) names
      in if truthy_str pick then s'\<lparr>cluster := the pick\<rparr> else s')"

definition set_err :: "string \<Rightarrow> 'f ui_edit \<Rightarrow> 'f ui_edit" where
  "set_err m s = s\<lparr>sv := (sv s)\<lparr>sv_err := Some m\<rparr>\<rparr>"

text \<open>The three answers; if one of the requests fails nothing is loaded.\<close>

definition load_edit :: "(string \<Rightarrow> string \<Rightarrow> 'f eres list \<times> warning list)
    \<Rightarrow> string + 'f version_answer response \<times> template_answer response \<times> string list response \<Rightarrow> 'f ui_edit \<Rightarrow> 'f ui_edit" where
  "load_edit convert answers s = (case answers of
     Inl m \<Rightarrow> set_err m s
   | Inr (vRes, tRes, cRes) \<Rightarrow>
      (if \<not> rok vRes then set_err (rtext vRes) s
       else case rjson vRes of Inl m \<Rightarrow> set_err m s
       | Inr ver \<Rightarrow>
          (let s1 = loaded_version convert ver s in
           case (if rok tRes then map_sum id (\<lambda>t. loaded_template t s1) (rjson tRes) else Inr s1) of
             Inl m \<Rightarrow> set_err m s1
           | Inr s2 \<Rightarrow>
              (case (if rok cRes then map_sum id (\<lambda>d. loaded_clusters d s2) (rjson cRes) else Inr s2) of
                 Inl m \<Rightarrow> set_err m s2
               | Inr s3 \<Rightarrow> s3))))"

text \<open>The schemas of the resources' kinds, as far as they can be had.\<close>

definition schema_key :: "'f eres \<Rightarrow> string" where
  "schema_key r = er_apiVersion r @ ''/'' @ er_kind r"

definition split_gv :: "string \<Rightarrow> string \<times> string" where
  "split_gv gv =
     (if CHR ''/'' \<in> set gv
      then (takeWhile (\<lambda>c. c \<noteq> CHR ''/'') gv,
            takeWhile (\<lambda>c. c \<noteq> CHR ''/'') (drop 1 (dropWhile (\<lambda>c. c \<noteq> CHR ''/'') gv)))
      else ([], gv))"

definition load_schema :: "nat \<Rightarrow> (string \<Rightarrow> schemas option outcome) \<Rightarrow> schemas \<Rightarrow> 'f eres \<Rightarrow> string + schemas" where
  "load_schema fuel fetch out r =
     (if oget out (schema_key r) \<noteq> None then Inr out
      else case fetch (er_apiVersion r) of
        Inl m \<Rightarrow> Inl m
      | Inr res \<Rightarrow> if \<not> rok res then Inr out
         else (case rjson res of Inl m \<Rightarrow> Inl m
           | Inr doc \<Rightarrow> (let (grp, ver) = split_gv (er_apiVersion r) in
               case findKindSchema fuel doc grp ver (er_kind r) of
                 Some (Some s) \<Rightarrow> Inr (oset out (schema_key r) s) | _ \<Rightarrow> Inr out)))"

fun load_schemas :: "nat \<Rightarrow> (string \<Rightarrow> schemas option outcome) \<Rightarrow> schemas \<Rightarrow> 'f eres list \<Rightarrow> string + schemas" where
  "load_schemas fuel fetch out [] = Inr out"
| "load_schemas fuel fetch out (r # rs) = (case load_schema fuel fetch out r of
     Inl m \<Rightarrow> Inl m | Inr out' \<Rightarrow> load_schemas fuel fetch out' rs)"

definition pickCluster :: "string \<Rightarrow> 'f ui_edit \<Rightarrow> 'f ui_edit" where
  "pickCluster nxt s = s\<lparr>cluster := nxt, schemas := [], session_cluster := Some nxt\<rparr>"

text \<open>A field of the resource the tree's selection is in: read, set and cleared.\<close>

definition active_field :: "'f ui_edit \<Rightarrow> 'f option" where
  "active_field s = (case (active s, st s) of
     (Some (i, p, _), Some rs) \<Rightarrow> if i < length rs then oget (er_fields (rs ! i)) p else None | _ \<Rightarrow> None)"

definition set_field :: "nat \<Rightarrow> string \<Rightarrow> 'f \<Rightarrow> 'f eres list \<Rightarrow> 'f eres list" where
  "set_field i p v rs = rs[i := (rs ! i)\<lparr>er_fields := oset (er_fields (rs ! i)) p v\<rparr>]"

definition clear_field :: "nat \<Rightarrow> string \<Rightarrow> 'f eres list \<Rightarrow> 'f eres list" where
  "clear_field i p rs = rs[i := (rs ! i)\<lparr>er_fields := odel (er_fields (rs ! i)) p\<rparr>]"

definition isYamlDraft :: "'f ui_edit \<Rightarrow> bool" where
  "isYamlDraft s \<longleftrightarrow> srcStatus s = ''draft'' \<and> srcMode s \<noteq> ''ui''"

definition saveAsPatch :: "'f ui_edit \<Rightarrow> bool" where
  "saveAsPatch s \<longleftrightarrow> srcStatus s = ''draft'' \<and> srcMode s = ''ui''"

definition canSave :: "'f ui_edit \<Rightarrow> bool" where
  "canSave s \<longleftrightarrow> st s \<noteq> None \<and> \<not> sv_saving (sv s) \<and> \<not> isYamlDraft s"

fun tagsEqual :: "string list \<Rightarrow> string list \<Rightarrow> bool" where
  "tagsEqual [] [] = True"
| "tagsEqual (a # as) (b # bs) = (a = b \<and> tagsEqual as bs)"
| "tagsEqual _ _ = False"

definition patch_body :: "'f ui_edit \<Rightarrow> string option \<times> string list option" where
  "patch_body s = (case initialMeta s of None \<Rightarrow> (None, None)
   | Some m0 \<Rightarrow>
      (if nullish (t_display (tm s)) [] \<noteq> nullish (t_display m0) [] then Some (nullish (t_display (tm s)) []) else None,
       if \<not> tagsEqual (t_tags (tm s)) (t_tags m0) then Some (t_tags (tm s)) else None))"

definition version_request :: "string \<Rightarrow> string \<Rightarrow> 'f ui_edit \<Rightarrow> 'f eres list \<Rightarrow> 'f save_request" where
  "version_request nm v s ui =
     (if saveAsPatch s
      then \<lparr>sr_method = PATCH, sr_path = ''templates/'' @ nm @ ''/versions/'' @ v, sr_body = DraftPatch ui\<rparr>
      else \<lparr>sr_method = POST, sr_path = ''templates/'' @ nm @ ''/versions'', sr_body = NewVersion ui\<rparr>)"

definition meta_request :: "string \<Rightarrow> string option \<times> string list option \<Rightarrow> 'f save_request" where
  "meta_request nm b = \<lparr>sr_method = PATCH, sr_path = ''templates/'' @ nm, sr_body = MetaPatch (fst b) (snd b)\<rparr>"

text \<open>The requests of a save: the description first, if it changed.\<close>

definition save_chain :: "string \<Rightarrow> string \<Rightarrow> 'f ui_edit \<Rightarrow> 'f eres list \<Rightarrow> (string \<times> 'f save_request) list" where
  "save_chain nm v s ui = (let b = patch_body s in
     (if b = (None, None) then [] else [(''meta save failed '', meta_request nm b)]) @ [([], version_request nm v s ui)])"

definition save_edit :: "string \<Rightarrow> string \<Rightarrow> 'f ui_edit \<Rightarrow> 'f ui_edit" where
  "save_edit nm v s = (case st s of None \<Rightarrow> s\<lparr>sv := (sv s)\<lparr>sv_err := None\<rparr>\<rparr>
   | Some ui \<Rightarrow> s\<lparr>sv := begin_save (save_chain nm v s ui) (sv s)\<rparr>)"

text \<open>What is on the screen: an error replaces the editor.\<close>

datatype edit_screen = ErrorText string | Loading | Editor

definition screen_of :: "'f ui_edit \<Rightarrow> edit_screen" where
  "screen_of s = (if truthy_str (sv_err (sv s)) then ErrorText (the (sv_err (sv s))) else if st s = None then Loading else Editor)"

datatype 'f edit_event =
    PickCluster string
  | SelectField nat string node
  | ChangeField 'f
  | ClearField
  | MetaEvent meta_event
  | SchemasLoaded schemas
  | Save
  | SaveAnswer "unit outcome"

definition edit_flags :: meta_flags where
  "edit_flags = \<lparr>nameLocked = True, readOnly = False, hideTeam = True\<rparr>"

text \<open>The controls exist only while the editor is on the screen; answers come at any time.\<close>

definition edit_step :: "string \<Rightarrow> string \<Rightarrow> 'f ui_edit \<Rightarrow> 'f edit_event \<Rightarrow> 'f ui_edit" where
  "edit_step nm v s ev = (case ev of
     SchemasLoaded out \<Rightarrow> s\<lparr>schemas := out\<rparr>
   | SaveAnswer out \<Rightarrow> s\<lparr>sv := answer_save (''/templates/'' @ nm) (sv s) out\<rparr>
   | PickCluster c \<Rightarrow> (if screen_of s = Editor then pickCluster c s else s)
   | SelectField i p n \<Rightarrow> (if screen_of s = Editor then s\<lparr>active := Some (i, p, n)\<rparr> else s)
   | ChangeField f \<Rightarrow> (case active s of None \<Rightarrow> s
       | Some (i, p, _) \<Rightarrow> if screen_of s = Editor then s\<lparr>st := map_option (set_field i p f) (st s)\<rparr> else s)
   | ClearField \<Rightarrow> (case active s of None \<Rightarrow> s
       | Some (i, p, _) \<Rightarrow> if screen_of s = Editor then s\<lparr>st := map_option (clear_field i p) (st s)\<rparr> else s)
   | MetaEvent e \<Rightarrow> (case meta_step edit_flags (tm s, tagInput s) e of (m, t) \<Rightarrow>
       if screen_of s = Editor then s\<lparr>tm := m, tagInput := t\<rparr> else s)
   | Save \<Rightarrow> (if screen_of s = Editor \<and> canSave s then save_edit nm v s else s))"

section \<open>Editing a version as YAML\<close>

record 'f yaml_edit =
  y_resources :: string
  y_uispec :: string
  y_status :: string
  y_mode :: string
  y_loaded :: bool
  y_sv :: "'f saver"

definition open_yaml :: "'f yaml_edit" where
  "open_yaml = \<lparr>y_resources = [], y_uispec = [], y_status = [], y_mode = [], y_loaded = False, y_sv = idle\<rparr>"

record yaml_answer =
  ya_resources :: "string option"
  ya_ui_spec :: "string option"
  ya_status :: "string option"
  ya_mode :: "string option"

text \<open>A rejected request or an undecodable answer is not caught: nothing changes.\<close>

definition load_yaml :: "yaml_answer outcome \<Rightarrow> 'f yaml_edit \<Rightarrow> 'f yaml_edit" where
  "load_yaml out s = (case out of Inl m \<Rightarrow> s
   | Inr r \<Rightarrow> if \<not> rok r then s\<lparr>y_sv := (y_sv s)\<lparr>sv_err := Some (rtext r)\<rparr>\<rparr>
       else (case rjson r of Inl m \<Rightarrow> s
         | Inr a \<Rightarrow> s\<lparr>y_resources := nullish (ya_resources a) [], y_uispec := nullish (ya_ui_spec a) [],
             y_status := nullish (ya_status a) [], y_mode := nullish (ya_mode a) [], y_loaded := True\<rparr>))"

definition yaml_isDraft :: "'f yaml_edit \<Rightarrow> bool" where
  "yaml_isDraft s \<longleftrightarrow> y_status s = ''draft''"

definition yaml_isUiDraft :: "'f yaml_edit \<Rightarrow> bool" where
  "yaml_isUiDraft s \<longleftrightarrow> yaml_isDraft s \<and> y_mode s = ''ui''"

definition yaml_canSave :: "'f yaml_edit \<Rightarrow> bool" where
  "yaml_canSave s \<longleftrightarrow> y_loaded s \<and> \<not> sv_saving (y_sv s) \<and> \<not> yaml_isUiDraft s"

definition yaml_request :: "string \<Rightarrow> string \<Rightarrow> 'f yaml_edit \<Rightarrow> 'f save_request" where
  "yaml_request nm v s =
     (if yaml_isDraft s
      then \<lparr>sr_method = PATCH, sr_path = ''templates/'' @ nm @ ''/versions/'' @ v, sr_body = YamlPatch (y_resources s) (y_uispec s)\<rparr>
      else \<lparr>sr_method = POST, sr_path = ''templates/'' @ nm @ ''/versions'', sr_body = YamlVersion (y_resources s) (y_uispec s)\<rparr>)"

definition save_yaml :: "string \<Rightarrow> string \<Rightarrow> 'f yaml_edit \<Rightarrow> 'f yaml_edit" where
  "save_yaml nm v s = s\<lparr>y_sv := begin_save [([], yaml_request nm v s)] (y_sv s)\<rparr>"

datatype yaml_event = EditResources string | EditUiSpec string | SaveYaml | SaveYamlAnswer "unit outcome"

text \<open>The editor is shown once the version is loaded, with the error of the last save below it.\<close>

definition yaml_step :: "string \<Rightarrow> string \<Rightarrow> 'f yaml_edit \<Rightarrow> yaml_event \<Rightarrow> 'f yaml_edit" where
  "yaml_step nm v s ev = (case ev of
     EditResources x \<Rightarrow> (if y_loaded s then s\<lparr>y_resources := x\<rparr> else s)
   | EditUiSpec x \<Rightarrow> (if y_loaded s then s\<lparr>y_uispec := x\<rparr> else s)
   | SaveYaml \<Rightarrow> (if yaml_canSave s then save_yaml nm v s else s)
   | SaveYamlAnswer out \<Rightarrow> s\<lparr>y_sv := answer_save (''/templates/'' @ nm) (y_sv s) out\<rparr>)"

section \<open>A new template\<close>

record 'f edited =
  ed_gv :: string
  ed_kind :: string
  ed_name :: string
  ed_schema :: node
  ed_fields :: "(string, 'f) obj"

record kind_ref =
  kr_group :: string
  kr_version :: string
  kr_kind :: string
  kr_gv :: string

definition FEATURED :: "kind_ref list" where
  "FEATURED = map (\<lambda>(g, v, gv, k). \<lparr>kr_group = g, kr_version = v, kr_kind = k, kr_gv = gv\<rparr>)
     [(''apps'', ''v1'', ''apps/v1'', ''Deployment''), (''apps'', ''v1'', ''apps/v1'', ''StatefulSet''),
      ([], ''v1'', ''v1'', ''Service''), ([], ''v1'', ''v1'', ''ConfigMap''), ([], ''v1'', ''v1'', ''Secret''),
      (''batch'', ''v1'', ''batch/v1'', ''Job''), (''batch'', ''v1'', ''batch/v1'', ''CronJob'')]"

record team =
  tm_id :: string
  tm_name :: string
  tm_display :: "string option"

record 'f new_page =
  n_clusters :: "string list"
  n_session :: "string option"
  n_teams :: "team list"
  n_resources :: "'f edited list"
  n_meta :: tmeta
  n_tagInput :: string
  n_team :: string
  n_cluster :: string
  n_active :: "(nat \<times> string \<times> node) option"
  n_sv :: "'f saver"

definition open_new :: "string option \<Rightarrow> 'f new_page" where
  "open_new remembered = \<lparr>n_clusters = [], n_session = remembered, n_teams = [], n_resources = [], n_meta = \<lparr>t_name = [], t_display = None, t_team = None, t_tags = []\<rparr>, n_tagInput = [],
     n_team = [], n_cluster = [], n_active = None, n_sv = idle\<rparr>"

definition new_err :: "string \<Rightarrow> 'f new_page \<Rightarrow> 'f new_page" where
  "new_err m s = s\<lparr>n_sv := (n_sv s)\<lparr>sv_err := Some m\<rparr>\<rparr>"

text \<open>The answers of the two requests the page begins with; a body of teams may lack the list.\<close>

definition load_clusters :: "string list \<Rightarrow> 'f new_page \<Rightarrow> 'f new_page" where
  "load_clusters names s =
     (let s' = s\<lparr>n_clusters := names\<rparr>; pick = pick_remembered (n_session s) names
      in if truthy_str pick then s'\<lparr>n_cluster := the pick\<rparr> else s')"

definition load_new :: "string + string list response \<times> team list option response \<Rightarrow> 'f new_page \<Rightarrow> 'f new_page" where
  "load_new answers s = (case answers of
     Inl m \<Rightarrow> new_err m s
   | Inr (cRes, tRes) \<Rightarrow>
      (case (if rok cRes then map_sum id (\<lambda>names. load_clusters names s) (rjson cRes) else Inr s) of
         Inl m \<Rightarrow> new_err m s
       | Inr s1 \<Rightarrow>
          (if \<not> rok tRes then s1
           else case rjson tRes of Inl m \<Rightarrow> new_err m s1
             | Inr d \<Rightarrow> s1\<lparr>n_teams := nullish d []\<rparr>)))"

definition renderTeamLabel :: "string option \<Rightarrow> team list \<Rightarrow> string" where
  "renderTeamLabel v ts =
     (if \<not> truthy_str v \<or> v = Some ''__global__'' then ''(global - admin only)''
      else case find (\<lambda>t. tm_id t = the v) ts of
        None \<Rightarrow> the v
      | Some t \<Rightarrow> or_str (tm_display t) (if tm_name t \<noteq> [] then tm_name t else the v))"

definition generated_name :: "string \<Rightarrow> nat \<Rightarrow> string" where
  "generated_name kind n = js_lower kind @ ''-'' @ nat_digits (n + 1)"

definition addKind :: "nat \<Rightarrow> schemas option outcome \<Rightarrow> kind_ref \<Rightarrow> 'f new_page \<Rightarrow> 'f new_page" where
  "addKind fuel out k s = (case out of Inl m \<Rightarrow> s
   | Inr r \<Rightarrow> if \<not> rok r then new_err (rtext r) s
       else (case rjson r of Inl m \<Rightarrow> s
         | Inr doc \<Rightarrow> (case findKindSchema fuel doc (kr_group k) (kr_version k) (kr_kind k) of
             Some (Some schema) \<Rightarrow> s\<lparr>n_resources := n_resources s @ [\<lparr>ed_gv = kr_gv k, ed_kind = kr_kind k,
                 ed_name = generated_name (kr_kind k) (length (n_resources s)), ed_schema = schema, ed_fields = []\<rparr>]\<rparr>
           | _ \<Rightarrow> new_err (''no schema: '' @ kr_kind k) s)))"

definition uiState :: "'f new_page \<Rightarrow> 'f eres list" where
  "uiState s = map (\<lambda>r. \<lparr>er_apiVersion = ed_gv r, er_kind = ed_kind r, er_name = ed_name r, er_fields = ed_fields r\<rparr>) (n_resources s)"

definition new_canSave :: "'f new_page \<Rightarrow> bool" where
  "new_canSave s \<longleftrightarrow> js_trim (t_name (n_meta s)) \<noteq> [] \<and> n_resources s \<noteq> [] \<and> \<not> sv_saving (n_sv s)"

definition display_name :: "tmeta \<Rightarrow> string" where
  "display_name m = or_str (map_option js_trim (t_display m)) (t_name m)"

definition owning_team :: "string \<Rightarrow> string option" where
  "owning_team t = (if t = [] then None else Some t)"

definition create_request :: "'f new_page \<Rightarrow> 'f save_request" where
  "create_request s = \<lparr>sr_method = POST, sr_path = ''templates'',
     sr_body = CreateUi (t_name (n_meta s)) (display_name (n_meta s)) (t_tags (n_meta s)) (owning_team (n_team s)) (uiState s)\<rparr>"

definition saveDraft :: "'f new_page \<Rightarrow> 'f new_page" where
  "saveDraft s = s\<lparr>n_sv := begin_save [([], create_request s)] (n_sv s)\<rparr>"

text \<open>The team's select: its option for no team stands for the empty id.\<close>

abbreviation GLOBAL_TEAM :: string where
  "GLOBAL_TEAM \<equiv> ''__global__''"

definition pick_team :: "string option \<Rightarrow> string" where
  "pick_team v = (if \<not> truthy_str v \<or> v = Some GLOBAL_TEAM then [] else the v)"

definition team_value :: "string \<Rightarrow> string" where
  "team_value t = (if t = [] then GLOBAL_TEAM else t)"

datatype 'f new_event =
    NLoaded "string + string list response \<times> team list option response"
  | AddKind "schemas option outcome" kind_ref
  | RenameResource nat string
  | NSelect nat string node
  | NChange 'f
  | NClear
  | NMeta meta_event
  | NTeam "string option"
  | NCluster string
  | NSave
  | NSaveAnswer "unit outcome"

definition update_active :: "((string, 'f) obj \<Rightarrow> string \<Rightarrow> (string, 'f) obj) \<Rightarrow> 'f new_page \<Rightarrow> 'f new_page" where
  "update_active f s = (case n_active s of None \<Rightarrow> s
   | Some (i, p, _) \<Rightarrow> s\<lparr>n_resources := (n_resources s)[i := (n_resources s ! i)\<lparr>ed_fields := f (ed_fields (n_resources s ! i)) p\<rparr>]\<rparr>)"

definition new_flags :: meta_flags where
  "new_flags = \<lparr>nameLocked = False, readOnly = False, hideTeam = True\<rparr>"

text \<open>The controls exist only once a cluster is known; answers come at any time.\<close>

definition new_step :: "nat \<Rightarrow> 'f new_page \<Rightarrow> 'f new_event \<Rightarrow> 'f new_page" where
  "new_step fuel s ev = (case ev of
     NLoaded answers \<Rightarrow> load_new answers s
   | NSaveAnswer out \<Rightarrow> s\<lparr>n_sv := answer_save ''/templates'' (n_sv s) out\<rparr>
   | _ \<Rightarrow> if n_clusters s = [] then s else case ev of
     NLoaded answers \<Rightarrow> s
   | AddKind out k \<Rightarrow> addKind fuel out k s
   | RenameResource i x \<Rightarrow> s\<lparr>n_resources := (n_resources s)[i := (n_resources s ! i)\<lparr>ed_name := x\<rparr>]\<rparr>
   | NSelect i p n \<Rightarrow> s\<lparr>n_active := Some (i, p, n)\<rparr>
   | NChange f \<Rightarrow> update_active (\<lambda>fs p. oset fs p f) s
   | NClear \<Rightarrow> update_active odel s
   | NMeta e \<Rightarrow> (case meta_step new_flags (n_meta s, n_tagInput s) e of (m, t) \<Rightarrow> s\<lparr>n_meta := m, n_tagInput := t\<rparr>)
   | NTeam v \<Rightarrow> s\<lparr>n_team := pick_team v\<rparr>
   | NCluster c \<Rightarrow> s\<lparr>n_cluster := c, n_session := Some c\<rparr>
   | NSave \<Rightarrow> (if new_canSave s then saveDraft s else s)
   | NSaveAnswer out \<Rightarrow> s)"

definition yaml_create_request :: "tmeta \<Rightarrow> string \<Rightarrow> string \<Rightarrow> string \<Rightarrow> 'f save_request" where
  "yaml_create_request m team res spec = \<lparr>sr_method = POST, sr_path = ''templates'',
     sr_body = CreateYaml (t_name m) (display_name m) (t_tags m) (owning_team team) res spec\<rparr>"

section \<open>A new template as YAML\<close>

record 'f yaml_new =
  yn_meta :: tmeta
  yn_tagInput :: string
  yn_teams :: "team list"
  yn_team :: string
  yn_resources :: string
  yn_uispec :: string
  yn_sv :: "'f saver"

definition open_yaml_new :: "string \<Rightarrow> string \<Rightarrow> 'f yaml_new" where
  "open_yaml_new STARTER_RESOURCES STARTER_UISPEC = \<lparr>yn_meta = \<lparr>t_name = [], t_display = None, t_team = None, t_tags = []\<rparr>,
     yn_tagInput = [], yn_teams = [], yn_team = [], yn_resources = STARTER_RESOURCES, yn_uispec = STARTER_UISPEC, yn_sv = idle\<rparr>"

definition load_teams :: "team list option outcome \<Rightarrow> 'f yaml_new \<Rightarrow> 'f yaml_new" where
  "load_teams out s = (case out of Inl m \<Rightarrow> s\<lparr>yn_sv := (yn_sv s)\<lparr>sv_err := Some m\<rparr>\<rparr>
   | Inr r \<Rightarrow> if \<not> rok r then s
       else (case rjson r of Inl m \<Rightarrow> s\<lparr>yn_sv := (yn_sv s)\<lparr>sv_err := Some m\<rparr>\<rparr> | Inr d \<Rightarrow> s\<lparr>yn_teams := nullish d []\<rparr>))"

definition yaml_new_canSave :: "'f yaml_new \<Rightarrow> bool" where
  "yaml_new_canSave s \<longleftrightarrow> js_trim (t_name (yn_meta s)) \<noteq> [] \<and> \<not> sv_saving (yn_sv s)"

datatype yaml_new_event =
    YTeams "team list option outcome"
  | YMeta meta_event
  | YTeam "string option"
  | YResources string
  | YUiSpec string
  | YSave
  | YSaveAnswer "unit outcome"

definition yaml_new_step :: "'f yaml_new \<Rightarrow> yaml_new_event \<Rightarrow> 'f yaml_new" where
  "yaml_new_step s ev = (case ev of
     YTeams out \<Rightarrow> load_teams out s
   | YMeta e \<Rightarrow> (case meta_step new_flags (yn_meta s, yn_tagInput s) e of (m, t) \<Rightarrow> s\<lparr>yn_meta := m, yn_tagInput := t\<rparr>)
   | YTeam v \<Rightarrow> s\<lparr>yn_team := pick_team v\<rparr>
   | YResources x \<Rightarrow> s\<lparr>yn_resources := x\<rparr>
   | YUiSpec x \<Rightarrow> s\<lparr>yn_uispec := x\<rparr>
   | YSave \<Rightarrow> (if yaml_new_canSave s
       then s\<lparr>yn_sv := begin_save [([], yaml_create_request (yn_meta s) (yn_team s) (yn_resources s) (yn_uispec s))] (yn_sv s)\<rparr>
       else s)
   | YSaveAnswer out \<Rightarrow> s\<lparr>yn_sv := answer_save ''/templates'' (yn_sv s) out\<rparr>)"

text \<open>The buttons of the bottom bar that can be pressed: save and publish.\<close>

definition BottomBar :: "bool \<Rightarrow> bool \<Rightarrow> bool \<Rightarrow> bool \<Rightarrow> bool \<times> bool" where
  "BottomBar can_save can_publish is_saving is_publishing =
     (\<not> (\<not> can_save \<or> is_saving), \<not> (\<not> can_publish \<or> is_publishing))"

section \<open>Saving\<close>

definition accepted :: "unit outcome \<Rightarrow> bool" where
  "accepted out \<longleftrightarrow> (case out of Inl m \<Rightarrow> False | Inr r \<Rightarrow> rok r)"

text \<open>All of a saver but the error shown, which other handlers set too.\<close>

definition core :: "'f saver \<Rightarrow> bool \<times> (string \<times> 'f save_request) list \<times> 'f save_request list \<times> string list" where
  "core v = (sv_saving v, sv_chain v, sv_sent v, sv_pushed v)"

lemma core_simps [simp]:
  "core (v\<lparr>sv_err := e\<rparr>) = core v"
  "core idle = (False, [], [], [])"
  "core (begin_save chain v) = (True, chain, sv_sent v @ [snd (hd chain)], sv_pushed v)"
  by (simp_all add: core_def idle_def begin_save_def)

lemma begin_save_simps [simp]:
  "sv_saving (begin_save chain v)" "sv_chain (begin_save chain v) = chain" "sv_err (begin_save chain v) = None"
  "sv_sent (begin_save chain v) = sv_sent v @ [snd (hd chain)]" "sv_pushed (begin_save chain v) = sv_pushed v"
  by (simp_all add: begin_save_def)

lemma core_answer:
  "core (answer_save target v out) =
     (case sv_chain v of [] \<Rightarrow> core v
      | c # rest \<Rightarrow> if \<not> accepted out then (False, [], sv_sent v, sv_pushed v)
          else (case rest of [] \<Rightarrow> (False, [], sv_sent v, sv_pushed v @ [target])
             | d # _ \<Rightarrow> (sv_saving v, rest, sv_sent v @ [snd d], sv_pushed v)))"
  by (auto simp: answer_save_def core_def accepted_def split: list.split sum.split)

lemma answer_chain:
  "sv_saving v \<longleftrightarrow> sv_chain v \<noteq> [] \<Longrightarrow> sv_saving (answer_save target v out) \<longleftrightarrow> sv_chain (answer_save target v out) \<noteq> []"
  by (auto simp: answer_save_def split: list.split sum.split)

text \<open>A page that saves: \<open>answer_of\<close> tells the answers from the other events.\<close>

locale saving_page =
  fixes step :: "'s \<Rightarrow> 'e \<Rightarrow> 's"
    and saver :: "'s \<Rightarrow> 'f saver"
    and answer_of :: "'e \<Rightarrow> unit outcome option"
    and target :: string
  assumes answered: "answer_of ev = Some out \<Longrightarrow> saver (step s ev) = answer_save target (saver s) out"
    and undisturbed: "answer_of ev = None \<Longrightarrow> sv_saving (saver s) \<Longrightarrow> core (saver (step s ev)) = core (saver s)"
    and begins: "answer_of ev = None \<Longrightarrow> \<not> sv_saving (saver s) \<Longrightarrow>
       core (saver (step s ev)) = core (saver s) \<or> (\<exists>chain. chain \<noteq> [] \<and> core (saver (step s ev)) = core (begin_save chain (saver s)))"
begin

definition answers :: "'e list \<Rightarrow> unit outcome list" where
  "answers evs = List.map_filter answer_of evs"

lemma answers_simps [simp]:
  "answers [] = []"
  "answers (ev # evs) = (case answer_of ev of None \<Rightarrow> answers evs | Some out \<Rightarrow> out # answers evs)"
  by (simp_all add: answers_def List.map_filter_def split: option.split)

text \<open>As long as the answers are acceptances, and fewer than the requests, the save goes on: it has sent one request more
  than was answered, whatever else happened.\<close>

lemma save_goes_on:
  "sv_saving (saver s) \<Longrightarrow> length (answers evs) < length (sv_chain (saver s)) \<Longrightarrow> list_all accepted (answers evs)
   \<Longrightarrow> core (saver (foldl step s evs)) = (True, drop (length (answers evs)) (sv_chain (saver s)),
        sv_sent (saver s) @ map snd (take (length (answers evs)) (tl (sv_chain (saver s)))), sv_pushed (saver s))"
proof (induction evs arbitrary: s)
  case (Cons ev evs)
  show ?case
  proof (cases "answer_of ev")
    case None
    with undisturbed Cons.prems have "core (saver (step s ev)) = core (saver s)" by blast
    with Cons None show ?thesis by (simp add: core_def)
  next
    case (Some out)
    with Cons.prems obtain c d rest where chain: "sv_chain (saver s) = c # d # rest" and "accepted out"
      by (cases "sv_chain (saver s)"; cases "tl (sv_chain (saver s))") auto
    with Some answered [OF Some] Cons.prems(1) have "core (saver (step s ev)) = (True, d # rest, sv_sent (saver s) @ [snd d], sv_pushed (saver s))"
      by (simp add: core_answer)
    with Cons Some chain show ?thesis by (simp add: core_def)
  qed
qed (simp add: core_def)

text \<open>Saving is over exactly when no request is left to answer.\<close>

lemma saving_chain:
  assumes "sv_saving (saver s) \<longleftrightarrow> sv_chain (saver s) \<noteq> []"
  shows "sv_saving (saver (foldl step s evs)) \<longleftrightarrow> sv_chain (saver (foldl step s evs)) \<noteq> []"
  using assms
proof (induction evs arbitrary: s)
  case (Cons ev evs)
  have "sv_saving (saver (step s ev)) \<longleftrightarrow> sv_chain (saver (step s ev)) \<noteq> []"
  proof (cases "answer_of ev")
    case None
    with undisturbed [OF None, of s] begins [OF None, of s] Cons.prems show ?thesis by (auto simp: core_def)
  next
    case (Some out)
    show ?thesis unfolding answered [OF Some] by (rule answer_chain [OF Cons.prems])
  qed
  with Cons show ?case by simp
qed simp

end

text \<open>The four pages.\<close>

definition edit_answer :: "'f edit_event \<Rightarrow> unit outcome option" where
  "edit_answer ev = (case ev of SaveAnswer out \<Rightarrow> Some out | _ \<Rightarrow> None)"

definition yaml_edit_answer :: "yaml_event \<Rightarrow> unit outcome option" where
  "yaml_edit_answer ev = (case ev of SaveYamlAnswer out \<Rightarrow> Some out | _ \<Rightarrow> None)"

definition new_answer :: "'f new_event \<Rightarrow> unit outcome option" where
  "new_answer ev = (case ev of NSaveAnswer out \<Rightarrow> Some out | _ \<Rightarrow> None)"

definition yaml_new_answer :: "yaml_new_event \<Rightarrow> unit outcome option" where
  "yaml_new_answer ev = (case ev of YSaveAnswer out \<Rightarrow> Some out | _ \<Rightarrow> None)"

lemma save_chain_nonempty [simp]: "save_chain nm v s ui \<noteq> []"
  by (simp add: save_chain_def Let_def)

lemma edit_other:
  "edit_answer ev = None \<Longrightarrow> sv (edit_step nm v s ev) = sv s
     \<or> \<not> sv_saving (sv s) \<and> (\<exists>ui. st s = Some ui \<and> sv (edit_step nm v s ev) = begin_save (save_chain nm v s ui) (sv s))"
  by (cases ev) (auto simp: edit_answer_def edit_step_def pickCluster_def canSave_def save_edit_def split: option.split prod.split)

interpretation edit_page: saving_page "edit_step nm v" sv edit_answer "''/templates/'' @ nm" for nm v
proof
  fix ev :: "'f edit_event" and s :: "'f ui_edit" and out
  show "edit_answer ev = Some out \<Longrightarrow> sv (edit_step nm v s ev) = answer_save (''/templates/'' @ nm) (sv s) out"
    by (cases ev) (auto simp: edit_answer_def edit_step_def)
  show "edit_answer ev = None \<Longrightarrow> sv_saving (sv s) \<Longrightarrow> core (sv (edit_step nm v s ev)) = core (sv s)"
    using edit_other [of ev nm v s] by auto
  show "edit_answer ev = None \<Longrightarrow> \<not> sv_saving (sv s) \<Longrightarrow> core (sv (edit_step nm v s ev)) = core (sv s)
      \<or> (\<exists>chain. chain \<noteq> [] \<and> core (sv (edit_step nm v s ev)) = core (begin_save chain (sv s)))"
    using edit_other [of ev nm v s] by auto
qed

interpretation yaml_page: saving_page "yaml_step nm v" y_sv yaml_edit_answer "''/templates/'' @ nm" for nm v
  by unfold_locales (auto simp: yaml_edit_answer_def yaml_step_def yaml_canSave_def save_yaml_def split: yaml_event.splits)

lemma load_new_core: "core (n_sv (load_new a s)) = core (n_sv s)"
proof -
  have "core (n_sv (load_clusters ns u)) = core (n_sv u)" for ns and u :: "'a new_page"
    by (simp add: load_clusters_def Let_def)
  then show ?thesis by (auto simp: load_new_def new_err_def map_sum_def split: sum.splits)
qed

lemma new_other:
  assumes "new_answer ev = None"
  shows "core (n_sv (new_step fuel s ev)) = core (n_sv s)
    \<or> ev = NSave \<and> new_canSave s \<and> n_sv (new_step fuel s ev) = begin_save [([], create_request s)] (n_sv s)"
proof -
  have "core (n_sv (addKind fuel out k s)) = core (n_sv s)" for out k
    by (auto simp: addKind_def new_err_def split: sum.split option.split)
  with assms load_new_core show ?thesis
    by (cases ev) (auto simp: new_answer_def new_step_def update_active_def saveDraft_def split: option.split prod.split)
qed

interpretation new_pg: saving_page "new_step fuel" n_sv new_answer "''/templates''" for fuel
proof
  fix ev :: "'f new_event" and s :: "'f new_page" and out
  show "new_answer ev = Some out \<Longrightarrow> n_sv (new_step fuel s ev) = answer_save ''/templates'' (n_sv s) out"
    by (cases ev) (auto simp: new_answer_def new_step_def)
  show "new_answer ev = None \<Longrightarrow> sv_saving (n_sv s) \<Longrightarrow> core (n_sv (new_step fuel s ev)) = core (n_sv s)"
    using new_other [of ev fuel s] by (auto simp: new_canSave_def)
  show "new_answer ev = None \<Longrightarrow> \<not> sv_saving (n_sv s) \<Longrightarrow> core (n_sv (new_step fuel s ev)) = core (n_sv s)
      \<or> (\<exists>chain. chain \<noteq> [] \<and> core (n_sv (new_step fuel s ev)) = core (begin_save chain (n_sv s)))"
    using new_other [of ev fuel s] by (metis not_Cons_self2)
qed

interpretation yaml_new_pg: saving_page yaml_new_step yn_sv yaml_new_answer "''/templates''"
proof
  fix ev :: yaml_new_event and s :: "'f yaml_new" and out
  have load: "core (yn_sv (load_teams o' s)) = core (yn_sv s)" for o'
    by (auto simp: load_teams_def split: sum.split)
  show "yaml_new_answer ev = Some out \<Longrightarrow> yn_sv (yaml_new_step s ev) = answer_save ''/templates'' (yn_sv s) out"
    by (cases ev) (auto simp: yaml_new_answer_def yaml_new_step_def)
  show "yaml_new_answer ev = None \<Longrightarrow> sv_saving (yn_sv s) \<Longrightarrow> core (yn_sv (yaml_new_step s ev)) = core (yn_sv s)"
    by (cases ev) (auto simp: yaml_new_answer_def yaml_new_step_def load yaml_new_canSave_def split: prod.split)
  show "yaml_new_answer ev = None \<Longrightarrow> \<not> sv_saving (yn_sv s) \<Longrightarrow> core (yn_sv (yaml_new_step s ev)) = core (yn_sv s)
      \<or> (\<exists>chain. chain \<noteq> [] \<and> core (yn_sv (yaml_new_step s ev)) = core (begin_save chain (yn_sv s)))"
    by (cases ev) (auto simp: yaml_new_answer_def yaml_new_step_def load split: prod.split)
qed

section \<open>Saving an edited version\<close>

lemma tagsEqual_iff [simp]: "tagsEqual a b \<longleftrightarrow> a = b"
  by (induction a b rule: tagsEqual.induct) auto

lemma edit_no_error:
  "sv_err (sv u) = None \<Longrightarrow> list_all accepted (edit_page.answers evs) \<Longrightarrow> sv_err (sv (foldl (edit_step nm v) u evs)) = None"
proof (induction evs arbitrary: u)
  case (Cons ev evs)
  have "sv_err (sv (edit_step nm v u ev)) = None"
  proof (cases "edit_answer ev")
    case None
    with edit_other [of ev nm v u] Cons.prems(1) show ?thesis by auto
  next
    case (Some out)
    with Cons.prems have "accepted out" by simp
    with edit_page.answered [OF Some] Cons.prems(1) show ?thesis
      by (auto simp: answer_save_def accepted_def split: list.split sum.splits)
  qed
  with Cons show ?case by (auto split: option.splits)
qed simp

lemma answer_next:
  assumes "sv_chain v = drop k chain" and "k < length chain" and "sv_saving v" and "sv_pushed v = ps"
  shows "(\<not> sv_saving (answer_save target v out) \<longleftrightarrow> \<not> accepted out \<or> Suc k = length chain)"
    and "sv_pushed (answer_save target v out) = (if accepted out \<and> Suc k = length chain then ps @ [target] else ps)"
    and "sv_err (answer_save target v out) = (case out of Inl m \<Rightarrow> sv_err v
        | Inr r \<Rightarrow> if rok r then sv_err v else Some (fst (chain ! k) @ status_text r))"
proof -
  from assms(1,2) have "sv_chain v = chain ! k # drop (Suc k) chain" by (simp add: Cons_nth_drop_Suc)
  with assms show "(\<not> sv_saving (answer_save target v out) \<longleftrightarrow> \<not> accepted out \<or> Suc k = length chain)"
    "sv_pushed (answer_save target v out) = (if accepted out \<and> Suc k = length chain then ps @ [target] else ps)"
    "sv_err (answer_save target v out) = (case out of Inl m \<Rightarrow> sv_err v
        | Inr r \<Rightarrow> if rok r then sv_err v else Some (fst (chain ! k) @ status_text r))"
    by (auto simp: answer_save_def accepted_def split: list.splits sum.splits)
qed

text \<open>Property C30: saving an edited version. The changed part of the description is sent first and the version
  after it was accepted, with the resources as they were when the button was pressed: a visual draft is
  replaced in place, anything else becomes a new version. Until the last answer nothing that happens
  on the page, another press included, sends more. The browser leaves for the template exactly when everything
  was accepted; an error status is shown; a request that is rejected without an answer ends the save
  without a message. The edited resources are never lost by an answer.\<close>

theorem editor_save_spec:
  fixes s :: "'f ui_edit" and nm v :: string and evs :: "'f edit_event list"
  assumes "canSave s" and "screen_of s = Editor" and "st s = Some ui" and "initialMeta s = Some m0"
    and "list_all accepted (List.map_filter edit_answer evs)" and "k = length (List.map_filter edit_answer evs)"
    and "k < length (save_chain nm v s ui)"
  defines "b \<equiv> patch_body s" and "chain \<equiv> save_chain nm v s ui"
    and "s2 \<equiv> foldl (edit_step nm v) (edit_step nm v s Save) evs"
  shows "map snd chain = (if b = (None, None) then [] else [meta_request nm b]) @ [version_request nm v s ui]
    \<and> (fst b = None \<longleftrightarrow> nullish (t_display (tm s)) [] = nullish (t_display m0) [])
    \<and> (snd b = None \<longleftrightarrow> t_tags (tm s) = t_tags m0)
    \<and> (sr_method (version_request nm v s ui) = PATCH \<longleftrightarrow> srcStatus s = ''draft'' \<and> srcMode s = ''ui'')
    \<and> sv_sent (sv s2) = sv_sent (sv s) @ map snd (take (Suc k) chain) \<and> sv_saving (sv s2) \<and> sv_err (sv s2) = None
    \<and> (\<forall>out. let s3 = edit_step nm v s2 (SaveAnswer out) in
        (\<not> sv_saving (sv s3) \<longleftrightarrow> \<not> accepted out \<or> Suc k = length chain)
        \<and> sv_pushed (sv s3) = (if accepted out \<and> Suc k = length chain then sv_pushed (sv s) @ [''/templates/'' @ nm] else sv_pushed (sv s))
        \<and> sv_err (sv s3) = (case out of Inl m \<Rightarrow> None | Inr r \<Rightarrow> if rok r then None else Some (fst (chain ! k) @ status_text r))
        \<and> st s3 = st s2)"
proof -
  have s1: "sv (edit_step nm v s Save) = begin_save chain (sv s)"
    using assms(1-3) by (simp add: edit_step_def save_edit_def chain_def)
  have ne: "chain \<noteq> []" by (simp add: chain_def)
  from assms(5-7) have "core (sv s2) = (True, drop k chain,
      (sv_sent (sv s) @ [snd (hd chain)]) @ map snd (take k (tl chain)), sv_pushed (sv s))"
    unfolding s2_def edit_page.answers_def [symmetric]
    using edit_page.save_goes_on [of "edit_step nm v s Save" evs nm v] by (simp add: s1 chain_def)
  moreover from ne have "[snd (hd chain)] @ map snd (take k (tl chain)) = map snd (take (Suc k) chain)"
    by (cases chain) simp_all
  ultimately have run: "sv_saving (sv s2)" "sv_chain (sv s2) = drop k chain" "sv_pushed (sv s2) = sv_pushed (sv s)"
    "sv_sent (sv s2) = sv_sent (sv s) @ map snd (take (Suc k) chain)"
    by (simp_all add: core_def)
  have err: "sv_err (sv s2) = None"
    unfolding s2_def using assms(5) by (intro edit_no_error) (simp_all add: s1 edit_page.answers_def)
  have shape: "map snd chain = (if b = (None, None) then [] else [meta_request nm b]) @ [version_request nm v s ui]"
    "(fst b = None \<longleftrightarrow> nullish (t_display (tm s)) [] = nullish (t_display m0) [])"
    "(snd b = None \<longleftrightarrow> t_tags (tm s) = t_tags m0)"
    "sr_method (version_request nm v s ui) = PATCH \<longleftrightarrow> srcStatus s = ''draft'' \<and> srcMode s = ''ui''"
    by (simp_all add: chain_def save_chain_def b_def Let_def patch_body_def assms(4) version_request_def saveAsPatch_def)
  have step: "sv (edit_step nm v s2 (SaveAnswer out)) = answer_save (''/templates/'' @ nm) (sv s2) out"
    "st (edit_step nm v s2 (SaveAnswer out)) = st s2" for out
    by (simp_all add: edit_step_def)
  have k: "k < length chain" using assms(7) by (simp add: chain_def)
  from shape run err answer_next [OF run(2) k run(1,3)] show ?thesis
    unfolding Let_def step err by auto
qed

section \<open>Drafts and the proxy\<close>

text \<open>The answer of the front end's own server, as \<open>fetch\<close> sees it; an exception in a route is a 500.
  The proxy joins the segments of the path again, so the path is kept whole.\<close>

definition bff_outcome :: "reply \<Rightarrow> unit outcome" where
  "bff_outcome rp = (case rp of
     Reply code body hs \<Rightarrow> Inr \<lparr>rstatus = code, rstatusText = [], rtext = nullish body [], rjson = Inr ()\<rparr>
   | Redirect u \<Rightarrow> Inr \<lparr>rstatus = 200, rstatusText = [], rtext = [], rjson = Inr ()\<rparr>
   | Throw m \<Rightarrow> Inr \<lparr>rstatus = 500, rstatusText = [], rtext = [], rjson = Inr ()\<rparr>)"

definition client_request_of :: "('f save_body \<Rightarrow> string) \<Rightarrow> 'f save_request \<Rightarrow> client_request" where
  "client_request_of encode rq = \<lparr>cr_method = sr_method rq, cr_path = [sr_path rq], cr_search = [],
     cr_headers = [(''content-type'', ''application/json'')], cr_body = encode (sr_body rq)\<rparr>"

definition bff_fetch :: "(client_request \<Rightarrow> server \<times> api_request list \<times> reply) \<Rightarrow> ('f save_body \<Rightarrow> string) \<Rightarrow> 'f save_request \<Rightarrow> unit outcome" where
  "bff_fetch route encode rq = bff_outcome (snd (snd (route (client_request_of encode rq))))"

lemma error_stays:
  "screen_of u = ErrorText m \<Longrightarrow> sv_chain (sv u) = [] \<Longrightarrow> screen_of (foldl (edit_step nm v) u evs) = ErrorText m"
proof (induction evs arbitrary: u)
  case (Cons ev evs)
  have "screen_of (edit_step nm v u ev) = ErrorText m \<and> sv_chain (sv (edit_step nm v u ev)) = []"
    using Cons.prems
    by (cases ev) (auto simp: edit_step_def screen_of_def answer_save_def split: if_splits option.split prod.split)
  with Cons.IH show ?case by simp
qed simp


definition demo_edit :: "jsval ui_edit" where
  "demo_edit = (open_edit ''web'' None)\<lparr>st := Some [], srcStatus := ''draft'', srcMode := ''ui'',
     tm := \<lparr>t_name = ''web'', t_display = Some ''Web'', t_team = None, t_tags = []\<rparr>,
     initialMeta := Some \<lparr>t_name = ''web'', t_display = Some ''Web'', t_team = None, t_tags = []\<rparr>\<rparr>"

definition demo_yaml :: "jsval yaml_edit" where
  "demo_yaml = open_yaml\<lparr>y_status := ''draft'', y_mode := ''yaml'', y_loaded := True\<rparr>"

lemma demo_edit_facts:
  "canSave demo_edit" "screen_of demo_edit = Editor" "saveAsPatch demo_edit" "st demo_edit = Some []"
  "initialMeta demo_edit = Some \<lparr>t_name = ''web'', t_display = Some ''Web'', t_team = None, t_tags = []\<rparr>"
  "patch_body demo_edit = (None, None)" "save_chain ''web'' ''3'' demo_edit [] = [([], version_request ''web'' ''3'' demo_edit [])]"
  "yaml_isDraft demo_yaml" "yaml_canSave demo_yaml"
  by (simp_all add: demo_edit_def open_edit_def canSave_def screen_of_def saveAsPatch_def isYamlDraft_def patch_body_def idle_def
      save_chain_def demo_yaml_def open_yaml_def yaml_isDraft_def yaml_canSave_def yaml_isUiDraft_def)

lemma editor_save_spec_witness:
  "sv_sent (sv (foldl (edit_step ''web'' ''3'') (edit_step ''web'' ''3'' demo_edit Save) [Save, ClearField]))
     = sv_sent (sv demo_edit) @ [version_request ''web'' ''3'' demo_edit []]"
  using editor_save_spec [OF demo_edit_facts(1,2,4,5), where evs = "[Save, ClearField]" and k = 0 and nm = "''web''" and v = "''3''"]
  by (simp add: demo_edit_facts(7) edit_answer_def List.map_filter_def)


section \<open>New templates\<close>

definition tags_clean :: "string list \<Rightarrow> bool" where
  "tags_clean ts \<longleftrightarrow> distinct ts \<and> (\<forall>t \<in> set ts. js_trim t = t \<and> t \<noteq> [])"

lemma tags_clean_step: "tags_clean (t_tags (fst s)) \<Longrightarrow> tags_clean (t_tags (fst (meta_step fl s ev)))"
  by (cases s) (auto simp: tags_clean_def meta_step_def Let_def split: meta_event.split)

interpretation meta_row: event_component "meta_step fl" "\<lambda>s. tags_clean (t_tags (fst s))" for fl
  by unfold_locales (rule tags_clean_step)

lemma generated_name_inj: "generated_name k m = generated_name l n \<Longrightarrow> m = n"
proof -
  assume "generated_name k m = generated_name l n"
  then have "js_lower k @ CHR ''-'' # nat_digits (m + 1) = js_lower l @ CHR ''-'' # nat_digits (n + 1)"
    by (simp add: generated_name_def)
  from split_last_eq [OF this] show "m = n"
    using nat_digits_digits hd_digits_not not_digits(7) by (auto dest: nat_digits_inject [THEN iffD1])
qed

text \<open>Every name is the generated one of its position; holds until a resource is renamed.\<close>

definition names_generated :: "'f new_page \<Rightarrow> bool" where
  "names_generated s \<longleftrightarrow> (\<forall>i < length (n_resources s). \<exists>k. ed_name (n_resources s ! i) = generated_name k i)"

lemma names_generated_distinct: "names_generated s \<Longrightarrow> distinct (map ed_name (n_resources s))"
  by (auto simp: names_generated_def distinct_conv_nth dest!: generated_name_inj) (metis generated_name_inj)

lemma addKind_cases:
  "\<exists>fields. addKind fuel out k s = s \<or> addKind fuel out k s = new_err fields s
   \<or> (\<exists>schema. addKind fuel out k s = s\<lparr>n_resources := n_resources s @ [\<lparr>ed_gv = kr_gv k, ed_kind = kr_kind k,
        ed_name = generated_name (kr_kind k) (length (n_resources s)), ed_schema = schema, ed_fields = []\<rparr>]\<rparr>)"
  by (auto simp: addKind_def split: sum.split option.split)

lemma new_err_keeps [simp]: "n_meta (new_err m s) = n_meta s" "n_resources (new_err m s) = n_resources s"
  by (simp_all add: new_err_def)

lemma saveDraft_keeps [simp]: "n_meta (saveDraft s) = n_meta s" "n_resources (saveDraft s) = n_resources s"
  by (simp_all add: saveDraft_def)

lemma nth_update: "i < length xs \<Longrightarrow> xs[a := y] ! i = (if a = i then y else xs ! i)"
  by (cases "a = i") simp_all

lemma load_new_keeps:
  "n_meta (load_new a s) = n_meta s" "n_resources (load_new a s) = n_resources s"
proof -
  have lc: "n_meta (load_clusters ns u) = n_meta u" "n_resources (load_clusters ns u) = n_resources u" for ns and u :: "'a new_page"
    by (simp_all add: load_clusters_def Let_def)
  show "n_meta (load_new a s) = n_meta s" "n_resources (load_new a s) = n_resources s"
    by (auto simp: load_new_def new_err_def lc map_sum_def split: sum.splits)
qed

lemma names_generated_step:
  assumes "names_generated s" and "\<forall>i x. ev \<noteq> RenameResource i x"
  shows "names_generated (new_step fuel s ev)"
proof -
  have upd: "names_generated (update_active f s)" for f
    using assms(1) by (auto simp: names_generated_def update_active_def nth_update split: option.split)
  have add: "names_generated (addKind fuel out k s)" for out k
    using addKind_cases [of fuel out k s] assms(1)
    by (auto simp: names_generated_def nth_append less_Suc_eq) blast
  show ?thesis
    using assms upd add
    by (cases ev) (auto simp: new_step_def names_generated_def load_new_keeps Let_def split: prod.split)
qed

lemma new_tags_step: "tags_clean (t_tags (n_meta s)) \<Longrightarrow> tags_clean (t_tags (n_meta (new_step fuel s ev)))"
proof -
  assume c: "tags_clean (t_tags (n_meta s))"
  have "n_meta (addKind fuel out k s) = n_meta s" for out k using addKind_cases [of fuel out k s] by auto
  then show ?thesis
    using c tags_clean_step [of "(n_meta s, n_tagInput s)" new_flags]
    by (cases ev) (auto simp: new_step_def update_active_def load_new_keeps Let_def case_prod_unfold split: option.split)
qed

text \<open>What can have been sent: creations with a name, a display name that is trimmed or else the name, clean tags and a
  resource.\<close>

definition creation_ok :: "'f save_request \<Rightarrow> bool" where
  "creation_ok rq \<longleftrightarrow> (\<exists>nm disp ts owner ui. rq = \<lparr>sr_method = POST, sr_path = ''templates'', sr_body = CreateUi nm disp ts owner ui\<rparr>
     \<and> js_trim nm \<noteq> [] \<and> disp \<noteq> [] \<and> (disp = nm \<or> js_trim disp = disp) \<and> tags_clean ts \<and> ui \<noteq> [] \<and> owner \<noteq> Some [])"

definition new_inv :: "'f new_page \<Rightarrow> bool" where
  "new_inv s \<longleftrightarrow> tags_clean (t_tags (n_meta s)) \<and> list_all creation_ok (sv_sent (n_sv s)) \<and> length (sv_chain (n_sv s)) \<le> 1
     \<and> length (sv_pushed (n_sv s)) + length (sv_chain (n_sv s)) \<le> length (sv_sent (n_sv s))
     \<and> (sv_saving (n_sv s) \<longleftrightarrow> sv_chain (n_sv s) \<noteq> [])"

lemma create_request_ok:
  assumes "new_canSave s" and "tags_clean (t_tags (n_meta s))"
  shows "creation_ok (create_request s)"
proof -
  have "js_trim [] = []" by (simp add: js_trim_def)
  with assms show ?thesis
    by (cases "t_display (n_meta s)")
       (auto simp: creation_ok_def create_request_def new_canSave_def display_name_def or_str_def owning_team_def uiState_def)
qed

lemma new_inv_step: "new_inv s \<Longrightarrow> new_inv (new_step fuel s ev)"
proof -
  assume inv: "new_inv s"
  then have tags: "tags_clean (t_tags (n_meta (new_step fuel s ev)))" by (simp add: new_inv_def new_tags_step)
  show ?thesis
  proof (cases "new_answer ev")
    case None
    from new_other [OF None, of fuel s] consider "core (n_sv (new_step fuel s ev)) = core (n_sv s)"
      | "new_canSave s" "n_sv (new_step fuel s ev) = begin_save [([], create_request s)] (n_sv s)" by blast
    then show ?thesis
    proof cases
      case 1
      with inv tags show ?thesis by (simp add: new_inv_def core_def)
    next
      case 2
      with inv tags create_request_ok [of s] show ?thesis by (auto simp: new_inv_def new_canSave_def)
    qed
  next
    case (Some out)
    note new_pg.answered [OF Some, of fuel s]
    with inv tags show ?thesis by (auto simp: new_inv_def answer_save_def split: list.splits sum.split)
  qed
qed

interpretation new_page: event_component "new_step fuel" new_inv for fuel
  by unfold_locales (rule new_inv_step)

text \<open>What a new template is created from. After any events its tags are trimmed, not empty
  and all different, and, as long as no resource was renamed, so are the names of its resources. Whatever
  happened, every request the page has sent creates a template with a name that is not blank, a display name,
  clean tags and at least one resource; the browser has left at most once for each, and while one is being
  answered pressing the button does nothing.\<close>

lemma new_template_request:
  assumes "s = foldl (new_step fuel) (open_new remembered) evs"
  shows "tags_clean (t_tags (n_meta s))
    \<and> ((\<forall>ev \<in> set evs. \<forall>i x. ev \<noteq> RenameResource i x) \<longrightarrow> distinct (map er_name (uiState s)))
    \<and> (\<forall>rq \<in> set (sv_sent (n_sv s)). \<exists>nm disp ts owner ui.
        rq = \<lparr>sr_method = POST, sr_path = ''templates'', sr_body = CreateUi nm disp ts owner ui\<rparr>
        \<and> js_trim nm \<noteq> [] \<and> disp \<noteq> [] \<and> (disp = nm \<or> js_trim disp = disp) \<and> tags_clean ts \<and> ui \<noteq> [] \<and> owner \<noteq> Some [])
    \<and> length (sv_pushed (n_sv s)) \<le> length (sv_sent (n_sv s))
    \<and> (sv_saving (n_sv s) \<longrightarrow> new_step fuel s NSave = s)"
proof -
  have inv: "new_inv s"
    unfolding assms by (rule new_page.run_inv) (simp add: new_inv_def open_new_def idle_def tags_clean_def)
  have "names_generated s" if "\<forall>ev \<in> set evs. \<forall>i x. ev \<noteq> RenameResource i x"
    unfolding assms using that
    by (induction evs rule: rev_induct) (auto simp: names_generated_step, simp add: open_new_def names_generated_def)
  then have "distinct (map er_name (uiState s))" if "\<forall>ev \<in> set evs. \<forall>i x. ev \<noteq> RenameResource i x"
    using that names_generated_distinct [of s] by (simp add: uiState_def comp_def)
  with inv show ?thesis
    unfolding new_inv_def list_all_iff creation_ok_def by (simp add: new_step_def new_canSave_def)
qed

definition demo_new_events :: "jsval new_event list" where
  "demo_new_events = [NLoaded (Inr (\<lparr>rstatus = 200, rstatusText = [], rtext = [], rjson = Inr [''dev'']\<rparr>,
     \<lparr>rstatus = 500, rstatusText = [], rtext = [], rjson = Inl []\<rparr>)), NMeta (MTypeTag '' web ''), NMeta MEnter]"

lemma new_template_request_witness:
  "tags_clean (t_tags (n_meta (foldl (new_step 0) (open_new None) demo_new_events)))
   \<and> t_tags (n_meta (foldl (new_step 0) (open_new None) demo_new_events)) = [''web'']"
proof
  show "tags_clean (t_tags (n_meta (foldl (new_step 0) (open_new None) demo_new_events)))"
    using new_template_request [OF refl, of 0 None demo_new_events] by blast
  show "t_tags (n_meta (foldl (new_step 0) (open_new None) demo_new_events)) = [''web'']" by code_simp
qed

end
