(* ===== verification/Catalog.thy ===== *)
theory Catalog
  imports Kp_Js "HOL-Library.Multiset"
begin

text \<open>
  The catalog: the page (\<open>frontend/app/catalog/page.tsx\<close>), its search and tag filter
  (\<open>components/CatalogBrowser.tsx\<close>), a card (\<open>components/CatalogCard.tsx\<close>) and the card's icon
  (\<open>lib/template-icons.ts\<close>). Translated texts and class names are left out.
\<close>

section \<open>The page\<close>

record api_template =
  at_name :: string
  at_display :: string
  at_description :: "string option"
  at_tags :: "string list option"
  at_version :: "nat option"
  at_status :: "string option"
  at_team :: "string option"

record card =
  c_name :: string
  c_display :: string
  c_description :: "string option"
  c_tags :: "string list"
  c_version :: nat
  c_team :: "string option"

definition is_published :: "api_template \<Rightarrow> bool" where
  "is_published t \<longleftrightarrow> at_status t = Some ''published'' \<and> at_version t \<noteq> None"

definition card_of :: "api_template \<Rightarrow> card" where
  "card_of t = \<lparr>c_name = at_name t, c_display = at_display t, c_description = at_description t,
     c_tags = nullish (at_tags t) [], c_version = the (at_version t), c_team = at_team t\<rparr>"

definition CatalogPage :: "api_template list response \<Rightarrow> string + card list" where
  "CatalogPage res =
     (if \<not> rok res then Inl (rtext res)
      else case rjson res of Inl m \<Rightarrow> Inl m | Inr ts \<Rightarrow> Inr (map card_of (filter is_published ts)))"

section \<open>Search\<close>

record browser =
  query :: string
  tag :: string

definition open_browser :: browser where
  "open_browser = \<lparr>query = [], tag = []\<rparr>"

definition allTags :: "card list \<Rightarrow> string list" where
  "allTags cs = sort (js_uniq (concat (map c_tags cs)))"

definition hay :: "card \<Rightarrow> string" where
  "hay c = js_lower (c_display c @ '' '' @ nullish (c_description c) [])"

definition shows_card :: "browser \<Rightarrow> card \<Rightarrow> bool" where
  "shows_card b c = (let ql = js_lower (js_trim (query b)) in
     if tag b \<noteq> [] \<and> tag b \<notin> set (c_tags c) then False
     else if ql \<noteq> [] then (if \<not> str_includes (hay c) ql then False else True)
     else True)"

definition filtered :: "card list \<Rightarrow> browser \<Rightarrow> card list" where
  "filtered cs b = filter (shows_card b) cs"

datatype browser_event = Search string | ToggleTags "string list"

definition browser_step :: "browser \<Rightarrow> browser_event \<Rightarrow> browser" where
  "browser_step b ev = (case ev of
     Search x \<Rightarrow> b\<lparr>query := x\<rparr>
   | ToggleTags v \<Rightarrow> b\<lparr>tag := (case v of [] \<Rightarrow> [] | x # _ \<Rightarrow> x)\<rparr>)"

text \<open>What is shown: the toggles with the pressed ones, and the cards or the note that none matches.\<close>

datatype browser_view = NoTemplates | NoMatch "(string \<times> bool) list" | Cards "(string \<times> bool) list" "card list"

definition CatalogBrowser :: "card list \<Rightarrow> browser \<Rightarrow> browser_view" where
  "CatalogBrowser cs b =
     (if cs = [] then NoTemplates
      else let toggles = map (\<lambda>t. (t, t \<in> set (if tag b \<noteq> [] then [tag b] else []))) (allTags cs) in
        if filtered cs b = [] then NoMatch toggles else Cards toggles (filtered cs b))"

section \<open>Cards and icons\<close>

text \<open>The icon is looked up in an object literal, so a name that \<open>Object.prototype\<close> has is found too:
  \<open>Inherited\<close> stands for that value, which is not a component.\<close>

datatype icon = Globe | Database | Server | Box | Inherited string

definition ICONS :: "(string, icon) obj" where
  "ICONS = [(''web'', Globe), (''frontend'', Globe), (''database'', Database), (''db'', Database),
     (''backend'', Server), (''api'', Server)]"

definition OBJECT_PROTOTYPE :: "string list" where
  "OBJECT_PROTOTYPE = [''constructor'', ''__defineGetter__'', ''__defineSetter__'', ''hasOwnProperty'',
     ''__lookupGetter__'', ''__lookupSetter__'', ''isPrototypeOf'', ''propertyIsEnumerable'', ''toString'',
     ''valueOf'', ''__proto__'', ''toLocaleString'']"

definition icon_at :: "string \<Rightarrow> icon option" where
  "icon_at k = (case oget ICONS k of Some i \<Rightarrow> Some i
     | None \<Rightarrow> if k \<in> set OBJECT_PROTOTYPE then Some (Inherited k) else None)"

fun first_icon :: "string list \<Rightarrow> icon" where
  "first_icon [] = Box"
| "first_icon (t # ts) = (case icon_at (js_lower t) of Some i \<Rightarrow> i | None \<Rightarrow> first_icon ts)"

definition iconFor :: "string list option \<Rightarrow> icon" where
  "iconFor tags = (case tags of None \<Rightarrow> Box | Some ts \<Rightarrow> first_icon ts)"

record card_view =
  cv_icon :: icon
  cv_title :: string
  cv_description :: string
  cv_tags :: "string list"
  cv_footer :: string
  cv_href :: string

definition CatalogCard :: "card \<Rightarrow> card_view" where
  "CatalogCard c = \<lparr>cv_icon = iconFor (Some (c_tags c)), cv_title = c_display c,
     cv_description = nullish (c_description c) [], cv_tags = c_tags c,
     cv_footer = ''v'' @ nat_digits (c_version c) @ '' / '' @ nullish (c_team c) ''-'',
     cv_href = ''/catalog/'' @ c_name c @ ''/deploy''\<rparr>"

section \<open>Searching\<close>

lemma keeps_iff:
  "shows_card b c \<longleftrightarrow> (tag b = [] \<or> tag b \<in> set (c_tags c)) \<and> sublist (js_lower (js_trim (query b))) (hay c)"
  by (auto simp: shows_card_def Let_def str_includes_def)

lemma set_allTags [simp]: "set (allTags cs) = (\<Union>c \<in> set cs. set (c_tags c))"
  by (simp add: allTags_def)

lemma allTags_sorted: "sorted (allTags cs)" "distinct (allTags cs)"
  by (simp_all add: allTags_def)

lemma keeps_narrows:
  assumes "sublist (js_lower (js_trim (query b))) (js_lower (js_trim (query b')))" and "tag b = [] \<or> tag b = tag b'" and "shows_card b' c"
  shows "shows_card b c"
  using assms by (auto simp: keeps_iff intro: sublist_order.order.trans)

text \<open>A toggle group reports only tags it shows.\<close>

definition tags_shown :: "card list \<Rightarrow> browser_event \<Rightarrow> bool" where
  "tags_shown cs ev = (case ev of Search _ \<Rightarrow> True | ToggleTags v \<Rightarrow> set v \<subseteq> set (allTags cs))"

lemma browser_tag:
  "list_all (tags_shown cs) evs \<Longrightarrow> tag b = [] \<or> tag b \<in> set (allTags cs)
   \<Longrightarrow> tag (foldl browser_step b evs) = [] \<or> tag (foldl browser_step b evs) \<in> set (allTags cs)"
proof (induction evs arbitrary: b)
  case (Cons ev evs)
  have "tag (browser_step b ev) = [] \<or> tag (browser_step b ev) \<in> set (allTags cs)"
    using Cons.prems by (cases ev) (auto simp: browser_step_def tags_shown_def split: list.split)
  with Cons show ?case by simp
qed simp

text \<open>The catalog's search. The page shows, in the API's order, exactly the published templates
  that carry the chosen tag and whose title and description contain the trimmed query, in either case
  of letters; a query that contains another one shows no more cards than it; the tags are offered sorted and
  once each; and, whatever was pressed and typed, as long as the query is blank and there is a published
  template some card is shown.\<close>

lemma catalog_search:
  assumes "rok res" and "rjson res = Inr ts" and "CatalogPage res = Inr cs"
    and "list_all (tags_shown cs) evs" and "b = foldl browser_step open_browser evs"
  shows "filtered cs b = map card_of (filter (\<lambda>t. at_status t = Some ''published'' \<and> at_version t \<noteq> None
      \<and> (tag b = [] \<or> tag b \<in> set (nullish (at_tags t) []))
      \<and> sublist (js_lower (js_trim (query b))) (js_lower (at_display t @ '' '' @ nullish (at_description t) []))) ts)
    \<and> (\<forall>b'. sublist (js_lower (js_trim (query b))) (js_lower (js_trim (query b'))) \<and> tag b' = tag b
      \<longrightarrow> mset (filtered cs b') \<subseteq># mset (filtered cs b))
    \<and> sorted (allTags cs) \<and> distinct (allTags cs)
    \<and> (js_trim (query b) = [] \<and> cs \<noteq> [] \<longrightarrow> filtered cs b \<noteq> [])"
proof -
  have cs: "cs = map card_of (filter is_published ts)" using assms(1-3) by (simp add: CatalogPage_def)
  have *: "shows_card b (card_of t) \<longleftrightarrow> (tag b = [] \<or> tag b \<in> set (nullish (at_tags t) []))
      \<and> sublist (js_lower (js_trim (query b))) (js_lower (at_display t @ '' '' @ nullish (at_description t) []))" for t
    by (simp add: keeps_iff hay_def card_of_def)
  have 1: "filtered cs b = map card_of (filter (\<lambda>t. at_status t = Some ''published'' \<and> at_version t \<noteq> None
      \<and> (tag b = [] \<or> tag b \<in> set (nullish (at_tags t) []))
      \<and> sublist (js_lower (js_trim (query b))) (js_lower (at_display t @ '' '' @ nullish (at_description t) []))) ts)"
    unfolding filtered_def cs filter_map filter_filter comp_def * is_published_def
    by (intro arg_cong [where f = "map card_of"] filter_cong) auto
  have 2: "mset (filtered cs b') \<subseteq># mset (filtered cs b)"
    if "sublist (js_lower (js_trim (query b))) (js_lower (js_trim (query b')))" "tag b' = tag b" for b'
  proof -
    have "filtered cs b' = filter (shows_card b') (filtered cs b)"
      unfolding filtered_def filter_filter using keeps_narrows [OF that(1)] that(2)
      by (intro filter_cong) auto
    then show ?thesis by (simp add: mset_filter)
  qed
  have 3: "filtered cs b \<noteq> []" if q: "js_trim (query b) = []" and "cs \<noteq> []"
  proof -
    have "tag b = [] \<or> tag b \<in> set (allTags cs)"
      unfolding assms(5) by (rule browser_tag [OF assms(4)]) (simp add: open_browser_def)
    then obtain c where "c \<in> set cs" "tag b = [] \<or> tag b \<in> set (c_tags c)"
      using \<open>cs \<noteq> []\<close> by (cases cs) auto
    then show ?thesis using q by (auto simp: filtered_def filter_empty_conv keeps_iff js_lower_def)
  qed
  from 1 2 3 show ?thesis using allTags_sorted by blast
qed

definition demo_templates :: "api_template list" where
  "demo_templates =
     [\<lparr>at_name = ''web'', at_display = ''Web Shop'', at_description = None, at_tags = Some [''web''], at_version = Some 2,
        at_status = Some ''published'', at_team = None\<rparr>,
      \<lparr>at_name = ''old'', at_display = ''Old Shop'', at_description = None, at_tags = None, at_version = None,
        at_status = Some ''draft'', at_team = None\<rparr>]"

definition demo_answer :: "api_template list response" where
  "demo_answer = \<lparr>rstatus = 200, rstatusText = [], rtext = [], rjson = Inr demo_templates\<rparr>"

lemma catalog_search_witness:
  "filtered (map card_of (filter is_published demo_templates)) (foldl browser_step open_browser [Search '' SHOP '', ToggleTags [''web'']])
   = [card_of (hd demo_templates)]"
proof -
  have "rok demo_answer" "rjson demo_answer = Inr demo_templates" by (simp_all add: demo_answer_def rok_def)
  moreover have "CatalogPage demo_answer = Inr (map card_of (filter is_published demo_templates))"
    using calculation by (simp add: CatalogPage_def)
  moreover have "list_all (tags_shown (map card_of (filter is_published demo_templates))) [Search '' SHOP '', ToggleTags [''web'']]"
    by code_simp
  ultimately show ?thesis by (rule catalog_search [OF _ _ _ _ refl, THEN conjunct1, THEN trans]) code_simp
qed

definition is_component :: "icon \<Rightarrow> bool" where
  "is_component i \<longleftrightarrow> (case i of Inherited _ \<Rightarrow> False | _ \<Rightarrow> True)"

definition inherited_tag :: "string \<Rightarrow> bool" where
  "inherited_tag t \<longleftrightarrow> js_lower t \<in> {''constructor'', ''__proto__''}"

lemma js_lower_char_idem [simp]: "js_lower_char (js_lower_char c) = js_lower_char c"
proof -
  have "of_char c < (256::nat)" by simp
  then show ?thesis
    by (auto simp: js_lower_char_def Let_def)
qed

lemma js_lower_idem [simp]: "js_lower (js_lower t) = js_lower t"
  by (simp add: js_lower_def)

lemma lower_prototype: "js_lower t \<in> set OBJECT_PROTOTYPE \<longleftrightarrow> inherited_tag t"
proof -
  have "list_all (\<lambda>k. js_lower k = k \<longrightarrow> inherited_tag k) OBJECT_PROTOTYPE" by code_simp
  then have "inherited_tag (js_lower t)" if "js_lower t \<in> set OBJECT_PROTOTYPE"
    using that by (auto simp: list_all_iff)
  moreover have "''constructor'' \<in> set OBJECT_PROTOTYPE" "''__proto__'' \<in> set OBJECT_PROTOTYPE"
    by (simp_all add: OBJECT_PROTOTYPE_def)
  ultimately show ?thesis by (auto simp: inherited_tag_def)
qed

lemma icon_at_cases:
  "icon_at (js_lower t) = (case oget ICONS (js_lower t) of Some i \<Rightarrow> Some i
     | None \<Rightarrow> if inherited_tag t then Some (Inherited (js_lower t)) else None)"
  by (simp add: icon_at_def lower_prototype)

lemma ICONS_component: "oget ICONS k = Some i \<Longrightarrow> is_component i"
  by (auto simp: ICONS_def is_component_def split: if_splits)

lemma ICONS_not_inherited: "inherited_tag t \<Longrightarrow> oget ICONS (js_lower t) = None"
  by (auto simp: inherited_tag_def ICONS_def)

lemma first_icon_component:
  "is_component (first_icon ts) \<longleftrightarrow> (case find (\<lambda>t. oget ICONS (js_lower t) \<noteq> None \<or> inherited_tag t) ts of
     None \<Rightarrow> True | Some t \<Rightarrow> \<not> inherited_tag t)"
proof (induction ts)
  case (Cons t ts)
  then show ?case
    using ICONS_component [of "js_lower t"] ICONS_not_inherited [of t]
    by (auto simp: icon_at_cases is_component_def split: option.split)
qed (simp add: is_component_def)

lemma ex_split_Cons:
  "(\<exists>before t after. x # xs = before @ t # after \<and> P t \<and> (\<forall>u \<in> set before. Q u))
   \<longleftrightarrow> P x \<or> Q x \<and> (\<exists>before t after. xs = before @ t # after \<and> P t \<and> (\<forall>u \<in> set before. Q u))" (is "?l \<longleftrightarrow> P x \<or> Q x \<and> ?r")
proof
  assume ?l
  then obtain before t after where "x # xs = before @ t # after" "P t" "\<forall>u \<in> set before. Q u" by blast
  then show "P x \<or> Q x \<and> ?r" by (cases before) auto
next
  assume "P x \<or> Q x \<and> ?r"
  then show ?l
  proof
    assume "P x" then show ?l by (intro exI [of _ "[]"]) simp
  next
    assume "Q x \<and> ?r"
    then obtain before t after where "xs = before @ t # after" "P t" "\<forall>u \<in> set before. Q u" "Q x" by blast
    then show ?l by (intro exI [of _ "x # before"]) auto
  qed
qed

lemma first_icon_lower: "map js_lower ts = map js_lower ts' \<Longrightarrow> first_icon ts = first_icon ts'"
proof (induction ts arbitrary: ts')
  case (Cons t ts)
  then obtain u us where "ts' = u # us" "js_lower t = js_lower u" "map js_lower ts = map js_lower us" by (cases ts') simp_all
  with Cons.IH [of us] show ?case by (simp split: option.split)
qed simp

lemma first_icon_split:
  "\<not> is_component (first_icon ts) \<longleftrightarrow>
   (\<exists>before t after. ts = before @ t # after \<and> inherited_tag t \<and> (\<forall>u \<in> set before. oget ICONS (js_lower u) = None))"
proof (induction ts)
  case (Cons t ts)
  show ?case
  proof (cases "inherited_tag t")
    case True
    then show ?thesis
      unfolding ex_split_Cons by (simp add: first_icon_component del: first_icon.simps)
  next
    case False
    then show ?thesis
      unfolding ex_split_Cons Cons [symmetric]
      by (cases "oget ICONS (js_lower t)") (simp_all add: first_icon_component del: first_icon.simps)
  qed
qed (simp add: is_component_def)

text \<open>Icons and inherited names. A template's icon depends on its tags up to the case of
  letters. It is a component unless some tag spells the name of a property of \<open>Object.prototype\<close> in
  lower-case letters, which only \<open>constructor\<close> and \<open>__proto__\<close> are, and no tag before it is in the table:
  then the lookup finds the inherited value, and the card, with it the whole catalog, cannot be rendered.\<close>

lemma icon_of_tags:
  "(map js_lower ts = map js_lower ts' \<longrightarrow> iconFor (Some ts) = iconFor (Some ts'))
   \<and> (\<not> is_component (iconFor (Some ts)) \<longleftrightarrow>
      (\<exists>before t after. ts = before @ t # after \<and> inherited_tag t \<and> (\<forall>u \<in> set before. oget ICONS (js_lower u) = None)))"
  using first_icon_lower [of ts ts'] first_icon_split [of ts] by (simp add: iconFor_def)

lemma icon_of_tags_witness: "\<not> is_component (iconFor (Some [''shop'', ''Constructor'', ''web'']))"
proof -
  have "inherited_tag ''Constructor''" "oget ICONS (js_lower ''shop'') = None" by code_simp+
  then show ?thesis
    using icon_of_tags [of "[''shop'', ''Constructor'', ''web'']" "[]", THEN conjunct2, THEN iffD2]
    by (metis append_Cons append_Nil empty_iff empty_set set_ConsD)
qed

end
