(* ===== verification/Shell.thy ===== *)
theory Shell
  imports Server_Routes Deploy_Client
begin

text \<open>
  What surrounds every page: the shell and who is signed in (\<open>frontend/components/AppShell.tsx\<close>,
  \<open>TopBarUserMenu.tsx\<close>, \<open>RoleBadge.tsx\<close>), the navigation (\<open>SidebarBody.tsx\<close>, \<open>SidebarNavItem.tsx\<close>,
  \<open>ReleaseTabs.tsx\<close>), and what the user has chosen: the cluster (\<open>ClusterPicker.tsx\<close>), the language
  (\<open>LocaleSwitch.tsx\<close>, \<open>i18n/request.ts\<close>) and the vocabulary (\<open>lib/kube-term-map.ts\<close>,
  \<open>stores/kube-terms-store.ts\<close>, \<open>KubeTermsToggle.tsx\<close>). Labels written in Korean are given in English.
\<close>

section \<open>The shell\<close>

record me =
  me_groups :: "string list option"
  me_email :: "string option"

definition fetch_me :: "me option outcome \<Rightarrow> me option" where
  "fetch_me out = (case out of Inl m \<Rightarrow> None
   | Inr r \<Rightarrow> if rok r then (case rjson r of Inl m \<Rightarrow> None | Inr d \<Rightarrow> d) else None)"

record shell_view =
  sh_role :: role
  sh_email :: string

definition AppShell :: "me option outcome \<Rightarrow> shell_view" where
  "AppShell out = (let d = fetch_me out in
     \<lparr>sh_role = roleFromGroups (case d of None \<Rightarrow> None | Some m \<Rightarrow> me_groups m),
      sh_email = nullish (case d of None \<Rightarrow> None | Some m \<Rightarrow> me_email m) ''...''\<rparr>)"

definition shortLabel :: "role \<Rightarrow> string" where
  "shortLabel r = (case r of Admin \<Rightarrow> ''Admin'' | User \<Rightarrow> ''User'')"

definition longLabel :: "role \<Rightarrow> string" where
  "longLabel r = (case r of Admin \<Rightarrow> ''Admin / template authoring'' | User \<Rightarrow> ''User / catalog use'')"

definition RoleBadge :: "role \<Rightarrow> bool \<Rightarrow> string" where
  "RoleBadge r withLabel = (if withLabel then longLabel r else shortLabel r)"

text \<open>The user's menu: the badge and address, the long badge, and the form that signs out.\<close>

definition TopBarUserMenu :: "string \<Rightarrow> role \<Rightarrow> string \<times> string \<times> string \<times> http_method \<times> string" where
  "TopBarUserMenu email r = (RoleBadge r False, email, RoleBadge r True, POST, ''/api/auth/logout'')"

section \<open>Navigation\<close>

definition NAV_BY_ROLE :: "role \<Rightarrow> (string \<times> string) list" where
  "NAV_BY_ROLE r = (case r of
     User \<Rightarrow> [(''/catalog'', ''catalog''), (''/releases'', ''myReleases'')]
   | Admin \<Rightarrow> [(''/templates'', ''templates''), (''/releases'', ''releases''), (''/admin/teams'', ''teams'')])"

definition nav_active :: "string \<Rightarrow> string \<Rightarrow> bool" where
  "nav_active pathname href \<longleftrightarrow> pathname = href \<or> starts_with pathname (href @ ''/'')"

definition SidebarBody :: "role \<Rightarrow> string \<Rightarrow> (string \<times> string \<times> bool) list" where
  "SidebarBody r pathname = map (\<lambda>(href, key). (href, key, nav_active pathname href)) (NAV_BY_ROLE r)"

definition TABS :: "(string \<times> string) list" where
  "TABS = [(''overview'', []), (''logs'', ''/logs'')]"

definition ReleaseTabs :: "string \<Rightarrow> string \<Rightarrow> (string \<times> string \<times> bool) list" where
  "ReleaseTabs releaseId pathname = map (\<lambda>(key, suffix).
     let href = ''/releases/'' @ releaseId @ suffix in (key, href, pathname = href)) TABS"

text \<open>The marked entries of a navigation.\<close>

definition marked :: "('a \<times> 'b \<times> bool) list \<Rightarrow> ('a \<times> 'b) list" where
  "marked xs = map (\<lambda>(a, b, _). (a, b)) (filter (\<lambda>(_, _, m). m) xs)"

section \<open>The chosen cluster\<close>

record picker =
  cp_clusters :: "string list"
  cp_current :: string
  cp_storage :: "string option"
  cp_reloads :: nat

definition open_picker :: "string option \<Rightarrow> picker" where
  "open_picker stored = \<lparr>cp_clusters = [], cp_current = [], cp_storage = stored, cp_reloads = 0\<rparr>"

text \<open>The answer is decoded whatever its status; a body may lack the list.\<close>

definition picker_answer :: "string list option outcome \<Rightarrow> picker \<Rightarrow> picker" where
  "picker_answer out s = (case out of Inl m \<Rightarrow> s
   | Inr r \<Rightarrow> (case rjson r of Inl m \<Rightarrow> s
      | Inr d \<Rightarrow> s\<lparr>cp_clusters := nullish d [],
          cp_current := nullish (cp_storage s) (case d of Some (n # _) \<Rightarrow> n | _ \<Rightarrow> [])\<rparr>))"

definition pick_cluster :: "string \<Rightarrow> picker \<Rightarrow> picker" where
  "pick_cluster n s = s\<lparr>cp_current := n, cp_storage := Some n, cp_reloads := Suc (cp_reloads s)\<rparr>"

text \<open>The option a select shows: that of its value, or the first when its value is none of them.\<close>

definition shown_option :: "picker \<Rightarrow> string" where
  "shown_option s = (if cp_current s \<in> set (cp_clusters s) then cp_current s
     else case cp_clusters s of [] \<Rightarrow> [] | n # _ \<Rightarrow> n)"

section \<open>The chosen language\<close>

definition LOCALES :: "string list" where
  "LOCALES = [''ko'', ''en'']"

abbreviation DEFAULT_LOCALE :: string where
  "DEFAULT_LOCALE \<equiv> ''ko''"

abbreviation LOCALE_COOKIE :: string where
  "LOCALE_COOKIE \<equiv> ''NEXT_LOCALE''"

definition isLocale :: "string option \<Rightarrow> bool" where
  "isLocale v \<longleftrightarrow> truthy_str v \<and> the v \<in> set LOCALES"

definition request_locale :: "(string, string) obj \<Rightarrow> string" where
  "request_locale jar = (let raw = oget jar LOCALE_COOKIE in if isLocale raw then the raw else DEFAULT_LOCALE)"

definition locale_cookie :: "string \<Rightarrow> string" where
  "locale_cookie next = LOCALE_COOKIE @ ''='' @ next @ ''; Max-Age='' @ nat_digits (60 * 60 * 24 * 365) @ ''; Path=/; SameSite=Lax''"

text \<open>\<open>document.cookie = text\<close>: the name before the equals sign, the value before the semicolon.\<close>

definition set_cookie :: "(string, string) obj \<Rightarrow> string \<Rightarrow> (string, string) obj" where
  "set_cookie jar s =
     oset jar (takeWhile (\<lambda>c. c \<noteq> CHR ''='') s)
       (takeWhile (\<lambda>c. c \<noteq> CHR '';'') (drop 1 (dropWhile (\<lambda>c. c \<noteq> CHR ''='') s)))"

definition pick_locale :: "string \<Rightarrow> (string, string) obj \<Rightarrow> (string, string) obj" where
  "pick_locale next jar = set_cookie jar (locale_cookie next)"

section \<open>The chosen vocabulary\<close>

datatype term_key = ReadyInstances | Restarts | Memory | AccessURL | Instances | InstanceId | StatusTerm

definition KUBE :: "term_key \<Rightarrow> string" where
  "KUBE k = (case k of ReadyInstances \<Rightarrow> ''Ready Pods'' | Restarts \<Rightarrow> ''Restart Count'' | Memory \<Rightarrow> ''Memory Usage''
   | AccessURL \<Rightarrow> ''Service DNS'' | Instances \<Rightarrow> ''Pods'' | InstanceId \<Rightarrow> ''Pod Name'' | StatusTerm \<Rightarrow> ''Phase'')"

definition FRIENDLY :: "term_key \<Rightarrow> string" where
  "FRIENDLY k = (case k of ReadyInstances \<Rightarrow> ''ready instances'' | Restarts \<Rightarrow> ''restarts'' | Memory \<Rightarrow> ''memory''
   | AccessURL \<Rightarrow> ''access URL'' | Instances \<Rightarrow> ''instances'' | InstanceId \<Rightarrow> ''instance ID'' | StatusTerm \<Rightarrow> ''status'')"

definition termLabel :: "term_key \<Rightarrow> bool \<Rightarrow> string" where
  "termLabel k kube = (if kube then KUBE k else FRIENDLY k)"

record kube_terms =
  showKubeTerms :: bool

definition toggle_terms :: "kube_terms \<Rightarrow> kube_terms" where
  "toggle_terms s = s\<lparr>showKubeTerms := \<not> showKubeTerms s\<rparr>"

section \<open>Who sees what\<close>

lemma nav_active_iff: "nav_active p h \<longleftrightarrow> (\<exists>r. p = h @ r \<and> (r = [] \<or> hd r = CHR ''/''))"
  unfolding nav_active_def starts_with_iff
  by (metis append.assoc append_Cons append_Nil append_Nil2 list.collapse list.sel(1))

lemma nav_second_char: "nav_active p h \<Longrightarrow> 1 < length h \<Longrightarrow> p ! 1 = h ! 1"
  by (auto simp: nav_active_iff nth_append)

lemma nav_at_most_one: "length (marked (SidebarBody r p)) \<le> 1"
  using nav_second_char [of p "''/catalog''"] nav_second_char [of p "''/releases''"]
    nav_second_char [of p "''/templates''"] nav_second_char [of p "''/admin/teams''"]
  by (cases r) (auto simp: SidebarBody_def NAV_BY_ROLE_def marked_def)

lemma tabs_marked: "marked (ReleaseTabs i p) = (if p = ''/releases/'' @ i then [(''overview'', ''/releases/'' @ i)]
    else if p = ''/releases/'' @ i @ ''/logs'' then [(''logs'', ''/releases/'' @ i @ ''/logs'')] else [])"
  by (simp add: marked_def ReleaseTabs_def TABS_def Let_def)

lemma nav_releases: "marked (SidebarBody r (''/releases/'' @ x)) = [(''/releases'', case r of Admin \<Rightarrow> ''releases'' | User \<Rightarrow> ''myReleases'')]"
  by (cases r) (simp_all add: marked_def SidebarBody_def NAV_BY_ROLE_def nav_active_def starts_with_def)

text \<open>The shell follows the role. The administrator's navigation, with templates and teams, is
  shown exactly when \<open>/v1/me\<close> answered with a group \<open>kuberport-admin\<close>; any failure of that request
  shows the user's. On every page at most one entry is marked, and the one marked leads to the page or to a
  page above it. The two pages of a release mark the releases and, each, its own tab only.\<close>

lemma shell_follows_role:
  fixes out :: "me option outcome" and p i :: string
  defines "nav \<equiv> SidebarBody (sh_role (AppShell out))"
  shows "map fst (nav p) =
      (if \<exists>r m gs. out = Inr r \<and> rok r \<and> rjson r = Inr (Some m) \<and> me_groups m = Some gs \<and> ''kuberport-admin'' \<in> set gs
       then [''/templates'', ''/releases'', ''/admin/teams''] else [''/catalog'', ''/releases''])
    \<and> length (marked (nav p)) \<le> 1
    \<and> (\<forall>e \<in> set (marked (nav p)). \<exists>r. p = fst e @ r \<and> (r = [] \<or> hd r = CHR ''/''))
    \<and> map fst (marked (nav (''/releases/'' @ i))) = [''/releases'']
    \<and> map fst (marked (nav (''/releases/'' @ i @ ''/logs''))) = [''/releases'']
    \<and> marked (ReleaseTabs i (''/releases/'' @ i)) = [(''overview'', ''/releases/'' @ i)]
    \<and> marked (ReleaseTabs i (''/releases/'' @ i @ ''/logs'')) = [(''logs'', ''/releases/'' @ i @ ''/logs'')]"
proof -
  have role: "sh_role (AppShell out) = Admin \<longleftrightarrow>
      (\<exists>r m gs. out = Inr r \<and> rok r \<and> rjson r = Inr (Some m) \<and> me_groups m = Some gs \<and> ''kuberport-admin'' \<in> set gs)"
    by (auto simp: AppShell_def fetch_me_def roleFromGroups_def Let_def split: sum.splits option.splits)
  have "map fst (SidebarBody r p) = (if r = Admin then [''/templates'', ''/releases'', ''/admin/teams''] else [''/catalog'', ''/releases''])" for r
    by (cases r) (simp_all add: SidebarBody_def NAV_BY_ROLE_def)
  moreover have "\<forall>e \<in> set (marked (SidebarBody r p)). \<exists>t. p = fst e @ t \<and> (t = [] \<or> hd t = CHR ''/'')" for r
    by (auto simp: marked_def SidebarBody_def nav_active_iff)
  moreover have "map fst (marked (SidebarBody r (''/releases/'' @ x))) = [''/releases'']" for r x
    unfolding nav_releases by simp
  note this [of _ i] this [of _ "i @ ''/logs''"]
  ultimately show ?thesis
    unfolding nav_def role [symmetric] tabs_marked using nav_at_most_one [of "sh_role (AppShell out)" p] by simp
qed

lemma shell_follows_role_witness:
  "map fst (SidebarBody (sh_role (AppShell (Inl ''down''))) ''/'') = [''/catalog'', ''/releases'']"
  using shell_follows_role [of "Inl ''down''" "''/''" "[]", THEN conjunct1] by simp

section \<open>Choices\<close>

lemma takeWhile_to: "x \<notin> set xs \<Longrightarrow> takeWhile (\<lambda>c. c \<noteq> x) (xs @ x # ys) = xs \<and> dropWhile (\<lambda>c. c \<noteq> x) (xs @ x # ys) = x # ys"
  by (induction xs) auto

lemma set_cookie_locale: "CHR '';'' \<notin> set l \<Longrightarrow> pick_locale l jar = oset jar LOCALE_COOKIE l"
  using takeWhile_to [of "CHR ''=''" LOCALE_COOKIE] takeWhile_to [of "CHR '';''" l]
  by (simp add: pick_locale_def set_cookie_def locale_cookie_def)

text \<open>Choices last. The cluster the sidebar's select shows is the one the deploy page selects
  for a new release, whatever was stored before and also when the stored one is gone; once a listed
  cluster is picked and the page is loaded again both show it. The language that was chosen is that of the
  following requests, any other value of its cookie means the default, and no other cookie changes.\<close>

lemma choices_last:
  fixes stored :: "string option" and names :: "string list" and jar :: "(string, string) obj"
  assumes "rok r" and "rjson r = Inr names" and "[] \<notin> set names" and "isUpdate p = False"
    and "rjson q = Inr (Some names)"
  defines "sidebar \<equiv> \<lambda>st. picker_answer (Inr q) (open_picker st)"
    and "page \<equiv> \<lambda>st. deploy_step p (mount_deploy p st) (ClustersAnswer (Inr r))"
  shows "shown_option (sidebar stored) = m_cluster (page stored)
    \<and> (n \<in> set names \<longrightarrow> (let st = cp_storage (pick_cluster n (sidebar stored)) in
        shown_option (sidebar st) = n \<and> m_cluster (page st) = n))
    \<and> (l \<in> set LOCALES \<longrightarrow> request_locale (pick_locale l jar) = l
        \<and> (\<forall>k. k \<noteq> LOCALE_COOKIE \<longrightarrow> oget (pick_locale l jar) k = oget jar k))
    \<and> (\<forall>v. oget jar LOCALE_COOKIE = v \<longrightarrow> request_locale jar = (if v = Some ''en'' then ''en'' else ''ko''))"
proof -
  have page: "m_cluster (page st) = preselect st names" for st
    using assms(1-4) by (auto simp: page_def deploy_step_def mount_deploy_def clusters_answer_def Let_def preselect_def
        split: list.split)
  have side: "shown_option (sidebar st) = preselect st names" for st
    using assms(3,5) by (cases st; cases names) (auto simp: sidebar_def picker_answer_def open_picker_def shown_option_def preselect_def)
  have "preselect (Some n) names = n" if "n \<in> set names"
    using that assms(3) by (auto simp: preselect_def)
  moreover have "request_locale (pick_locale l jar) = l \<and> (\<forall>k. k \<noteq> LOCALE_COOKIE \<longrightarrow> oget (pick_locale l jar) k = oget jar k)"
    if "l \<in> set LOCALES"
    using that by (auto simp: LOCALES_def set_cookie_locale request_locale_def isLocale_def)
  moreover have "request_locale jar = (if oget jar LOCALE_COOKIE = Some ''en'' then ''en'' else ''ko'')"
    by (cases "oget jar LOCALE_COOKIE") (auto simp: request_locale_def isLocale_def LOCALES_def Let_def)
  ultimately show ?thesis by (simp add: page side pick_cluster_def)
qed

definition new_release :: deploy_props where
  "new_release = \<lparr>dp_template = ''web'', dp_version = 1, dp_team = None, dp_spec = [], dp_update = None, dp_initial = None\<rparr>"

lemma choices_last_witness:
  "m_cluster (deploy_step new_release (mount_deploy new_release (Some ''gone''))
     (ClustersAnswer (Inr \<lparr>rstatus = 200, rstatusText = [], rtext = [], rjson = Inr [''dev'', ''prod'']\<rparr>))) = ''dev''"
  using choices_last [where stored = "Some ''gone''" and names = "[''dev'', ''prod'']" and p = new_release and n = "''prod''"
      and l = "''en''" and jar = "[]" and r = "\<lparr>rstatus = 200, rstatusText = [], rtext = [], rjson = Inr [''dev'', ''prod'']\<rparr>"
      and q = "\<lparr>rstatus = 200, rstatusText = [], rtext = [], rjson = Inr (Some [''dev'', ''prod''])\<rparr>", THEN conjunct1]
  by (simp add: rok_def isUpdate_def new_release_def picker_answer_def open_picker_def shown_option_def)

end
