(* ===== verification/Release_Views.thy ===== *)
theory Release_Views
  imports Shell Log_Stream
begin

text \<open>
  The pages of a release and their parts: the status chip (\<open>frontend/components/StatusChip.tsx\<close>), the header
  (\<open>ReleaseHeader.tsx\<close>), the banner of a stale release (\<open>ReleaseStaleBanner.tsx\<close>) with the forced deletion
  (\<open>ForceDeleteButton.tsx\<close>), composed by \<open>app/releases/[id]/layout.tsx\<close>; the overview
  (\<open>app/releases/[id]/page.tsx\<close>, \<open>MetricCards.tsx\<close>, \<open>InstancesTable.tsx\<close>), the logs
  (\<open>app/releases/[id]/logs/page.tsx\<close>) and the list (\<open>app/releases/page.tsx\<close>, \<open>ReleaseTable.tsx\<close>).
  Translations and the formatting of a date are arguments.
\<close>

section \<open>Status\<close>

datatype status_variant = Success | Warning | Danger | Muted

datatype badge_variant = BSuccess | BWarning | BDestructive | BMuted

definition variantToBadge :: "status_variant \<Rightarrow> badge_variant" where
  "variantToBadge v = (case v of Success \<Rightarrow> BSuccess | Warning \<Rightarrow> BWarning | Danger \<Rightarrow> BDestructive | Muted \<Rightarrow> BMuted)"

definition statusChipVariantFromRelease :: "string \<Rightarrow> status_variant" where
  "statusChipVariantFromRelease s =
     (if s = ''healthy'' then Success
      else if s = ''warning'' \<or> s = ''cluster-unreachable'' then Warning
      else if s = ''error'' \<or> s = ''failed'' \<or> s = ''resources-missing'' then Danger
      else if s = ''deprecated'' then Muted
      else Muted)"

text \<open>\<open>StatusChip\<close>: the badge and its text.\<close>

definition StatusChip :: "status_variant \<Rightarrow> string \<Rightarrow> badge_variant \<times> string" where
  "StatusChip v label = (variantToBadge v, label)"

section \<open>Forced deletion\<close>

record force_delete =
  fd_release :: string
  fd_busy :: bool
  fd_error :: "string option"
  fd_flight :: bool
  fd_sent :: "(http_method \<times> string) list"
  fd_pushed :: "string list"

definition open_force :: "string \<Rightarrow> force_delete" where
  "open_force i = \<lparr>fd_release = i, fd_busy = False, fd_error = None, fd_flight = False, fd_sent = [], fd_pushed = []\<rparr>"

text \<open>A press carries what the user answers to the confirmation.\<close>

datatype force_event = Press bool | DeleteAnswer "unit outcome"

definition delete_error :: "unit outcome \<Rightarrow> string option" where
  "delete_error out = (case out of Inl m \<Rightarrow> Some m
   | Inr r \<Rightarrow> if \<not> rok r then Some (if rtext r \<noteq> [] then rtext r else rstatusText r) else None)"

definition force_step :: "force_delete \<Rightarrow> force_event \<Rightarrow> force_delete" where
  "force_step s ev = (case ev of
     Press confirmed \<Rightarrow>
      (if fd_busy s \<or> \<not> confirmed then s
       else s\<lparr>fd_busy := True, fd_error := None, fd_flight := True,
              fd_sent := fd_sent s @ [(DELETE, ''/api/v1/releases/'' @ fd_release s @ ''?force=true'')]\<rparr>)
   | DeleteAnswer out \<Rightarrow>
      (if \<not> fd_flight s then s
       else case delete_error out of
         None \<Rightarrow> s\<lparr>fd_flight := False, fd_pushed := fd_pushed s @ [''/releases'']\<rparr>
       | Some m \<Rightarrow> s\<lparr>fd_flight := False, fd_error := Some m, fd_busy := False\<rparr>))"

section \<open>The frame of a release's pages\<close>

record release_data =
  rd_id :: string
  rd_name :: string
  rd_status :: string
  rd_template :: string
  rd_version :: nat
  rd_cluster :: string
  rd_namespace :: string
  rd_created :: "string option"

definition STALE_STATUSES :: "string list" where
  "STALE_STATUSES = [''cluster-unreachable'', ''resources-missing'']"

definition isStaleStatus :: "string \<Rightarrow> bool" where
  "isStaleStatus s \<longleftrightarrow> s \<in> set STALE_STATUSES"

text \<open>The banner: its icon, title, text with the cluster, and the button or the hint.\<close>

datatype banner_icon = ServerCrash | AlertTriangle

datatype stale_action = ForceDelete force_delete | ContactAdmin

record banner =
  bn_icon :: banner_icon
  bn_title :: string
  bn_body :: "string \<times> string"
  bn_action :: stale_action

definition ReleaseStaleBanner :: "string \<Rightarrow> string \<Rightarrow> string \<Rightarrow> bool \<Rightarrow> banner" where
  "ReleaseStaleBanner sts releaseId cl isAdmin =
     \<lparr>bn_icon = (if sts = ''cluster-unreachable'' then ServerCrash else AlertTriangle),
      bn_title = ''title.'' @ sts, bn_body = (''body.'' @ sts, cl),
      bn_action = (if isAdmin then ForceDelete (open_force releaseId) else ContactAdmin)\<rparr>"

text \<open>\<open>ReleaseHeader\<close>: the name, the chip and the line below. A missing translation makes \<open>t\<close> throw.\<close>

definition ReleaseHeader :: "(string \<Rightarrow> string option) \<Rightarrow> (string \<Rightarrow> string) \<Rightarrow> release_data \<Rightarrow> string \<times> (badge_variant \<times> string) \<times> string" where
  "ReleaseHeader t date d =
     (rd_name d,
      StatusChip (statusChipVariantFromRelease (rd_status d)) (case t (rd_status d) of Some l \<Rightarrow> l | None \<Rightarrow> rd_status d),
      rd_template d @ '' v'' @ nat_digits (rd_version d) @ '' / '' @ rd_cluster d @ '' / '' @ rd_namespace d
        @ (if truthy_str (rd_created d) then '' / '' @ date (the (rd_created d)) else []))"

record release_frame =
  rf_header :: "string \<times> (badge_variant \<times> string) \<times> string"
  rf_banner :: "banner option"
  rf_tabs :: "(string \<times> string \<times> bool) list"

datatype 'a page = NotFound | Fails string | Page 'a

definition caller_groups :: "me response \<Rightarrow> string + string list option" where
  "caller_groups meRes = (if rok meRes then map_sum id me_groups (rjson meRes) else Inr (Some []))"

definition ReleaseDetailLayout :: "(string \<Rightarrow> string option) \<Rightarrow> (string \<Rightarrow> string) \<Rightarrow> string \<Rightarrow> string
    \<Rightarrow> release_data response \<Rightarrow> me response \<Rightarrow> release_frame page" where
  "ReleaseDetailLayout t date pathname i relRes meRes =
     (if \<not> rok relRes then NotFound
      else case rjson relRes of Inl m \<Rightarrow> Fails m
      | Inr d \<Rightarrow> (case caller_groups meRes of Inl m \<Rightarrow> Fails m
        | Inr gs \<Rightarrow> Page \<lparr>rf_header = ReleaseHeader t date d,
            rf_banner = (if isStaleStatus (rd_status d)
               then Some (ReleaseStaleBanner (rd_status d) i (rd_cluster d) (roleFromGroups gs = Admin)) else None),
            rf_tabs = ReleaseTabs i pathname\<rparr>))"

section \<open>Overview, logs and list\<close>

record instance_row =
  i_name :: string
  i_phase :: string
  i_ready :: bool
  i_restarts :: nat

record overview =
  ov_id :: string
  ov_total :: nat
  ov_ready :: nat
  ov_instances :: "instance_row list"

definition MetricCards :: "bool \<Rightarrow> nat \<times> nat \<Rightarrow> nat \<Rightarrow> string option \<Rightarrow> string option \<Rightarrow> (string \<times> string) list" where
  "MetricCards kube readyTotal restarts memory accessURL =
     [(termLabel ReadyInstances kube, nat_digits (fst readyTotal) @ '' / '' @ nat_digits (snd readyTotal)),
      (termLabel Restarts kube, nat_digits restarts),
      (termLabel Memory kube, nullish memory ''-''),
      (termLabel AccessURL kube, nullish accessURL ''-'')]"

definition instance_chip :: "instance_row \<Rightarrow> badge_variant \<times> string" where
  "instance_chip i = StatusChip (statusChipVariantFromRelease (if i_ready i then ''healthy'' else js_lower (i_phase i))) (i_phase i)"

text \<open>A row: the name, the chip, the restarts and the link to the logs.\<close>

definition InstancesTable :: "bool \<Rightarrow> string \<Rightarrow> instance_row list
    \<Rightarrow> string list \<times> (string \<times> (badge_variant \<times> string) \<times> nat \<times> string) list" where
  "InstancesTable kube releaseId rows =
     ([termLabel InstanceId kube, termLabel StatusTerm kube, termLabel Restarts kube, []],
      map (\<lambda>i. (i_name i, instance_chip i, i_restarts i,
         ''/releases/'' @ releaseId @ ''/logs?instance='' @ i_name i)) rows)"

definition ReleaseOverviewPage :: "bool \<Rightarrow> overview response
    \<Rightarrow> ((string \<times> string) list \<times> nat \<times> string list \<times> (string \<times> (badge_variant \<times> string) \<times> nat \<times> string) list) page" where
  "ReleaseOverviewPage kube res =
     (if \<not> rok res then NotFound
      else case rjson res of Inl m \<Rightarrow> Fails m
      | Inr d \<Rightarrow> let restarts = foldl (\<lambda>s i. s + i_restarts i) 0 (ov_instances d) in
          Page (MetricCards kube (ov_ready d, ov_total d) restarts None None, length (ov_instances d),
                InstancesTable kube (ov_id d) (ov_instances d)))"

text \<open>The page of the logs reads the path only: the query of the link is not used.\<close>

definition ReleaseLogsPage :: "string \<Rightarrow> overview response \<Rightarrow> (string \<times> string list \<times> logs_panel) page" where
  "ReleaseLogsPage search res =
     (if \<not> rok res then NotFound
      else case rjson res of Inl m \<Rightarrow> Fails m
      | Inr d \<Rightarrow> Page (ov_id d, map i_name (ov_instances d), new_panel))"

record release_row =
  rr_id :: string
  rr_name :: string
  rr_template :: string
  rr_version :: nat
  rr_namespace :: string

definition ReleaseTable :: "release_row list \<Rightarrow> (string \<times> string \<times> string \<times> string) list option" where
  "ReleaseTable rows =
     (if rows = [] then None
      else Some (map (\<lambda>r. (''/releases/'' @ rr_id r, rr_name r,
          rr_template r @ ''@v'' @ nat_digits (rr_version r), rr_namespace r)) rows))"

definition ReleasesPage :: "release_row list option response \<Rightarrow> (string \<times> string \<times> string \<times> string) list option page" where
  "ReleasesPage res =
     (case (if rok res then rjson res else Inr (Some [])) of Inl m \<Rightarrow> Fails m
      | Inr d \<Rightarrow> Page (ReleaseTable (nullish d [])))"

section \<open>Deleting a stale release\<close>

definition force_inv :: "string \<Rightarrow> force_delete \<Rightarrow> bool" where
  "force_inv i s \<longleftrightarrow> fd_release s = i \<and> set (fd_sent s) \<subseteq> {(DELETE, ''/api/v1/releases/'' @ i @ ''?force=true'')}
     \<and> (fd_flight s \<longrightarrow> fd_busy s \<and> fd_pushed s = [])
     \<and> (fd_busy s \<and> \<not> fd_flight s \<longleftrightarrow> fd_pushed s \<noteq> []) \<and> (fd_pushed s = [] \<or> fd_pushed s = [''/releases''])"

lemma force_inv_step: "force_inv i s \<Longrightarrow> force_inv i (force_step s ev)"
  by (cases ev) (auto simp: force_inv_def force_step_def split: option.split)

interpretation force: event_component force_step "force_inv i" for i
  by unfold_locales (rule force_inv_step)

lemma force_open: "force_inv i (open_force i)"
  by (simp add: force_inv_def open_force_def)

lemma force_sent_count:
  "length (fd_sent (foldl force_step s evs)) \<le> length (fd_sent s) + length (filter (\<lambda>e. e = Press True) evs)"
proof (induction evs arbitrary: s)
  case (Cons ev evs)
  have "length (fd_sent (force_step s ev)) \<le> length (fd_sent s) + (if ev = Press True then 1 else 0)"
    by (cases ev) (auto simp: force_step_def split: option.split)
  with Cons [of "force_step s ev"] show ?case by (cases "ev = Press True") simp_all
qed simp

lemma force_done: "fd_busy s \<Longrightarrow> \<not> fd_flight s \<Longrightarrow> foldl force_step s evs = s"
proof (induction evs)
  case (Cons ev evs)
  then have "force_step s ev = s" by (cases ev) (simp_all add: force_step_def)
  with Cons show ?case by simp
qed simp

lemma force_button:
  "let s' = foldl force_step (open_force i) evs in
     set (fd_sent s') \<subseteq> {(DELETE, ''/api/v1/releases/'' @ i @ ''?force=true'')}
     \<and> length (fd_sent s') \<le> length (filter (\<lambda>e. e = Press True) evs)
     \<and> (fd_flight s' \<longrightarrow> (\<forall>c. force_step s' (Press c) = s'))
     \<and> (fd_pushed s' \<noteq> [] \<longrightarrow> fd_pushed s' = [''/releases''] \<and> (\<forall>more. foldl force_step s' more = s'))
     \<and> (\<forall>out m. fd_flight s' \<and> delete_error out = Some m \<longrightarrow>
         fd_error (force_step s' (DeleteAnswer out)) = Some m \<and> \<not> fd_busy (force_step s' (DeleteAnswer out)))"
proof -
  define s' where "s' = foldl force_step (open_force i) evs"
  have inv: "force_inv i s'" unfolding s'_def by (rule force.run_inv [OF force_open])
  have len: "length (fd_sent s') \<le> length (filter (\<lambda>e. e = Press True) evs)"
    using force_sent_count [of "open_force i" evs] by (simp add: s'_def open_force_def)
  from inv have "fd_pushed s' \<noteq> [] \<Longrightarrow> fd_busy s' \<and> \<not> fd_flight s' \<and> fd_pushed s' = [''/releases'']"
    unfolding force_inv_def by blast
  moreover from inv have "set (fd_sent s') \<subseteq> {(DELETE, ''/api/v1/releases/'' @ i @ ''?force=true'')}" "fd_flight s' \<Longrightarrow> fd_busy s'"
    unfolding force_inv_def by blast+
  ultimately show ?thesis
    unfolding s'_def [symmetric] Let_def using len force_done [of s'] by (simp add: force_step_def)
qed

text \<open>Only administrators delete by force. A release's pages warn exactly when its status is
  unreachable or missing; the button is there exactly when, besides, \<open>/v1/me\<close> names the administrators'
  group. Whatever is pressed and answered, the button deletes only this release, at most once for each
  confirmation, never two at a time; after a success the browser leaves once and nothing more is sent, and
  after a failure it can be pressed again.\<close>

lemma forced_deletion:
  assumes "ReleaseDetailLayout t date pathname i relRes meRes = Page f" and "rjson relRes = Inr d"
  shows "(rf_banner f \<noteq> None \<longleftrightarrow> rd_status d = ''cluster-unreachable'' \<or> rd_status d = ''resources-missing'')
    \<and> (\<forall>b s. rf_banner f = Some b \<and> bn_action b = ForceDelete s \<longrightarrow>
        (\<exists>m gs. rok meRes \<and> rjson meRes = Inr m \<and> me_groups m = Some gs \<and> ''kuberport-admin'' \<in> set gs)
        \<and> (\<forall>evs. let s' = foldl force_step s evs in
            set (fd_sent s') \<subseteq> {(DELETE, ''/api/v1/releases/'' @ i @ ''?force=true'')}
            \<and> length (fd_sent s') \<le> length (filter (\<lambda>e. e = Press True) evs)
            \<and> (fd_flight s' \<longrightarrow> (\<forall>c. force_step s' (Press c) = s'))
            \<and> (fd_pushed s' \<noteq> [] \<longrightarrow> fd_pushed s' = [''/releases''] \<and> (\<forall>more. foldl force_step s' more = s'))
            \<and> (\<forall>out m. fd_flight s' \<and> delete_error out = Some m \<longrightarrow>
                fd_error (force_step s' (DeleteAnswer out)) = Some m \<and> \<not> fd_busy (force_step s' (DeleteAnswer out)))))"
proof -
  obtain gs where gs: "caller_groups meRes = Inr gs"
    and f: "rf_banner f = (if isStaleStatus (rd_status d)
       then Some (ReleaseStaleBanner (rd_status d) i (rd_cluster d) (roleFromGroups gs = Admin)) else None)"
    using assms by (auto simp: ReleaseDetailLayout_def split: if_splits sum.splits)
  have admin: "\<exists>m gs. rok meRes \<and> rjson meRes = Inr m \<and> me_groups m = Some gs \<and> ''kuberport-admin'' \<in> set gs"
    if "roleFromGroups gs = Admin"
    using that gs by (cases "rjson meRes") (auto simp: caller_groups_def roleFromGroups_def split: if_splits option.splits)
  show ?thesis
    using admin force_button by (auto simp: f isStaleStatus_def STALE_STATUSES_def ReleaseStaleBanner_def split: if_splits)
qed

definition demo_release :: release_data where
  "demo_release = \<lparr>rd_id = ''r1'', rd_name = ''web'', rd_status = ''resources-missing'', rd_template = ''web'', rd_version = 1,
     rd_cluster = ''dev'', rd_namespace = ''default'', rd_created = None\<rparr>"

lemma forced_deletion_witness:
  "\<exists>f. ReleaseDetailLayout (\<lambda>_. None) id ''/releases/r1'' ''r1'' \<lparr>rstatus = 200, rstatusText = [], rtext = [], rjson = Inr demo_release\<rparr>
      \<lparr>rstatus = 401, rstatusText = [], rtext = [], rjson = Inl ''''\<rparr> = Page f \<and> rf_banner f \<noteq> None"
proof -
  obtain f where f: "ReleaseDetailLayout (\<lambda>_. None) id ''/releases/r1'' ''r1'' \<lparr>rstatus = 200, rstatusText = [], rtext = [], rjson = Inr demo_release\<rparr>
      \<lparr>rstatus = 401, rstatusText = [], rtext = [], rjson = Inl ''''\<rparr> = Page f"
    by (simp add: ReleaseDetailLayout_def rok_def caller_groups_def)
  from forced_deletion [OF this] show ?thesis using f by (auto simp: demo_release_def)
qed

end
