(* ===== verification/Template_Pages.thy ===== *)
theory Template_Pages
  imports Release_Views Template_Editor Deploy_Client
begin

text \<open>
  The pages around the editor: a template with its versions and their life cycle
  (\<open>frontend/app/templates/[name]/page.tsx\<close>), the list of templates (\<open>app/templates/page.tsx\<close>), the teams
  (\<open>app/admin/teams/page.tsx\<close>, \<open>app/admin/teams/[id]/page.tsx\<close>), the choice of a kind
  (\<open>components/KindPicker.tsx\<close>) and the previews (\<open>components/YamlPreview.tsx\<close>,
  \<open>components/UserFormPreview.tsx\<close>). Messages written in Korean are given in English. An exception fails
  the page or the action (\<^term>\<open>Fails m\<close>, \<^term>\<open>ActionFails m\<close>).
\<close>

section \<open>Server actions\<close>

record action_request =
  aq_method :: http_method
  aq_path :: string
  aq_body :: "(string, string option) obj"

datatype action_result = ActionFails string | Revalidate string

definition run_action :: "(action_request \<Rightarrow> unit outcome) \<Rightarrow> string \<Rightarrow> string \<Rightarrow> action_request \<Rightarrow> action_result" where
  "run_action fetch label page_path rq = (case fetch rq of
     Inl m \<Rightarrow> ActionFails m
   | Inr r \<Rightarrow> if \<not> rok r then ActionFails (label @ '' failed: '' @ nat_digits (rstatus r) @ '' '' @ rtext r)
       else Revalidate page_path)"

definition version_path :: "string \<Rightarrow> string \<Rightarrow> string" where
  "version_path nm v = ''/v1/templates/'' @ nm @ ''/versions/'' @ v"

datatype version_action = Publish | Deprecate | Undeprecate | DeleteDraft

definition action_request_of :: "string \<Rightarrow> version_action \<Rightarrow> string \<Rightarrow> action_request" where
  "action_request_of nm a v = (case a of
     Publish \<Rightarrow> \<lparr>aq_method = POST, aq_path = version_path nm v @ ''/publish'', aq_body = []\<rparr>
   | Deprecate \<Rightarrow> \<lparr>aq_method = POST, aq_path = version_path nm v @ ''/deprecate'', aq_body = []\<rparr>
   | Undeprecate \<Rightarrow> \<lparr>aq_method = POST, aq_path = version_path nm v @ ''/undeprecate'', aq_body = []\<rparr>
   | DeleteDraft \<Rightarrow> \<lparr>aq_method = DELETE, aq_path = version_path nm v, aq_body = []\<rparr>)"

definition action_label :: "version_action \<Rightarrow> string" where
  "action_label a = (case a of Publish \<Rightarrow> ''publish'' | Deprecate \<Rightarrow> ''deprecate''
   | Undeprecate \<Rightarrow> ''undeprecate'' | DeleteDraft \<Rightarrow> ''draft delete'')"

definition version_action_run :: "string \<Rightarrow> (action_request \<Rightarrow> unit outcome) \<Rightarrow> version_action \<Rightarrow> string \<Rightarrow> action_result" where
  "version_action_run nm fetch a v = run_action fetch (action_label a) (''/templates/'' @ nm) (action_request_of nm a v)"

section \<open>A template's page\<close>

record template_version =
  tv_id :: string
  tv_version :: nat
  tv_status :: string
  tv_mode :: string

record template_info =
  ti_display :: string
  ti_description :: "string option"
  ti_team :: "string option"

definition canEdit :: "me option \<Rightarrow> template_info \<Rightarrow> bool" where
  "canEdit m t = (let isAdmin = (case m of None \<Rightarrow> False | Some u \<Rightarrow> (case me_groups u of None \<Rightarrow> False | Some gs \<Rightarrow> ADMIN_GROUP \<in> set gs));
       isGlobal = (\<not> truthy_str (ti_team t))
     in isAdmin \<or> \<not> isGlobal)"

definition existingDraft :: "template_version list \<Rightarrow> template_version option" where
  "existingDraft vs = find (\<lambda>v. tv_status v = ''draft'') vs"

definition latestVersion :: "template_version list \<Rightarrow> template_version option" where
  "latestVersion vs = (case vs of [] \<Rightarrow> None
   | v # rest \<Rightarrow> Some (foldl (\<lambda>a b. if tv_version a > tv_version b then a else b) v rest))"

definition edit_href :: "string \<Rightarrow> template_version \<Rightarrow> string" where
  "edit_href nm v = ''/templates/'' @ nm @ ''/versions/'' @ nat_digits (tv_version v) @ ''/edit?mode='' @ tv_mode v"

text \<open>The link at the top: to the draft, or the one that begins a new version.\<close>

datatype head_link = EditDraft string nat | StartVersion string

definition header_link :: "string \<Rightarrow> bool \<Rightarrow> template_version list \<Rightarrow> head_link option" where
  "header_link nm editable vs =
     (case latestVersion vs of None \<Rightarrow> None
      | Some l \<Rightarrow> if \<not> editable then None
          else (case existingDraft vs of
             Some d \<Rightarrow> Some (EditDraft (edit_href nm d) (tv_version d))
           | None \<Rightarrow> Some (StartVersion (edit_href nm l))))"

record version_row =
  vr_version :: nat
  vr_status :: string
  vr_badge :: string
  vr_edit :: "string option"
  vr_actions :: "(version_action \<times> string) list"

definition offered_actions :: "template_version \<Rightarrow> version_action list" where
  "offered_actions v =
     (if tv_status v = ''draft'' then [Publish, DeleteDraft] else [])
     @ (if tv_status v = ''published'' then [Deprecate] else [])
     @ (if tv_status v = ''deprecated'' then [Undeprecate] else [])"

definition version_row_of :: "string \<Rightarrow> bool \<Rightarrow> template_version \<Rightarrow> version_row" where
  "version_row_of nm editable v =
     \<lparr>vr_version = tv_version v, vr_status = tv_status v, vr_badge = (if tv_mode v = ''yaml'' then ''YAML'' else ''UI''),
      vr_edit = (if editable then Some (edit_href nm v) else None),
      vr_actions = (if editable then map (\<lambda>a. (a, nat_digits (tv_version v))) (offered_actions v) else [])\<rparr>"

record detail_view =
  dv_title :: string
  dv_description :: "string option"
  dv_link :: "head_link option"
  dv_note :: "string option"
  dv_rows :: "version_row list"

definition TemplateDetail :: "string \<Rightarrow> string + template_info response \<times> template_version list option response \<times> me response
    \<Rightarrow> detail_view page" where
  "TemplateDetail nm answers = (case answers of
     Inl m \<Rightarrow> Fails m
   | Inr (tRes, vsRes, meRes) \<Rightarrow>
      (if \<not> rok tRes then Fails (''template lookup failed: '' @ nat_digits (rstatus tRes) @ '' '' @ rtext tRes)
       else case rjson tRes of Inl m \<Rightarrow> Fails m
       | Inr t \<Rightarrow>
      (if \<not> rok vsRes then Fails (''version lookup failed: '' @ nat_digits (rstatus vsRes) @ '' '' @ rtext vsRes)
       else case rjson vsRes of Inl m \<Rightarrow> Fails m
       | Inr d \<Rightarrow>
      (case (if rok meRes then map_sum id Some (rjson meRes) else Inr None) of Inl m \<Rightarrow> Fails m
       | Inr m \<Rightarrow>
          let vs = nullish d []; editable = canEdit m t in
          Page \<lparr>dv_title = ti_display t, dv_description = ti_description t, dv_link = header_link nm editable vs,
             dv_note = (if \<not> editable then Some (if \<not> truthy_str (ti_team t) then ''read-only: global template'' else ''read-only'') else None),
             dv_rows = map (version_row_of nm editable) vs\<rparr>))))"

section \<open>The list of templates\<close>

record list_template =
  lt_name :: string
  lt_display :: string
  lt_version :: "nat option"
  lt_description :: string

text \<open>A row: the link, its text, the current version and the description.\<close>

definition TemplatesPage :: "list_template list option response \<Rightarrow> (string \<times> string \<times> string \<times> string) list page" where
  "TemplatesPage res = (case (if rok res then rjson res else Inr (Some [])) of Inl m \<Rightarrow> Fails m
   | Inr d \<Rightarrow> Page (map (\<lambda>t. (''/templates/'' @ lt_name t, lt_display t,
        ''v'' @ (case lt_version t of Some n \<Rightarrow> nat_digits n | None \<Rightarrow> ''-''), lt_description t)) (nullish d [])))"

section \<open>Teams\<close>

record member =
  mb_user :: string
  mb_role :: string
  mb_email :: "string option"

definition AdminTeamsPage :: "team list response \<Rightarrow> (string \<times> string \<times> string) list page" where
  "AdminTeamsPage res =
     (if \<not> rok res then Fails (''team lookup failed: '' @ nat_digits (rstatus res) @ '' '' @ rtext res)
      else case rjson res of Inl m \<Rightarrow> Fails m
      | Inr ts \<Rightarrow> Page (map (\<lambda>t. (''/admin/teams/'' @ tm_id t, nullish (tm_display t) (tm_name t), tm_name t)) ts))"

text \<open>A form's entry is \<open>null\<close> (\<^term>\<open>None\<close>) when the form has no such control.\<close>

definition createTeam :: "(action_request \<Rightarrow> unit outcome) \<Rightarrow> (string \<Rightarrow> string option) \<Rightarrow> action_result" where
  "createTeam fetch form = run_action fetch ''team create'' ''/admin/teams''
     \<lparr>aq_method = POST, aq_path = ''/v1/teams'', aq_body = [(''name'', form ''name''), (''display_name'', form ''display_name'')]\<rparr>"

definition TeamDetailPage :: "string \<Rightarrow> string + member list option response \<times> team list response \<Rightarrow> (string \<times> (string \<times> string \<times> string) list) page" where
  "TeamDetailPage i answers = (case answers of
     Inl m \<Rightarrow> Fails m
   | Inr (membersRes, teamsRes) \<Rightarrow>
      (if \<not> rok membersRes then Fails (rtext membersRes)
       else if \<not> rok teamsRes then Fails (rtext teamsRes)
       else case rjson membersRes of Inl m \<Rightarrow> Fails m
       | Inr d \<Rightarrow> (case rjson teamsRes of Inl m \<Rightarrow> Fails m
         | Inr ts \<Rightarrow> Page (nullish (map_option tm_name (find (\<lambda>t. tm_id t = i) ts)) i,
             map (\<lambda>m. (nullish (mb_email m) (mb_user m), mb_role m, mb_user m)) (nullish d [])))))"

definition addMember :: "(action_request \<Rightarrow> unit outcome) \<Rightarrow> string \<Rightarrow> (string \<Rightarrow> string option) \<Rightarrow> action_result" where
  "addMember fetch i form = run_action fetch ''member add'' (''/admin/teams/'' @ i)
     \<lparr>aq_method = POST, aq_path = ''/v1/teams/'' @ i @ ''/members'', aq_body = [(''email'', form ''email''), (''role'', form ''role'')]\<rparr>"

definition removeMember :: "(action_request \<Rightarrow> unit outcome) \<Rightarrow> string \<Rightarrow> (string \<Rightarrow> string option) \<Rightarrow> action_result" where
  "removeMember fetch i form = run_action fetch ''member remove'' (''/admin/teams/'' @ i)
     \<lparr>aq_method = DELETE, aq_path = ''/v1/teams/'' @ i @ ''/members/'' @ nullish (form ''user_id'') ''null'', aq_body = []\<rparr>"

section \<open>Choosing a kind\<close>

record kind_picker =
  kp_gvs :: "string list"
  kp_err :: "string option"

definition index_answer :: "string list option outcome \<Rightarrow> kind_picker \<Rightarrow> kind_picker" where
  "index_answer out s = (case out of Inl m \<Rightarrow> s\<lparr>kp_err := Some m\<rparr>
   | Inr r \<Rightarrow> if \<not> rok r then s\<lparr>kp_err := Some (''openapi index lookup failed: '' @ nat_digits (rstatus r))\<rparr>
       else (case rjson r of Inl m \<Rightarrow> s\<lparr>kp_err := Some m\<rparr> | Inr idx \<Rightarrow> s\<lparr>kp_gvs := parseIndex idx\<rparr>))"

text \<open>The featured kinds with the kind reported for each, then the whole list with its error.\<close>

definition KindPicker :: "kind_picker \<Rightarrow> (string \<times> kind_ref) list \<times> nat \<times> string option \<times> string list" where
  "KindPicker s = (map (\<lambda>k. (kr_kind k, k)) FEATURED, length (kp_gvs s),
     (if truthy_str (kp_err s) then kp_err s else None), kp_gvs s)"

section \<open>Previews\<close>

text \<open>
  Both previews send the editor's state 300 ms after its last change (\<open>use-debounce\<close> calls with the last
  arguments), and show an answer whenever it arrives.
\<close>

record 'f preview =
  pv_waiting :: "'f eres list option"
  pv_flight :: "(nat \<times> 'f eres list) list"
  pv_next :: nat
  pv_resources :: string
  pv_uispec :: string
  pv_err :: "string option"

definition open_preview :: "'f preview" where
  "open_preview = \<lparr>pv_waiting = None, pv_flight = [], pv_next = 0, pv_resources = [], pv_uispec = [], pv_err = None\<rparr>"

datatype 'f preview_event = StateChanged "'f eres list" | TimerFires | PreviewAnswer nat "(string \<times> string) outcome"

definition shown_preview :: "(string \<times> string) outcome \<Rightarrow> 'f preview \<Rightarrow> 'f preview" where
  "shown_preview out s = (case out of Inl m \<Rightarrow> s\<lparr>pv_err := Some m\<rparr>
   | Inr r \<Rightarrow> if \<not> rok r then s\<lparr>pv_err := Some (status_text r)\<rparr>
       else (case rjson r of Inl m \<Rightarrow> s\<lparr>pv_err := Some m\<rparr>
         | Inr (res, spec) \<Rightarrow> s\<lparr>pv_resources := res, pv_uispec := spec, pv_err := None\<rparr>))"

definition YamlPreview :: "'f preview \<Rightarrow> 'f preview_event \<Rightarrow> 'f preview" where
  "YamlPreview s ev = (case ev of
     StateChanged ui \<Rightarrow> s\<lparr>pv_waiting := Some ui\<rparr>
   | TimerFires \<Rightarrow> (case pv_waiting s of None \<Rightarrow> s
       | Some ui \<Rightarrow> s\<lparr>pv_waiting := None, pv_flight := pv_flight s @ [(pv_next s, ui)], pv_next := Suc (pv_next s)\<rparr>)
   | PreviewAnswer i out \<Rightarrow> (if i \<in> fst ` set (pv_flight s)
       then shown_preview out (s\<lparr>pv_flight := filter (\<lambda>e. fst e \<noteq> i) (pv_flight s)\<rparr>) else s))"

text \<open>The form a ui-spec gives; \<open>read\<close> is the YAML parser, \<^term>\<open>None\<close> where there is no list of fields.\<close>

definition parseOrEmpty :: "spec_reader \<Rightarrow> string \<Rightarrow> string + spec_field list" where
  "parseOrEmpty read y = (if js_trim y = [] then Inr [] else map_sum id (\<lambda>fs. nullish fs []) (read y))"

record form_preview =
  fp_spec :: "spec_field list option"
  fp_err :: "string option"

datatype form_preview_event = SpecText string | SpecAnswer "string outcome"

definition form_preview_step :: "spec_reader \<Rightarrow> form_preview \<Rightarrow> form_preview_event \<Rightarrow> form_preview" where
  "form_preview_step read s ev = (case ev of
     SpecText y \<Rightarrow> (case parseOrEmpty read y of
        Inl m \<Rightarrow> s\<lparr>fp_err := Some (''ui-spec parsing failed: '' @ m)\<rparr>
      | Inr fs \<Rightarrow> s\<lparr>fp_spec := Some fs, fp_err := None\<rparr>)
   | SpecAnswer out \<Rightarrow> (case out of Inl m \<Rightarrow> s\<lparr>fp_err := Some m\<rparr>
      | Inr r \<Rightarrow> if \<not> rok r then s\<lparr>fp_err := Some (status_text r)\<rparr>
          else (case (case rjson r of Inl m \<Rightarrow> Inl m | Inr y \<Rightarrow> parseOrEmpty read y) of
              Inl m \<Rightarrow> s\<lparr>fp_err := Some m\<rparr>
            | Inr fs \<Rightarrow> s\<lparr>fp_spec := Some fs, fp_err := None\<rparr>)))"

datatype form_preview_view = FpError string | FpLoading | FpNoFields | FpForm "spec_field list"

definition UserFormPreview :: "form_preview \<Rightarrow> form_preview_view" where
  "UserFormPreview s =
     (if truthy_str (fp_err s) then FpError (the (fp_err s))
      else case fp_spec s of None \<Rightarrow> FpLoading | Some fs \<Rightarrow> if fs = [] then FpNoFields else FpForm fs)"

lemma changes_debounced:
  "pv_waiting (foldl YamlPreview s (map StateChanged (uis @ [ui]))) = Some ui
   \<and> pv_flight (foldl YamlPreview s (map StateChanged (uis @ [ui]))) = pv_flight s"
proof -
  have "pv_flight (foldl YamlPreview s (map StateChanged us)) = pv_flight s" for us
    by (induction us arbitrary: s) (auto simp: YamlPreview_def)
  then show ?thesis by (simp add: YamlPreview_def)
qed

text \<open>A list of fields is shown as soon as its text parses, whatever was shown before.\<close>

lemma form_preview_recovers:
  "parseOrEmpty read y = Inr fs \<Longrightarrow> UserFormPreview (form_preview_step read s (SpecText y)) = (if fs = [] then FpNoFields else FpForm fs)"
  by (simp add: form_preview_step_def UserFormPreview_def)

section \<open>What a template's page offers\<close>

lemma foldl_max_version:
  "foldl (\<lambda>a b. if tv_version a > tv_version b then a else b) v rest \<in> insert v (set rest)
   \<and> (\<forall>u \<in> insert v (set rest). tv_version u \<le> tv_version (foldl (\<lambda>a b. if tv_version a > tv_version b then a else b) v rest))"
proof (induction rest arbitrary: v)
  case (Cons r rest)
  show ?case using Cons [of v] Cons [of r] by auto
qed simp

lemma latestVersion_max:
  "latestVersion vs = Some l \<Longrightarrow> l \<in> set vs \<and> (\<forall>v \<in> set vs. tv_version v \<le> tv_version l)"
  using foldl_max_version by (cases vs) (auto simp: latestVersion_def)

lemma latestVersion_None: "latestVersion vs = None \<longleftrightarrow> vs = []"
  by (simp add: latestVersion_def split: list.split)

lemma header_link_cases:
  "header_link nm editable vs = None \<longleftrightarrow> vs = [] \<or> \<not> editable"
  "header_link nm editable vs = Some (EditDraft h n) \<Longrightarrow> \<exists>v \<in> set vs. tv_status v = ''draft'' \<and> n = tv_version v \<and> h = edit_href nm v"
  "header_link nm editable vs = Some (StartVersion h) \<Longrightarrow> (\<forall>v \<in> set vs. tv_status v \<noteq> ''draft'')
     \<and> (\<exists>l \<in> set vs. h = edit_href nm l \<and> (\<forall>v \<in> set vs. tv_version v \<le> tv_version l))"
  using latestVersion_max [of vs]
  by (auto simp: header_link_def existingDraft_def latestVersion_None find_None_iff find_Some_iff split: option.splits if_splits)

text \<open>What a template's page offers. Who is an administrator, and on a team's template everybody,
  gets a link to the draft if there is one and otherwise to the newest version; a row offers to publish and delete
  only a draft, to deprecate only a published version and to restore only a deprecated one, each with
  the row's own version; nobody else gets a link or an action. An action sends one request for its version
  and renews the page exactly when it was accepted.\<close>

lemma template_page_offers:
  assumes "TemplateDetail nm (Inr (tRes, vsRes, meRes)) = Page d" and "rjson tRes = Inr t" and "rjson vsRes = Inr (Some vs)"
  defines "editable \<equiv> (\<exists>m gs. rok meRes \<and> rjson meRes = Inr m \<and> me_groups m = Some gs \<and> ''kuberport-admin'' \<in> set gs)
      \<or> truthy_str (ti_team t)"
  shows "(dv_link d = None \<longleftrightarrow> vs = [] \<or> \<not> editable)
    \<and> (\<forall>h n. dv_link d = Some (EditDraft h n) \<longrightarrow> (\<exists>v \<in> set vs. tv_status v = ''draft'' \<and> n = tv_version v \<and> h = edit_href nm v))
    \<and> (\<forall>h. dv_link d = Some (StartVersion h) \<longrightarrow> (\<forall>v \<in> set vs. tv_status v \<noteq> ''draft'')
        \<and> (\<exists>l \<in> set vs. h = edit_href nm l \<and> (\<forall>v \<in> set vs. tv_version v \<le> tv_version l)))
    \<and> length (dv_rows d) = length vs
    \<and> (\<forall>i < length vs. \<forall>a n. (a, n) \<in> set (vr_actions (dv_rows d ! i)) \<longleftrightarrow> editable \<and> n = nat_digits (tv_version (vs ! i))
        \<and> tv_status (vs ! i) = (case a of Publish \<Rightarrow> ''draft'' | DeleteDraft \<Rightarrow> ''draft'' | Deprecate \<Rightarrow> ''published'' | Undeprecate \<Rightarrow> ''deprecated''))
    \<and> (\<forall>fetch a n. version_action_run nm fetch a n = Revalidate (''/templates/'' @ nm)
        \<longleftrightarrow> (\<exists>r. fetch (action_request_of nm a n) = Inr r \<and> rok r))"
proof -
  obtain m where m: "(if rok meRes then map_sum id Some (rjson meRes) else Inr None) = Inr m"
    and d: "dv_link d = header_link nm (canEdit m t) vs" "dv_rows d = map (version_row_of nm (canEdit m t)) vs"
    using assms(1-3) by (auto simp: TemplateDetail_def Let_def split: if_splits sum.splits)
  have e: "canEdit m t = editable"
    using m by (cases "rjson meRes") (auto simp: canEdit_def editable_def Let_def split: if_splits option.splits)
  have rows: "(a, n) \<in> set (vr_actions (dv_rows d ! i)) \<longleftrightarrow> editable \<and> n = nat_digits (tv_version (vs ! i))
        \<and> tv_status (vs ! i) = (case a of Publish \<Rightarrow> ''draft'' | DeleteDraft \<Rightarrow> ''draft'' | Deprecate \<Rightarrow> ''published'' | Undeprecate \<Rightarrow> ''deprecated'')"
    if "i < length vs" for i a n
    using that by (cases a) (auto simp: d(2) e version_row_of_def offered_actions_def)
  have run: "version_action_run nm fetch a n = Revalidate (''/templates/'' @ nm)
        \<longleftrightarrow> (\<exists>r. fetch (action_request_of nm a n) = Inr r \<and> rok r)" for fetch a n
    by (auto simp: version_action_run_def run_action_def split: sum.split)
  show ?thesis
    unfolding d(1) e using header_link_cases rows run d(2) by auto
qed

definition demo_info :: template_info where
  "demo_info = \<lparr>ti_display = ''Web'', ti_description = None, ti_team = Some ''t1''\<rparr>"

definition demo_versions :: "template_version list" where
  "demo_versions = [\<lparr>tv_id = ''b'', tv_version = 2, tv_status = ''published'', tv_mode = ''ui''\<rparr>,
     \<lparr>tv_id = ''a'', tv_version = 1, tv_status = ''deprecated'', tv_mode = ''yaml''\<rparr>]"

lemma template_page_offers_witness:
  "\<exists>d. TemplateDetail ''web'' (Inr (\<lparr>rstatus = 200, rstatusText = [], rtext = [], rjson = Inr demo_info\<rparr>,
      \<lparr>rstatus = 200, rstatusText = [], rtext = [], rjson = Inr (Some demo_versions)\<rparr>,
      \<lparr>rstatus = 401, rstatusText = [], rtext = [], rjson = Inl ''''\<rparr>)) = Page d
     \<and> dv_link d \<noteq> None \<and> (Deprecate, nat_digits 2) \<in> set (vr_actions (dv_rows d ! 0))"
proof -
  obtain d where d: "TemplateDetail ''web'' (Inr (\<lparr>rstatus = 200, rstatusText = [], rtext = [], rjson = Inr demo_info\<rparr>,
      \<lparr>rstatus = 200, rstatusText = [], rtext = [], rjson = Inr (Some demo_versions)\<rparr>,
      \<lparr>rstatus = 401, rstatusText = [], rtext = [], rjson = Inl ''''\<rparr>)) = Page d"
    by (simp add: TemplateDetail_def rok_def Let_def)
  note offers = template_page_offers [OF d, of demo_info demo_versions, simplified]
  have "demo_versions \<noteq> []" "truthy_str (ti_team demo_info)" "0 < length demo_versions" "tv_status (demo_versions ! 0) = ''published''"
    "tv_version (demo_versions ! 0) = 2"
    by (simp_all add: demo_versions_def demo_info_def)
  with offers have "dv_link d \<noteq> None \<and> (Deprecate, nat_digits 2) \<in> set (vr_actions (dv_rows d ! 0))"
    by (metis (no_types, lifting) option.exhaust version_action.simps(14))
  with d show ?thesis by blast
qed

end
