(* ===== verification/Ui_Mode.thy ===== *)
theory Ui_Mode
  imports Yaml_To_Ui "HOL-Library.Multiset"
begin

text \<open>
  \<open>backend/internal/template/uimode.go\<close>: the Go API turns the state of the visual editor into the documents and
  the ui-spec it stores. The result is the documents and entries that are handed to the YAML encoder.

  Go's decoded values are those of \<^typ>\<open>jsval\<close>: \<open>nil\<close> is \<^term>\<open>JNull\<close>, \<open>[]any\<close> \<^term>\<open>JArr\<close>,
  \<open>map[string]any\<close> \<^term>\<open>JObj\<close>, whose order means nothing, and \<open>int\<close> and \<open>float64\<close> are both numbers.
  Ranging over a map takes its entries in any order: \<open>SerializeUIMode\<close> gets them in the order they are taken,
  and properties hold for every order. An index too large for an \<open>int\<close> is beyond every limit, as it is in Go,
  where \<open>Atoi\<close> gives the largest one.
\<close>

section \<open>Paths\<close>

definition ident_start :: "char \<Rightarrow> bool" where
  "ident_start c \<longleftrightarrow> (let n = of_char c :: nat in 65 \<le> n \<and> n \<le> 90 \<or> 97 \<le> n \<and> n \<le> 122 \<or> n = 95)"

definition ident_char :: "char \<Rightarrow> bool" where
  "ident_char c \<longleftrightarrow> ident_start c \<or> is_digit c"

text \<open>The match of \<open>^(?:([A-Za-z_][A-Za-z0-9_]*)|\[(\d+)\])\<close> at the beginning of a text, and what follows it.\<close>

definition match_seg :: "string \<Rightarrow> (pstep \<times> string) option" where
  "match_seg s = (case s of [] \<Rightarrow> None
   | c # r \<Rightarrow>
      if ident_start c then Some (Key (takeWhile ident_char s), dropWhile ident_char s)
      else if c = CHR ''['' \<and> takeWhile is_digit r \<noteq> [] \<and> take 1 (dropWhile is_digit r) = '']''
        then Some (Idx (digits_val (takeWhile is_digit r)), drop 1 (dropWhile is_digit r))
      else None)"

definition trim_dot :: "string \<Rightarrow> string" where
  "trim_dot s = (if take 1 s = ''.'' then drop 1 s else s)"

lemma match_seg_shorter: "match_seg s = Some (t, r) \<Longrightarrow> length (trim_dot r) < length s"
proof -
  have le: "length (trim_dot r) \<le> length r" by (simp add: trim_dot_def)
  have dw: "length (dropWhile P xs) \<le> length xs" for P :: "char \<Rightarrow> bool" and xs by (rule length_dropWhile_le)
  show "match_seg s = Some (t, r) \<Longrightarrow> ?thesis"
    using le dw [of ident_char "tl s"] dw [of is_digit "tl s"]
    by (cases s) (auto simp: match_seg_def ident_char_def split: if_splits)
qed

function path_segs :: "string \<Rightarrow> string + pstep list" where
  "path_segs rest =
     (if rest = [] then Inr []
      else case match_seg rest of None \<Rightarrow> Inl (''bad path remainder '' @ rest)
      | Some (t, r) \<Rightarrow> map_sum id ((#) t) (path_segs (trim_dot r)))"
  by pat_completeness auto
termination
  by (relation "measure length") (auto intro: match_seg_shorter)

declare path_segs.simps [simp del]

section \<open>Writing a value at a path\<close>

abbreviation maxArrayIndex :: nat where
  "maxArrayIndex \<equiv> 1024"

definition container :: "pstep \<Rightarrow> jsval" where
  "container next = (case next of Idx _ \<Rightarrow> JArr [] | Key _ \<Rightarrow> JObj [])"

text \<open>The walk along the segments; the result is the new value of the node it is at.\<close>

fun set_segs :: "pstep list \<Rightarrow> jsval \<Rightarrow> jsval \<Rightarrow> string + jsval" where
  "set_segs [] v current = Inr current"
| "set_segs (Key k # rest) v current = (case current of
     JObj es \<Rightarrow>
       (if rest = [] then Inr (JObj (oset es k v))
        else let child = (case oget es k of None \<Rightarrow> container (hd rest) | Some c \<Rightarrow> c)
             in map_sum id (\<lambda>x. JObj (oset es k x)) (set_segs rest v child))
   | _ \<Rightarrow> Inl (''not a map at '' @ k))"
| "set_segs (Idx i # rest) v current = (case current of
     JArr arr \<Rightarrow>
       (if i > maxArrayIndex then Inl (''array index '' @ nat_digits i @ '' exceeds limit'')
        else let grown = (if length arr \<le> i
                  then arr @ replicate (Suc i - length arr) (if rest = [] then JNull else container (hd rest)) else arr)
          in if rest = [] then Inr (JArr (grown[i := v]))
             else let child = (if grown ! i = JNull then container (hd rest) else grown ! i)
                  in map_sum id (\<lambda>x. JArr (grown[i := x])) (set_segs rest v child))
   | _ \<Rightarrow> Inl (''not an array at ['' @ nat_digits i @ '']''))"

definition setJSONPathAbsolute :: "jsval \<Rightarrow> string \<Rightarrow> jsval \<Rightarrow> string + jsval" where
  "setJSONPathAbsolute obj path v = (case path_segs path of
     Inl m \<Rightarrow> Inl m
   | Inr segs \<Rightarrow> if segs = [] then Inl ''empty path'' else set_segs segs v obj)"

section \<open>Serialisation\<close>

record go_entry =
  ge_path :: string
  ge_label :: string
  ge_help :: string
  ge_type :: string
  ge_min :: "int option"
  ge_max :: "int option"
  ge_pattern :: string
  ge_values :: "string list"
  ge_default :: jsval
  ge_required :: bool

record go_field =
  gf_mode :: string
  gf_value :: jsval
  gf_spec :: "go_entry option"

record go_resource =
  gr_apiVersion :: string
  gr_kind :: string
  gr_name :: string
  gr_fields :: "(string, go_field) obj"

definition serialize_field :: "go_resource \<Rightarrow> string \<times> go_field \<Rightarrow> jsval \<times> go_entry list \<Rightarrow> string + jsval \<times> go_entry list" where
  "serialize_field r e acc = (case e of (fpath, f) \<Rightarrow>
     if gf_mode f = ''fixed'' then map_sum id (\<lambda>d. (d, snd acc)) (setJSONPathAbsolute (fst acc) fpath (gf_value f))
     else if gf_mode f = ''exposed'' then
       (case gf_spec f of None \<Rightarrow> Inl (''exposed field '' @ fpath @ '' missing ui-spec'')
        | Some s \<Rightarrow>
           (let entry = s\<lparr>ge_path := gr_kind r @ ''['' @ gr_name r @ ''].'' @ fpath\<rparr> in
            if ge_default s \<noteq> JNull
            then map_sum id (\<lambda>d. (d, snd acc @ [entry])) (setJSONPathAbsolute (fst acc) fpath (ge_default s))
            else Inr (fst acc, snd acc @ [entry])))
     else Inl (''unknown field mode '' @ gf_mode f))"

fun serialize_fields :: "go_resource \<Rightarrow> (string \<times> go_field) list \<Rightarrow> jsval \<times> go_entry list \<Rightarrow> string + jsval \<times> go_entry list" where
  "serialize_fields r [] acc = Inr acc"
| "serialize_fields r (e # es) acc = (case serialize_field r e acc of Inl m \<Rightarrow> Inl m | Inr acc' \<Rightarrow> serialize_fields r es acc')"

definition resource_doc :: "go_resource \<Rightarrow> jsval" where
  "resource_doc r = JObj [(''apiVersion'', JStr (gr_apiVersion r)), (''kind'', JStr (gr_kind r)),
     (''metadata'', JObj [(''name'', JStr (gr_name r))])]"

fun serialize_resources :: "go_resource list \<Rightarrow> jsval list \<times> go_entry list \<Rightarrow> string + jsval list \<times> go_entry list" where
  "serialize_resources [] acc = Inr acc"
| "serialize_resources (r # rs) acc =
     (if gr_apiVersion r = [] \<or> gr_kind r = [] \<or> gr_name r = [] then Inl ''resource missing apiVersion/kind/name''
      else case serialize_fields r (gr_fields r) (resource_doc r, snd acc) of Inl m \<Rightarrow> Inl m
      | Inr (d, entries) \<Rightarrow> serialize_resources rs (fst acc @ [d], entries))"

definition SerializeUIMode :: "go_resource list \<Rightarrow> string + jsval list \<times> go_entry list" where
  "SerializeUIMode rs = serialize_resources rs ([], [])"

text \<open>The editor's state as the API decodes it: \<open>JSON.stringify\<close> leaves out \<open>undefined\<close> and writes numbers
  that are not finite as \<open>null\<close>, and a bound that is no integer does not decode (\<^term>\<open>None\<close>).\<close>

fun json_value :: "jsval \<Rightarrow> jsval" where
  "json_value JUndef = JNull"
| "json_value (JNum (Num q)) = JNum (Num q)"
| "json_value (JNum _) = JNull"
| "json_value (JArr xs) = JArr (map json_value xs)"
| "json_value (JObj es) = JObj (map (\<lambda>e. (fst e, json_value (snd e))) (filter (\<lambda>e. snd e \<noteq> JUndef) es))"
| "json_value v = v"

definition json_int :: "jnum option \<Rightarrow> int option option" where
  "json_int n = (case n of None \<Rightarrow> Some None
   | Some (Num q) \<Rightarrow> if q = of_int \<lfloor>q\<rfloor> then Some (Some \<lfloor>q\<rfloor>) else None
   | Some _ \<Rightarrow> Some None)"

definition go_entry_of :: "ui_entry \<Rightarrow> go_entry option" where
  "go_entry_of e = (case (json_int (e_min e), json_int (e_max e)) of
     (Some mn, Some mx) \<Rightarrow> Some \<lparr>ge_path = e_path e, ge_label = e_label e, ge_help = nullish (e_help e) [], ge_type = e_type e,
        ge_min = mn, ge_max = mx, ge_pattern = nullish (e_pattern e) [], ge_values = nullish (e_values e) [],
        ge_default = json_value (nullish (e_default e) JUndef), ge_required = nullish (e_required e) False\<rparr>
   | _ \<Rightarrow> None)"

definition go_field_of :: "ui_field \<Rightarrow> go_field option" where
  "go_field_of f = (case f of
     UFixed v \<Rightarrow> Some \<lparr>gf_mode = ''fixed'', gf_value = json_value v, gf_spec = None\<rparr>
   | UExposed e \<Rightarrow> map_option (\<lambda>g. \<lparr>gf_mode = ''exposed'', gf_value = JNull, gf_spec = Some g\<rparr>) (go_entry_of e))"

text \<open>A resource decodes to any resource with the same fields in some order.\<close>

definition decodes_to :: "ui_resource \<Rightarrow> go_resource \<Rightarrow> bool" where
  "decodes_to u r \<longleftrightarrow> gr_apiVersion r = r_apiVersion u \<and> gr_kind r = r_kind u \<and> gr_name r = r_name u
     \<and> image_mset (\<lambda>e. (fst e, Some (snd e))) (mset (gr_fields r)) = image_mset (\<lambda>e. (fst e, go_field_of (snd e))) (mset (r_fields u))"

section \<open>Paths of positions\<close>

definition ident :: "string \<Rightarrow> bool" where
  "ident k \<longleftrightarrow> k \<noteq> [] \<and> ident_start (hd k) \<and> list_all ident_char k"

definition ident_step :: "pstep \<Rightarrow> bool" where
  "ident_step t = (case t of Key k \<Rightarrow> ident k | Idx _ \<Rightarrow> True)"

text \<open>The text of a position after its first step.\<close>

fun tail_text :: "pstep list \<Rightarrow> string" where
  "tail_text [] = []"
| "tail_text (Key k # ts) = CHR ''.'' # k @ tail_text ts"
| "tail_text (Idx i # ts) = CHR ''['' # nat_digits i @ CHR '']'' # tail_text ts"

lemma ptext_tail: "p \<noteq> [] \<Longrightarrow> ptext p ts = p @ tail_text ts"
  by (induction p ts rule: ptext.induct) (auto simp: child_path_def index_path_def)

lemma ident_char_stops [simp]: "\<not> ident_char CHR ''.''" "\<not> ident_char CHR ''[''" "\<not> ident_start CHR ''[''" "\<not> is_digit CHR '']''"
  by (simp_all add: ident_char_def ident_start_def is_digit_def)

lemma tail_text_stops: "tail_text ts = [] \<or> \<not> ident_char (hd (tail_text ts))"
  by (cases ts rule: tail_text.cases) simp_all

lemma takeWhile_stops:
  "list_all P k \<Longrightarrow> r = [] \<or> \<not> P (hd r) \<Longrightarrow> takeWhile P (k @ r) = k \<and> dropWhile P (k @ r) = r"
  by (induction k) (cases r; auto)+

lemma match_ident: "ident k \<Longrightarrow> match_seg (k @ tail_text ts) = Some (Key k, tail_text ts)"
  using takeWhile_stops [of ident_char k "tail_text ts"] tail_text_stops [of ts]
  by (cases k) (auto simp: match_seg_def ident_def)

lemma match_index: "match_seg (CHR ''['' # nat_digits i @ CHR '']'' # r) = Some (Idx i, r)"
  using takeWhile_stops [of is_digit "nat_digits i" "CHR '']'' # r"] nat_digits_digits [of i]
  by (simp add: match_seg_def)

lemma ident_not_dot: "ident k \<Longrightarrow> take 1 (k @ r) \<noteq> ''.''"
  by (cases k) (auto simp: ident_def)

lemma path_segs_tail:
  "list_all ident_step ts \<Longrightarrow> path_segs (trim_dot (tail_text ts)) = Inr ts"
proof (induction ts rule: tail_text.induct)
  case (2 k ts)
  then have "ident k" by (simp add: ident_step_def)
  then have "path_segs (k @ tail_text ts) = map_sum id ((#) (Key k)) (path_segs (trim_dot (tail_text ts)))"
    by (subst path_segs.simps) (auto simp: match_ident ident_def)
  with 2 show ?case by (simp add: trim_dot_def)
next
  case (3 i ts)
  have "path_segs (CHR ''['' # nat_digits i @ CHR '']'' # tail_text ts) = map_sum id ((#) (Idx i)) (path_segs (trim_dot (tail_text ts)))"
    by (subst path_segs.simps) (simp add: match_index)
  with 3 show ?case by (simp add: trim_dot_def)
qed (simp add: trim_dot_def path_segs.simps)

lemma path_segs_ptext:
  assumes "list_all ident_step (Key k # ts)"
  shows "path_segs (ptext [] (Key k # ts)) = Inr (Key k # ts)"
proof -
  from assms have k: "ident k" by (simp add: ident_step_def)
  then have "ptext [] (Key k # ts) = k @ tail_text ts" by (simp add: child_path_def ptext_tail ident_def)
  with path_segs_tail [OF assms] show ?thesis by (simp add: trim_dot_def)
qed

section \<open>Building a document\<close>

text \<open>
  The values the editor can rebuild: keys are identifiers, no mapping and no list is empty, a list has at
  most 1025 elements and does not hold mappings and lists together, numbers are finite.
\<close>

fun regular :: "jsval \<Rightarrow> bool" where
  "regular (JArr xs) \<longleftrightarrow> xs \<noteq> [] \<and> length xs \<le> Suc maxArrayIndex \<and> list_all regular xs
     \<and> (list_all (\<lambda>x. case x of JArr _ \<Rightarrow> False | _ \<Rightarrow> True) xs \<or> list_all (\<lambda>x. case x of JObj _ \<Rightarrow> False | _ \<Rightarrow> True) xs)"
| "regular (JObj es) \<longleftrightarrow> es \<noteq> [] \<and> obj_ok es \<and> list_all (\<lambda>e. ident (fst e) \<and> regular (snd e)) es"
| "regular (JNum n) \<longleftrightarrow> (case n of Num _ \<Rightarrow> True | _ \<Rightarrow> False)"
| "regular JUndef \<longleftrightarrow> False"
| "regular (JOther _) \<longleftrightarrow> False"
| "regular _ \<longleftrightarrow> True"

text \<open>Equality of Go values: the order of a mapping's entries means nothing.\<close>

inductive same :: "jsval \<Rightarrow> jsval \<Rightarrow> bool" where
  same_scalar: "scalar v \<Longrightarrow> same v v"
| same_arr: "list_all2 same xs ys \<Longrightarrow> same (JArr xs) (JArr ys)"
| same_obj: "obj_ok es \<Longrightarrow> obj_ok fs \<Longrightarrow> \<forall>k. rel_option same (oget es k) (oget fs k) \<Longrightarrow> same (JObj es) (JObj fs)"

text \<open>
  \<open>built v ps x\<close>: the node \<open>x\<close> is what the value \<open>v\<close> looks like once exactly the positions \<open>ps\<close> of its
  scalars have been written. A slot of a list that has not been reached is empty or holds an empty
  container that fits.
\<close>

definition below :: "pstep \<Rightarrow> pstep list set \<Rightarrow> pstep list set" where
  "below t ps = {us. t # us \<in> ps}"

fun vacant :: "jsval \<Rightarrow> jsval \<Rightarrow> bool" where
  "vacant v JNull \<longleftrightarrow> True"
| "vacant v (JArr ys) \<longleftrightarrow> ys = [] \<and> (case v of JObj _ \<Rightarrow> False | _ \<Rightarrow> True)"
| "vacant v (JObj fs) \<longleftrightarrow> fs = [] \<and> (case v of JArr _ \<Rightarrow> False | _ \<Rightarrow> True)"
| "vacant v _ \<longleftrightarrow> False"

inductive built :: "jsval \<Rightarrow> pstep list set \<Rightarrow> jsval \<Rightarrow> bool" where
  built_scalar: "scalar v \<Longrightarrow> built v {[]} v"
| built_arr: "length ys \<le> length xs \<Longrightarrow> [] \<notin> ps \<Longrightarrow> \<forall>i < length ys. below (Idx i) ps = {} \<and> vacant (xs ! i) (ys ! i)
     \<or> below (Idx i) ps \<noteq> {} \<and> built (xs ! i) (below (Idx i) ps) (ys ! i) \<Longrightarrow>
     \<forall>i \<ge> length ys. below (Idx i) ps = {} \<Longrightarrow> built (JArr xs) ps (JArr ys)"
| built_obj: "obj_ok fs \<Longrightarrow> [] \<notin> ps \<Longrightarrow> \<forall>k. oget fs k = None \<longrightarrow> below (Key k) ps = {} \<Longrightarrow>
     \<forall>k x. oget fs k = Some x \<longrightarrow> below (Key k) ps \<noteq> {} \<and> (\<exists>v. oget es k = Some v \<and> built v (below (Key k) ps) x) \<Longrightarrow>
     built (JObj es) ps (JObj fs)"

inductive_cases built_arrE: "built (JArr xs) ps x"
inductive_cases built_objE: "built (JObj es) ps x"

lemma built_scalar_iff: "scalar v \<Longrightarrow> built v ps x \<longleftrightarrow> ps = {[]} \<and> x = v"
  by (auto elim: built.cases intro: built_scalar)

lemma below_insert [simp]:
  "below t (insert (u # us) ps) = (if t = u then insert us (below t ps) else below t ps)"
  "below t (insert [] ps) = below t ps" "below t {} = {}"
  by (auto simp: below_def)

lemma built_empty: "built (JObj es) {} (JObj [])" "built (JArr xs) {} (JArr [])"
  by (auto intro!: built_obj built_arr)

lemma built_not_null: "built v ps x \<Longrightarrow> \<not> scalar v \<Longrightarrow> x \<noteq> JNull"
  by (auto elim: built.cases)

lemma container_fits:
  assumes "value_at v (t # us) = Some y"
  shows "\<not> scalar v" and "built v {} (container t)" and "vacant v x \<Longrightarrow> x \<noteq> JNull \<Longrightarrow> x = container t"
  using assms by (cases v; cases t; cases x; auto simp: container_def built_empty)+

lemma regular_nth: "regular (JArr xs) \<Longrightarrow> i < length xs \<Longrightarrow> regular (xs ! i)"
  by (simp add: list_all_length)

lemma regular_get: "regular (JObj es) \<Longrightarrow> oget es k = Some v \<Longrightarrow> regular v \<and> ident k"
  by (fastforce simp: list_all_iff dest: map_of_SomeD)

lemma vacant_container:
  assumes "regular (JArr xs)" and "i < length xs" and "j < length xs" and "value_at (xs ! i) (t # us) = Some y"
  shows "vacant (xs ! j) (container t)"
proof -
  have "(\<exists>ys. xs ! i = JArr ys) \<and> (\<exists>n. t = Idx n) \<or> (\<exists>es. xs ! i = JObj es) \<and> (\<exists>k. t = Key k)"
    using assms(4) by (cases "xs ! i"; cases t) auto
  with assms(1-3) show ?thesis
    by (auto simp: container_def list_all_length split: jsval.splits)
qed

text \<open>Writing one more scalar keeps the node built; the position's place in the order does not matter.\<close>

lemma set_segs_built:
  "regular v \<Longrightarrow> value_at v ts = Some y \<Longrightarrow> scalar y \<Longrightarrow> ts \<noteq> [] \<Longrightarrow> built v ps x \<Longrightarrow>
     \<exists>x'. set_segs ts y x = Inr x' \<and> built v (insert ts ps) x'"
proof (induction ts arbitrary: v ps x)
  case (Cons t us)
  show ?case
  proof (cases t)
    case (Key k)
    with Cons.prems obtain es w where v: "v = JObj es" "oget es k = Some w" "value_at w us = Some y"
      by (cases v) (auto split: option.splits)
    from Cons.prems(5) obtain fs where x: "x = JObj fs" "obj_ok fs" "[] \<notin> ps"
      and none: "\<And>j. oget fs j = None \<Longrightarrow> below (Key j) ps = {}"
      and some: "\<And>j z. oget fs j = Some z \<Longrightarrow> below (Key j) ps \<noteq> {} \<and> (\<exists>v. oget es j = Some v \<and> built v (below (Key j) ps) z)"
      unfolding v(1) by (elim built_objE) auto
    have w: "regular w" using regular_get Cons.prems(1) v by blast
    have put: "built v (insert (t # us) ps) (JObj (oset fs k z))" if "built w (insert us (below (Key k) ps)) z" for z
      unfolding v(1) using that x none some v(2) Key by (intro built_obj) (auto intro: obj_intros)
    show ?thesis
    proof (cases "us = []")
      case True
      with v Cons.prems(3) have w_y: "w = y" by simp
      have "below (Key k) ps \<subseteq> {[]}"
        using some [of k] none [of k] v(2) Cons.prems(3) w_y by (cases "oget fs k") (auto simp: built_scalar_iff)
      then have "insert [] (below (Key k) ps) = {[]}" by auto
      then have "built w (insert us (below (Key k) ps)) y" using True Cons.prems(3) w_y by (simp add: built_scalar_iff)
      from put [OF this] show ?thesis using True Key x(1) by simp
    next
      case False
      then obtain t' us' where us: "us = t' # us'" by (cases us) auto
      define child where "child = (case oget fs k of None \<Rightarrow> container (hd us) | Some c \<Rightarrow> c)"
      have "built w (below (Key k) ps) child"
        using some [of k] none [of k] v(2) container_fits(2) [of w t' us' y] v(3) us
        by (cases "oget fs k") (auto simp: child_def)
      from Cons.IH [OF w v(3) Cons.prems(3) False this] obtain x' where
        "set_segs us y child = Inr x'" "built w (insert us (below (Key k) ps)) x'" by blast
      with put Key x(1) False show ?thesis by (auto simp: child_def [symmetric] Let_def)
    qed
  next
    case (Idx i)
    with Cons.prems obtain xs where v: "v = JArr xs" "i < length xs" "value_at (xs ! i) us = Some y"
      by (cases v) (auto split: if_splits)
    from Cons.prems(5) obtain ys where x: "x = JArr ys" "length ys \<le> length xs" "[] \<notin> ps"
      and slot: "\<And>j. j < length ys \<Longrightarrow> below (Idx j) ps = {} \<and> vacant (xs ! j) (ys ! j)
         \<or> below (Idx j) ps \<noteq> {} \<and> built (xs ! j) (below (Idx j) ps) (ys ! j)"
      and beyond: "\<And>j. length ys \<le> j \<Longrightarrow> below (Idx j) ps = {}"
      unfolding v(1) by (elim built_arrE) auto
    have le: "i \<le> maxArrayIndex" using v Cons.prems(1) by auto
    define fill where "fill = (if us = [] then JNull else container (hd us))"
    define grown where "grown = (if length ys \<le> i then ys @ replicate (Suc i - length ys) fill else ys)"
    have fill: "vacant (xs ! j) fill" if "j < length xs" for j
      using vacant_container [of xs i j "hd us" "tl us" y] that v Cons.prems(1) by (cases us) (auto simp: fill_def)
    have gl: "length grown = max (length ys) (Suc i)" "i < length grown" by (auto simp: grown_def)
    have gslot: "below (Idx j) ps = {} \<and> vacant (xs ! j) (grown ! j)
         \<or> below (Idx j) ps \<noteq> {} \<and> built (xs ! j) (below (Idx j) ps) (grown ! j)" if "j < length grown" for j
    proof (cases "j < length ys")
      case True
      with slot [of j] show ?thesis by (auto simp: grown_def nth_append)
    next
      case False
      with that gl(1) v(2) have "j < length xs" by (auto simp: max_def split: if_splits)
      moreover from False that have "grown ! j = fill" by (auto simp: grown_def nth_append)
      ultimately show ?thesis using fill beyond [of j] False by simp
    qed
    have put: "built v (insert (t # us) ps) (JArr (grown[i := z]))" if "built (xs ! i) (insert us (below (Idx i) ps)) z" for z
      unfolding v(1) using that x(2,3) gl gslot beyond v(2) Idx
      by (intro built_arr) (auto simp: nth_list_update max_def split: if_splits)
    show ?thesis
    proof (cases "us = []")
      case True
      with v Cons.prems(3) have y: "xs ! i = y" by simp
      have "below (Idx i) ps \<subseteq> {[]}" using gslot [OF gl(2)] Cons.prems(3) y by (auto simp: built_scalar_iff)
      then have "insert [] (below (Idx i) ps) = {[]}" by auto
      then have "built (xs ! i) (insert us (below (Idx i) ps)) y" using True y Cons.prems(3) by (simp add: built_scalar_iff)
      from put [OF this] have "built v (insert (t # us) ps) (JArr (grown[i := y]))" .
      moreover have "set_segs (t # us) y x = Inr (JArr (grown[i := y]))"
        using True Idx x(1) le by (simp add: grown_def fill_def Let_def)
      ultimately show ?thesis by blast
    next
      case False
      then obtain t' us' where us: "us = t' # us'" by (cases us) auto
      define child where "child = (if grown ! i = JNull then container (hd us) else grown ! i)"
      have "built (xs ! i) (below (Idx i) ps) child"
        using gslot [OF gl(2)] container_fits [of "xs ! i" t' us' y] built_not_null v(3) us by (auto simp: child_def)
      from Cons.IH [OF regular_nth [OF _ v(2)] v(3) Cons.prems(3) False this] Cons.prems(1) v(1) obtain x' where
        "set_segs us y child = Inr x'" "built (xs ! i) (insert us (below (Idx i) ps)) x'" by blast
      moreover have "set_segs (t # us) y x = map_sum id (\<lambda>z. JArr (grown[i := z])) (set_segs us y child)"
        using False Idx x(1) le by (simp add: grown_def fill_def child_def Let_def)
      ultimately have "set_segs (t # us) y x = Inr (JArr (grown[i := x']))" by simp
      with put \<open>built (xs ! i) (insert us (below (Idx i) ps)) x'\<close> show ?thesis by blast
    qed
  qed
qed simp

section \<open>The built document\<close>

definition leaves :: "jsval \<Rightarrow> pstep list set" where
  "leaves v = {ts. \<exists>y. value_at v ts = Some y \<and> scalar y}"

lemma leaves_scalar: "scalar v \<Longrightarrow> leaves v = {[]}"
  by (auto simp: leaves_def)

lemma below_leaves:
  "below (Idx i) (leaves (JArr xs)) = (if i < length xs then leaves (xs ! i) else {})"
  "below (Key k) (leaves (JObj es)) = (case oget es k of None \<Rightarrow> {} | Some v \<Rightarrow> leaves v)"
  by (auto simp: below_def leaves_def split: option.splits)

lemma regular_scalar: "regular v \<Longrightarrow> (\<exists>xs. v = JArr xs) \<or> (\<exists>es. v = JObj es) \<or> scalar v"
  by (cases v) auto

lemma regular_leaf: "regular v \<Longrightarrow> leaves v \<noteq> {}"
proof (induction v)
  case (JArr xs)
  then have "leaves (hd xs) \<noteq> {}" "xs \<noteq> []" by (auto simp: list_all_iff)
  then have "below (Idx 0) (leaves (JArr xs)) \<noteq> {}" by (simp add: below_leaves hd_conv_nth)
  then show ?case by (auto simp: below_def)
next
  case (JObj es)
  then obtain k v es' where es: "es = (k, v) # es'" by (cases es) auto
  with JObj.prems JObj.IH [of "(k, v)" v] have "leaves v \<noteq> {}" by simp
  with es have "below (Key k) (leaves (JObj es)) \<noteq> {}" by (simp add: below_leaves)
  then show ?case by (auto simp: below_def)
qed (auto simp: leaves_scalar)

text \<open>Once every scalar has been written, the node is the value.\<close>

lemma built_same: "regular v \<Longrightarrow> built v (leaves v) x \<Longrightarrow> same x v"
proof (induction v arbitrary: x)
  case (JArr xs)
  note all = regular_nth [OF JArr.prems(1)]
  from JArr.prems(2) obtain ys where x: "x = JArr ys" "length ys \<le> length xs"
    and slot: "\<And>j. j < length ys \<Longrightarrow> below (Idx j) (leaves (JArr xs)) = {}
         \<or> built (xs ! j) (below (Idx j) (leaves (JArr xs))) (ys ! j)"
    and beyond: "\<And>j. length ys \<le> j \<Longrightarrow> below (Idx j) (leaves (JArr xs)) = {}"
    by (elim built_arrE) auto
  have len: "length ys = length xs"
    using x(2) beyond [of "length ys"] regular_leaf [OF all, of "length ys"] by (fastforce simp: below_leaves)
  have "same (ys ! j) (xs ! j)" if "j < length xs" for j
    using slot [of j] that regular_leaf [OF all, of j] JArr.IH [of "xs ! j"] all len by (auto simp: below_leaves)
  with len show ?case by (simp add: x(1) same_arr list_all2_conv_all_nth)
next
  case (JObj es)
  from JObj.prems(2) obtain fs where x: "x = JObj fs" "obj_ok fs"
    and none: "\<And>k. oget fs k = None \<Longrightarrow> below (Key k) (leaves (JObj es)) = {}"
    and some: "\<And>k z. oget fs k = Some z \<Longrightarrow> \<exists>v. oget es k = Some v \<and> built v (below (Key k) (leaves (JObj es))) z"
    by (elim built_objE) auto
  have "rel_option same (oget fs k) (oget es k)" for k
  proof (cases "oget fs k")
    case None
    with none [of k] regular_leaf regular_get [OF JObj.prems(1), of k] have "oget es k = None"
      by (auto simp: below_leaves split: option.splits)
    with None show ?thesis by simp
  next
    case (Some z)
    with some obtain v where v: "oget es k = Some v" "built v (leaves v) z" by (fastforce simp: below_leaves)
    then have "(k, v) \<in> set es" by (simp add: map_of_SomeD)
    with JObj.IH [of "(k, v)" v z] v regular_get [OF JObj.prems(1) v(1)] Some show ?thesis by simp
  qed
  with JObj.prems(1) x show ?case by (auto intro: same_obj)
qed (auto simp: leaves_scalar built_scalar_iff intro: same_scalar split: jnum.splits)

lemma value_at_ident: "regular v \<Longrightarrow> value_at v ts = Some y \<Longrightarrow> list_all ident_step ts"
proof (induction v ts rule: value_at.induct)
  case (2 es k ts)
  then obtain v where "oget es k = Some v" "value_at v ts = Some y" by (auto split: option.splits)
  with 2 regular_get [OF 2(2)] show ?case by (auto simp: ident_step_def)
next
  case (3 xs i ts)
  then have "i < length xs" "value_at (xs ! i) ts = Some y" by (auto split: if_splits)
  with 3 regular_nth [OF 3(2)] show ?case by (simp add: ident_step_def)
qed (auto simp: ident_step_def)

lemma ident_safe: "list_all ident_step ts \<Longrightarrow> list_all safe_step ts"
proof -
  have "\<not> ident_char CHR '']''" by (simp add: ident_char_def ident_start_def is_digit_def)
  then have "ident k \<Longrightarrow> safe_key k" for k by (auto simp: ident_def safe_key_def list_all_iff)
  then show "list_all ident_step ts \<Longrightarrow> ?thesis"
    by (auto simp: ident_step_def safe_step_def list_all_iff split: pstep.splits)
qed

lemma ptext_same:
  "regular v \<Longrightarrow> ts \<in> leaves v \<Longrightarrow> us \<in> leaves v \<Longrightarrow> ptext [] ts = ptext [] us \<longleftrightarrow> ts = us"
  using ptext_inj ident_safe value_at_ident by (auto simp: leaves_def)

text \<open>The field writes the scalar \<open>y\<close>: it is fixed to it, or exposed with the default \<open>y\<close>, not \<open>null\<close>.\<close>

definition writes :: "go_field \<Rightarrow> jsval \<Rightarrow> bool" where
  "writes f y \<longleftrightarrow> gf_mode f = ''fixed'' \<and> gf_value f = y
     \<or> gf_mode f = ''exposed'' \<and> y \<noteq> JNull \<and> (\<exists>s. gf_spec f = Some s \<and> ge_default s = y)"

definition entry_at :: "go_resource \<Rightarrow> string \<Rightarrow> go_entry \<Rightarrow> go_entry" where
  "entry_at r p s = s\<lparr>ge_path := gr_kind r @ ''['' @ gr_name r @ ''].'' @ p\<rparr>"

definition out_entries :: "go_resource \<Rightarrow> (string \<times> go_field) list \<Rightarrow> go_entry list" where
  "out_entries r fl = concat (map (\<lambda>(p, f). case gf_spec f of
     Some s \<Rightarrow> if gf_mode f = ''exposed'' then [entry_at r p s] else [] | None \<Rightarrow> []) fl)"

lemma out_entries_Cons: "out_entries r (e # fl) = out_entries r [e] @ out_entries r fl"
  by (simp add: out_entries_def)

lemma serialize_field_built:
  assumes v: "regular v" "value_at v ts = Some y" "scalar y" "built v ps x" "v = JObj es" and f: "writes f y"
  shows "\<exists>x'. serialize_field r (ptext [] ts, f) (x, acc) = Inr (x', acc @ out_entries r [(ptext [] ts, f)])
     \<and> built v (insert ts ps) x'"
proof -
  have ident: "list_all ident_step ts" using v(1,2) by (rule value_at_ident)
  obtain k us where ts: "ts = Key k # us"
    using v(2,3,5) by (cases ts; cases "hd ts") (auto split: if_splits)
  from set_segs_built [OF v(1-3) _ v(4)] ts obtain x' where x': "set_segs ts y x = Inr x'" "built v (insert ts ps) x'"
    by auto
  then have "setJSONPathAbsolute x (ptext [] ts) y = Inr x'"
    using path_segs_ptext [of k us] ident unfolding ts setJSONPathAbsolute_def by (simp del: ptext.simps)
  with f x'(2) show ?thesis
    by (auto simp: serialize_field_def writes_def out_entries_def entry_at_def Let_def split: option.split)
qed

lemma serialize_fields_built:
  assumes "regular v" and v: "v = JObj es"
  shows "\<forall>(p, f) \<in> set fl. \<exists>ts y. p = ptext [] ts \<and> value_at v ts = Some y \<and> scalar y \<and> writes f y \<Longrightarrow> built v ps x \<Longrightarrow>
     \<exists>x'. serialize_fields r fl (x, acc) = Inr (x', acc @ out_entries r fl)
       \<and> built v (ps \<union> {ts \<in> leaves v. ptext [] ts \<in> fst ` set fl}) x'"
proof (induction fl arbitrary: ps x acc)
  case Nil
  then show ?case by (simp add: out_entries_def)
next
  case (Cons e fl)
  from Cons.prems(1) obtain p f ts y where e: "e = (p, f)" "p = ptext [] ts" "value_at v ts = Some y" "scalar y" "writes f y"
    by (cases e) auto
  from serialize_field_built [OF assms(1) e(3,4) Cons.prems(2) v e(5)] obtain x' where
    x': "serialize_field r e (x, acc) = Inr (x', acc @ out_entries r [e])" "built v (insert ts ps) x'"
    unfolding e(1,2) by blast
  from Cons.prems(1) have "\<forall>(p, f) \<in> set fl. \<exists>ts y. p = ptext [] ts \<and> value_at v ts = Some y \<and> scalar y \<and> writes f y"
    by simp
  from Cons.IH [OF this x'(2)] obtain x'' where
    x'': "serialize_fields r fl (x', acc @ out_entries r [e]) = Inr (x'', (acc @ out_entries r [e]) @ out_entries r fl)"
      "built v (insert ts ps \<union> {ts \<in> leaves v. ptext [] ts \<in> fst ` set fl}) x''" by fastforce
  have leaf: "ts \<in> leaves v" using e(3,4) by (auto simp: leaves_def)
  have "insert ts ps \<union> {ts \<in> leaves v. ptext [] ts \<in> fst ` set fl} = ps \<union> {ts \<in> leaves v. ptext [] ts \<in> fst ` set (e # fl)}"
    using e(1,2) leaf by (auto simp: ptext_same [OF assms(1) _ leaf])
  with x' x'' show ?case by (simp add: out_entries_Cons [of r e fl])
qed

section \<open>Documents and the state that shows them\<close>

definition has_header :: "(string \<times> jsval) list \<Rightarrow> string \<Rightarrow> string \<Rightarrow> string \<Rightarrow> bool" where
  "has_header es a k n \<longleftrightarrow> oget es ''apiVersion'' = Some (JStr a) \<and> oget es ''kind'' = Some (JStr k)
     \<and> (\<exists>ms. oget es ''metadata'' = Some (JObj ms) \<and> oget ms ''name'' = Some (JStr n)) \<and> a \<noteq> [] \<and> k \<noteq> [] \<and> n \<noteq> []"

definition header_positions :: "pstep list set" where
  "header_positions = {[Key ''apiVersion''], [Key ''kind''], [Key ''metadata'', Key ''name'']}"

lemma oget_map_strip: "oget (map strip_entry es) k = map_option (\<lambda>v. snd (strip_entry (k, v))) (oget es k)"
  by (induction es) (auto simp: strip_entry_def)

lemma oget_filter_keys: "oget (filter (\<lambda>e. P (fst e)) es) k = (if P k then oget es k else None)"
  by (induction es) auto

lemma oget_strip: "oget (strip_doc es) k = (if k = ''apiVersion'' \<or> k = ''kind'' then None
    else map_option (\<lambda>v. snd (strip_entry (k, v))) (oget es k))"
  unfolding strip_doc_def oget_map_strip
  using oget_filter_keys [of "\<lambda>k. k \<noteq> ''apiVersion'' \<and> k \<noteq> ''kind''" es k] by auto

lemma value_at_strip:
  assumes "has_header es a k n"
  shows "value_at (JObj (strip_doc es)) ts = Some y \<and> scalar y \<longleftrightarrow>
     value_at (JObj es) ts = Some y \<and> scalar y \<and> ts \<notin> header_positions"
proof -
  from assms obtain ms where h: "oget es ''apiVersion'' = Some (JStr a)" "oget es ''kind'' = Some (JStr k)"
    "oget es ''metadata'' = Some (JObj ms)" "oget ms ''name'' = Some (JStr n)" by (auto simp: has_header_def)
  show ?thesis
  proof (cases ts)
    case (Cons t us)
    show ?thesis
    proof (cases t)
      case (Key j)
      show ?thesis
      proof (cases "j = ''metadata''")
        case True
        then show ?thesis using h Cons Key
          by (cases us; cases "hd us")
            (auto simp: oget_strip strip_entry_def header_positions_def oget_filter_keys [of "\<lambda>k. k \<noteq> ''name''"] split: if_splits)
      next
        case False
        then show ?thesis using h Cons Key
          by (auto simp: oget_strip strip_entry_def header_positions_def split: option.splits)
      qed
    qed (simp add: Cons)
  qed auto
qed

lemma leaves_header:
  assumes "has_header es a k n"
  shows "leaves (JObj es) = header_positions \<union> leaves (JObj (strip_doc es))"
proof -
  have "header_positions \<subseteq> leaves (JObj es)" using assms by (auto simp: has_header_def header_positions_def leaves_def)
  with value_at_strip [OF assms] show ?thesis by (auto simp: leaves_def)
qed

lemma resource_doc_built:
  assumes "has_header es (gr_apiVersion r) (gr_kind r) (gr_name r)"
  shows "built (JObj es) header_positions (resource_doc r)"
proof -
  have b: "below (Key j) header_positions = (if j = ''apiVersion'' \<or> j = ''kind'' then {[]} else if j = ''metadata'' then {[Key ''name'']} else {})" for j
    by (auto simp: below_def header_positions_def)
  have c: "below (Key j) {[Key ''name'']} = (if j = ''name'' then {[]} else {})" for j
    by (auto simp: below_def)
  from assms obtain ms where h: "oget es ''apiVersion'' = Some (JStr (gr_apiVersion r))" "oget es ''kind'' = Some (JStr (gr_kind r))"
    "oget es ''metadata'' = Some (JObj ms)" "oget ms ''name'' = Some (JStr (gr_name r))" by (auto simp: has_header_def)
  have "built (JObj ms) {[Key ''name'']} (JObj [(''name'', JStr (gr_name r))])"
    using h(4) by (intro built_obj) (auto simp: c obj_ok_def built_scalar_iff)
  with h show ?thesis unfolding resource_doc_def
    by (intro built_obj) (auto simp: b obj_ok_def built_scalar_iff header_positions_def split: if_splits)
qed

text \<open>The fields of the state are the scalars of the document: fixed to their value, or exposed with it as the default.\<close>

definition shows_scalar :: "jsval \<Rightarrow> ui_field \<Rightarrow> bool" where
  "shows_scalar y f \<longleftrightarrow> (case f of UFixed z \<Rightarrow> z = y | UExposed e \<Rightarrow> y \<noteq> JNull \<and> e_default e = Some y)"

definition shows_doc :: "(string \<times> jsval) list \<Rightarrow> ui_resource \<Rightarrow> bool" where
  "shows_doc es u \<longleftrightarrow> has_header es (r_apiVersion u) (r_kind u) (r_name u)
     \<and> fst ` set (r_fields u) = ptext [] ` leaves (JObj (strip_doc es))
     \<and> (\<forall>(p, f) \<in> set (r_fields u). \<exists>ts y. p = ptext [] ts \<and> value_at (JObj (strip_doc es)) ts = Some y \<and> scalar y \<and> shows_scalar y f)"

lemma decodes_fields:
  assumes "decodes_to u r"
  shows "fst ` set (gr_fields r) = fst ` set (r_fields u)"
    and "(p, f) \<in> set (gr_fields r) \<Longrightarrow> \<exists>g. (p, g) \<in> set (r_fields u) \<and> go_field_of g = Some f"
proof -
  have eq: "(\<lambda>e. (fst e, Some (snd e))) ` set (gr_fields r) = (\<lambda>e. (fst e, go_field_of (snd e))) ` set (r_fields u)"
    using arg_cong [of _ _ set_mset, OF assms [unfolded decodes_to_def, THEN conjunct2, THEN conjunct2, THEN conjunct2]] by simp
  from arg_cong [OF this, of "image fst"] show "fst ` set (gr_fields r) = fst ` set (r_fields u)"
    by (simp add: image_image)
  assume "(p, f) \<in> set (gr_fields r)"
  then have "(p, Some f) \<in> (\<lambda>e. (fst e, go_field_of (snd e))) ` set (r_fields u)" unfolding eq [symmetric] by force
  then show "\<exists>g. (p, g) \<in> set (r_fields u) \<and> go_field_of g = Some f" by auto
qed

lemma value_at_regular: "regular v \<Longrightarrow> value_at v ts = Some y \<Longrightarrow> regular y"
proof (induction v ts rule: value_at.induct)
  case (2 es k ts)
  then obtain v where "oget es k = Some v" "value_at v ts = Some y" by (auto split: option.splits)
  with 2 regular_get [OF 2(2)] show ?case by blast
next
  case (3 xs i ts)
  then have "i < length xs" "value_at (xs ! i) ts = Some y" by (auto split: if_splits)
  with 3 regular_nth [OF 3(2)] show ?case by blast
qed simp_all

lemma shows_writes:
  assumes "shows_scalar y g" and "scalar y" and "regular y" and "go_field_of g = Some f"
  shows "writes f y"
proof -
  have "json_value y = y" using assms(2,3) by (cases y) (auto split: jnum.splits)
  with assms show ?thesis
    by (auto simp: writes_def shows_scalar_def go_field_of_def go_entry_of_def split: ui_field.splits option.splits prod.splits)
qed

lemma serialize_doc:
  assumes "regular (JObj es)" and "shows_doc es u" and "decodes_to u r"
  shows "\<exists>d. serialize_fields r (gr_fields r) (resource_doc r, acc) = Inr (d, acc @ out_entries r (gr_fields r))
    \<and> same d (JObj es)"
proof -
  from assms(2,3) have h: "has_header es (gr_apiVersion r) (gr_kind r) (gr_name r)"
    by (simp add: shows_doc_def decodes_to_def)
  have "\<exists>ts y. p = ptext [] ts \<and> value_at (JObj es) ts = Some y \<and> scalar y \<and> writes f y" if "(p, f) \<in> set (gr_fields r)" for p f
  proof -
    from decodes_fields(2) [OF assms(3) that] obtain g where g: "(p, g) \<in> set (r_fields u)" "go_field_of g = Some f" by blast
    from assms(2) g(1) obtain ts y where y: "p = ptext [] ts" "value_at (JObj (strip_doc es)) ts = Some y" "scalar y" "shows_scalar y g"
      unfolding shows_doc_def by blast
    have "value_at (JObj es) ts = Some y" using y(2,3) value_at_strip [OF h] by blast
    with y g(2) value_at_regular [OF assms(1)] shows_writes show ?thesis by blast
  qed
  from serialize_fields_built [OF assms(1) refl _ resource_doc_built [OF h], of "gr_fields r" r acc] this obtain d where
    d: "serialize_fields r (gr_fields r) (resource_doc r, acc) = Inr (d, acc @ out_entries r (gr_fields r))"
      "built (JObj es) (header_positions \<union> {ts \<in> leaves (JObj es). ptext [] ts \<in> fst ` set (gr_fields r)}) d" by blast
  have "fst ` set (gr_fields r) = ptext [] ` leaves (JObj (strip_doc es))"
    using decodes_fields(1) [OF assms(3)] assms(2) by (simp add: shows_doc_def)
  then have "header_positions \<union> {ts \<in> leaves (JObj es). ptext [] ts \<in> fst ` set (gr_fields r)} = leaves (JObj es)"
    using leaves_header [OF h] by auto
  with d built_same [OF assms(1)] show ?thesis by auto
qed

lemma serialize_docs:
  "list_all (\<lambda>es. regular (JObj es)) ess \<Longrightarrow> list_all2 shows_doc ess us \<Longrightarrow> list_all2 decodes_to us rs \<Longrightarrow>
   \<exists>ds. serialize_resources rs (ds0, acc) = Inr (ds0 @ ds, acc @ concat (map (\<lambda>r. out_entries r (gr_fields r)) rs))
     \<and> list_all2 same ds (map JObj ess)"
proof (induction ess arbitrary: us rs ds0 acc)
  case (Cons es ess)
  then obtain u us' r rs' where l: "us = u # us'" "rs = r # rs'" by (auto simp: list_all2_Cons1)
  with Cons.prems have r: "regular (JObj es)" "shows_doc es u" "decodes_to u r" by auto
  then have "gr_apiVersion r \<noteq> []" "gr_kind r \<noteq> []" "gr_name r \<noteq> []"
    by (auto simp: shows_doc_def has_header_def decodes_to_def)
  moreover from serialize_doc [OF r] obtain d where
    "serialize_fields r (gr_fields r) (resource_doc r, acc) = Inr (d, acc @ out_entries r (gr_fields r))" "same d (JObj es)" by blast
  moreover from Cons.IH [of us' rs' "ds0 @ [d]" "acc @ out_entries r (gr_fields r)"] Cons.prems l obtain ds where
    "serialize_resources rs' (ds0 @ [d], acc @ out_entries r (gr_fields r)) =
       Inr ((ds0 @ [d]) @ ds, (acc @ out_entries r (gr_fields r)) @ concat (map (\<lambda>r. out_entries r (gr_fields r)) rs'))"
    "list_all2 same ds (map JObj ess)" by auto
  ultimately show ?case using l by (intro exI [of _ "d # ds"]) simp
qed simp

section \<open>The conversion shows its documents\<close>

definition template_doc :: "(string \<times> jsval) list \<Rightarrow> bool" where
  "template_doc es \<longleftrightarrow> regular (JObj es) \<and> (\<exists>a k n. has_header es a k n)"

lemma regular_plain: "regular v \<Longrightarrow> plain v"
proof (induction v)
  case (JObj es)
  have "ident k \<Longrightarrow> safe_key k" for k using ident_safe [of "[Key k]"] by (simp add: ident_step_def safe_step_def)
  with JObj show ?case by (fastforce simp: list_all_iff)
qed (auto simp: list_all_iff intro: plain_scalar)

lemma convert_shows:
  assumes "template_doc es"
  shows "\<exists>u. convert_doc (us, ws) (DocValue (JObj es)) = (us @ [u], ws) \<and> shows_doc es u \<and> (\<forall>p e. (p, UExposed e) \<notin> set (r_fields u))"
proof -
  from assms obtain a k n where h: "has_header es a k n" and reg: "regular (JObj es)" by (auto simp: template_doc_def)
  then obtain ms where ms: "oget es ''metadata'' = Some (JObj ms)" "oget ms ''name'' = Some (JStr n)" by (auto simp: has_header_def)
  define fl where "fl = ospread [] (fixed_at [] (positions (JObj (strip_doc es))))"
  have conv: "convert_doc (us, ws) (DocValue (JObj es)) =
      (us @ [\<lparr>r_apiVersion = a, r_kind = k, r_name = n, r_fields = fl\<rparr>], ws)" and pl: "plain (JObj (strip_doc es))"
    using convert_positions [OF regular_plain [OF reg] _ _ ms] h by (auto simp: has_header_def fl_def)
  have fields: "(p, f) \<in> set fl \<longleftrightarrow>
      (\<exists>ts y. p = ptext [] ts \<and> value_at (JObj (strip_doc es)) ts = Some y \<and> scalar y \<and> f = UFixed y)" for p f
    unfolding oget_fixed_positions [OF pl, of p f, symmetric] fl_def
    using obj_ok_ospread [OF obj_ok_Nil] unfolding obj_ok_def by (metis map_of_eq_Some_iff)
  have "p \<in> fst ` set fl \<longleftrightarrow> p \<in> ptext [] ` leaves (JObj (strip_doc es))" for p
    unfolding image_iff Bex_def leaves_def split_paired_Ex fields by auto
  then have "fst ` set fl = ptext [] ` leaves (JObj (strip_doc es))" by blast
  moreover have "\<forall>(p, f) \<in> set fl. \<exists>ts y. p = ptext [] ts \<and> value_at (JObj (strip_doc es)) ts = Some y \<and> scalar y \<and> shows_scalar y f"
    by (clarsimp simp: fields shows_scalar_def) blast
  ultimately have "shows_doc es \<lparr>r_apiVersion = a, r_kind = k, r_name = n, r_fields = fl\<rparr>"
    using h by (simp add: shows_doc_def)
  moreover have "(p, UExposed e) \<notin> set fl" for p e by (simp add: fields)
  ultimately show ?thesis using conv
    by (intro exI [of _ "\<lparr>r_apiVersion = a, r_kind = k, r_name = n, r_fields = fl\<rparr>"]) simp
qed

lemma converts_show:
  "list_all template_doc ess \<Longrightarrow>
     \<exists>vs. foldl convert_doc (us, ws) (map (\<lambda>es. DocValue (JObj es)) ess) = (us @ vs, ws) \<and> list_all2 shows_doc ess vs
       \<and> (\<forall>u \<in> set vs. \<forall>p e. (p, UExposed e) \<notin> set (r_fields u))"
proof (induction ess arbitrary: us)
  case (Cons es ess)
  then obtain u where "convert_doc (us, ws) (DocValue (JObj es)) = (us @ [u], ws)" "shows_doc es u"
      "\<forall>p e. (p, UExposed e) \<notin> set (r_fields u)"
    using convert_shows by force
  with Cons.IH [of "us @ [u]"] Cons.prems show ?case by (auto intro: exI [of _ "u # _"])
qed simp

section \<open>Exposed fields\<close>

text \<open>The entry names a field of one of the documents, and its default is the value there.\<close>

definition exposes :: "(string \<times> jsval) list list \<Rightarrow> ui_entry \<Rightarrow> bool" where
  "exposes ess e \<longleftrightarrow> (\<exists>k n sub. parse_spec_path (e_path e) = Some (k, n, sub)
     \<and> (\<exists>es \<in> set ess. \<exists>a. has_header es a k n)
     \<and> (\<forall>es \<in> set ess. \<forall>a. has_header es a k n \<longrightarrow> (\<exists>ts y. sub = ptext [] ts
          \<and> value_at (JObj (strip_doc es)) ts = Some y \<and> scalar y \<and> y \<noteq> JNull \<and> e_default e = Some y)))"

lemma parse_spec_path_text:
  assumes "parse_spec_path s = Some (k, n, sub)"
  shows "s = k @ ''['' @ n @ ''].'' @ sub"
proof -
  define t where "t = dropWhile is_word_char s"
  define w where "w = dropWhile (\<lambda>c. c \<noteq> CHR '']'') (drop 1 t)"
  from assms have p: "k = takeWhile is_word_char s" "take 1 t = ''[''" "n = takeWhile (\<lambda>c. c \<noteq> CHR '']'') (drop 1 t)"
    "take 2 w = ''].''" "sub = drop 2 w"
    by (auto simp: parse_spec_path_def Let_def t_def w_def split: if_splits)
  have "s = k @ t" by (simp add: p(1) t_def)
  moreover have "t = ''['' @ drop 1 t" using append_take_drop_id [of 1 t] p(2) by (simp only:)
  moreover have "drop 1 t = n @ w" by (simp add: p(3) w_def)
  moreover have "w = ''].'' @ sub" using append_take_drop_id [of 2 w] p(4,5) by (simp only:)
  ultimately show ?thesis by (metis append_assoc)
qed

lemma parse_spec_path_inj:
  "parse_spec_path s = Some x \<Longrightarrow> parse_spec_path t = Some x \<Longrightarrow> s = t"
  using parse_spec_path_text by (cases x) metis

lemma set_oset: "(p, f) \<in> set (oset es k v) \<Longrightarrow> (p, f) = (k, v) \<or> (p, f) \<in> set es"
  by (induction es k v rule: oset.induct) (auto split: if_splits)

lemma set_oset_keeps: "(p, f) \<in> set es \<Longrightarrow> p \<noteq> k \<Longrightarrow> (p, f) \<in> set (oset es k v)"
  by (induction es k v rule: oset.induct) auto

lemma set_oset_new: "(k, v) \<in> set (oset es k v)"
  by (induction es k v rule: oset.induct) auto

lemma expose_shows:
  assumes "shows_doc es u" and "is_resource k n u" and "parse_spec_path (e_path e) = Some (k, n, sub)" and "exposes ess e" and "es \<in> set ess"
  shows "shows_doc es (expose sub e u)"
proof -
  from assms(1,2) have "has_header es (r_apiVersion u) k n" by (auto simp: shows_doc_def is_resource_def)
  with assms(3-5) obtain ts y where y: "sub = ptext [] ts" "value_at (JObj (strip_doc es)) ts = Some y" "scalar y" "y \<noteq> JNull"
    "e_default e = Some y" by (auto simp: exposes_def)
  then have "sub \<in> ptext [] ` leaves (JObj (strip_doc es))" by (auto simp: leaves_def)
  moreover have "\<exists>ts y. p = ptext [] ts \<and> value_at (JObj (strip_doc es)) ts = Some y \<and> scalar y \<and> shows_scalar y f"
    if "(p, f) \<in> set (oset (r_fields u) sub (UExposed e))" for p f
    using set_oset [OF that] y assms(1) by (auto simp: shows_doc_def shows_scalar_def)
  ultimately show ?thesis using assms(1) by (auto simp: shows_doc_def expose_def)
qed

text \<open>The exposed fields of the resources are the entries of \<open>E\<close>, each under the path it names.\<close>

definition exposed_are :: "ui_entry set \<Rightarrow> ui_resource list \<Rightarrow> bool" where
  "exposed_are E us \<longleftrightarrow>
     (\<forall>u \<in> set us. \<forall>p e. (p, UExposed e) \<in> set (r_fields u) \<longrightarrow> e \<in> E \<and> parse_spec_path (e_path e) = Some (r_kind u, r_name u, p))
     \<and> (\<forall>e \<in> E. \<exists>u \<in> set us. \<exists>p. (p, UExposed e) \<in> set (r_fields u))"

lemma set_update_first:
  "y \<in> set (update_first P f xs) \<Longrightarrow> y \<in> set xs \<or> (\<exists>x \<in> set xs. P x \<and> y = f x)"
  by (induction xs) (auto split: if_splits)

lemma update_first_keeps: "x \<in> set xs \<Longrightarrow> x \<in> set (update_first P f xs) \<or> P x \<and> f x \<in> set (update_first P f xs)"
  by (induction xs) auto

lemma update_first_hits: "list_ex P xs \<Longrightarrow> \<exists>x \<in> set xs. P x \<and> f x \<in> set (update_first P f xs)"
  by (induction xs) auto

lemma expose_exposed:
  assumes "exposed_are E us" and "parse_spec_path (e_path e) = Some (k, n, sub)" and "list_ex (is_resource k n) us"
    and "e_path e \<notin> e_path ` E"
  shows "exposed_are (insert e E) (update_first (is_resource k n) (expose sub e) us)"
proof -
  let ?us = "update_first (is_resource k n) (expose sub e) us"
  have old: "g \<in> insert e E \<and> parse_spec_path (e_path g) = Some (r_kind u, r_name u, p)"
    if "u \<in> set ?us" "(p, UExposed g) \<in> set (r_fields u)" for u p g
    using set_update_first [OF that(1)]
  proof (elim disjE bexE conjE)
    assume "u \<in> set us" with assms(1) that(2) show ?thesis by (auto simp: exposed_are_def)
  next
    fix x assume x: "x \<in> set us" "is_resource k n x" "u = expose sub e x"
    with that(2) have "(p, UExposed g) = (sub, UExposed e) \<or> (p, UExposed g) \<in> set (r_fields x)"
      by (intro set_oset) (simp add: expose_def)
    with x assms(1,2) show ?thesis by (auto simp: exposed_are_def is_resource_def expose_def)
  qed
  have keep: "\<exists>u \<in> set ?us. \<exists>p. (p, UExposed g) \<in> set (r_fields u)" if g: "g \<in> E" for g
  proof -
    from assms(1) g obtain u p where u: "u \<in> set us" "(p, UExposed g) \<in> set (r_fields u)" by (auto simp: exposed_are_def)
    have "(p, UExposed g) \<in> set (r_fields (expose sub e u))" if "is_resource k n u"
    proof -
      have "parse_spec_path (e_path g) = Some (k, n, p)"
        using assms(1) u that by (auto simp: exposed_are_def is_resource_def)
      with assms(2,4) g parse_spec_path_inj have "p \<noteq> sub" by blast
      with u(2) show ?thesis by (simp add: expose_def set_oset_keeps)
    qed
    with update_first_keeps [OF u(1), of "is_resource k n" "expose sub e"] u(2) show ?thesis by blast
  qed
  from update_first_hits [OF assms(3), of "expose sub e"] obtain x where "expose sub e x \<in> set ?us" by blast
  moreover have "(sub, UExposed e) \<in> set (r_fields (expose sub e x))" by (simp add: expose_def set_oset_new)
  ultimately have "\<exists>u \<in> set ?us. \<exists>p. (p, UExposed e) \<in> set (r_fields u)" by blast
  with old keep show ?thesis by (simp add: exposed_are_def)
qed

lemma list_all2_update_first:
  "list_all2 P xs ys \<Longrightarrow> (\<And>x y. x \<in> set xs \<Longrightarrow> P x y \<Longrightarrow> Q y \<Longrightarrow> P x (f y)) \<Longrightarrow> list_all2 P xs (update_first Q f ys)"
proof (induction ys arbitrary: xs)
  case (Cons y ys)
  then show ?case by (auto simp: list_all2_Cons2)
qed simp

lemma shows_resource:
  "list_all2 shows_doc ess us \<Longrightarrow> es \<in> set ess \<Longrightarrow> has_header es a k n \<Longrightarrow> list_ex (is_resource k n) us"
proof (induction ess us rule: list_all2_induct)
  case (Cons x xs y ys)
  then show ?case by (auto simp: shows_doc_def has_header_def is_resource_def)
qed simp

lemma entries_exposed:
  "list_all2 shows_doc ess us \<Longrightarrow> exposed_are E us \<Longrightarrow> list_all (exposes ess) entries \<Longrightarrow> distinct (map e_path entries) \<Longrightarrow>
     e_path ` E \<inter> e_path ` set entries = {} \<Longrightarrow>
     (\<exists>vs. foldl apply_entry (us, ws) entries = (vs, ws) \<and> list_all2 shows_doc ess vs \<and> exposed_are (E \<union> set entries) vs)"
proof (induction entries arbitrary: us E)
  case (Cons e entries)
  from Cons.prems(3) have e: "exposes ess e" by simp
  then obtain k n sub where p: "parse_spec_path (e_path e) = Some (k, n, sub)" and ex: "list_ex (is_resource k n) us"
    using shows_resource [OF Cons.prems(1)] by (auto simp: exposes_def)
  define vs where "vs = update_first (is_resource k n) (expose sub e) us"
  have "apply_entry (us, ws) e = (vs, ws)" using p ex by (simp add: apply_entry_def vs_def)
  moreover have "list_all2 shows_doc ess vs"
    unfolding vs_def using Cons.prems(1) by (rule list_all2_update_first) (rule expose_shows [OF _ _ p e])
  moreover have "exposed_are (insert e E) vs"
    unfolding vs_def using expose_exposed [OF Cons.prems(2) p ex] Cons.prems(5) by auto
  ultimately show ?case using Cons.IH [of vs "insert e E"] Cons.prems by auto
qed simp

lemma in_out_entries:
  "g \<in> set (out_entries r fl) \<longleftrightarrow> (\<exists>p f s. (p, f) \<in> set fl \<and> gf_spec f = Some s \<and> gf_mode f = ''exposed'' \<and> g = entry_at r p s)"
proof -
  have one: "g \<in> set (case e of (p, f) \<Rightarrow> case gf_spec f of Some s \<Rightarrow> if gf_mode f = ''exposed'' then [entry_at r p s] else [] | None \<Rightarrow> [])
      \<longleftrightarrow> (\<exists>s. gf_spec (snd e) = Some s \<and> gf_mode (snd e) = ''exposed'' \<and> g = entry_at r (fst e) s)" for e
    by (cases e; cases "gf_spec (snd e)") auto
  show ?thesis unfolding out_entries_def set_concat set_map UN_iff bex_simps one Bex_def split_paired_Ex by simp metis
qed

lemma decodes_fields_onto:
  assumes "decodes_to u r" and "(p, g) \<in> set (r_fields u)"
  shows "\<exists>f. (p, f) \<in> set (gr_fields r) \<and> go_field_of g = Some f"
proof -
  have "(\<lambda>e. (fst e, Some (snd e))) ` set (gr_fields r) = (\<lambda>e. (fst e, go_field_of (snd e))) ` set (r_fields u)"
    using arg_cong [of _ _ set_mset, OF assms(1) [unfolded decodes_to_def, THEN conjunct2, THEN conjunct2, THEN conjunct2]] by simp
  moreover have "(p, go_field_of g) \<in> (\<lambda>e. (fst e, go_field_of (snd e))) ` set (r_fields u)"
    using assms(2) by (rule rev_image_eqI) simp
  ultimately have "(p, go_field_of g) \<in> (\<lambda>e. (fst e, Some (snd e))) ` set (gr_fields r)" by (simp only:)
  then obtain e where "e \<in> set (gr_fields r)" "(p, go_field_of g) = (fst e, Some (snd e))" by (rule imageE)
  then show ?thesis by (intro exI [of _ "snd e"]) simp
qed

lemma go_entry_of_path: "go_entry_of e = Some s \<Longrightarrow> ge_path s = e_path e"
  by (auto simp: go_entry_of_def split: option.splits prod.splits)

lemma exposed_field: "go_field_of g = Some f \<Longrightarrow> gf_mode f = ''exposed'' \<longleftrightarrow> (\<exists>e. g = UExposed e)"
  "go_field_of (UExposed e) = Some f \<Longrightarrow> \<exists>s. gf_spec f = Some s \<and> go_entry_of e = Some s"
  by (auto simp: go_field_of_def split: ui_field.splits)

lemma entry_at_exposed:
  assumes "parse_spec_path (e_path e) = Some (gr_kind r, gr_name r, p)" and "go_entry_of e = Some s"
  shows "entry_at r p s = s"
  using parse_spec_path_text [OF assms(1)] go_entry_of_path [OF assms(2)] by (cases s) (simp add: entry_at_def)

lemma resource_entries:
  assumes "decodes_to u r"
    and "\<And>p e. (p, UExposed e) \<in> set (r_fields u) \<Longrightarrow> parse_spec_path (e_path e) = Some (r_kind u, r_name u, p)"
  shows "g \<in> set (out_entries r (gr_fields r)) \<longleftrightarrow> (\<exists>p e. (p, UExposed e) \<in> set (r_fields u) \<and> go_entry_of e = Some g)"
proof
  assume "g \<in> set (out_entries r (gr_fields r))"
  then obtain p f s where f: "(p, f) \<in> set (gr_fields r)" "gf_spec f = Some s" "gf_mode f = ''exposed''" "g = entry_at r p s"
    by (auto simp: in_out_entries)
  with decodes_fields(2) [OF assms(1) f(1)] exposed_field obtain e where
    e: "(p, UExposed e) \<in> set (r_fields u)" "go_entry_of e = Some s" by fastforce
  then have "entry_at r p s = s" using assms by (intro entry_at_exposed) (auto simp: decodes_to_def)
  with e f(4) show "\<exists>p e. (p, UExposed e) \<in> set (r_fields u) \<and> go_entry_of e = Some g" by auto
next
  assume "\<exists>p e. (p, UExposed e) \<in> set (r_fields u) \<and> go_entry_of e = Some g"
  then obtain p e where e: "(p, UExposed e) \<in> set (r_fields u)" "go_entry_of e = Some g" by blast
  with decodes_fields_onto [OF assms(1) e(1)] exposed_field obtain f where
    f: "(p, f) \<in> set (gr_fields r)" "gf_spec f = Some g" "gf_mode f = ''exposed''" by fastforce
  moreover have "entry_at r p g = g" using assms e by (intro entry_at_exposed) (auto simp: decodes_to_def)
  ultimately show "g \<in> set (out_entries r (gr_fields r))" unfolding in_out_entries by metis
qed

lemma all_entries:
  assumes "list_all2 decodes_to us rs"
    and "\<forall>u \<in> set us. \<forall>p e. (p, UExposed e) \<in> set (r_fields u) \<longrightarrow> parse_spec_path (e_path e) = Some (r_kind u, r_name u, p)"
  shows "g \<in> set (concat (map (\<lambda>r. out_entries r (gr_fields r)) rs)) \<longleftrightarrow>
     (\<exists>u \<in> set us. \<exists>p e. (p, UExposed e) \<in> set (r_fields u) \<and> go_entry_of e = Some g)"
  using assms
proof (induction us rs rule: list_all2_induct)
  case (Cons u us r rs)
  then show ?case using resource_entries [of u r g] by auto
qed simp

lemma loaded_state:
  assumes "list_all template_doc ess" and "list_all (exposes ess) entries" and "distinct (map e_path entries)"
    and "yamlToUIState (map (\<lambda>es. DocValue (JObj es)) ess) (Inr (Some entries)) = (us, ws)"
  shows "ws = [] \<and> list_all2 shows_doc ess us \<and> exposed_are (set entries) us"
proof -
  from converts_show [OF assms(1), of "[]" "[]"] obtain vs where
    conv: "foldl convert_doc ([], []) (map (\<lambda>es. DocValue (JObj es)) ess) = (vs, [])"
    and vs: "list_all2 shows_doc ess vs" "\<forall>u \<in> set vs. \<forall>p e. (p, UExposed e) \<notin> set (r_fields u)" by auto
  from vs(2) have "exposed_are {} vs" by (simp add: exposed_are_def)
  from entries_exposed [OF vs(1) this assms(2,3), of "[]"] assms(4) show ?thesis
    by (auto simp: yamlToUIState_def conv)
qed

lemma saved_template:
  assumes "list_all template_doc ess" and "list_all (exposes ess) entries" and "distinct (map e_path entries)"
    and "yamlToUIState (map (\<lambda>es. DocValue (JObj es)) ess) (Inr (Some entries)) = (us, ws)" and "list_all2 decodes_to us rs"
  shows "ws = [] \<and> (\<exists>ds out. SerializeUIMode rs = Inr (ds, out) \<and> list_all2 same ds (map JObj ess)
    \<and> (\<forall>g. g \<in> set out \<longleftrightarrow> (\<exists>e \<in> set entries. go_entry_of e = Some g)))"
proof -
  from loaded_state [OF assms(1-4)] have st: "ws = []" "list_all2 shows_doc ess us" "exposed_are (set entries) us" by simp_all
  moreover have "list_all (\<lambda>es. regular (JObj es)) ess" using assms(1) by (simp add: list_all_iff template_doc_def)
  moreover from st(3) have
    "g \<in> set (concat (map (\<lambda>r. out_entries r (gr_fields r)) rs)) \<longleftrightarrow> (\<exists>e \<in> set entries. go_entry_of e = Some g)" for g
    using all_entries [OF assms(5), of g] unfolding exposed_are_def by blast
  ultimately show ?thesis
    using serialize_docs [of ess us rs "[]" "[]"] assms(5) by (auto simp: SerializeUIMode_def)
qed

lemma saved_decodes:
  assumes "list_all template_doc ess" and "list_all (exposes ess) entries" and "distinct (map e_path entries)"
    and "yamlToUIState (map (\<lambda>es. DocValue (JObj es)) ess) (Inr (Some entries)) = (us, ws)" and "list_all2 decodes_to us rs" and "e \<in> set entries"
  shows "\<exists>g. go_entry_of e = Some g"
proof -
  from loaded_state [OF assms(1-4)] assms(6) obtain u p where u: "u \<in> set us" "(p, UExposed e) \<in> set (r_fields u)"
    unfolding exposed_are_def by blast
  from assms(5) u(1) obtain r where "decodes_to u r" by (auto simp: list_all2_conv_all_nth in_set_conv_nth)
  from decodes_fields_onto [OF this u(2)] exposed_field(2) show ?thesis by blast
qed

text \<open>An entry that is loaded again after the API has stored it: what is empty, false or missing is left out of the YAML. Beside an
  entry as it was: without the lengths and the placeholder, which the API does not know, and without bounds that are not finite.\<close>

definition stored_entry :: "go_entry \<Rightarrow> ui_entry" where
  "stored_entry g = \<lparr>e_path = ge_path g, e_label = ge_label g, e_help = (if ge_help g = [] then None else Some (ge_help g)), e_type = ge_type g,
     e_min = map_option (Num \<circ> of_int) (ge_min g), e_max = map_option (Num \<circ> of_int) (ge_max g),
     e_pattern = (if ge_pattern g = [] then None else Some (ge_pattern g)), e_values = (if ge_values g = [] then None else Some (ge_values g)),
     e_default = (if ge_default g = JNull then None else Some (ge_default g)), e_required = (if ge_required g then Some True else None),
     e_minLength = None, e_maxLength = None, e_placeholder = None\<rparr>"

definition finite_bound :: "jnum option \<Rightarrow> jnum option" where
  "finite_bound n = (case n of Some (Num q) \<Rightarrow> Some (Num q) | _ \<Rightarrow> None)"

definition trimmed_entry :: "ui_entry \<Rightarrow> ui_entry" where
  "trimmed_entry e = e\<lparr>e_help := (if e_help e = Some [] then None else e_help e), e_min := finite_bound (e_min e), e_max := finite_bound (e_max e),
     e_pattern := (if e_pattern e = Some [] then None else e_pattern e), e_values := (if e_values e = Some [] then None else e_values e),
     e_required := (if e_required e = Some False then None else e_required e),
     e_minLength := None, e_maxLength := None, e_placeholder := None\<rparr>"

lemma json_int_bound: "json_int n = Some m \<Longrightarrow> map_option (Num \<circ> of_int) m = finite_bound n"
  by (auto simp: json_int_def finite_bound_def split: option.splits jnum.splits if_splits)

lemma stored_trimmed:
  assumes "go_entry_of e = Some g" and "e_default e = Some y" and "scalar y" and "regular y" and "y \<noteq> JNull"
  shows "stored_entry g = trimmed_entry e"
proof -
  have y: "json_value y = y" using assms(3,4) by (cases y) (auto split: jnum.splits)
  obtain mn mx where m: "json_int (e_min e) = Some mn" "json_int (e_max e) = Some mx"
    using assms(1) by (auto simp: go_entry_of_def split: option.splits)
  have g: "g = \<lparr>ge_path = e_path e, ge_label = e_label e, ge_help = nullish (e_help e) [], ge_type = e_type e,
        ge_min = mn, ge_max = mx, ge_pattern = nullish (e_pattern e) [], ge_values = nullish (e_values e) [],
        ge_default = y, ge_required = nullish (e_required e) False\<rparr>"
    using assms(1,2) y m by (simp add: go_entry_of_def)
  have text_kept: "(if nullish t [] = [] then None else Some (nullish t [])) = (if t = Some [] then None else t)" for t :: "'x list option"
    by (cases t) auto
  have flag_kept: "(if nullish r False then Some True else None) = (if r = Some False then None else r)" for r
    by (cases r) auto
  show ?thesis
    unfolding stored_entry_def trimmed_entry_def g go_entry.simps text_kept flag_kept
    by (rule ui_entry.equality) (simp_all add: json_int_bound [OF m(1)] json_int_bound [OF m(2)] assms(2,5))
qed

lemma exposes_default:
  assumes "exposes ess e" and "list_all template_doc ess"
  shows "\<exists>y. e_default e = Some y \<and> scalar y \<and> regular y \<and> y \<noteq> JNull"
proof -
  from assms(1) obtain es a k n where es: "es \<in> set ess" "has_header es a k n"
    and lead: "\<exists>ts y. value_at (JObj (strip_doc es)) ts = Some y \<and> scalar y \<and> y \<noteq> JNull \<and> e_default e = Some y"
    unfolding exposes_def by blast
  then obtain ts y where y: "value_at (JObj (strip_doc es)) ts = Some y" "scalar y" "y \<noteq> JNull" "e_default e = Some y" by blast
  have "value_at (JObj es) ts = Some y" using y(1,2) value_at_strip [OF es(2)] by blast
  moreover have "regular (JObj es)" using assms(2) es(1) by (simp add: list_all_iff template_doc_def)
  ultimately show ?thesis using value_at_regular y by blast
qed


definition nginx_entry :: ui_entry where
  "nginx_entry = image_entry\<lparr>e_default := Some (JStr ''nginx'')\<rparr>"

definition nginx_state :: "ui_resource list" where
  "nginx_state = [\<lparr>r_apiVersion = ''apps/v1'', r_kind = ''Deployment'', r_name = ''web'',
     r_fields = [(''metadata.labels.app'', UFixed (JStr ''web'')), (''spec.replicas'', UFixed (JNum (Num 3))),
       (''spec.containers[0].image'', UExposed nginx_entry)]\<rparr>]"

definition nginx_request :: "go_resource list" where
  "nginx_request = [\<lparr>gr_apiVersion = ''apps/v1'', gr_kind = ''Deployment'', gr_name = ''web'',
     gr_fields = map (\<lambda>(p, f). (p, the (go_field_of f))) (rev (r_fields (hd nginx_state)))\<rparr>]"

lemma web_deployment_template: "template_doc (web_deployment i)"
proof -
  have "has_header (web_deployment i) ''apps/v1'' ''Deployment'' ''web''" by (simp add: has_header_def web_deployment_def)
  moreover have "regular (JObj (web_deployment i))"
    by (simp add: web_deployment_def obj_ok_def ident_def ident_char_def ident_start_def is_digit_def)
  ultimately show ?thesis by (auto simp: template_doc_def)
qed

lemma web_deployment_exposes: "exposes [web_deployment ''nginx''] nginx_entry"
proof -
  have "value_at (JObj (strip_doc (web_deployment ''nginx''))) [Key ''spec'', Key ''containers'', Idx 0, Key ''image''] = Some (JStr ''nginx'')"
    by (simp add: web_deployment_def strip_doc_def strip_entry_def)
  moreover have "ptext [] [Key ''spec'', Key ''containers'', Idx 0, Key ''image''] = ''spec.containers[0].image''"
    by (simp add: child_path_def index_path_def)
  moreover have "\<exists>a. has_header (web_deployment ''nginx'') a ''Deployment'' ''web''"
    by (simp add: web_deployment_def has_header_def)
  ultimately show ?thesis
    using image_entry_path by (auto simp: exposes_def nginx_entry_def intro!: exI [of _ "[Key ''spec'', Key ''containers'', Idx 0, Key ''image'']"])
qed

lemma nginx_state_eq: "yamlToUIState (map (\<lambda>es. DocValue (JObj es)) [web_deployment ''nginx'']) (Inr (Some [nginx_entry])) = (nginx_state, [])"
  using image_entry_path
  by (simp add: yamlToUIState_def convert_doc_def web_deployment_def walk_top_def walk_metadata_def child_path_def index_path_def Let_def
      apply_entry_def nginx_entry_def is_resource_def expose_def nginx_state_def)

lemma nginx_decodes: "list_all2 decodes_to nginx_state nginx_request"
  by (simp add: nginx_state_def nginx_request_def decodes_to_def go_field_of_def go_entry_of_def nginx_entry_def image_entry_def json_int_def)


section \<open>Documents the editor cannot keep\<close>

lemma not_ident_stops:
  assumes "safe_key k" and "\<not> ident k"
  shows "\<exists>m. path_segs (k @ tail_text ts) = Inl m"
proof (cases "ident_start (hd k)")
  case False
  obtain c k' where "k = c # k'" using assms(1) by (cases k) (auto simp: safe_key_def)
  with False assms(1) have "match_seg (k @ tail_text ts) = None" by (auto simp: match_seg_def safe_key_def)
  with \<open>k = c # k'\<close> show ?thesis by (subst path_segs.simps) simp
next
  case True
  define r where "r = dropWhile ident_char k"
  have k: "k = takeWhile ident_char k @ r" and ne: "k \<noteq> []" using assms(1) by (auto simp: r_def safe_key_def)
  have "r \<noteq> []" using assms(2) True ne by (auto simp: r_def ident_def dropWhile_eq_Nil_conv list_all_iff)
  then obtain c r' where r: "r = c # r'" by (cases r) auto
  have c: "\<not> ident_char c" using r hd_dropWhile [of ident_char k] \<open>r \<noteq> []\<close> by (simp add: r_def)
  have "c \<in> set k" using k r by (metis in_set_conv_decomp)
  then have c': "c \<noteq> CHR ''.''" "c \<noteq> CHR ''[''" using assms(1) by (auto simp: safe_key_def)
  have m: "match_seg (k @ tail_text ts) = Some (Key (takeWhile ident_char k), r @ tail_text ts)"
  proof -
    have "takeWhile ident_char (k @ tail_text ts) = takeWhile ident_char k" "dropWhile ident_char (k @ tail_text ts) = r @ tail_text ts"
      using \<open>r \<noteq> []\<close> by (auto simp: r_def takeWhile_append dropWhile_append dropWhile_eq_Nil_conv)
    with True ne show ?thesis by (cases k) (auto simp: match_seg_def)
  qed
  have "match_seg (r @ tail_text ts) = None" using c c' by (simp add: r match_seg_def ident_char_def)
  then have "path_segs (trim_dot (r @ tail_text ts)) = Inl (''bad path remainder '' @ r @ tail_text ts)"
    using c' by (subst path_segs.simps) (simp add: r trim_dot_def)
  with m ne show ?thesis by (subst path_segs.simps) simp
qed

lemma path_segs_bad:
  "list_all safe_step ts \<Longrightarrow> \<not> list_all ident_step ts \<Longrightarrow> \<exists>m. path_segs (trim_dot (tail_text ts)) = Inl m"
proof (induction ts rule: tail_text.induct)
  case (2 k ts)
  show ?case
  proof (cases "ident k")
    case True
    with 2 obtain m where "path_segs (trim_dot (tail_text ts)) = Inl m" by (auto simp: ident_step_def)
    moreover from True have "path_segs (k @ tail_text ts) = map_sum id ((#) (Key k)) (path_segs (trim_dot (tail_text ts)))"
      by (subst path_segs.simps) (auto simp: match_ident ident_def)
    ultimately show ?thesis by (simp add: trim_dot_def)
  next
    case False
    with 2 not_ident_stops [of k ts] show ?thesis by (simp add: safe_step_def trim_dot_def)
  qed
next
  case (3 i ts)
  then obtain m where "path_segs (trim_dot (tail_text ts)) = Inl m" by (auto simp: ident_step_def)
  moreover have "path_segs (CHR ''['' # nat_digits i @ CHR '']'' # tail_text ts) = map_sum id ((#) (Idx i)) (path_segs (trim_dot (tail_text ts)))"
    by (subst path_segs.simps) (simp add: match_index)
  ultimately show ?case by (simp add: trim_dot_def)
qed simp

lemma serialize_fields_fail:
  "(p, f) \<in> set fl \<Longrightarrow> gf_mode f = ''fixed'' \<Longrightarrow> path_segs p = Inl m \<Longrightarrow> \<exists>m'. serialize_fields r fl acc = Inl m'"
proof (induction fl arbitrary: acc)
  case (Cons e fl)
  then show ?case
    by (cases "e = (p, f)") (auto simp: serialize_field_def setJSONPathAbsolute_def split: sum.split)
qed simp

lemma serialize_resources_fail:
  "r \<in> set rs \<Longrightarrow> (\<And>acc. \<exists>m. serialize_fields r (gr_fields r) acc = Inl m) \<Longrightarrow> \<exists>m. serialize_resources rs acc = Inl m"
proof (induction rs arbitrary: acc)
  case (Cons q rs)
  show ?case
  proof (cases "q = r")
    case True
    with Cons.prems(2) [of "(resource_doc q, snd acc)"] show ?thesis by auto
  next
    case False
    with Cons show ?thesis by (auto split: sum.split prod.split)
  qed
qed simp

text \<open>A key that is not an identifier cannot be saved. A document is converted without a warning
  as long as its keys are free of \<open>.\<close>, \<open>[\<close> and \<open>]\<close>; but when one of them, on the way to any scalar, has
  another character than letters, digits and \<open>_\<close> (such as a label \<open>app-name\<close>), then every request that holds
  the converted resource is refused, whatever else it holds and in whatever order the fields are taken.\<close>

lemma other_keys_refused:
  assumes "plain (JObj es)" and "has_header es a k n"
    and "value_at (JObj (strip_doc es)) ts = Some y" and "scalar y" and "\<not> list_all ident_step ts"
    and "convert_doc ([], []) (DocValue (JObj es)) = ([u], ws)" and "decodes_to u r" and "r \<in> set rs"
  shows "ws = [] \<and> (\<exists>m. SerializeUIMode rs = Inl m)"
proof -
  from assms(2) obtain ms where ms: "oget es ''metadata'' = Some (JObj ms)" "oget ms ''name'' = Some (JStr n)" by (auto simp: has_header_def)
  have conv: "convert_doc ([], []) (DocValue (JObj es)) = ([\<lparr>r_apiVersion = a, r_kind = k, r_name = n,
      r_fields = ospread [] (fixed_at [] (positions (JObj (strip_doc es))))\<rparr>], [])" and pl: "plain (JObj (strip_doc es))"
    using convert_positions [OF assms(1) _ _ ms, of a k "[]" "[]"] assms(2) by (auto simp: has_header_def)
  have "oget (r_fields u) (ptext [] ts) = Some (UFixed y)"
    using assms(6) oget_fixed_positions [OF pl, of "ptext [] ts" "UFixed y"] assms(3,4) unfolding conv by auto
  then have "(ptext [] ts, UFixed y) \<in> set (r_fields u)" by (rule map_of_SomeD)
  from decodes_fields_onto [OF assms(7) this] obtain f where
    f: "(ptext [] ts, f) \<in> set (gr_fields r)" "gf_mode f = ''fixed''" by (auto simp: go_field_of_def)
  from value_at_safe [OF pl assms(3)] have safe: "list_all safe_step ts" .
  obtain j us where ts: "ts = Key j # us" using assms(3,4) by (cases ts; cases "hd ts") auto
  with safe have "j \<noteq> []" "take 1 j \<noteq> ''.''" by (cases j; auto simp: safe_step_def safe_key_def)+
  then have "trim_dot (tail_text ts) = ptext [] ts" by (simp add: ts child_path_def ptext_tail trim_dot_def)
  with path_segs_bad [OF safe assms(5)] obtain m where "path_segs (ptext [] ts) = Inl m" by auto
  from serialize_resources_fail [OF assms(8)] serialize_fields_fail [OF f this] assms(6) show ?thesis
    unfolding SerializeUIMode_def conv by blast
qed

definition labelled :: "string \<Rightarrow> (string \<times> jsval) list" where
  "labelled key = [(''apiVersion'', JStr ''v1''), (''kind'', JStr ''Service''),
     (''metadata'', JObj [(''name'', JStr ''web''), (''labels'', JObj [(key, JStr ''web'')])])]"

definition labelled_request :: "string \<Rightarrow> go_resource" where
  "labelled_request key = \<lparr>gr_apiVersion = ''v1'', gr_kind = ''Service'', gr_name = ''web'',
     gr_fields = [(''metadata.labels.'' @ key, \<lparr>gf_mode = ''fixed'', gf_value = JStr ''web'', gf_spec = None\<rparr>)]\<rparr>"

lemma labelled_converts:
  "convert_doc ([], []) (DocValue (JObj (labelled key))) = ([\<lparr>r_apiVersion = ''v1'', r_kind = ''Service'', r_name = ''web'',
     r_fields = [(''metadata.labels.'' @ key, UFixed (JStr ''web''))]\<rparr>], [])"
  by (simp add: convert_doc_def labelled_def walk_top_def walk_metadata_def child_path_def Let_def)

lemma other_keys_refused_witness: "\<exists>m. SerializeUIMode [labelled_request ''app-name''] = Inl m"
proof -
  have pl: "plain (JObj (labelled ''app-name''))"
    by (auto simp: labelled_def obj_ok_def safe_key_def intro: plain_scalar)
  have h: "has_header (labelled ''app-name'') ''v1'' ''Service'' ''web''" by (simp add: has_header_def labelled_def)
  have at: "value_at (JObj (strip_doc (labelled ''app-name''))) [Key ''metadata'', Key ''labels'', Key ''app-name''] = Some (JStr ''web'')"
    by (simp add: labelled_def strip_doc_def strip_entry_def)
  have bad: "\<not> list_all ident_step [Key ''metadata'', Key ''labels'', Key ''app-name'']"
    by (simp add: ident_step_def ident_def ident_char_def ident_start_def is_digit_def)
  show ?thesis
    by (rule other_keys_refused [OF pl h at _ bad labelled_converts, THEN conjunct2, of "labelled_request ''app-name''"])
      (simp_all add: decodes_to_def labelled_request_def go_field_of_def)
qed

text \<open>A key that holds a dot is split. A label \<open>a.b\<close> is converted without a warning, and saving the
  state succeeds, but the stored document has a mapping \<open>a\<close> with a key \<open>b\<close> in its place: not the same value.\<close>

lemma dotted_key_split:
  assumes "ident a" and "ident b"
  shows "yamlToUIState [DocValue (JObj (labelled (a @ ''.'' @ b)))] (Inr None) =
      ([\<lparr>r_apiVersion = ''v1'', r_kind = ''Service'', r_name = ''web'',
        r_fields = [(''metadata.labels.'' @ a @ ''.'' @ b, UFixed (JStr ''web''))]\<rparr>], [])
    \<and> SerializeUIMode [labelled_request (a @ ''.'' @ b)] = Inr ([JObj [(''apiVersion'', JStr ''v1''), (''kind'', JStr ''Service''),
        (''metadata'', JObj [(''name'', JStr ''web''), (''labels'', JObj [(a, JObj [(b, JStr ''web'')])])])]], [])
    \<and> \<not> same (JObj [(a, JObj [(b, JStr ''web'')])]) (JObj [(a @ ''.'' @ b, JStr ''web'')])"
proof -
  have "ptext [] [Key ''metadata'', Key ''labels'', Key a, Key b] = ''metadata.labels.'' @ a @ ''.'' @ b"
    by (simp add: child_path_def)
  moreover have "list_all ident_step [Key ''metadata'', Key ''labels'', Key a, Key b]"
    using assms by (simp add: ident_step_def) (simp add: ident_def ident_char_def ident_start_def is_digit_def)
  ultimately have "path_segs (''metadata.labels.'' @ a @ ''.'' @ b) = Inr [Key ''metadata'', Key ''labels'', Key a, Key b]"
    using path_segs_ptext by metis
  then have "SerializeUIMode [labelled_request (a @ ''.'' @ b)] = Inr ([JObj [(''apiVersion'', JStr ''v1''), (''kind'', JStr ''Service''),
        (''metadata'', JObj [(''name'', JStr ''web''), (''labels'', JObj [(a, JObj [(b, JStr ''web'')])])])]], [])"
    by (simp add: SerializeUIMode_def labelled_request_def serialize_field_def setJSONPathAbsolute_def resource_doc_def container_def Let_def)
  moreover have "\<not> same (JObj [(a, x)]) (JObj [(a @ ''.'' @ b, y)])" for x y
    by (auto elim!: same.cases simp: rel_option_iff split: if_splits)
  ultimately show ?thesis by (simp add: yamlToUIState_def labelled_converts)
qed

lemma dotted_key_split_witness:
  "SerializeUIMode [labelled_request ''app.name''] = Inr ([JObj [(''apiVersion'', JStr ''v1''), (''kind'', JStr ''Service''),
     (''metadata'', JObj [(''name'', JStr ''web''), (''labels'', JObj [(''app'', JObj [(''name'', JStr ''web'')])])])]], [])"
  using dotted_key_split [of "''app''" "''name''"] by (simp add: ident_def ident_char_def ident_start_def is_digit_def)

section \<open>Lists stay short\<close>

text \<open>No list in the value is longer than \<open>n\<close>.\<close>

fun lists_within :: "nat \<Rightarrow> jsval \<Rightarrow> bool" where
  "lists_within n (JArr xs) \<longleftrightarrow> length xs \<le> n \<and> list_all (lists_within n) xs"
| "lists_within n (JObj es) \<longleftrightarrow> list_all (\<lambda>e. lists_within n (snd e)) es"
| "lists_within n _ \<longleftrightarrow> True"

lemma map_sum_Inr: "map_sum id g s = Inr y \<longleftrightarrow> (\<exists>z. s = Inr z \<and> y = g z)"
  by (cases s) auto

lemma lists_within_oset: "lists_within n (JObj es) \<Longrightarrow> lists_within n v \<Longrightarrow> lists_within n (JObj (oset es k v))"
  by (induction es k v rule: oset.induct) auto

lemma lists_within_oget: "lists_within n (JObj es) \<Longrightarrow> oget es k = Some v \<Longrightarrow> lists_within n v"
  by (auto simp: list_all_iff dest!: map_of_SomeD)

lemma set_segs_within:
  "set_segs ts v x = Inr x' \<Longrightarrow> lists_within 1025 v \<Longrightarrow> lists_within 1025 x \<Longrightarrow>
     lists_within 1025 x'"
proof (induction ts v x arbitrary: x' rule: set_segs.induct)
  case (1 v current)
  then show ?case by simp
next
  case (2 k rest v current)
  have c: "lists_within n (container t)" for t n by (simp add: container_def split: pstep.split)
  from 2(2) obtain es where es: "current = JObj es" by (cases current) auto
  show ?case
  proof (cases "rest = []")
    case True
    with 2 es lists_within_oset show ?thesis by auto
  next
    case False
    define child where "child = (case oget es k of None \<Rightarrow> container (hd rest) | Some c \<Rightarrow> c)"
    have "lists_within 1025 child"
      using c 2(4) es lists_within_oget [of _ es k] by (simp add: child_def split: option.split)
    moreover from 2(2) False es obtain y where "set_segs rest v child = Inr y" "x' = JObj (oset es k y)"
      by (cases "set_segs rest v child") (auto simp: child_def Let_def)
    ultimately show ?thesis using 2(1) [OF es False] child_def 2(3,4) es lists_within_oset by blast
  qed
next
  case (3 i rest v current)
  have c: "lists_within n (container t)" for t n by (simp add: container_def split: pstep.split)
  from 3(2) obtain arr where arr: "current = JArr arr" by (cases current) auto
  with 3(2) have i: "\<not> i > maxArrayIndex" by (auto split: if_splits)
  define grown where "grown = (if length arr \<le> i
      then arr @ replicate (Suc i - length arr) (if rest = [] then JNull else container (hd rest)) else arr)"
  have grown: "length grown \<le> 1025" "list_all (lists_within 1025) grown" "i < length grown"
    using 3(4) i c by (auto simp: grown_def arr list_all_iff)
  then have put: "lists_within 1025 (JArr (grown[i := y]))" if "lists_within 1025 y" for y
    using that set_update_subset_insert [of grown i y] by (auto simp: list_all_iff)
  show ?case
  proof (cases "rest = []")
    case True
    with 3(2) i arr have "x' = JArr (grown[i := v])" by (auto simp: grown_def Let_def split: if_splits)
    with put [OF 3(3)] show ?thesis by simp
  next
    case False
    define child where "child = (if grown ! i = JNull then container (hd rest) else grown ! i)"
    have "lists_within 1025 child" using c grown by (simp add: child_def list_all_length)
    moreover have "set_segs (Idx i # rest) v current = map_sum id (\<lambda>z. JArr (grown[i := z])) (set_segs rest v child)"
      using False i arr by (simp add: child_def grown_def Let_def)
    then obtain y where "set_segs rest v child = Inr y" "x' = JArr (grown[i := y])"
      using 3(2) by (auto simp: map_sum_Inr)
    ultimately show ?thesis using 3(1) [OF arr i grown_def False child_def] 3(3) put by blast
  qed
qed

definition request_within :: "nat \<Rightarrow> go_resource list \<Rightarrow> bool" where
  "request_within n rs \<longleftrightarrow> list_all (\<lambda>r. list_all (\<lambda>(p, f). lists_within n (gf_value f)
     \<and> (case gf_spec f of None \<Rightarrow> True | Some s \<Rightarrow> lists_within n (ge_default s))) (gr_fields r)) rs"

lemma setJSONPath_within:
  "setJSONPathAbsolute x p v = Inr x' \<Longrightarrow> lists_within 1025 v \<Longrightarrow> lists_within 1025 x \<Longrightarrow>
     lists_within 1025 x'"
  using set_segs_within by (auto simp: setJSONPathAbsolute_def split: sum.splits if_splits)

lemma serialize_field_within:
  assumes "serialize_field r (p, f) (x, es) = Inr (x', es')" and "lists_within 1025 x"
    and "lists_within 1025 (gf_value f)"
    and "case gf_spec f of None \<Rightarrow> True | Some s \<Rightarrow> lists_within 1025 (ge_default s)"
  shows "lists_within 1025 x'"
  using assms setJSONPath_within
  by (auto simp: serialize_field_def map_sum_Inr Let_def split: if_splits option.splits)

lemma serialize_fields_within:
  "serialize_fields r fl (x, es) = Inr (x', es') \<Longrightarrow> lists_within 1025 x \<Longrightarrow>
   list_all (\<lambda>(p, f). lists_within 1025 (gf_value f)
     \<and> (case gf_spec f of None \<Rightarrow> True | Some s \<Rightarrow> lists_within 1025 (ge_default s))) fl \<Longrightarrow>
   lists_within 1025 x'"
proof (induction fl arbitrary: x es)
  case (Cons e fl)
  obtain p f where e: "e = (p, f)" by force
  from Cons.prems(1) obtain y ys where y: "serialize_field r (p, f) (x, es) = Inr (y, ys)" "serialize_fields r fl (y, ys) = Inr (x', es')"
    by (auto simp: e split: sum.splits)
  from Cons.prems(3) have "lists_within 1025 y"
    by (intro serialize_field_within [OF y(1) Cons.prems(2)]) (simp_all add: e)
  with Cons.IH [OF y(2)] Cons.prems(3) show ?case by simp
qed simp

lemma serialize_resources_within:
  "serialize_resources rs acc = Inr (ds, out) \<Longrightarrow> request_within 1025 rs \<Longrightarrow>
   list_all (lists_within 1025) (fst acc) \<Longrightarrow> list_all (lists_within 1025) ds"
proof (induction rs arbitrary: acc)
  case (Cons r rs)
  from Cons.prems(1) obtain d es where d: "serialize_fields r (gr_fields r) (resource_doc r, snd acc) = Inr (d, es)"
    "serialize_resources rs (fst acc @ [d], es) = Inr (ds, out)"
    by (auto split: if_splits sum.splits prod.splits)
  have "lists_within 1025 d"
    using Cons.prems(2) by (intro serialize_fields_within [OF d(1)]) (simp_all add: resource_doc_def request_within_def)
  with Cons.IH [OF d(2)] Cons.prems show ?case by (simp add: request_within_def)
qed simp

text \<open>Property C38: a path cannot make the API build a long list. When no list inside the values of a request
  is longer than 1025, no list of the documents it serialises to is; and the last index a path may name is
  1024: writing below a longer one is an error.\<close>

theorem lists_stay_short:
  assumes "request_within 1025 rs" and "SerializeUIMode rs = Inr (ds, out)"
  shows "list_all (lists_within 1025) ds
    \<and> (\<forall>xs i v. (\<exists>x. set_segs [Idx i] v (JArr xs) = Inr x) = (i \<le> 1024))"
proof -
  from serialize_resources_within [of rs "([], [])" ds out] assms have "list_all (lists_within 1025) ds"
    by (simp add: SerializeUIMode_def)
  moreover have "(\<exists>x. set_segs [Idx i] v (JArr xs) = Inr x) = (i \<le> 1024)" for xs i v by (simp add: Let_def)
  ultimately show ?thesis by blast
qed

definition far_field :: "nat \<Rightarrow> go_resource" where
  "far_field i = \<lparr>gr_apiVersion = ''v1'', gr_kind = ''Service'', gr_name = ''web'',
     gr_fields = [(''ports['' @ nat_digits i @ '']'', \<lparr>gf_mode = ''fixed'', gf_value = JNum (Num 80), gf_spec = None\<rparr>)]\<rparr>"

lemma lists_stay_short_witness: "\<exists>d. SerializeUIMode [far_field 2] = Inr ([d], []) \<and> lists_within 1025 d"
proof -
  have "''ports['' @ nat_digits 2 @ '']'' = ptext [] [Key ''ports'', Idx 2]" by (simp add: child_path_def index_path_def)
  moreover have "path_segs (ptext [] [Key ''ports'', Idx 2]) = Inr [Key ''ports'', Idx 2]"
    by (rule path_segs_ptext) (simp add: ident_step_def ident_def ident_char_def ident_start_def is_digit_def)
  ultimately have p: "path_segs (''ports['' @ nat_digits 2 @ '']'') = Inr [Key ''ports'', Idx 2]" by simp
  obtain d where "SerializeUIMode [far_field 2] = Inr ([d], [])"
    by (simp add: SerializeUIMode_def far_field_def serialize_field_def setJSONPathAbsolute_def p [simplified] resource_doc_def container_def Let_def)
  moreover have "request_within 1025 [far_field 2]" by (simp add: request_within_def far_field_def)
  ultimately show ?thesis using lists_stay_short [of "[far_field 2]" "[d]" "[]"] by auto
qed

end
