(* ===== verification/Template_Render.thy ===== *)
theory Template_Render
  imports Ui_Mode
begin

text \<open>
  \<open>backend/internal/template\<close>, the files \<open>jsonpath.go\<close>, \<open>spec.go\<close> and \<open>render.go\<close>: how the Go API turns a
  template and the values of a form into the documents it applies. The YAML and JSON decoders and the regular
  expressions of patterns are not part of the repository: \<open>Render\<close> gets the decoders' results, and takes whether
  a pattern compiles and matches as parameters; its result is the documents handed to the encoder.

  The same Go values as in \<open>Ui_Mode\<close>, with one number for Go's \<open>int\<close>, \<open>uint64\<close> and \<open>float64\<close>: a number of the form is a
  float, a default has the type the YAML decoder gave it. Where the types differ, the parameters \<open>big\<close> and \<open>sprint\<close> are told where
  the value is from: \<open>toInt\<close> beyond 63 bits (a \<open>uint64\<close> is no integer for it, and what a float becomes is left to the
  implementation), for NaN and the infinities, and \<open>fmt.Sprint\<close> from a million, where a float is printed with an exponent. Functions that change a document
  in place return the new document, or the error for which \<open>Render\<close> gives up all of them.
\<close>

section \<open>Paths (\<open>jsonpath.go\<close>)\<close>

definition is_letter :: "char \<Rightarrow> bool" where
  "is_letter c \<longleftrightarrow> (let n = of_char c :: nat in 65 \<le> n \<and> n \<le> 90 \<or> 97 \<le> n \<and> n \<le> 122)"

definition is_upper :: "char \<Rightarrow> bool" where
  "is_upper c \<longleftrightarrow> (let n = of_char c :: nat in 65 \<le> n \<and> n \<le> 90)"

definition newline_free :: "string \<Rightarrow> bool" where
  "newline_free s \<longleftrightarrow> list_all (\<lambda>c. of_char c \<noteq> (10 :: nat)) s"

text \<open>The match of \<open>^([A-Z][A-Za-z]+)(?:\[([^\]]+)\])?(.*)$\<close>: the selector is empty when the path has none.\<close>

definition parseHead :: "string \<Rightarrow> string + string \<times> string \<times> string" where
  "parseHead p =
     (let kind = takeWhile is_letter p; r = dropWhile is_letter p;
          sel = takeWhile (\<lambda>c. c \<noteq> CHR '']'') (drop 1 r); r' = drop 1 (dropWhile (\<lambda>c. c \<noteq> CHR '']'') (drop 1 r))
      in if length kind < 2 \<or> \<not> is_upper (hd kind) then Inl (''path '' @ p @ '' invalid'')
         else if take 1 r = ''['' \<and> sel \<noteq> [] \<and> CHR '']'' \<in> set (drop 1 r) \<and> newline_free r' then Inr (kind, sel, trim_dot r')
         else if newline_free r then Inr (kind, [], trim_dot r)
         else Inl (''path '' @ p @ '' invalid''))"

text \<open>\<open>strconv.Atoi\<close>: an optional sign and digits, within 64 bits.\<close>

definition go_Atoi :: "string \<Rightarrow> int option" where
  "go_Atoi s =
     (let ds = (if s \<noteq> [] \<and> (hd s = CHR ''+'' \<or> hd s = CHR ''-'') then tl s else s);
          n = (if s \<noteq> [] \<and> hd s = CHR ''-'' then - int (digits_val ds) else int (digits_val ds))
      in if ds \<noteq> [] \<and> list_all is_digit ds \<and> - (2 ^ 63) \<le> n \<and> n < 2 ^ 63 then Some n else None)"

type_synonym go_doc = "(string, jsval) obj"

text \<open>What a document is found by: its kind, and its name if its metadata is a mapping.\<close>

definition doc_kind :: "go_doc \<Rightarrow> jsval option" where
  "doc_kind d = oget d ''kind''"

definition doc_name :: "go_doc \<Rightarrow> jsval option" where
  "doc_name d = (case oget d ''metadata'' of Some (JObj ms) \<Rightarrow> oget ms ''name'' | _ \<Rightarrow> None)"

text \<open>The result is the document's place in the list.\<close>

definition findDoc :: "go_doc list \<Rightarrow> string \<Rightarrow> string \<Rightarrow> string + nat" where
  "findDoc docs kind selector =
     (let matches = filter (\<lambda>i. doc_kind (docs ! i) = Some (JStr kind)) [0..<length docs];
          byName = (case find (\<lambda>i. doc_name (docs ! i) = Some (JStr selector)) matches of
             Some i \<Rightarrow> Inr i | None \<Rightarrow> Inl (''no '' @ kind @ '' matching '' @ selector))
      in if selector = [] \<and> length matches = 1 then Inr (hd matches)
         else case go_Atoi selector of
             Some idx \<Rightarrow> if 0 \<le> idx \<and> nat idx < length matches then Inr (matches ! nat idx) else byName
           | None \<Rightarrow> byName)"

function setInto :: "jsval \<Rightarrow> string \<Rightarrow> jsval \<Rightarrow> string + jsval" where
  "setInto node rest v =
     (if rest = [] then Inr node
      else case match_seg rest of None \<Rightarrow> Inl (''bad path remainder '' @ rest)
      | Some (Key k, r) \<Rightarrow> (case node of
          JObj es \<Rightarrow>
            if trim_dot r = [] then Inr (JObj (oset es k v))
            else (case oget es k of
                None \<Rightarrow> if starts_with (trim_dot r) ''['' then Inl (''cannot auto-create array at '' @ k @ '': add the field to the template'')
                  else map_sum id (\<lambda>x. JObj (oset es k x)) (setInto (JObj []) (trim_dot r) v)
              | Some c \<Rightarrow> map_sum id (\<lambda>x. JObj (oset es k x)) (setInto c (trim_dot r) v))
        | _ \<Rightarrow> Inl (''not a map at '' @ k))
      | Some (Idx i, r) \<Rightarrow> (case node of
          JArr arr \<Rightarrow>
            if length arr \<le> i then Inl (''index '' @ nat_digits i @ '' out of range'')
            else if trim_dot r = [] then Inr (JArr (arr[i := v]))
            else map_sum id (\<lambda>x. JArr (arr[i := x])) (setInto (arr ! i) (trim_dot r) v)
        | _ \<Rightarrow> Inl (''not an array at ['' @ nat_digits i @ '']'')))"
  by pat_completeness auto
termination
  by (relation "measure (\<lambda>(_, rest, _). length rest)") (auto intro: match_seg_shorter)

declare setInto.simps [simp del]

definition setJSONPath :: "go_doc list \<Rightarrow> string \<Rightarrow> jsval \<Rightarrow> string + go_doc list" where
  "setJSONPath docs path v = (case parseHead path of Inl m \<Rightarrow> Inl m
   | Inr (kind, selector, rest) \<Rightarrow>
      (case findDoc docs kind selector of Inl m \<Rightarrow> Inl m
       | Inr i \<Rightarrow> map_sum id (\<lambda>x. docs[i := entries_of x]) (setInto (JObj (docs ! i)) rest v)))"

section \<open>Fields (\<open>spec.go\<close>)\<close>

text \<open>A field of the ui-spec has the parts of an entry of the editor; its type is one of five, or another text.\<close>

type_synonym render_field = go_entry

text \<open>The decoder's result and whether a pattern compiles.\<close>

definition parseSpec :: "(string \<Rightarrow> bool) \<Rightarrow> string + render_field list \<Rightarrow> string + render_field list" where
  "parseSpec compiles src = (case src of Inl m \<Rightarrow> Inl (''ui-spec unmarshal: '' @ m)
   | Inr fs \<Rightarrow> (case find (\<lambda>f. ge_pattern f \<noteq> [] \<and> \<not> compiles (ge_pattern f)) fs of
        Some f \<Rightarrow> Inl (''field '' @ ge_label f @ '': invalid pattern '' @ ge_pattern f) | None \<Rightarrow> Inr fs))"

definition trunc :: "rat \<Rightarrow> int" where
  "trunc q = (if q < 0 then \<lceil>q\<rceil> else \<lfloor>q\<rfloor>)"

definition toInt :: "(jnum \<Rightarrow> int option) \<Rightarrow> jsval \<Rightarrow> int option" where
  "toInt big v = (case v of
     JNum (Num q) \<Rightarrow> (if - (2 ^ 63) \<le> trunc q \<and> trunc q < 2 ^ 63 then Some (trunc q) else big (Num q))
   | JNum n \<Rightarrow> big n
   | _ \<Rightarrow> None)"

text \<open>\<open>fmt.Sprint\<close>: the text of a fraction, of a number from a million on or of a value of another kind is the argument's. Of a float
  Go prints the digits as long as the exponent is below 6.\<close>

definition go_Sprint :: "(jsval \<Rightarrow> string) \<Rightarrow> jsval \<Rightarrow> string" where
  "go_Sprint other v = (case v of JNull \<Rightarrow> ''<nil>'' | JBool b \<Rightarrow> (if b then ''true'' else ''false'') | JStr s \<Rightarrow> s
   | JNum (Num q) \<Rightarrow> (if q = of_int \<lfloor>q\<rfloor> \<and> \<bar>q\<bar> < 10 ^ 6 then int_text \<lfloor>q\<rfloor> else other v)
   | _ \<Rightarrow> other v)"

text \<open>The parts of Go's library a field is checked with, and where the value is from: the form's JSON, or a default of the ui-spec's YAML.\<close>

datatype origin = FromForm | FromSpec

record golib =
  big :: "origin \<Rightarrow> jnum \<Rightarrow> int option"
  sprint :: "origin \<Rightarrow> jsval \<Rightarrow> string"
  compiles :: "string \<Rightarrow> bool"
  matches_re :: "string \<Rightarrow> string \<Rightarrow> bool"

text \<open>The result is the error, if any.\<close>

definition Validate :: "golib \<Rightarrow> origin \<Rightarrow> render_field \<Rightarrow> jsval \<Rightarrow> string option" where
  "Validate lib src f v =
     (if ge_type f = ''integer'' then
        (case toInt (big lib src) v of None \<Rightarrow> Some (ge_label f @ '': not an integer'')
         | Some n \<Rightarrow>
            if (case ge_min f of Some mn \<Rightarrow> n < mn | None \<Rightarrow> False) then Some (ge_label f @ '': below min'')
            else if (case ge_max f of Some mx \<Rightarrow> n > mx | None \<Rightarrow> False) then Some (ge_label f @ '': above max'')
            else None)
      else if ge_type f = ''string'' \<or> ge_type f = ''autocomplete'' then
        (case v of JStr s \<Rightarrow>
            if ge_pattern f = [] then None
            else if matches_re lib (ge_pattern f) s then None
            else Some (ge_label f @ '': does not match pattern '' @ ge_pattern f)
         | _ \<Rightarrow> Some (ge_label f @ '': not a string''))
      else if ge_type f = ''boolean'' then
        (case v of JBool _ \<Rightarrow> None | _ \<Rightarrow> Some (ge_label f @ '': not a boolean''))
      else if ge_type f = ''enum'' then
        (if go_Sprint (sprint lib src) v \<in> set (ge_values f) then None else Some (ge_label f @ '': not one of the choices''))
      else None)"

section \<open>Rendering (\<open>render.go\<close>)\<close>

record release_labels =
  l_release :: string
  l_template :: string
  l_version :: int
  l_id :: string
  l_appliedBy :: string

text \<open>The documents the decoder finds one after the other; empty ones are left out.\<close>

fun parseMultiDoc :: "(string + go_doc) list \<Rightarrow> string + go_doc list" where
  "parseMultiDoc [] = Inr []"
| "parseMultiDoc (Inl m # rs) = Inl m"
| "parseMultiDoc (Inr d # rs) = map_sum id (\<lambda>ds. if d = [] then ds else d # ds) (parseMultiDoc rs)"

text \<open>Changing the entry \<open>key\<close>: \<open>with_map\<close> replaces it by an empty mapping first when it is none (\<open>ensureMap\<close>),
  \<open>at_map\<close> does nothing then.\<close>

definition with_map :: "string \<Rightarrow> (go_doc \<Rightarrow> go_doc) \<Rightarrow> go_doc \<Rightarrow> go_doc" where
  "with_map key f m = oset m key (JObj (f (case oget m key of Some (JObj es) \<Rightarrow> es | _ \<Rightarrow> [])))"

definition at_map :: "string \<Rightarrow> (go_doc \<Rightarrow> go_doc) \<Rightarrow> go_doc \<Rightarrow> go_doc" where
  "at_map key f m = (case oget m key of Some (JObj es) \<Rightarrow> oset m key (JObj (f es)) | _ \<Rightarrow> m)"

definition owned_labels :: "release_labels \<Rightarrow> (string \<times> jsval) list" where
  "owned_labels l = [(''kuberport.io/managed'', JStr ''true''), (''kuberport.io/release'', JStr (l_release l)),
     (''kuberport.io/template'', JStr (l_template l)), (''kuberport.io/template-version'', JStr (int_text (l_version l)))]"

definition stampLabelsOnto :: "release_labels \<Rightarrow> go_doc \<Rightarrow> go_doc" where
  "stampLabelsOnto l meta = with_map ''labels'' (\<lambda>lbls. ospread lbls (owned_labels l)) meta"

definition owned_annotations :: "release_labels \<Rightarrow> string \<Rightarrow> (string \<times> jsval) list" where
  "owned_annotations l now = [(''kuberport.io/release-id'', JStr (l_id l)), (''kuberport.io/applied-by'', JStr (l_appliedBy l)),
     (''kuberport.io/applied-at'', JStr now)]"

definition stampLabels :: "release_labels \<Rightarrow> string \<Rightarrow> go_doc \<Rightarrow> go_doc" where
  "stampLabels l now obj =
     (let pod = at_map ''template'' (with_map ''metadata'' (stampLabelsOnto l)) in
      at_map ''spec'' (\<lambda>spec. at_map ''jobTemplate'' (at_map ''spec'' pod) (pod spec))
        (with_map ''metadata'' (\<lambda>meta. with_map ''annotations'' (\<lambda>anns. ospread anns (owned_annotations l now)) (stampLabelsOnto l meta)) obj))"

text \<open>The value a field gets: from the form, or its default; \<^term>\<open>Inr None\<close> when there is none.\<close>

definition field_value :: "(string, jsval) obj \<Rightarrow> render_field \<Rightarrow> string + jsval option" where
  "field_value input f = (case oget input (ge_path f) of Some raw \<Rightarrow> Inr (Some raw)
   | None \<Rightarrow> if ge_required f then Inl (''field '' @ ge_label f @ '' required'')
      else if ge_default f = JNull then Inr None else Inr (Some (ge_default f)))"

definition origin_of :: "(string, jsval) obj \<Rightarrow> render_field \<Rightarrow> origin" where
  "origin_of input f = (if oget input (ge_path f) = None then FromSpec else FromForm)"

fun render_fields :: "golib \<Rightarrow> (string, jsval) obj \<Rightarrow> render_field list \<Rightarrow> go_doc list \<Rightarrow> string + go_doc list" where
  "render_fields lib input [] docs = Inr docs"
| "render_fields lib input (f # fs) docs = (case field_value input f of
     Inl m \<Rightarrow> Inl m
   | Inr None \<Rightarrow> render_fields lib input fs docs
   | Inr (Some raw) \<Rightarrow>
      (case Validate lib (origin_of input f) f raw of Some m \<Rightarrow> Inl m
       | None \<Rightarrow> (case setJSONPath docs (ge_path f) raw of Inl m \<Rightarrow> Inl m | Inr docs' \<Rightarrow> render_fields lib input fs docs')))"

text \<open>The arguments of \<open>Render\<close> are the decoders' results: the documents, the fields, the form's values (\<open>null\<close> has
  none). The time is the argument \<open>now\<close>.\<close>

definition ValidateSpec :: "golib \<Rightarrow> (string + go_doc) list \<Rightarrow> string + render_field list \<Rightarrow> string option" where
  "ValidateSpec lib resources uiSpec = (case parseMultiDoc resources of Inl m \<Rightarrow> Some m
   | Inr _ \<Rightarrow> (case parseSpec (compiles lib) uiSpec of Inl m \<Rightarrow> Some m | Inr _ \<Rightarrow> None))"

definition Render :: "golib \<Rightarrow> (string + go_doc) list \<Rightarrow> string + render_field list \<Rightarrow> string + (string, jsval) obj \<Rightarrow>
    release_labels \<Rightarrow> string \<Rightarrow> string + go_doc list" where
  "Render lib resources uiSpec vals l now = (case parseMultiDoc resources of Inl m \<Rightarrow> Inl m
   | Inr docs \<Rightarrow> (case parseSpec (compiles lib) uiSpec of Inl m \<Rightarrow> Inl m
     | Inr fs \<Rightarrow> (case vals of Inl m \<Rightarrow> Inl (''values not a JSON object: '' @ m)
       | Inr input \<Rightarrow> map_sum id (map (stampLabels l now)) (render_fields lib input fs docs))))"

section \<open>Writing at a position\<close>

text \<open>What \<open>setInto\<close> is meant to do, on the segments of its path: a missing mapping on the way is added, but
  never a list.\<close>

fun put_at :: "pstep list \<Rightarrow> jsval \<Rightarrow> jsval \<Rightarrow> jsval option" where
  "put_at [] v node = Some v"
| "put_at (Key k # ts) v node = (case node of
     JObj es \<Rightarrow> (case oget es k of
         Some c \<Rightarrow> map_option (\<lambda>x. JObj (oset es k x)) (put_at ts v c)
       | None \<Rightarrow> if (case ts of Idx _ # _ \<Rightarrow> True | _ \<Rightarrow> False) then None
           else map_option (\<lambda>x. JObj (oset es k x)) (put_at ts v (JObj [])))
   | _ \<Rightarrow> None)"
| "put_at (Idx i # ts) v node = (case node of
     JArr xs \<Rightarrow> if i < length xs then map_option (\<lambda>x. JArr (xs[i := x])) (put_at ts v (xs ! i)) else None
   | _ \<Rightarrow> None)"

definition go_ok :: "'e + 'a \<Rightarrow> 'a option" where
  "go_ok r = (case r of Inl _ \<Rightarrow> None | Inr x \<Rightarrow> Some x)"

lemma go_ok_simps [simp]: "go_ok (Inl m) = None" "go_ok (Inr x) = Some x"
  "go_ok (map_sum id f r) = map_option f (go_ok r)" "go_ok r = Some x \<longleftrightarrow> r = Inr x"
  by (auto simp: go_ok_def split: sum.splits)

lemma match_seg_head:
  "match_seg s = Some (Key k, r) \<Longrightarrow> \<not> starts_with s ''[''" "match_seg s = Some (Idx i, r) \<Longrightarrow> starts_with s ''[''"
  by (cases s; auto simp: match_seg_def starts_with_def split: if_splits)+

lemma path_segs_empty: "path_segs s = Inr [] \<longleftrightarrow> s = []"
proof (cases s)
  case (Cons c s')
  have "map_sum id ((#) t) x \<noteq> Inr []" for t and x :: "string + pstep list" by (cases x) auto
  with Cons show ?thesis by (subst path_segs.simps) (auto split: option.splits)
qed (simp add: path_segs.simps)

lemma path_segs_Cons:
  assumes "path_segs s = Inr (t # ts)"
  shows "\<exists>r. match_seg s = Some (t, r) \<and> path_segs (trim_dot r) = Inr ts \<and> s \<noteq> []"
  using assms by (subst (asm) path_segs.simps) (auto simp: map_sum_Inr split: if_splits option.splits)

lemma match_seg_nonempty: "match_seg s = Some p \<Longrightarrow> s \<noteq> []"
  by (auto simp: match_seg_def)

lemma setInto_Key:
  assumes "match_seg rest = Some (Key k, r)"
  shows "go_ok (setInto node rest v) = (case node of
     JObj es \<Rightarrow> if trim_dot r = [] then Some (JObj (oset es k v))
       else (case oget es k of
           None \<Rightarrow> if starts_with (trim_dot r) ''['' then None
             else map_option (\<lambda>x. JObj (oset es k x)) (go_ok (setInto (JObj []) (trim_dot r) v))
         | Some c \<Rightarrow> map_option (\<lambda>x. JObj (oset es k x)) (go_ok (setInto c (trim_dot r) v)))
   | _ \<Rightarrow> None)"
  using match_seg_nonempty [OF assms]
  by (subst setInto.simps) (simp add: assms split: jsval.split option.split)

lemma setInto_Idx:
  assumes "match_seg rest = Some (Idx i, r)"
  shows "go_ok (setInto node rest v) = (case node of
     JArr arr \<Rightarrow> if length arr \<le> i then None else if trim_dot r = [] then Some (JArr (arr[i := v]))
       else map_option (\<lambda>x. JArr (arr[i := x])) (go_ok (setInto (arr ! i) (trim_dot r) v))
   | _ \<Rightarrow> None)"
  using match_seg_nonempty [OF assms]
  by (subst setInto.simps) (simp add: assms split: jsval.split)

lemma setInto_put_at:
  "path_segs rest = Inr segs \<Longrightarrow> segs \<noteq> [] \<Longrightarrow> go_ok (setInto node rest v) = put_at segs v node"
proof (induction segs arbitrary: node rest)
  case (Cons t ts)
  from path_segs_Cons [OF Cons.prems(1)] obtain r where
    r: "match_seg rest = Some (t, r)" "path_segs (trim_dot r) = Inr ts" by blast
  show ?case
  proof (cases "ts = []")
    case True
    with r(2) have "trim_dot r = []" by (simp add: path_segs_empty)
    with True r(1) show ?thesis
      by (cases t; cases node) (simp_all add: setInto_Key setInto_Idx not_less split: option.split)
  next
    case False
    then obtain u us where ts: "ts = u # us" by (cases ts) auto
    have rest: "trim_dot r \<noteq> []" using r(2) False by (auto simp: path_segs.simps)
    have IH: "go_ok (setInto n (trim_dot r) v) = put_at ts v n" for n by (rule Cons.IH [OF r(2) False])
    have list: "starts_with (trim_dot r) ''['' \<longleftrightarrow> (case ts of Idx _ # _ \<Rightarrow> True | _ \<Rightarrow> False)"
      using path_segs_Cons [of "trim_dot r" u us] r(2) match_seg_head unfolding ts by (cases u) auto
    show ?thesis
    proof (cases t)
      case (Key k)
      with r(1) rest show ?thesis
        by (cases node) (simp_all add: setInto_Key IH list split: option.split)
    next
      case (Idx i)
      with r(1) rest show ?thesis
        by (cases node) (simp_all add: setInto_Idx IH not_less)
    qed
  qed
qed simp

lemma setInto_bad: "path_segs rest = Inl m \<Longrightarrow> go_ok (setInto node rest v) = None"
proof (induction rest arbitrary: node m rule: path_segs.induct)
  case (1 rest)
  from 1(2) have ne: "rest \<noteq> []" by (auto simp: path_segs.simps)
  show ?case
  proof (cases "match_seg rest")
    case None
    with ne show ?thesis by (subst setInto.simps) simp
  next
    case (Some p)
    obtain t r where p: "match_seg rest = Some (t, r)" using Some by (cases p) auto
    with 1(2) ne obtain m' where bad: "path_segs (trim_dot r) = Inl m'"
      by (subst (asm) path_segs.simps) (cases "path_segs (trim_dot r)"; simp)
    then have "trim_dot r \<noteq> []" by (auto simp: path_segs.simps)
    moreover have "go_ok (setInto n (trim_dot r) v) = None" for n using 1(1) [OF ne p refl bad] .
    ultimately show ?thesis using p
      by (cases t; cases node) (simp_all add: setInto_Key setInto_Idx split: option.split)
  qed
qed

lemma parallel_Cons [simp]: "t # ts \<parallel> u # us \<longleftrightarrow> t \<noteq> u \<or> ts \<parallel> us"
  by (auto simp: parallel_def)

lemma put_at_get: "put_at ts v node = Some x \<Longrightarrow> value_at x ts = Some v"
proof (induction ts v node arbitrary: x rule: put_at.induct)
  case (2 k ts v node)
  then obtain es where es: "node = JObj es" by (cases node) auto
  with 2 show ?case by (cases "oget es k") (auto split: if_splits)
next
  case (3 i ts v node)
  then obtain xs where "node = JArr xs" by (cases node) auto
  with 3 show ?case by (auto split: if_splits)
qed simp

lemma put_at_frame: "put_at ts v node = Some x \<Longrightarrow> ts \<parallel> us \<Longrightarrow> value_at x us = value_at node us"
proof (induction ts v node arbitrary: x us rule: put_at.induct)
  case (2 k ts v node)
  then obtain es where es: "node = JObj es" by (cases node) auto
  from 2(4) obtain u us' where us: "us = u # us'" by (cases us) auto
  show ?case
  proof (cases "u = Key k")
    case True
    with 2(4) us have par: "ts \<parallel> us'" by auto
    then have ne: "us' \<noteq> []" by auto
    show ?thesis
    proof (cases "oget es k")
      case None
      with 2(3) es obtain y where y: "put_at ts v (JObj []) = Some y" "x = JObj (oset es k y)"
        by (auto split: if_splits)
      from 2(1) [OF es None _ y(1) par] 2(3) es None have "value_at y us' = value_at (JObj []) us'" by (auto split: if_splits)
      moreover have "value_at (JObj []) us' = None" using ne by (cases us'; cases "hd us'") auto
      ultimately show ?thesis using us True es None y by simp
    next
      case (Some c)
      with 2(3) es obtain y where y: "put_at ts v c = Some y" "x = JObj (oset es k y)" by auto
      from 2(2) [OF es Some y(1) par] show ?thesis using us True es Some y by simp
    qed
  next
    case False
    with 2(3) es us show ?thesis by (cases u) (auto split: if_splits option.splits)
  qed
next
  case (3 i ts v node)
  then obtain xs where xs: "node = JArr xs" by (cases node) auto
  with 3(2) obtain y where y: "put_at ts v (xs ! i) = Some y" "x = JArr (xs[i := y])" "i < length xs" by (auto split: if_splits)
  from 3(3) obtain u us' where us: "us = u # us'" by (cases us) auto
  show ?case
  proof (cases "u = Idx i")
    case True
    with 3(3) us have "ts \<parallel> us'" by auto
    from 3(1) [OF xs y(3,1) this] show ?thesis using us True xs y by simp
  next
    case False
    with xs us y show ?thesis by (cases u) (auto simp: nth_list_update)
  qed
qed auto

lemma put_at_some: "value_at node ts = Some w \<Longrightarrow> \<exists>x. put_at ts v node = Some x"
proof (induction ts v node rule: put_at.induct)
  case (2 k ts v node)
  then show ?case by (cases node) (auto split: option.splits)
next
  case (3 i ts v node)
  then show ?case by (cases node) (auto split: if_splits)
qed simp

lemma put_at_obj: "put_at ts v (JObj d) = Some x \<Longrightarrow> ts \<noteq> [] \<Longrightarrow> \<exists>d'. x = JObj d'"
  by (cases ts; cases "hd ts") (auto split: option.splits if_splits)

section \<open>Where a field's path leads\<close>

text \<open>The document and the position a path leads to, if any; the empty position changes nothing.\<close>

definition target :: "go_doc list \<Rightarrow> string \<Rightarrow> (nat \<times> pstep list) option" where
  "target docs path = (case parseHead path of Inl _ \<Rightarrow> None
   | Inr (kind, selector, rest) \<Rightarrow> (case findDoc docs kind selector of Inl _ \<Rightarrow> None
     | Inr i \<Rightarrow> (case path_segs rest of Inl _ \<Rightarrow> None | Inr segs \<Rightarrow> if segs = [] then None else Some (i, segs))))"

lemma find_in: "find P xs = Some x \<Longrightarrow> x \<in> set xs \<and> P x"
  by (induction xs) (auto split: if_splits)

lemma findDoc_bound: "findDoc docs kind selector = Inr i \<Longrightarrow> i < length docs \<and> doc_kind (docs ! i) = Some (JStr kind)"
proof -
  let ?m = "filter (\<lambda>i. doc_kind (docs ! i) = Some (JStr kind)) [0..<length docs]"
  have m: "j < length ?m \<Longrightarrow> ?m ! j < length docs \<and> doc_kind (docs ! (?m ! j)) = Some (JStr kind)" for j
    using nth_mem [of j ?m] by auto
  have h: "length ?m = 1 \<Longrightarrow> hd ?m < length docs \<and> doc_kind (docs ! hd ?m) = Some (JStr kind)"
    using m [of 0] by (cases ?m) auto
  show "findDoc docs kind selector = Inr i \<Longrightarrow> ?thesis"
    using m h by (auto simp: findDoc_def Let_def dest: find_in split: if_splits option.splits)
qed

lemma setJSONPath_target:
  assumes "target docs path = Some (i, segs)"
  shows "go_ok (setJSONPath docs path v) = map_option (\<lambda>x. docs[i := entries_of x]) (put_at segs v (JObj (docs ! i)))"
    and "i < length docs" and "segs \<noteq> []"
proof -
  from assms obtain kind selector rest where p: "parseHead path = Inr (kind, selector, rest)" "findDoc docs kind selector = Inr i"
    "path_segs rest = Inr segs" "segs \<noteq> []"
    by (auto simp: target_def split: sum.splits prod.splits if_splits)
  from setInto_put_at [OF p(3,4)] show "go_ok (setJSONPath docs path v) = map_option (\<lambda>x. docs[i := entries_of x]) (put_at segs v (JObj (docs ! i)))"
    by (simp add: setJSONPath_def p)
  show "i < length docs" "segs \<noteq> []" using findDoc_bound [OF p(2)] p(4) by auto
qed

lemma doc_identity: "doc_kind d = value_at (JObj d) [Key ''kind'']" "doc_name d = value_at (JObj d) [Key ''metadata'', Key ''name'']"
  by (auto simp: doc_kind_def doc_name_def split: option.split jsval.split)

definition keeps_identity :: "pstep list \<Rightarrow> bool" where
  "keeps_identity segs \<longleftrightarrow> segs \<parallel> [Key ''kind''] \<and> segs \<parallel> [Key ''metadata'', Key ''name'']"

definition same_identities :: "go_doc list \<Rightarrow> go_doc list \<Rightarrow> bool" where
  "same_identities ds es \<longleftrightarrow> map doc_kind ds = map doc_kind es \<and> map doc_name ds = map doc_name es"

lemma same_identities_refl [simp]: "same_identities ds ds"
  by (simp add: same_identities_def)

lemma same_identities_trans: "same_identities ds es \<Longrightarrow> same_identities es fs \<Longrightarrow> same_identities ds fs"
  by (simp add: same_identities_def)

lemma same_identities_length: "same_identities ds es \<Longrightarrow> length ds = length es"
  by (auto simp: same_identities_def dest: map_eq_imp_length_eq)

lemma findDoc_identities:
  assumes "same_identities ds es"
  shows "findDoc ds kind selector = findDoc es kind selector"
proof -
  note len = same_identities_length [OF assms]
  have k: "doc_kind (ds ! i) = doc_kind (es ! i)" "doc_name (ds ! i) = doc_name (es ! i)" if "i < length es" for i
    using assms that len unfolding same_identities_def by (metis nth_map)+
  then have f: "filter (\<lambda>i. doc_kind (ds ! i) = Some (JStr kind)) [0..<length ds] = filter (\<lambda>i. doc_kind (es ! i) = Some (JStr kind)) [0..<length es]"
    using len by (intro filter_cong) auto
  have "find (\<lambda>i. doc_name (ds ! i) = Some (JStr selector)) (filter (\<lambda>i. doc_kind (es ! i) = Some (JStr kind)) [0..<length es])
      = find (\<lambda>i. doc_name (es ! i) = Some (JStr selector)) (filter (\<lambda>i. doc_kind (es ! i) = Some (JStr kind)) [0..<length es])"
    using k by (intro find_cong) auto
  with f show ?thesis unfolding findDoc_def by simp
qed

lemma target_identities: "same_identities ds es \<Longrightarrow> target ds path = target es path"
  by (simp add: target_def findDoc_identities split: sum.split prod.split)

lemma put_keeps_identities:
  assumes "put_at segs v (JObj (docs ! i)) = Some (JObj d)" and "keeps_identity segs"
  shows "same_identities docs (docs[i := d])"
proof (cases "i < length docs")
  case True
  have "doc_kind d = doc_kind (docs ! i)" "doc_name d = doc_name (docs ! i)"
    unfolding doc_identity using assms(2) by (intro put_at_frame [OF assms(1)]; simp add: keeps_identity_def)+
  with True show ?thesis by (auto simp: same_identities_def map_update list_eq_iff_nth_eq nth_list_update)
qed (simp add: list_update_beyond)

section \<open>What rendering writes\<close>

lemma setJSONPath_step:
  assumes "target docs path = Some (i, segs)" and "keeps_identity segs" and "setJSONPath docs path v = Inr docs'"
  shows "same_identities docs docs'" and "j = i \<longrightarrow> segs \<parallel> us \<Longrightarrow> value_at (JObj (docs' ! j)) us = value_at (JObj (docs ! j)) us"
    and "value_at (JObj (docs' ! i)) segs = Some v"
proof -
  note t = setJSONPath_target [OF assms(1)]
  from t(1) [of v, symmetric] assms(3) obtain x where x: "put_at segs v (JObj (docs ! i)) = Some x" "docs' = docs[i := entries_of x]" by auto
  from put_at_obj [OF x(1) t(3)] obtain d where d: "x = JObj d" by blast
  have docs': "docs' = docs[i := d]" using x(2) d by simp
  show "same_identities docs docs'" unfolding docs' using x(1) assms(2) unfolding d by (rule put_keeps_identities)
  show "value_at (JObj (docs' ! j)) us = value_at (JObj (docs ! j)) us" if "j = i \<longrightarrow> segs \<parallel> us"
    using that put_at_frame [OF x(1) [unfolded d]] t(2) unfolding docs' by (cases "j = i") auto
  show "value_at (JObj (docs' ! i)) segs = Some v" using put_at_get [OF x(1) [unfolded d]] t(2) by (simp add: docs')
qed

text \<open>The writes of a list of fields: where each field that has a value puts it.\<close>

definition write_of :: "go_doc list \<Rightarrow> (string, jsval) obj \<Rightarrow> render_field \<Rightarrow> ((nat \<times> pstep list) \<times> jsval) option" where
  "write_of docs input f = (case field_value input f of
     Inr (Some raw) \<Rightarrow> map_option (\<lambda>t. (t, raw)) (target docs (ge_path f)) | _ \<Rightarrow> None)"

definition writes_of :: "go_doc list \<Rightarrow> (string, jsval) obj \<Rightarrow> render_field list \<Rightarrow> ((nat \<times> pstep list) \<times> jsval) list" where
  "writes_of docs input fs = List.map_filter (write_of docs input) fs"

definition apart_writes :: "((nat \<times> pstep list) \<times> jsval) list \<Rightarrow> bool" where
  "apart_writes ws \<longleftrightarrow> sorted_wrt (\<lambda>a b. fst (fst a) \<noteq> fst (fst b) \<or> snd (fst a) \<parallel> snd (fst b)) ws"

definition leads_somewhere :: "go_doc list \<Rightarrow> render_field \<Rightarrow> bool" where
  "leads_somewhere docs f \<longleftrightarrow> (case target docs (ge_path f) of None \<Rightarrow> False | Some (_, segs) \<Rightarrow> keeps_identity segs)"

definition untouched :: "((nat \<times> pstep list) \<times> jsval) list \<Rightarrow> nat \<Rightarrow> pstep list \<Rightarrow> bool" where
  "untouched ws i us \<longleftrightarrow> list_all (\<lambda>((j, segs), _). j = i \<longrightarrow> segs \<parallel> us) ws"

lemma untouched_Cons [simp]: "untouched (((j, segs), raw) # ws) i us \<longleftrightarrow> (j = i \<longrightarrow> segs \<parallel> us) \<and> untouched ws i us"
  by (simp add: untouched_def)

lemma writes_of_Cons: "writes_of docs input (f # fs) = (case write_of docs input f of None \<Rightarrow> [] | Some w \<Rightarrow> [w]) @ writes_of docs input fs"
  by (simp add: writes_of_def List.map_filter_def split: option.split)

lemma in_writes_of: "w \<in> set (writes_of docs input fs) \<longleftrightarrow> (\<exists>f \<in> set fs. write_of docs input f = Some w)"
  by (cases w, induction fs) (auto simp: writes_of_Cons split: option.split, simp add: writes_of_def List.map_filter_def)

lemma write_of_target: "write_of docs input f = Some (t, raw) \<Longrightarrow> target docs (ge_path f) = Some t \<and> field_value input f = Inr (Some raw)"
  by (auto simp: write_of_def split: sum.splits option.splits)

lemma writes_identities: "same_identities ds es \<Longrightarrow> writes_of ds input fs = writes_of es input fs"
proof -
  assume "same_identities ds es"
  then have "write_of ds input = write_of es input" unfolding write_of_def by (simp only: target_identities)
  then show ?thesis by (simp add: writes_of_def)
qed

lemma leads_identities: "same_identities ds es \<Longrightarrow> leads_somewhere ds f = leads_somewhere es f"
  by (simp add: leads_somewhere_def target_identities)

lemma render_fields_frame:
  "render_fields lib input fs docs = Inr out \<Longrightarrow> list_all (leads_somewhere docs) fs \<Longrightarrow>
     same_identities docs out
     \<and> (\<forall>i us. untouched (writes_of docs input fs) i us \<longrightarrow> value_at (JObj (out ! i)) us = value_at (JObj (docs ! i)) us)"
proof (induction fs arbitrary: docs)
  case (Cons f fs)
  from Cons.prems(2) obtain i segs where t: "target docs (ge_path f) = Some (i, segs)" "keeps_identity segs"
    by (auto simp: leads_somewhere_def split: option.splits)
  show ?case
  proof (cases "field_value input f")
    case (Inr r)
    show ?thesis
    proof (cases r)
      case None
      with Inr Cons show ?thesis by (simp add: writes_of_Cons write_of_def)
    next
      case (Some raw)
      with Inr Cons.prems(1) obtain docs' where d: "setJSONPath docs (ge_path f) raw = Inr docs'" "render_fields lib input fs docs' = Inr out"
        by (auto split: option.splits sum.splits)
      note step = setJSONPath_step [OF t d(1)]
      have "list_all (leads_somewhere docs') fs" using Cons.prems(2) leads_identities [OF step(1)] by simp
      from Cons.IH [OF d(2) this] have IH: "same_identities docs' out"
        "\<And>i us. untouched (writes_of docs input fs) i us \<Longrightarrow> value_at (JObj (out ! i)) us = value_at (JObj (docs' ! i)) us"
        unfolding writes_identities [OF step(1)] by auto
      have w: "writes_of docs input (f # fs) = ((i, segs), raw) # writes_of docs input fs"
        using Inr Some t by (simp add: writes_of_Cons write_of_def)
      show ?thesis unfolding w using same_identities_trans [OF step(1) IH(1)] IH(2) step(2) by auto
    qed
  qed (use Cons.prems in simp)
qed simp

lemma render_fields_writes:
  "render_fields lib input fs docs = Inr out \<Longrightarrow> list_all (leads_somewhere docs) fs \<Longrightarrow> apart_writes (writes_of docs input fs) \<Longrightarrow>
     ((i, segs), raw) \<in> set (writes_of docs input fs) \<Longrightarrow> value_at (JObj (out ! i)) segs = Some raw"
proof (induction fs arbitrary: docs)
  case (Cons f fs)
  from Cons.prems(2) obtain j us where t: "target docs (ge_path f) = Some (j, us)" "keeps_identity us"
    by (auto simp: leads_somewhere_def split: option.splits)
  show ?case
  proof (cases "field_value input f")
    case (Inr r)
    show ?thesis
    proof (cases r)
      case None
      with Inr Cons show ?thesis by (simp add: writes_of_Cons write_of_def)
    next
      case (Some v)
      with Inr Cons.prems(1) obtain docs' where d: "setJSONPath docs (ge_path f) v = Inr docs'" "render_fields lib input fs docs' = Inr out"
        by (auto split: option.splits sum.splits)
      note step = setJSONPath_step [OF t d(1)]
      have l: "list_all (leads_somewhere docs') fs" using Cons.prems(2) leads_identities [OF step(1)] by simp
      have w: "writes_of docs input (f # fs) = ((j, us), v) # writes_of docs input fs"
        using Inr Some t by (simp add: writes_of_Cons write_of_def)
      have rest: "apart_writes (writes_of docs input fs)" "untouched (writes_of docs input fs) j us"
        using Cons.prems(3) unfolding w by (auto simp: apart_writes_def untouched_def list_all_iff parallel_def)
      show ?thesis
      proof (cases "((i, segs), raw) \<in> set (writes_of docs input fs)")
        case True
        with Cons.IH [OF d(2) l] rest(1) show ?thesis unfolding writes_identities [OF step(1)] by blast
      next
        case False
        with Cons.prems(4) w have "i = j" "segs = us" "raw = v" by auto
        moreover have "value_at (JObj (out ! j)) us = value_at (JObj (docs' ! j)) us"
          using render_fields_frame [OF d(2) l] rest(2) unfolding writes_identities [OF step(1)] by blast
        ultimately show ?thesis using step(3) by simp
      qed
    qed
  qed (use Cons.prems in simp)
qed (simp add: writes_of_def List.map_filter_def)

text \<open>Rendering succeeds when every field has a value or needs none, the values are valid, and there is
  something at the places they go to.\<close>

definition field_fits :: "golib \<Rightarrow> (string, jsval) obj \<Rightarrow> render_field \<Rightarrow> bool" where
  "field_fits lib input f \<longleftrightarrow> (case field_value input f of Inl _ \<Rightarrow> False | Inr None \<Rightarrow> True | Inr (Some raw) \<Rightarrow> Validate lib (origin_of input f) f raw = None)"

definition place_exists :: "go_doc list \<Rightarrow> render_field \<Rightarrow> bool" where
  "place_exists docs f \<longleftrightarrow> (case target docs (ge_path f) of None \<Rightarrow> False
     | Some (i, segs) \<Rightarrow> value_at (JObj (docs ! i)) segs \<noteq> None)"

definition apart_targets :: "go_doc list \<Rightarrow> render_field list \<Rightarrow> bool" where
  "apart_targets docs fs \<longleftrightarrow> sorted_wrt (\<lambda>f g. case target docs (ge_path f) of None \<Rightarrow> True
     | Some (i, us) \<Rightarrow> (case target docs (ge_path g) of None \<Rightarrow> True | Some (j, vs) \<Rightarrow> i = j \<longrightarrow> us = vs \<or> us \<parallel> vs)) fs"

lemma apart_targets_identities: "same_identities ds es \<Longrightarrow> apart_targets ds fs = apart_targets es fs"
  unfolding apart_targets_def by (simp only: target_identities)

lemma render_fields_succeeds:
  "list_all (field_fits lib input) fs \<Longrightarrow> list_all (leads_somewhere docs) fs \<Longrightarrow> list_all (place_exists docs) fs \<Longrightarrow>
   apart_targets docs fs \<Longrightarrow>
   \<exists>out. render_fields lib input fs docs = Inr out"
proof (induction fs arbitrary: docs)
  case (Cons f fs)
  from Cons.prems(2) obtain i segs where t: "target docs (ge_path f) = Some (i, segs)" "keeps_identity segs"
    by (auto simp: leads_somewhere_def split: option.splits)
  show ?case
  proof (cases "field_value input f")
    case (Inr r)
    show ?thesis
    proof (cases r)
      case None
      have "apart_targets docs fs" using Cons.prems(4) by (simp add: apart_targets_def)
      with Inr None Cons show ?thesis by simp
    next
      case (Some raw)
      from Cons.prems(3) t(1) obtain w where w: "value_at (JObj (docs ! i)) segs = Some w" by (auto simp: place_exists_def)
      from put_at_some [OF w, of raw] obtain docs' where d: "setJSONPath docs (ge_path f) raw = Inr docs'"
        using setJSONPath_target(1) [OF t(1), of raw] by auto
      note step = setJSONPath_step [OF t d]
      note same = target_identities [OF step(1), symmetric]
      have "place_exists docs' g" if g: "g \<in> set fs" for g
      proof -
        from g Cons.prems(3) obtain j us where u: "target docs (ge_path g) = Some (j, us)" "value_at (JObj (docs ! j)) us \<noteq> None"
          by (fastforce simp: list_all_iff place_exists_def split: option.splits)
        with g Cons.prems(4) t(1) have "(j, us) = (i, segs) \<or> (j = i \<longrightarrow> segs \<parallel> us)" by (auto simp: apart_targets_def)
        then show ?thesis
        proof
          assume "(j, us) = (i, segs)"
          with step(3) u show ?thesis by (simp add: place_exists_def same)
        next
          assume "j = i \<longrightarrow> segs \<parallel> us"
          from step(2) [OF this] u show ?thesis by (simp add: place_exists_def same)
        qed
      qed
      then have "list_all (place_exists docs') fs" by (simp add: list_all_iff)
      then have "\<exists>out. render_fields lib input fs docs' = Inr out"
        using Cons.IH [of docs'] Cons.prems leads_identities [OF step(1)] apart_targets_identities [OF step(1), of fs]
        by (simp add: apart_targets_def)
      then show ?thesis using Inr Some d Cons.prems(1) by (auto simp: field_fits_def)
    qed
  qed (use Cons.prems in \<open>simp add: field_fits_def\<close>)
qed simp

section \<open>Labels\<close>

text \<open>Two positions part at a key.\<close>

fun part :: "pstep list \<Rightarrow> pstep list \<Rightarrow> bool" where
  "part (Key a # ts) (Key b # us) \<longleftrightarrow> a \<noteq> b \<or> part ts us"
| "part _ _ \<longleftrightarrow> False"

definition owned_below :: "pstep list \<Rightarrow> pstep list list" where
  "owned_below pre = map (\<lambda>k. pre @ [Key ''labels'', Key k])
     [''kuberport.io/managed'', ''kuberport.io/release'', ''kuberport.io/template'', ''kuberport.io/template-version'']"

definition owned_positions :: "pstep list list" where
  "owned_positions = owned_below [Key ''metadata'']
     @ map (\<lambda>k. [Key ''metadata'', Key ''annotations'', Key k]) [''kuberport.io/release-id'', ''kuberport.io/applied-by'', ''kuberport.io/applied-at'']
     @ owned_below [Key ''spec'', Key ''template'', Key ''metadata'']
     @ owned_below [Key ''spec'', Key ''jobTemplate'', Key ''spec'', Key ''template'', Key ''metadata'']"

definition not_owned :: "pstep list \<Rightarrow> bool" where
  "not_owned us \<longleftrightarrow> list_all (part us) owned_positions"

text \<open>\<open>keeps_off f P\<close>: the change \<open>f\<close> of a mapping keeps what is at the positions that satisfy \<open>P\<close>.\<close>

definition keeps_off :: "(go_doc \<Rightarrow> go_doc) \<Rightarrow> (pstep list \<Rightarrow> bool) \<Rightarrow> bool" where
  "keeps_off f P \<longleftrightarrow> (\<forall>m us. P us \<longrightarrow> value_at (JObj (f m)) us = value_at (JObj m) us)"

lemma keeps_off_weaken: "keeps_off f P \<Longrightarrow> (\<And>us. Q us \<Longrightarrow> P us) \<Longrightarrow> keeps_off f Q"
  by (auto simp: keeps_off_def)

lemma keeps_off_comp: "keeps_off f P \<Longrightarrow> keeps_off g P \<Longrightarrow> keeps_off (\<lambda>m. f (g m)) P"
  by (simp add: keeps_off_def)

lemma part_key: "part us (Key k # p) \<Longrightarrow> \<exists>j us'. us = Key j # us' \<and> (j = k \<longrightarrow> part us' p)"
  by (cases us rule: list.exhaust; cases "hd us") auto

lemma with_map_off:
  assumes "keeps_off f (\<lambda>us. list_all (part us) ps)" and "ps \<noteq> []"
  shows "keeps_off (with_map key f) (\<lambda>us. list_all (part us) (map ((#) (Key key)) ps))"
  unfolding keeps_off_def
proof (intro allI impI)
  fix m us assume p: "list_all (part us) (map ((#) (Key key)) ps)"
  obtain q ps' where ps: "ps = q # ps'" using assms(2) by (cases ps) auto
  with p part_key obtain j us' where us: "us = Key j # us'" by fastforce
  show "value_at (JObj (with_map key f m)) us = value_at (JObj m) us"
  proof (cases "j = key")
    case True
    with p us have p': "list_all (part us') ps" by (simp add: list_all_iff)
    then obtain i us'' where us': "us' = Key i # us''" using ps by (cases us' rule: list.exhaust; cases "hd us'"; cases q) auto
    have "value_at (JObj (f es)) us' = value_at (JObj es) us'" for es using assms(1) p' by (simp add: keeps_off_def)
    then show ?thesis using us True us' by (auto simp: with_map_def split: option.split jsval.split)
  qed (simp add: us with_map_def)
qed

lemma at_map_off:
  assumes "keeps_off f (\<lambda>us. list_all (part us) ps)" and "ps \<noteq> []"
  shows "keeps_off (at_map key f) (\<lambda>us. list_all (part us) (map ((#) (Key key)) ps))"
  unfolding keeps_off_def
proof (intro allI impI)
  fix m us assume p: "list_all (part us) (map ((#) (Key key)) ps)"
  obtain q ps' where ps: "ps = q # ps'" using assms(2) by (cases ps) auto
  with p part_key obtain j us' where us: "us = Key j # us'" by fastforce
  show "value_at (JObj (at_map key f m)) us = value_at (JObj m) us"
  proof (cases "j = key")
    case True
    with p us have "list_all (part us') ps" by (simp add: list_all_iff)
    then have "value_at (JObj (f es)) us' = value_at (JObj es) us'" for es using assms(1) by (simp add: keeps_off_def)
    then show ?thesis using us True by (auto simp: at_map_def split: option.split jsval.split)
  qed (auto simp: us at_map_def split: option.split jsval.split)
qed

lemma ospread_off: "keeps_off (\<lambda>m. ospread m p) (\<lambda>us. list_all (part us) (map (\<lambda>k. [Key k]) (map fst p)))" if "p \<noteq> []"
  unfolding keeps_off_def
proof (intro allI impI)
  fix m us assume a: "list_all (part us) (map (\<lambda>k. [Key k]) (map fst p))"
  with that obtain j us' where us: "us = Key j # us'" by (cases p; cases us rule: list.exhaust; cases "hd us") auto
  have "part (Key j # us') [Key k] \<longleftrightarrow> j \<noteq> k" for k by (cases us' rule: list.exhaust; cases "hd us'") auto
  with a us have "j \<notin> fst ` set p" by (auto simp: list_all_iff)
  then have "oget (rev p) j = None" by (auto simp: map_of_eq_None_iff)
  then show "value_at (JObj (ospread m p)) us = value_at (JObj m) us" by (simp add: us oget_ospread)
qed

lemma stampLabelsOnto_off: "keeps_off (stampLabelsOnto l) (\<lambda>us. list_all (part us) (owned_below []))"
proof -
  have "keeps_off (\<lambda>m. ospread m (owned_labels l)) (\<lambda>us. list_all (part us) (map (\<lambda>k. [Key k])
      [''kuberport.io/managed'', ''kuberport.io/release'', ''kuberport.io/template'', ''kuberport.io/template-version'']))"
    using ospread_off [of "owned_labels l"] by (simp add: owned_labels_def)
  from with_map_off [OF this, of "''labels''"] show ?thesis
    unfolding stampLabelsOnto_def [abs_def] owned_below_def by (simp add: comp_def)
qed

lemma stampLabels_off: "keeps_off (stampLabels l now) not_owned"
proof -
  define meta where "meta = with_map ''metadata'' (\<lambda>meta. with_map ''annotations'' (\<lambda>anns. ospread anns (owned_annotations l now)) (stampLabelsOnto l meta))"
  define pod where "pod = at_map ''template'' (with_map ''metadata'' (stampLabelsOnto l))"
  have anns: "keeps_off (with_map ''annotations'' (\<lambda>anns. ospread anns (owned_annotations l now)))
      (\<lambda>us. list_all (part us) (map (\<lambda>k. [Key ''annotations'', Key k]) [''kuberport.io/release-id'', ''kuberport.io/applied-by'', ''kuberport.io/applied-at'']))"
    using with_map_off [OF ospread_off [of "owned_annotations l now"], of "''annotations''"]
    by (simp add: owned_annotations_def)
  let ?inner = "owned_below [] @ map (\<lambda>k. [Key ''annotations'', Key k]) [''kuberport.io/release-id'', ''kuberport.io/applied-by'', ''kuberport.io/applied-at'']"
  have "keeps_off (\<lambda>m. with_map ''annotations'' (\<lambda>anns. ospread anns (owned_annotations l now)) (stampLabelsOnto l m)) (\<lambda>us. list_all (part us) ?inner)"
    by (rule keeps_off_comp [OF keeps_off_weaken [OF anns] keeps_off_weaken [OF stampLabelsOnto_off]]) simp_all
  from with_map_off [OF this, of "''metadata''"] have m: "keeps_off meta not_owned"
    by (simp add: meta_def owned_below_def) (erule keeps_off_weaken, simp add: not_owned_def owned_positions_def owned_below_def)
  have pod: "keeps_off pod (\<lambda>us. list_all (part us) (owned_below [Key ''template'', Key ''metadata'']))"
    using at_map_off [OF with_map_off [OF stampLabelsOnto_off, of "''metadata''"], of "''template''"]
    by (simp add: pod_def owned_below_def)
  from at_map_off [OF at_map_off [OF pod, of "''spec''"], of "''jobTemplate''"]
  have job: "keeps_off (at_map ''jobTemplate'' (at_map ''spec'' pod)) (\<lambda>us. list_all (part us)
      (owned_below [Key ''jobTemplate'', Key ''spec'', Key ''template'', Key ''metadata'']))"
    by (simp add: owned_below_def)
  let ?spec = "owned_below [Key ''template'', Key ''metadata''] @ owned_below [Key ''jobTemplate'', Key ''spec'', Key ''template'', Key ''metadata'']"
  have "keeps_off (\<lambda>m. at_map ''jobTemplate'' (at_map ''spec'' pod) (pod m)) (\<lambda>us. list_all (part us) ?spec)"
    by (rule keeps_off_comp [OF keeps_off_weaken [OF job] keeps_off_weaken [OF pod]]) simp_all
  from at_map_off [OF this, of "''spec''"] have "keeps_off (at_map ''spec'' (\<lambda>m. at_map ''jobTemplate'' (at_map ''spec'' pod) (pod m))) not_owned"
    by (simp add: owned_below_def) (erule keeps_off_weaken, simp add: not_owned_def owned_positions_def owned_below_def)
  from keeps_off_comp [OF this m] show ?thesis
    by (simp add: stampLabels_def [abs_def] meta_def pod_def Let_def)
qed

text \<open>The labels of a mapping of metadata.\<close>

definition has_labels :: "release_labels \<Rightarrow> jsval \<Rightarrow> pstep list \<Rightarrow> bool" where
  "has_labels l d pre \<longleftrightarrow> list_all (\<lambda>(k, v). value_at d (pre @ [Key ''labels'', Key k]) = Some v) (owned_labels l)"

lemma value_with_map: "value_at (JObj (with_map key f m)) (Key key # us) =
    value_at (JObj (f (case oget m key of Some (JObj es) \<Rightarrow> es | _ \<Rightarrow> []))) us"
  by (simp add: with_map_def)

lemma stampLabelsOnto_labels: "has_labels l (JObj (stampLabelsOnto l m)) []"
  unfolding has_labels_def stampLabelsOnto_def append_Nil value_with_map by (simp add: owned_labels_def)

lemma value_at_map: "value_at (JObj (at_map key f m)) (Key j # us) =
    (if j = key then (case oget m key of Some (JObj es) \<Rightarrow> value_at (JObj (f es)) us | Some v \<Rightarrow> value_at v us | None \<Rightarrow> None)
     else value_at (JObj m) (Key j # us))"
  by (auto simp: at_map_def split: option.split jsval.split)

text \<open>\<open>f\<close> writes the labels at \<open>pre\<close> whenever there is a mapping at \<open>site\<close>.\<close>

definition stamps :: "release_labels \<Rightarrow> (go_doc \<Rightarrow> go_doc) \<Rightarrow> pstep list \<Rightarrow> pstep list \<Rightarrow> bool" where
  "stamps l f site pre \<longleftrightarrow> (\<forall>m t. value_at (JObj (f m)) site = Some (JObj t) \<longrightarrow> has_labels l (JObj (f m)) pre)"

lemma stamps_at_map: "stamps l f (Key j # site) pre \<Longrightarrow> stamps l (at_map key f) (Key key # Key j # site) (Key key # pre)"
  unfolding stamps_def has_labels_def append_Cons value_at_map
  by (auto split: option.split jsval.split)

lemma stamps_then:
  assumes "stamps l f (Key j # site) (Key j # pre)" and "j \<noteq> key"
  shows "stamps l (\<lambda>m. at_map key g (f m)) (Key j # site) (Key j # pre)"
  using assms unfolding stamps_def has_labels_def append_Cons value_at_map by simp

lemma stamps_pod: "stamps l (at_map ''template'' (with_map ''metadata'' (stampLabelsOnto l))) [Key ''template''] [Key ''template'', Key ''metadata'']"
  unfolding stamps_def
proof (intro allI impI)
  fix m t
  assume a: "value_at (JObj (at_map ''template'' (with_map ''metadata'' (stampLabelsOnto l)) m)) [Key ''template''] = Some (JObj t)"
  then obtain es where "oget m ''template'' = Some (JObj es)"
    unfolding value_at_map by (auto split: option.splits jsval.splits)
  then show "has_labels l (JObj (at_map ''template'' (with_map ''metadata'' (stampLabelsOnto l)) m)) [Key ''template'', Key ''metadata'']"
    using stampLabelsOnto_labels unfolding has_labels_def append_Cons append_Nil value_at_map value_with_map by simp
qed

text \<open>Where the labels of the pods are, for the kinds with a pod template and for jobs.\<close>

definition pods_labelled :: "release_labels \<Rightarrow> jsval \<Rightarrow> bool" where
  "pods_labelled l d \<longleftrightarrow> list_all (\<lambda>site. case value_at d site of Some (JObj _) \<Rightarrow> has_labels l d (site @ [Key ''metadata'']) | _ \<Rightarrow> True)
     [[Key ''spec'', Key ''template''], [Key ''spec'', Key ''jobTemplate'', Key ''spec'', Key ''template'']]"

lemma stampLabels_labels:
  "has_labels l (JObj (stampLabels l now d)) [Key ''metadata'']" (is ?meta)
  "list_all (\<lambda>(k, v). value_at (JObj (stampLabels l now d)) [Key ''metadata'', Key ''annotations'', Key k] = Some v) (owned_annotations l now)" (is ?anns)
  "pods_labelled l (JObj (stampLabels l now d))" (is ?pods)
proof -
  define pod where "pod = at_map ''template'' (with_map ''metadata'' (stampLabelsOnto l))"
  define m where "m = with_map ''metadata'' (\<lambda>meta. with_map ''annotations'' (\<lambda>anns. ospread anns (owned_annotations l now)) (stampLabelsOnto l meta)) d"
  have eq: "stampLabels l now d = at_map ''spec'' (\<lambda>spec. at_map ''jobTemplate'' (at_map ''spec'' pod) (pod spec)) m"
    by (simp add: stampLabels_def pod_def m_def Let_def)
  have off: "j \<noteq> ''spec'' \<Longrightarrow> value_at (JObj (stampLabels l now d)) (Key j # us) = value_at (JObj m) (Key j # us)" for j us
    unfolding eq value_at_map by simp
  have other: "k \<noteq> ''annotations'' \<Longrightarrow> value_at (JObj (with_map ''annotations'' f n)) (Key k # us) = value_at (JObj n) (Key k # us)" for k f n us
    by (simp add: with_map_def)
  show ?meta
    using stampLabelsOnto_labels unfolding has_labels_def append_Cons append_Nil
    by (simp add: off del: value_at.simps) (simp add: m_def value_with_map other del: value_at.simps)
  show ?anns
    by (simp add: off owned_annotations_def del: value_at.simps) (simp add: m_def value_with_map owned_annotations_def del: value_at.simps, simp)
  have "stamps l pod [Key ''template''] [Key ''template'', Key ''metadata'']" unfolding pod_def by (rule stamps_pod)
  note pod = this
  have "stamps l (\<lambda>spec. at_map ''jobTemplate'' (at_map ''spec'' pod) (pod spec)) [Key ''template''] [Key ''template'', Key ''metadata'']"
    by (rule stamps_then [OF pod]) simp
  note main = stamps_at_map [OF this, of "''spec''"]
  note job = stamps_at_map [OF stamps_at_map [OF pod, of "''spec''"], of "''jobTemplate''"]
  have "stamps l (\<lambda>spec. at_map ''jobTemplate'' (at_map ''spec'' pod) (pod spec)) [Key ''jobTemplate'', Key ''spec'', Key ''template'']
      [Key ''jobTemplate'', Key ''spec'', Key ''template'', Key ''metadata'']" using job by (simp add: stamps_def)
  note nested = stamps_at_map [OF this, of "''spec''"]
  show ?pods
    using main nested unfolding pods_labelled_def eq stamps_def by (auto split: option.split jsval.split simp del: value_at.simps)
qed

section \<open>Properties of rendering\<close>

lemma Render_Inr:
  assumes "Render lib resources uiSpec vals l now = Inr out"
  shows "\<exists>docs fs input mid. parseMultiDoc resources = Inr docs \<and> parseSpec (compiles lib) uiSpec = Inr fs \<and> vals = Inr input
    \<and> render_fields lib input fs docs = Inr mid \<and> out = map (stampLabels l now) mid"
  using assms by (auto simp: Render_def map_sum_Inr split: sum.splits)

text \<open>Property C24: every document that rendering produces, whatever the template and the values say, carries the
  labels and annotations of its release in its metadata, and the labels also in the metadata of its pod
  template, be it that of a workload or of a job's schedule: the status of a release finds its pods by them.\<close>

theorem rendered_docs_labelled:
  assumes "Render lib resources uiSpec vals l now = Inr out"
  shows "list_all (\<lambda>d. has_labels l (JObj d) [Key ''metadata'']
      \<and> list_all (\<lambda>(k, v). value_at (JObj d) [Key ''metadata'', Key ''annotations'', Key k] = Some v) (owned_annotations l now)
      \<and> pods_labelled l (JObj d)) out"
proof -
  from Render_Inr [OF assms] obtain mid where "out = map (stampLabels l now) mid" by blast
  then show ?thesis by (simp add: list.pred_map comp_def stampLabels_labels list_all_iff [of "\<lambda>_. True"] del: value_at.simps)
qed

definition plain_lib :: golib where
  "plain_lib = \<lparr>big = (\<lambda>_ _. None), sprint = (\<lambda>_ _. []), compiles = (\<lambda>_. True), matches_re = (\<lambda>_ _. True)\<rparr>"

definition image_field :: render_field where
  "image_field = \<lparr>ge_path = ''Deployment[web].spec.containers[0].image'', ge_label = ''image'', ge_help = [], ge_type = ''string'',
     ge_min = None, ge_max = None, ge_pattern = [], ge_values = [], ge_default = JNull, ge_required = True\<rparr>"

definition replicas_field :: render_field where
  "replicas_field = image_field\<lparr>ge_path := ''Deployment[web].spec.replicas'', ge_type := ''integer'', ge_min := Some 1, ge_max := Some 5,
     ge_required := False\<rparr>"

definition demo_labels :: release_labels where
  "demo_labels = \<lparr>l_release = ''r1'', l_template = ''web'', l_version = 2, l_id = ''42'', l_appliedBy = ''ann''\<rparr>"

lemma web_target:
  "parseHead ''Deployment[web].spec.containers[0].image'' = Inr (''Deployment'', ''web'', ''spec.containers[0].image'')"
  "parseHead ''Deployment[web].spec.replicas'' = Inr (''Deployment'', ''web'', ''spec.replicas'')"
  "findDoc [web_deployment i] ''Deployment'' ''web'' = Inr 0"
  "path_segs ''spec.containers[0].image'' = Inr [Key ''spec'', Key ''containers'', Idx 0, Key ''image'']"
  "path_segs ''spec.replicas'' = Inr [Key ''spec'', Key ''replicas'']"
proof -
  have h: "[a, b] \<noteq> []" for a b :: char by simp
  show "parseHead ''Deployment[web].spec.containers[0].image'' = Inr (''Deployment'', ''web'', ''spec.containers[0].image'')"
    "parseHead ''Deployment[web].spec.replicas'' = Inr (''Deployment'', ''web'', ''spec.replicas'')"
    by (simp_all add: parseHead_def is_letter_def is_upper_def newline_free_def trim_dot_def)
  show "findDoc [web_deployment i] ''Deployment'' ''web'' = Inr 0"
    by (simp add: findDoc_def doc_kind_def doc_name_def web_deployment_def go_Atoi_def is_digit_def Let_def)
  have "ptext [] [Key ''spec'', Key ''containers'', Idx 0, Key ''image''] = ''spec.containers[0].image''"
    "ptext [] [Key ''spec'', Key ''replicas''] = ''spec.replicas''" by (simp_all add: child_path_def index_path_def)
  moreover have "list_all ident_step [Key ''spec'', Key ''containers'', Idx 0, Key ''image'']" "list_all ident_step [Key ''spec'', Key ''replicas'']"
    by (simp_all add: ident_step_def ident_def ident_char_def ident_start_def is_digit_def)
  ultimately show "path_segs ''spec.containers[0].image'' = Inr [Key ''spec'', Key ''containers'', Idx 0, Key ''image'']"
    "path_segs ''spec.replicas'' = Inr [Key ''spec'', Key ''replicas'']" using path_segs_ptext by metis+
qed

lemma web_targets [simp]:
  "target [web_deployment i] (ge_path image_field) = Some (0, [Key ''spec'', Key ''containers'', Idx 0, Key ''image''])"
  "target [web_deployment i] (ge_path replicas_field) = Some (0, [Key ''spec'', Key ''replicas''])"
  by (simp_all add: target_def image_field_def replicas_field_def web_target)

text \<open>Property C7: what rendering changes, for a template each of whose fields has a path that leads into a document, and not to (or above, or
  below) the kind or the name of one. The documents stay the same in number and order; each gets the release's labels and
  annotations; at every other position that no field with a value writes to, above or below, they are unchanged; and where the
  fields' places do not overlap each other or those labels and annotations, each holds its field's value: the form's, or the default.\<close>

theorem render_writes_fields:
  assumes "parseMultiDoc resources = Inr docs" and "parseSpec (compiles lib) uiSpec = Inr fs" and "list_all (leads_somewhere docs) fs"
    and "Render lib resources uiSpec (Inr input) l now = Inr out"
  shows "length out = length docs
    \<and> list_all (\<lambda>d. list_all (\<lambda>(k, v). value_at (JObj d) [Key ''metadata'', Key ''labels'', Key k] = Some v) (owned_labels l)
         \<and> list_all (\<lambda>(k, v). value_at (JObj d) [Key ''metadata'', Key ''annotations'', Key k] = Some v) (owned_annotations l now)) out
    \<and> (\<forall>i us. i < length docs \<and> untouched (writes_of docs input fs) i us \<and> not_owned us
         \<longrightarrow> value_at (JObj (out ! i)) us = value_at (JObj (docs ! i)) us)
    \<and> (\<forall>i us raw. apart_writes (writes_of docs input fs) \<and> ((i, us), raw) \<in> set (writes_of docs input fs) \<and> not_owned us
         \<longrightarrow> value_at (JObj (out ! i)) us = Some raw)"
proof -
  from Render_Inr [OF assms(4)] assms(1,2) obtain mid where
    mid: "render_fields lib input fs docs = Inr mid" "out = map (stampLabels l now) mid" by auto
  from render_fields_frame [OF mid(1) assms(3)] have
    len: "length mid = length docs" and frame: "\<And>i us. untouched (writes_of docs input fs) i us \<Longrightarrow> value_at (JObj (mid ! i)) us = value_at (JObj (docs ! i)) us"
    using same_identities_length by auto
  have stamp: "i < length docs \<Longrightarrow> not_owned us \<Longrightarrow> value_at (JObj (out ! i)) us = value_at (JObj (mid ! i)) us" for i us
    using stampLabels_off [of l now] len by (simp add: mid(2) keeps_off_def)
  have bound: "((i, us), raw) \<in> set (writes_of docs input fs) \<Longrightarrow> i < length docs" for i us raw
    using setJSONPath_target(2) write_of_target unfolding in_writes_of by blast
  have stamped: "list_all (\<lambda>d. list_all (\<lambda>(k, v). value_at (JObj d) [Key ''metadata'', Key ''labels'', Key k] = Some v) (owned_labels l)
         \<and> list_all (\<lambda>(k, v). value_at (JObj d) [Key ''metadata'', Key ''annotations'', Key k] = Some v) (owned_annotations l now)) out"
    using stampLabels_labels(1,2) by (simp add: mid(2) list_all_iff has_labels_def del: value_at.simps)
  show ?thesis
    using len stamped frame stamp bound render_fields_writes [OF mid(1) assms(3)] by (auto simp: mid(2) simp del: value_at.simps)
qed

definition demo_input :: "(string, jsval) obj" where
  "demo_input = [(ge_path image_field, JStr ''redis''), (ge_path replicas_field, JNum (Num 2))]"

lemma demo_leads: "list_all (leads_somewhere [web_deployment i]) [image_field, replicas_field]"
  by (simp add: leads_somewhere_def keeps_identity_def)

lemma demo_places: "list_all (place_exists [web_deployment i]) [image_field, replicas_field]"
  by (simp add: place_exists_def) (simp add: web_deployment_def)

lemma demo_apart: "apart_targets [web_deployment i] [image_field, replicas_field]"
  by (simp add: apart_targets_def)

lemma find_never: "find (\<lambda>_. False) xs = None"
  by (induction xs) auto

lemma demo_parse: "parseMultiDoc [Inr (web_deployment i)] = Inr [web_deployment i]" "parseSpec (compiles plain_lib) (Inr fs) = Inr fs"
  by (simp_all add: web_deployment_def parseSpec_def plain_lib_def find_never)

lemma demo_fits: "list_all (field_fits plain_lib demo_input) [image_field, replicas_field]"
  by (simp add: field_fits_def field_value_def demo_input_def image_field_def replicas_field_def Validate_def toInt_def trunc_def)

lemma demo_writes: "writes_of [web_deployment i] demo_input [image_field, replicas_field] =
   [((0, [Key ''spec'', Key ''containers'', Idx 0, Key ''image'']), JStr ''redis''), ((0, [Key ''spec'', Key ''replicas'']), JNum (Num 2))]"
proof -
  have "field_value demo_input image_field = Inr (Some (JStr ''redis''))" "field_value demo_input replicas_field = Inr (Some (JNum (Num 2)))"
    by (simp_all add: field_value_def demo_input_def image_field_def replicas_field_def)
  then show ?thesis by (simp add: writes_of_def List.map_filter_def write_of_def)
qed

lemma field_fits_eq: "field_fits lib input = (\<lambda>f. case oget input (ge_path f) of
     Some raw \<Rightarrow> Validate lib FromForm f raw = None
   | None \<Rightarrow> \<not> ge_required f \<and> (ge_default f = JNull \<or> Validate lib FromSpec f (ge_default f) = None))"
  by (rule ext) (simp add: field_fits_def field_value_def origin_of_def split: option.split)

lemma render_fields_fits: "render_fields lib input fs docs = Inr out \<Longrightarrow> list_all (field_fits lib input) fs"
  by (induction lib input fs docs rule: render_fields.induct) (auto simp: field_fits_def split: sum.splits option.splits)

lemma render_iff:
  assumes "parseMultiDoc resources = Inr docs" and "parseSpec (compiles lib) uiSpec = Inr fs"
    and "list_all (leads_somewhere docs) fs" and "list_all (place_exists docs) fs" and "apart_targets docs fs"
  shows "(\<exists>out. Render lib resources uiSpec (Inr input) l now = Inr out) \<longleftrightarrow> list_all (field_fits lib input) fs"
  using render_fields_succeeds [OF _ assms(3-5), of lib input] render_fields_fits [of lib input fs docs]
  by (auto simp: Render_def assms(1,2) map_sum_Inr)



lemma demo_render: "\<exists>out. Render plain_lib [Inr (web_deployment i)] (Inr [image_field, replicas_field]) (Inr demo_input) demo_labels [] = Inr out"
  using render_iff [OF demo_parse(1) demo_parse(2) demo_leads demo_places demo_apart] demo_fits by blast

lemma render_writes_fields_witness:
  "\<exists>d. Render plain_lib [Inr (web_deployment ''nginx'')] (Inr [image_field, replicas_field]) (Inr demo_input) demo_labels [] = Inr [d]
    \<and> value_at (JObj d) [Key ''spec'', Key ''containers'', Idx 0, Key ''image''] = Some (JStr ''redis'')
    \<and> value_at (JObj d) [Key ''metadata'', Key ''labels'', Key ''app''] = Some (JStr ''web'')"
proof -
  obtain out where out: "Render plain_lib [Inr (web_deployment ''nginx'')] (Inr [image_field, replicas_field]) (Inr demo_input) demo_labels [] = Inr out"
    using demo_render by blast
  note r = render_writes_fields [OF demo_parse(1) demo_parse(2) demo_leads out]
  obtain d where d: "out = [d]" using r by (cases out; cases "tl out") auto
  have o: "not_owned [Key ''spec'', Key ''containers'', Idx 0, Key ''image'']" "not_owned [Key ''metadata'', Key ''labels'', Key ''app'']"
    by (simp_all add: not_owned_def owned_positions_def owned_below_def)
  have "apart_writes (writes_of [web_deployment ''nginx''] demo_input [image_field, replicas_field])"
    by (simp add: demo_writes apart_writes_def)
  moreover have "untouched (writes_of [web_deployment ''nginx''] demo_input [image_field, replicas_field]) 0 [Key ''metadata'', Key ''labels'', Key ''app'']"
    by (simp add: demo_writes) (simp add: untouched_def)
  ultimately have "value_at (JObj (out ! 0)) [Key ''spec'', Key ''containers'', Idx 0, Key ''image''] = Some (JStr ''redis'')"
    "value_at (JObj (out ! 0)) [Key ''metadata'', Key ''labels'', Key ''app''] = value_at (JObj ([web_deployment ''nginx''] ! 0)) [Key ''metadata'', Key ''labels'', Key ''app'']"
    using r o by (simp_all add: demo_writes del: value_at.simps)
  then show ?thesis using out d by (simp add: web_deployment_def)
qed

lemma rendered_docs_labelled_witness:
  "\<exists>d. Render plain_lib [Inr (web_deployment ''nginx'')] (Inr []) (Inr []) demo_labels [] = Inr [d] \<and> has_labels demo_labels (JObj d) [Key ''metadata'']"
proof -
  have "Render plain_lib [Inr (web_deployment ''nginx'')] (Inr []) (Inr []) demo_labels [] = Inr [stampLabels demo_labels [] (web_deployment ''nginx'')]"
    using demo_parse(1) [of "''nginx''"] demo_parse(2) [of "[]"] unfolding Render_def by simp
  with rendered_docs_labelled [OF this] show ?thesis by simp
qed

text \<open>The renderer's reading of a path, which parses and descends in turns, writes exactly what the
  path's segments say, and fails exactly when they cannot be parsed or lead nowhere.\<close>

lemma setInto_reference:
  "(case path_segs rest of Inl _ \<Rightarrow> (\<exists>m. setInto node rest v = Inl m)
    | Inr [] \<Rightarrow> setInto node rest v = Inr node
    | Inr (t # ts) \<Rightarrow> (case put_at (t # ts) v node of
        Some x \<Rightarrow> setInto node rest v = Inr x | None \<Rightarrow> (\<exists>m. setInto node rest v = Inl m)))"
proof (cases "path_segs rest")
  case (Inl m)
  with setInto_bad [OF Inl, of node v] show ?thesis by (cases "setInto node rest v") auto
next
  case (Inr segs)
  show ?thesis
  proof (cases segs)
    case Nil
    with Inr have "rest = []" by (simp add: path_segs_empty)
    with Inr Nil show ?thesis by (simp add: setInto.simps)
  next
    case (Cons t ts)
    with Inr setInto_put_at [OF Inr, of node v] show ?thesis
      by (cases "setInto node rest v"; cases "put_at (t # ts) v node") auto
  qed
qed

end
