(* ===== verification/Template_Deploy.thy ===== *)
theory Template_Deploy
  imports Template_Render
begin

text \<open>
  From the visual editor to the cluster: the template that \<open>SerializeUIMode\<close> stores (\<open>Ui_Mode\<close>) is what
  \<open>Render\<close> reads (\<open>Template_Render\<close>) when a release is made. When a saved template can be rendered, and the
  templates that can be saved but not be rendered as they are meant.
\<close>

section \<open>The stored documents\<close>

inductive_cases same_JObj: "same x (JObj es)"
inductive_cases same_JArr: "same x (JArr ys)"

lemma same_value_at: "same x v \<Longrightarrow> value_at v ts = Some y \<Longrightarrow> scalar y \<Longrightarrow> value_at x ts = Some y"
proof (induction v ts arbitrary: x rule: value_at.induct)
  case (1 v)
  then show ?case by (auto elim: same.cases)
next
  case (2 es k ts)
  from 2(3) obtain w where w: "oget es k = Some w" "value_at w ts = Some y" by (auto split: option.splits)
  from 2(2) obtain ds where ds: "x = JObj ds" "\<forall>k. rel_option same (oget ds k) (oget es k)"
    by (auto elim: same_JObj)
  from ds(2) w(1) obtain u where "oget ds k = Some u" "same u w" by (metis option_rel_Some2)
  with 2(1) [OF w(1) _ w(2) 2(4)] ds(1) show ?case by simp
next
  case (3 ys i ts)
  from 3(3) have i: "i < length ys" "value_at (ys ! i) ts = Some y" by (auto split: if_splits)
  from 3(2) obtain xs where xs: "x = JArr xs" "list_all2 same xs ys" by (auto elim: same_JArr)
  with i(1) have "same (xs ! i) (ys ! i)" "i < length xs" by (auto simp: list_all2_conv_all_nth)
  with 3(1) [OF i(1) _ i(2) 3(4)] xs(1) show ?case by simp
qed simp_all

lemma same_entries: "same d (JObj es) \<Longrightarrow> JObj (entries_of d) = d"
  by (auto elim: same_JObj)

text \<open>Documents a path with their kind and name can lead to.\<close>

definition findable :: "(string \<times> jsval) list \<Rightarrow> bool" where
  "findable es \<longleftrightarrow> (\<forall>a k n. has_header es a k n \<longrightarrow>
     2 \<le> length k \<and> is_upper (hd k) \<and> list_all is_letter k \<and> CHR '']'' \<notin> set n \<and> go_Atoi n = None)"

lemma takeWhile_neq: "c \<notin> set n \<Longrightarrow> takeWhile (\<lambda>x. x \<noteq> c) (n @ c # r) = n \<and> dropWhile (\<lambda>x. x \<noteq> c) (n @ c # r) = c # r"
  by (induction n) auto

lemma parseHead_path:
  assumes "2 \<le> length k" and "is_upper (hd k)" and "list_all is_letter k" and "CHR '']'' \<notin> set n" and "n \<noteq> []" and "newline_free p"
  shows "parseHead (k @ ''['' @ n @ ''].'' @ p) = Inr (k, n, p)"
proof -
  have "\<not> is_letter CHR ''[''" by (simp add: is_letter_def)
  with assms(3) have k: "takeWhile is_letter (k @ ''['' @ n @ ''].'' @ p) = k" "dropWhile is_letter (k @ ''['' @ n @ ''].'' @ p) = ''['' @ n @ ''].'' @ p"
    using takeWhile_stops [of is_letter k "''['' @ n @ ''].'' @ p"] by simp_all
  have nf: "newline_free (CHR ''.'' # p)" using assms(6) by (simp add: newline_free_def)
  show ?thesis using assms(1,2,5) k nf takeWhile_neq [OF assms(4), of "CHR ''.'' # p"]
    by (simp add: parseHead_def trim_dot_def)
qed

lemma findDoc_name:
  assumes "j < length docs" and "doc_kind (docs ! j) = Some (JStr k)" and "doc_name (docs ! j) = Some (JStr n)"
    and "n \<noteq> []" and "go_Atoi n = None"
  shows "\<exists>i < length docs. findDoc docs k n = Inr i \<and> doc_kind (docs ! i) = Some (JStr k) \<and> doc_name (docs ! i) = Some (JStr n)"
proof -
  let ?m = "filter (\<lambda>i. doc_kind (docs ! i) = Some (JStr k)) [0..<length docs]"
  have "j \<in> set ?m" using assms(1,2) by simp
  then have "list_ex (\<lambda>i. doc_name (docs ! i) = Some (JStr n)) ?m" using assms(3) by (auto simp: list_ex_iff)
  from list_ex_find [OF this] obtain i where i: "find (\<lambda>i. doc_name (docs ! i) = Some (JStr n)) ?m = Some i" by blast
  with find_in [OF i] show ?thesis using assms(4,5) by (intro exI [of _ i]) (auto simp: findDoc_def Let_def)
qed

text \<open>Each entry of the editor leads to its scalar, beside the identity of the document.\<close>

lemma leaf_parallel:
  assumes "value_at v ts = Some y" and "scalar y" and "value_at v us = Some z" and "scalar z" and "ts \<noteq> us"
  shows "ts \<parallel> us"
  using assms
proof (induction v ts arbitrary: us rule: value_at.induct)
  case (2 es k ts)
  then show ?case by (cases us rule: list.exhaust; cases "hd us") (auto split: option.splits)
next
  case (3 xs i ts)
  then show ?case by (cases us rule: list.exhaust; cases "hd us") (auto split: if_splits)
qed (auto split: if_splits)

lemma header_values:
  assumes "has_header es a k n"
  shows "value_at (JObj es) [Key ''kind''] = Some (JStr k)" "value_at (JObj es) [Key ''metadata'', Key ''name''] = Some (JStr n)"
  using assms by (auto simp: has_header_def)

lemma entry_target:
  assumes same: "list_all2 same ds (map JObj ess)" and docs: "list_all template_doc ess" "list_all findable ess"
    and e: "exposes ess e"
  shows "\<exists>i ts y. i < length ess \<and> target (map entries_of ds) (e_path e) = Some (i, ts)
     \<and> value_at (JObj (ess ! i)) ts = Some y \<and> scalar y \<and> value_at (ds ! i) ts = Some y \<and> keeps_identity ts"
proof -
  from e obtain k n sub where p: "parse_spec_path (e_path e) = Some (k, n, sub)" and ex: "\<exists>es \<in> set ess. \<exists>a. has_header es a k n"
    and lead: "\<forall>es \<in> set ess. \<forall>a. has_header es a k n \<longrightarrow> (\<exists>ts y. sub = ptext [] ts
          \<and> value_at (JObj (strip_doc es)) ts = Some y \<and> scalar y \<and> y \<noteq> JNull \<and> e_default e = Some y)"
    unfolding exposes_def by (elim exE conjE) (rule that)
  from ex obtain es a where es: "es \<in> set ess" "has_header es a k n" by blast
  have len: "length ds = length ess" using same by (auto dest: list_all2_lengthD)
  have sm: "same (ds ! i) (JObj (ess ! i))" if "i < length ess" for i
    using same that len by (auto simp: list_all2_conv_all_nth)
  have ent: "JObj (map entries_of ds ! i) = ds ! i" if "i < length ess" for i using same_entries [OF sm [OF that]] that len by simp
  obtain j where j: "j < length ess" "ess ! j = es" using es(1) by (auto simp: in_set_conv_nth)
  from es docs(2) have f: "2 \<le> length k" "is_upper (hd k)" "list_all is_letter k" "CHR '']'' \<notin> set n" "go_Atoi n = None" and n: "n \<noteq> []"
    by (auto simp: findable_def list_all_iff has_header_def)
  have jid: "doc_kind (map entries_of ds ! j) = Some (JStr k)" "doc_name (map entries_of ds ! j) = Some (JStr n)"
    unfolding doc_identity ent [OF j(1)] using header_values [OF es(2)] same_value_at [OF sm [OF j(1)]] j(2) by auto
  from findDoc_name [OF _ jid n f(5)] j(1) len obtain i where
    i: "i < length ess" "findDoc (map entries_of ds) k n = Inr i"
      "doc_kind (map entries_of ds ! i) = Some (JStr k)" "doc_name (map entries_of ds ! i) = Some (JStr n)" by auto
  from docs(1) i(1) obtain a' k' n' where h: "has_header (ess ! i) a' k' n'" "regular (JObj (ess ! i))"
    by (auto simp: list_all_length template_doc_def)
  have "k' = k" "n' = n"
    using i(3,4) header_values [OF h(1)] same_value_at [OF sm [OF i(1)]] unfolding doc_identity ent [OF i(1)] by fastforce+
  with h(1) have "has_header (ess ! i) a' k n" by simp
  with lead [rule_format, of "ess ! i" a'] i(1) obtain ts y where
    ts: "sub = ptext [] ts" "value_at (JObj (strip_doc (ess ! i))) ts = Some y" "scalar y" by auto
  then have v: "value_at (JObj (ess ! i)) ts = Some y" "ts \<notin> header_positions" using value_at_strip [OF h(1)] by blast+
  obtain q us where cons: "ts = Key q # us" using v(1) ts(3) by (cases ts; cases "hd ts") auto
  have segs: "path_segs sub = Inr ts" using path_segs_ptext value_at_ident [OF h(2) v(1)] unfolding ts(1) cons by blast
  have "keeps_identity ts"
    using leaf_parallel [OF v(1) ts(3) header_values(1) [OF h(1)]] leaf_parallel [OF v(1) ts(3) header_values(2) [OF h(1)]] v(2)
    by (auto simp: keeps_identity_def header_positions_def)
  moreover have "newline_free sub" using p by (auto simp: parse_spec_path_def newline_free_def list_all_iff Let_def split: if_splits)
  with parseHead_path [OF f(1-4) n] parse_spec_path_text [OF p] have "parseHead (e_path e) = Inr (k, n, sub)" by simp
  with i(2) segs cons have "target (map entries_of ds) (e_path e) = Some (i, ts)" by (simp add: target_def)
  ultimately show ?thesis using i(1) v(1) ts(3) same_value_at [OF sm [OF i(1)] v(1) ts(3)] by blast
qed

section \<open>A saved template can be deployed\<close>

lemma parse_docs: "list_all (\<lambda>d. entries_of d \<noteq> []) ds \<Longrightarrow> parseMultiDoc (map (\<lambda>d. Inr (entries_of d)) ds) = Inr (map entries_of ds)"
  by (induction ds) simp_all

lemma saved_targets:
  assumes same: "list_all2 same ds (map JObj ess)" and docs: "list_all template_doc ess" "list_all findable ess"
    and entries: "list_all (exposes ess) entries" and out: "\<And>g. g \<in> set out \<longleftrightarrow> (\<exists>e \<in> set entries. go_entry_of e = Some g)"
  shows "list_all (leads_somewhere (map entries_of ds)) out" "list_all (place_exists (map entries_of ds)) out"
    "apart_targets (map entries_of ds) out"
proof -
  have ent: "JObj (map entries_of ds ! i) = ds ! i" if "i < length ess" for i
    using same_entries [of "ds ! i" "ess ! i"] same that by (auto simp: list_all2_conv_all_nth)
  have t: "\<exists>i ts y. i < length ess \<and> target (map entries_of ds) (ge_path g) = Some (i, ts)
     \<and> value_at (JObj (ess ! i)) ts = Some y \<and> scalar y \<and> value_at (ds ! i) ts = Some y \<and> keeps_identity ts" if "g \<in> set out" for g
  proof -
    from out that obtain e where e: "e \<in> set entries" "go_entry_of e = Some g" by blast
    with entries have "exposes ess e" by (simp add: list_all_iff)
    from entry_target [OF same docs this] go_entry_of_path [OF e(2)] show ?thesis by simp
  qed
  show "list_all (leads_somewhere (map entries_of ds)) out" using t by (fastforce simp: list_all_iff leads_somewhere_def)
  show "list_all (place_exists (map entries_of ds)) out" using t ent by (fastforce simp: list_all_iff place_exists_def)
  have "(case target (map entries_of ds) (ge_path f) of None \<Rightarrow> True
     | Some (i, us) \<Rightarrow> (case target (map entries_of ds) (ge_path g) of None \<Rightarrow> True | Some (j, vs) \<Rightarrow> i = j \<longrightarrow> us = vs \<or> us \<parallel> vs))"
    if "f \<in> set out" "g \<in> set out" for f g
    using t [OF that(1)] t [OF that(2)] leaf_parallel by fastforce
  then show "apart_targets (map entries_of ds) out" unfolding apart_targets_def
    by (induction out) auto
qed

lemma go_entry_of_pattern: "go_entry_of e = Some g \<Longrightarrow> ge_pattern g = nullish (e_pattern e) []"
  by (auto simp: go_entry_of_def split: option.splits prod.splits)

lemma parse_entries: "\<forall>f \<in> set fs. ge_pattern f = [] \<or> compiles_ok (ge_pattern f) \<Longrightarrow> parseSpec compiles_ok (Inr fs) = Inr fs"
proof -
  assume "\<forall>f \<in> set fs. ge_pattern f = [] \<or> compiles_ok (ge_pattern f)"
  then have "find (\<lambda>f. ge_pattern f \<noteq> [] \<and> \<not> compiles_ok (ge_pattern f)) fs = None" by (auto simp: find_None_iff)
  then show ?thesis by (simp add: parseSpec_def)
qed

text \<open>The field has what it needs: a valid value, or none where it may be left out.\<close>

definition field_served :: "golib \<Rightarrow> (string, jsval) obj \<Rightarrow> render_field \<Rightarrow> bool" where
  "field_served lib input f \<longleftrightarrow> (case oget input (ge_path f) of
     Some raw \<Rightarrow> Validate lib FromForm f raw = None
   | None \<Rightarrow> \<not> ge_required f \<and> (ge_default f = JNull \<or> Validate lib FromSpec f (ge_default f) = None))"

text \<open>The exposed fields of a state of the editor, under the paths they are saved with.\<close>

definition exposed_entries :: "ui_resource \<Rightarrow> ui_entry list" where
  "exposed_entries u = concat (map (\<lambda>(p, f). case f of UExposed e \<Rightarrow> [e\<lparr>e_path := r_kind u @ ''['' @ r_name u @ ''].'' @ p\<rparr>] | UFixed _ \<Rightarrow> [])
     (r_fields u))"

lemma in_exposed_entries:
  "x \<in> set (exposed_entries u) \<longleftrightarrow> (\<exists>p e. (p, UExposed e) \<in> set (r_fields u) \<and> x = e\<lparr>e_path := r_kind u @ ''['' @ r_name u @ ''].'' @ p\<rparr>)"
proof -
  have "x \<in> set (case pf of (p, f) \<Rightarrow> case f of UExposed e \<Rightarrow> [e\<lparr>e_path := r_kind u @ ''['' @ r_name u @ ''].'' @ p\<rparr>] | UFixed _ \<Rightarrow> [])
      \<longleftrightarrow> (\<exists>p e. pf = (p, UExposed e) \<and> x = e\<lparr>e_path := r_kind u @ ''['' @ r_name u @ ''].'' @ p\<rparr>)" for pf
    by (cases pf) (auto split: ui_field.split)
  then show ?thesis unfolding exposed_entries_def by (simp only: set_concat set_map) auto
qed

lemma go_entry_at: "go_entry_of (e\<lparr>e_path := q\<rparr>) = map_option (\<lambda>g. g\<lparr>ge_path := q\<rparr>) (go_entry_of e)"
  by (simp add: go_entry_of_def split: option.split)

lemma state_entries:
  assumes "decodes_to u r"
  shows "g \<in> set (out_entries r (gr_fields r)) \<longleftrightarrow> (\<exists>x \<in> set (exposed_entries u). go_entry_of x = Some g)"
proof -
  have head: "gr_kind r = r_kind u" "gr_name r = r_name u" using assms by (simp_all add: decodes_to_def)
  show ?thesis
  proof
    assume "g \<in> set (out_entries r (gr_fields r))"
    then obtain p f s where f: "(p, f) \<in> set (gr_fields r)" "gf_spec f = Some s" "gf_mode f = ''exposed''" "g = entry_at r p s"
      by (auto simp: in_out_entries)
    with decodes_fields(2) [OF assms f(1)] exposed_field obtain e where
      e: "(p, UExposed e) \<in> set (r_fields u)" "go_entry_of e = Some s" by fastforce
    with f(4) head show "\<exists>x \<in> set (exposed_entries u). go_entry_of x = Some g"
      unfolding Bex_def in_exposed_entries by (intro exI [of _ "e\<lparr>e_path := r_kind u @ ''['' @ r_name u @ ''].'' @ p\<rparr>"]) (auto simp: go_entry_at entry_at_def)
  next
    assume "\<exists>x \<in> set (exposed_entries u). go_entry_of x = Some g"
    then obtain p e s where e: "(p, UExposed e) \<in> set (r_fields u)" "go_entry_of e = Some s" "g = s\<lparr>ge_path := r_kind u @ ''['' @ r_name u @ ''].'' @ p\<rparr>"
      unfolding Bex_def in_exposed_entries by (auto simp: go_entry_at)
    from decodes_fields_onto [OF assms e(1)] exposed_field e(2) obtain f where
      f: "(p, f) \<in> set (gr_fields r)" "gf_spec f = Some s" "gf_mode f = ''exposed''" by fastforce
    moreover have "g = entry_at r p s" using e(3) head by (simp add: entry_at_def)
    ultimately show "g \<in> set (out_entries r (gr_fields r))" unfolding in_out_entries by blast
  qed
qed

lemma all_state_entries:
  "list_all2 decodes_to us rs \<Longrightarrow> g \<in> set (concat (map (\<lambda>r. out_entries r (gr_fields r)) rs)) \<longleftrightarrow>
     (\<exists>x \<in> set (concat (map exposed_entries us)). go_entry_of x = Some g)"
proof (induction us rs rule: list_all2_induct)
  case (Cons u us r rs)
  then show ?case using state_entries [of u r g] by auto
qed simp

text \<open>The documents differ in kind or name.\<close>

definition apart_headers :: "(string \<times> jsval) list list \<Rightarrow> bool" where
  "apart_headers ess \<longleftrightarrow> (\<forall>es \<in> set ess. \<forall>fs \<in> set ess. \<forall>a b k n. has_header es a k n \<and> has_header fs b k n \<longrightarrow> es = fs)"

lemma parse_spec_path_of:
  assumes "k \<noteq> []" and "list_all is_word_char k" and "n \<noteq> []" and "CHR '']'' \<notin> set n"
    and "p \<noteq> []" and "list_all (\<lambda>c. of_char c \<noteq> (10 :: nat) \<and> of_char c \<noteq> (13 :: nat)) p"
  shows "parse_spec_path (k @ ''['' @ n @ ''].'' @ p) = Some (k, n, p)"
proof -
  have "\<not> is_word_char CHR ''[''" by (simp add: is_word_char_def)
  with assms(2) have k: "takeWhile is_word_char (k @ ''['' @ n @ ''].'' @ p) = k" "dropWhile is_word_char (k @ ''['' @ n @ ''].'' @ p) = ''['' @ n @ ''].'' @ p"
    using takeWhile_stops [of is_word_char k "''['' @ n @ ''].'' @ p"] by simp_all
  show ?thesis using assms(1,3,5,6) k takeWhile_neq [OF assms(4), of "CHR ''.'' # p"]
    by (simp add: parse_spec_path_def)
qed

lemma ptext_lines: "list_all ident_step ts \<Longrightarrow> list_all (\<lambda>c. of_char c \<noteq> (10 :: nat) \<and> of_char c \<noteq> (13 :: nat)) (tail_text ts)"
proof (induction ts)
  case (Cons t ts)
  have digits: "list_all is_digit (nat_digits i)" for i
    by (rule nat_digits_digits)
  have plain: "is_digit c \<or> ident_char c \<Longrightarrow> of_char c \<noteq> (10 :: nat) \<and> of_char c \<noteq> (13 :: nat)" for c
    by (auto simp: is_digit_def ident_char_def ident_start_def Let_def)
  from Cons show ?case
    using digits plain by (cases t) (auto simp: ident_step_def ident_def list_all_iff ident_char_def)
qed simp

lemma saved_docs_filled:
  assumes "list_all2 same ds (map JObj ess)" and "list_all template_doc ess"
  shows "list_all (\<lambda>d. entries_of d \<noteq> []) ds"
proof -
  have "entries_of d \<noteq> []" if "d \<in> set ds" for d
  proof -
    from that obtain i where i: "i < length ds" "ds ! i = d" by (auto simp: in_set_conv_nth)
    with assms(1) have "same d (JObj (ess ! i))" "i < length ess" by (auto simp: list_all2_conv_all_nth)
    moreover obtain a k n where "has_header (ess ! i) a k n" using assms(2) \<open>i < length ess\<close> by (auto simp: list_all_length template_doc_def)
    ultimately have "value_at d [Key ''kind''] = Some (JStr k)" using header_values(1) same_value_at by fastforce
    then show ?thesis by (cases d) (auto split: option.splits)
  qed
  then show ?thesis by (simp add: list_all_iff)
qed

text \<open>Every exposed field of a state that shows regular documents leads, under the path it is saved with, to its default.\<close>

lemma state_exposes:
  assumes "list_all template_doc ess" and "list_all findable ess" and "apart_headers ess" and "list_all2 shows_doc ess us"
  shows "list_all (exposes ess) (concat (map exposed_entries us))"
proof -
  have "exposes ess x" if "u \<in> set us" "x \<in> set (exposed_entries u)" for u x
  proof -
    from that(2) obtain p e where e: "(p, UExposed e) \<in> set (r_fields u)" "x = e\<lparr>e_path := r_kind u @ ''['' @ r_name u @ ''].'' @ p\<rparr>"
      by (auto simp: in_exposed_entries)
    from that(1) assms(4) obtain es where es: "es \<in> set ess" "shows_doc es u"
      unfolding in_set_conv_nth list_all2_conv_all_nth by metis
    then have h: "has_header es (r_apiVersion u) (r_kind u) (r_name u)" by (simp add: shows_doc_def)
    from es(2) e(1) obtain ts y where y: "p = ptext [] ts" "value_at (JObj (strip_doc es)) ts = Some y" "scalar y" "y \<noteq> JNull" "e_default e = Some y"
    proof -
      have "\<exists>ts y. p = ptext [] ts \<and> value_at (JObj (strip_doc es)) ts = Some y \<and> scalar y \<and> shows_scalar y (UExposed e)"
        using es(2) [unfolded shows_doc_def, THEN conjunct2, THEN conjunct2] e(1) by blast
      then obtain ts y where y: "p = ptext [] ts" "value_at (JObj (strip_doc es)) ts = Some y" "scalar y" "shows_scalar y (UExposed e)" by blast
      from y(4) have "y \<noteq> JNull" "e_default e = Some y" by (simp_all add: shows_scalar_def)
      with y(1-3) show thesis by (rule that)
    qed
    have f: "list_all is_letter (r_kind u)" "CHR '']'' \<notin> set (r_name u)" and ne: "r_kind u \<noteq> []" "r_name u \<noteq> []"
      using assms(2) es(1) h by (auto simp: list_all_iff findable_def has_header_def)
    have "value_at (JObj es) ts = Some y" using y(2,3) value_at_strip [OF h] by blast
    moreover have "regular (JObj es)" using assms(1) es(1) by (simp add: list_all_iff template_doc_def)
    ultimately have ident: "list_all ident_step ts" using value_at_ident by blast
    obtain k us' where cons: "ts = Key k # us'" using y(2,3) by (cases ts; cases "hd ts") auto
    have k: "k \<noteq> []" "list_all (\<lambda>c. of_char c \<noteq> (10 :: nat) \<and> of_char c \<noteq> (13 :: nat)) k"
      using ident ptext_lines [of "[Key k]"] cons by (simp_all add: ident_step_def ident_def)
    have p: "p = k @ tail_text us'" using k(1) unfolding y(1) cons by (simp add: child_path_def ptext_tail)
    have lines: "p \<noteq> []" "list_all (\<lambda>c. of_char c \<noteq> (10 :: nat) \<and> of_char c \<noteq> (13 :: nat)) p"
      using k ptext_lines [of us'] ident cons unfolding p by simp_all
    have "list_all is_word_char (r_kind u)" using f(1) by (auto simp: list_all_iff is_letter_def is_word_char_def Let_def)
    from parse_spec_path_of [OF ne(1) this ne(2) f(2) lines] have path: "parse_spec_path (e_path x) = Some (r_kind u, r_name u, p)" by (simp add: e(2))
    have "es' = es" if "es' \<in> set ess" "has_header es' a (r_kind u) (r_name u)" for es' a
      using assms(3) that es(1) h unfolding apart_headers_def by blast
    then have "\<forall>es' \<in> set ess. \<forall>a. has_header es' a (r_kind u) (r_name u) \<longrightarrow> (\<exists>ts y. p = ptext [] ts
        \<and> value_at (JObj (strip_doc es')) ts = Some y \<and> scalar y \<and> y \<noteq> JNull \<and> e_default e = Some y)" using y by blast
    moreover have "e_default x = e_default e" by (simp add: e(2))
    ultimately show ?thesis using path es(1) h unfolding exposes_def
      by (intro exI [of _ "r_kind u"] exI [of _ "r_name u"] exI [of _ p] conjI) (blast, blast, simp only:)
  qed
  then show ?thesis by (auto simp: list_all_iff)
qed


lemma web_deployment_findable: "findable (web_deployment i)"
proof -
  have "has_header (web_deployment i) a k n \<Longrightarrow> k = ''Deployment'' \<and> n = ''web''" for a k n
    by (simp add: has_header_def web_deployment_def)
  moreover have "2 \<le> length ''Deployment''" "is_upper (hd ''Deployment'')" "list_all is_letter ''Deployment''" "go_Atoi ''web'' = None" "CHR '']'' \<notin> set ''web''"
    by (simp_all add: is_upper_def is_letter_def go_Atoi_def is_digit_def)
  ultimately show ?thesis unfolding findable_def by metis
qed

lemma nginx_exposed: "concat (map exposed_entries nginx_state) = [nginx_entry]"
  by (simp add: exposed_entries_def nginx_state_def nginx_entry_def image_entry_def)


section \<open>Templates that do not render as meant\<close>

text \<open>An integer field takes fractions. A number passes when its integer part is within the bounds,
  so 5.9 passes a maximum of 5, and it is the fraction that is written into the document.\<close>

lemma fractions_pass:
  assumes "1 \<le> trunc q" and "trunc q \<le> 5"
  shows "\<exists>d. Render plain_lib [Inr (web_deployment i)] (Inr [replicas_field]) (Inr [(ge_path replicas_field, JNum (Num q))]) l now = Inr [d]
    \<and> value_at (JObj d) [Key ''spec'', Key ''replicas''] = Some (JNum (Num q))"
proof -
  let ?input = "[(ge_path replicas_field, JNum (Num q))]"
  have f: "list_all (leads_somewhere [web_deployment i]) [replicas_field]" "list_all (place_exists [web_deployment i]) [replicas_field]"
    "apart_targets [web_deployment i] [replicas_field]" using demo_leads demo_places by (simp_all add: apart_targets_def)
  have "list_all (field_fits plain_lib ?input) [replicas_field]"
    using assms by (simp add: field_fits_def field_value_def Validate_def replicas_field_def toInt_def)
  with render_iff [OF demo_parse(1) demo_parse(2) f] obtain out where
    out: "Render plain_lib [Inr (web_deployment i)] (Inr [replicas_field]) (Inr ?input) l now = Inr out" by blast
  from Render_Inr [OF out] obtain mid where mid: "render_fields plain_lib ?input [replicas_field] [web_deployment i] = Inr mid"
    "out = map (stampLabels l now) mid" by (auto simp: demo_parse simp del: parseMultiDoc.simps)
  have w: "writes_of [web_deployment i] ?input [replicas_field] = [((0, [Key ''spec'', Key ''replicas'']), JNum (Num q))]"
    by (simp add: writes_of_def List.map_filter_def write_of_def field_value_def)
  have v: "value_at (JObj (mid ! 0)) [Key ''spec'', Key ''replicas''] = Some (JNum (Num q))"
    using render_fields_writes [OF mid(1) f(1), of 0 "[Key ''spec'', Key ''replicas'']"] unfolding w by (simp add: apart_writes_def)
  have "same_identities [web_deployment i] mid" using render_fields_frame [OF mid(1) f(1)] by blast
  then obtain m where m: "mid = [m]" using same_identities_length by (cases mid; cases "tl mid") fastforce+
  have "not_owned [Key ''spec'', Key ''replicas'']" by (simp add: not_owned_def owned_positions_def owned_below_def)
  with v m have "value_at (JObj (stampLabels l now m)) [Key ''spec'', Key ''replicas''] = Some (JNum (Num q))"
    using stampLabels_off [of l now] by (simp add: keeps_off_def del: value_at.simps)
  with out mid(2) m show ?thesis by simp
qed

lemma fractions_pass_witness:
  "\<exists>d. Render plain_lib [Inr (web_deployment ''nginx'')] (Inr [replicas_field]) (Inr [(ge_path replicas_field, JNum (Num (59 / 10)))]) demo_labels [] = Inr [d]"
proof -
  have "\<lfloor>59 / 10 :: rat\<rfloor> = 5" by (rule floor_unique) simp_all
  then have t: "1 \<le> trunc (59 / 10)" "trunc (59 / 10) \<le> 5" by (simp_all add: trunc_def)
  from fractions_pass [OF t, of "''nginx''" demo_labels "[]"] show ?thesis by blast
qed

definition bare_list_request :: "go_resource list" where
  "bare_list_request = [\<lparr>gr_apiVersion = ''apps/v1'', gr_kind = ''Deployment'', gr_name = ''web'',
     gr_fields = [(''spec.containers[0].image'', \<lparr>gf_mode = ''exposed'', gf_value = JNull, gf_spec = Some image_field\<rparr>)]\<rparr>]"

definition bare_doc :: go_doc where
  "bare_doc = [(''apiVersion'', JStr ''apps/v1''), (''kind'', JStr ''Deployment''), (''metadata'', JObj [(''name'', JStr ''web'')])]"

text \<open>A field inside a list that no other field fills can be exposed and saved, but a release cannot be
  made from the template: the stored document does not have the list, and whatever values the form sends,
  rendering refuses them.\<close>

lemma bare_list_never_deploys:
  "SerializeUIMode bare_list_request = Inr ([JObj bare_doc], [image_field])
   \<and> (\<exists>m. Render lib [Inr bare_doc] (Inr [image_field]) (Inr input) l now = Inl m)"
proof -
  have entry: "image_field\<lparr>ge_path := ''Deployment[web].spec.containers[0].image''\<rparr> = image_field" by (simp add: image_field_def)
  have d: "ge_default image_field = JNull" by (simp add: image_field_def)
  have "SerializeUIMode bare_list_request = Inr ([JObj bare_doc], [image_field])"
    by (simp add: SerializeUIMode_def bare_list_request_def serialize_field_def resource_doc_def bare_doc_def d entry Let_def)
  moreover have "findDoc [bare_doc] ''Deployment'' ''web'' = Inr 0"
    by (simp add: findDoc_def doc_kind_def doc_name_def bare_doc_def go_Atoi_def is_digit_def Let_def)
  then have t: "target [bare_doc] (ge_path image_field) = Some (0, [Key ''spec'', Key ''containers'', Idx 0, Key ''image''])"
    by (simp add: target_def image_field_def web_target)
  have "put_at [Key ''spec'', Key ''containers'', Idx 0, Key ''image''] v (JObj bare_doc) = None" for v
    by (simp add: bare_doc_def)
  then have fail: "\<exists>m. setJSONPath [bare_doc] (ge_path image_field) v = Inl m" for v
    using setJSONPath_target(1) [OF t, of v] by (cases "setJSONPath [bare_doc] (ge_path image_field) v") auto
  have "\<exists>m. render_fields lib input [image_field] [bare_doc] = Inl m"
  proof (cases "oget input (ge_path image_field)")
    case None
    then show ?thesis by (simp add: field_value_def image_field_def)
  next
    case (Some raw)
    obtain m where "setJSONPath [bare_doc] (ge_path image_field) raw = Inl m" using fail by blast
    with Some show ?thesis by (simp add: field_value_def split: option.split)
  qed
  moreover have "parseMultiDoc [Inr bare_doc] = Inr [bare_doc]" by (simp add: bare_doc_def)
  moreover have "parseSpec (compiles lib) (Inr [image_field]) = Inr [image_field]" by (simp add: parseSpec_def image_field_def)
  ultimately show ?thesis by (auto simp: Render_def)
qed

definition name_field :: render_field where
  "name_field = image_field\<lparr>ge_path := ''Deployment[web].metadata.name''\<rparr>"

text \<open>Exposing the name of a resource hides it from the fields after it. When the form renames it, the
  next field, whose path has the old name, finds no document, and the release is refused; with the fields in
  the other order the same values render.\<close>

lemma renamed_resource_lost:
  assumes "new \<noteq> ''web''"
  shows "(\<exists>m. Render plain_lib [Inr (web_deployment i)] (Inr [name_field, replicas_field])
      (Inr [(ge_path name_field, JStr new), (ge_path replicas_field, JNum (Num 2))]) l now = Inl m)
    \<and> (\<exists>docs. Render plain_lib [Inr (web_deployment i)] (Inr [replicas_field, name_field])
      (Inr [(ge_path name_field, JStr new), (ge_path replicas_field, JNum (Num 2))]) l now = Inr docs)"
proof -
  let ?input = "[(ge_path name_field, JStr new), (ge_path replicas_field, JNum (Num 2))]"
  have paths: "parseHead ''Deployment[web].metadata.name'' = Inr (''Deployment'', ''web'', ''metadata.name'')"
    by (simp add: parseHead_def is_letter_def is_upper_def newline_free_def trim_dot_def)
  have "path_segs (ptext [] [Key ''metadata'', Key ''name'']) = Inr [Key ''metadata'', Key ''name'']"
    by (rule path_segs_ptext) (simp add: ident_step_def ident_def ident_char_def ident_start_def is_digit_def)
  then have segs: "path_segs ''metadata.name'' = Inr [Key ''metadata'', Key ''name'']" by (simp add: child_path_def)
  have vals: "field_value ?input name_field = Inr (Some (JStr new))" "field_value ?input replicas_field = Inr (Some (JNum (Num 2)))"
    by (simp_all add: field_value_def name_field_def replicas_field_def image_field_def)
  have valid: "Validate plain_lib FromForm name_field (JStr new) = None" "Validate plain_lib FromForm replicas_field (JNum (Num 2)) = None"
    by (simp_all add: Validate_def name_field_def replicas_field_def image_field_def toInt_def trunc_def)
  have origin: "origin_of ?input name_field = FromForm" "origin_of ?input replicas_field = FromForm"
    by (simp_all add: origin_of_def)
  have name_target: "target [d] (ge_path name_field) = Some (0, [Key ''metadata'', Key ''name''])"
    if "findDoc [d] ''Deployment'' ''web'' = Inr 0" for d
    using that by (simp add: target_def name_field_def paths segs)
  have set: "\<exists>d'. setJSONPath [d] (ge_path f) v = Inr [d'] \<and> put_at ts v (JObj d) = Some (JObj d')"
    if "target [d] (ge_path f) = Some (0, ts)" "value_at (JObj d) ts \<noteq> None" for d f ts v
  proof -
    from that(2) put_at_some obtain x where x: "put_at ts v (JObj d) = Some x" by blast
    with put_at_obj setJSONPath_target(3) [OF that(1)] obtain d' where "x = JObj d'" by blast
    with x setJSONPath_target(1) [OF that(1), of v] show ?thesis by auto
  qed
  have here: "value_at (JObj (web_deployment i)) [Key ''metadata'', Key ''name''] \<noteq> None"
    "value_at (JObj (web_deployment i)) [Key ''spec'', Key ''replicas''] \<noteq> None" by (simp_all add: web_deployment_def)
  from set [OF name_target [OF web_target(3)] here(1), of "JStr new"] obtain d where
    d: "setJSONPath [web_deployment i] (ge_path name_field) (JStr new) = Inr [d]"
      "put_at [Key ''metadata'', Key ''name''] (JStr new) (JObj (web_deployment i)) = Some (JObj d)" by blast
  have "doc_name d = Some (JStr new)" using put_at_get [OF d(2)] unfolding doc_identity .
  then have "\<exists>m. setJSONPath [d] (ge_path replicas_field) v = Inl m" for v
    using assms web_target(2) by (auto simp: setJSONPath_def replicas_field_def findDoc_def go_Atoi_def is_digit_def Let_def)
  then obtain m where "setJSONPath [d] (ge_path replicas_field) (JNum (Num 2)) = Inl m" by blast
  then have "\<exists>m. Render plain_lib [Inr (web_deployment i)] (Inr [name_field, replicas_field]) (Inr ?input) l now = Inl m"
    by (auto simp: Render_def demo_parse vals origin valid d(1) simp del: parseMultiDoc.simps)
  moreover from set [OF web_targets(2) here(2), of "JNum (Num 2)"] obtain d2 where
    d2: "setJSONPath [web_deployment i] (ge_path replicas_field) (JNum (Num 2)) = Inr [d2]"
      "put_at [Key ''spec'', Key ''replicas''] (JNum (Num 2)) (JObj (web_deployment i)) = Some (JObj d2)" by blast
  have "same_identities [web_deployment i] [d2]"
    using put_keeps_identities [of "[Key ''spec'', Key ''replicas'']" "JNum (Num 2)" "[web_deployment i]" 0 d2] d2(2)
    by (simp add: keeps_identity_def del: put_at.simps)
  then have "findDoc [d2] ''Deployment'' ''web'' = Inr 0" using findDoc_identities [of "[web_deployment i]" "[d2]"] web_target(3) [of i] by simp
  note t2 = name_target [OF this]
  have "value_at (JObj d2) [Key ''metadata'', Key ''name''] \<noteq> None"
    using here(1) by (subst put_at_frame [OF d2(2)]) simp_all
  from set [OF t2 this, of "JStr new"] obtain d3 where "setJSONPath [d2] (ge_path name_field) (JStr new) = Inr [d3]" by blast
  then have "\<exists>docs. Render plain_lib [Inr (web_deployment i)] (Inr [replicas_field, name_field]) (Inr ?input) l now = Inr docs"
    by (simp add: Render_def demo_parse vals origin valid d2(1) del: parseMultiDoc.simps)
  ultimately show ?thesis by blast
qed

lemma renamed_resource_lost_witness:
  "\<exists>m. Render plain_lib [Inr (web_deployment ''nginx'')] (Inr [name_field, replicas_field])
      (Inr [(ge_path name_field, JStr ''shop''), (ge_path replicas_field, JNum (Num 2))]) demo_labels [] = Inl m"
  using renamed_resource_lost [of "''shop''" "''nginx''" demo_labels "[]"] by simp

end
