(* ===== verification/Api_Store.thy ===== *)
theory Api_Store
  imports Ui_Mode
begin

text \<open>
  The Go API's database (\<open>backend/internal/store\<close>, its queries and the constraints of \<open>migrations/schema.sql\<close>)
  and the way handlers run: one statement after the other, between which other requests change the tables and
  any of which may fail.

  A statement either fails and changes nothing, or returns a value and new tables. The world holds the tables,
  what other requests do to them before the n-th statement, and which statements fail for another reason than
  the data (an outage). Transactions run at the level of the database's default, read committed: others see nothing of
  them before they are committed, while every statement of them sees what others have committed before it; only a change
  that needs a row or a key they have written waits for their end. When one fails, its changes are undone. Ids are numbers,
  each used once (\<open>used\<close>: those of the templates, versions and releases there are or were); times are left out.
\<close>

section \<open>Tables\<close>

record user_record =
  usr_id :: nat
  usr_subject :: string
  usr_email :: "string option"
  usr_name :: "string option"

record team_row =
  tea_id :: nat
  tea_name :: string
  tea_display :: "string option"

record membership =
  mbr_user :: nat
  mbr_team :: nat
  mbr_role :: string

record template_row =
  tpl_id :: nat
  tpl_name :: string
  tpl_display :: string
  tpl_description :: "string option"
  tpl_tags :: "string list"
  tpl_owner :: nat
  tpl_current :: "nat option"
  tpl_team :: "nat option"

record version_content =
  con_resources :: string
  con_spec :: string
  con_metadata :: "string option"
  con_notes :: "string option"
  con_state :: "go_resource list option"

record template_version_row =
  ver_id :: nat
  ver_template :: nat
  ver_num :: int
  ver_status :: string
  ver_creator :: nat
  ver_mode :: string
  ver_content :: version_content

record cluster_row =
  clu_id :: nat
  clu_name :: string
  clu_display :: "string option"
  clu_url :: string
  clu_ca :: "string option"
  clu_issuer :: string
  clu_namespace :: "string option"

record release_record =
  rel_id :: nat
  rel_name :: string
  rel_version :: nat
  rel_cluster :: nat
  rel_namespace :: string
  rel_values :: string
  rel_rendered :: string
  rel_creator :: nat

record db =
  users :: "user_record list"
  teams :: "team_row list"
  members :: "membership list"
  templates :: "template_row list"
  versions :: "template_version_row list"
  clusters_t :: "cluster_row list"
  releases :: "release_record list"
  next_id :: nat
  used :: "nat list"

datatype dberr = NoRows | UniqueViolation | OtherError

type_synonym 'a sql = "db \<Rightarrow> dberr + 'a \<times> db"

text \<open>\<open>PgText\<close>: the empty text is stored as \<open>NULL\<close>.\<close>

definition PgText :: "string \<Rightarrow> string option" where
  "PgText s = (if s = [] then None else Some s)"

definition one_row :: "'a option \<Rightarrow> 'a sql" where
  "one_row r d = (case r of None \<Rightarrow> Inl NoRows | Some x \<Rightarrow> Inr (x, d))"

section \<open>Queries\<close>

definition GetUserByOidcSubject :: "string \<Rightarrow> user_record sql" where
  "GetUserByOidcSubject subject d = one_row (find (\<lambda>u. usr_subject u = subject) (users d)) d"

definition GetUserByEmail :: "string option \<Rightarrow> user_record sql" where
  "GetUserByEmail email d = one_row (find (\<lambda>u. email \<noteq> None \<and> usr_email u = email) (users d)) d"

definition UpsertUser :: "string \<Rightarrow> string option \<Rightarrow> string option \<Rightarrow> user_record sql" where
  "UpsertUser subject email nm d = (case find (\<lambda>u. usr_subject u = subject) (users d) of
     Some u \<Rightarrow> let u' = u\<lparr>usr_email := email, usr_name := nm\<rparr>
       in Inr (u', d\<lparr>users := update_first (\<lambda>u. usr_subject u = subject) (\<lambda>_. u') (users d)\<rparr>)
   | None \<Rightarrow> let u' = \<lparr>usr_id = next_id d, usr_subject = subject, usr_email = email, usr_name = nm\<rparr>
       in Inr (u', d\<lparr>users := users d @ [u'], next_id := Suc (next_id d)\<rparr>))"

definition GetTeamMembership :: "nat \<Rightarrow> nat \<Rightarrow> membership sql" where
  "GetTeamMembership team user d = one_row (find (\<lambda>m. mbr_team m = team \<and> mbr_user m = user) (members d)) d"

definition InsertTeam :: "string \<Rightarrow> string option \<Rightarrow> team_row sql" where
  "InsertTeam nm display d =
     (if list_ex (\<lambda>t. tea_name t = nm) (teams d) then Inl UniqueViolation
      else let t = \<lparr>tea_id = next_id d, tea_name = nm, tea_display = display\<rparr>
        in Inr (t, d\<lparr>teams := teams d @ [t], next_id := Suc (next_id d)\<rparr>))"

definition InsertTeamMembership :: "nat \<Rightarrow> nat \<Rightarrow> string \<Rightarrow> membership sql" where
  "InsertTeamMembership user team role d =
     (let m = \<lparr>mbr_user = user, mbr_team = team, mbr_role = role\<rparr>; same = (\<lambda>m. mbr_user m = user \<and> mbr_team m = team) in
      if \<not> list_ex (\<lambda>t. tea_id t = team) (teams d) \<or> \<not> list_ex (\<lambda>u. usr_id u = user) (users d) then Inl OtherError
      else Inr (m, d\<lparr>members := (if list_ex same (members d) then update_first same (\<lambda>_. m) (members d) else members d @ [m])\<rparr>))"

definition DeleteTeamMembership :: "nat \<Rightarrow> nat \<Rightarrow> unit sql" where
  "DeleteTeamMembership team user d = Inr ((), d\<lparr>members := filter (\<lambda>m. \<not> (mbr_team m = team \<and> mbr_user m = user)) (members d)\<rparr>)"

text \<open>Listings, whose order is left out.\<close>

definition ListTeams_sql :: "nat option \<Rightarrow> team_row list sql" where
  "ListTeams_sql user d = Inr (filter (\<lambda>t. case user of
     Some i \<Rightarrow> list_ex (\<lambda>m. mbr_team m = tea_id t \<and> mbr_user m = i) (members d) | None \<Rightarrow> True) (teams d), d)"

definition ListTeamMembers_sql :: "nat \<Rightarrow> (membership \<times> user_record) list sql" where
  "ListTeamMembers_sql team d = Inr (List.map_filter (\<lambda>m. map_option (Pair m) (find (\<lambda>u. usr_id u = mbr_user m) (users d)))
     (filter (\<lambda>m. mbr_team m = team) (members d)), d)"

definition GetTemplateByName :: "string \<Rightarrow> template_row sql" where
  "GetTemplateByName nm d = one_row (find (\<lambda>t. tpl_name t = nm) (templates d)) d"

definition GetTemplateVersion :: "string \<Rightarrow> int \<Rightarrow> template_version_row sql" where
  "GetTemplateVersion nm v d = one_row (find (\<lambda>x. ver_num x = v
     \<and> list_ex (\<lambda>t. tpl_id t = ver_template x \<and> tpl_name t = nm) (templates d)) (versions d)) d"

definition ListTemplates_sql :: "(template_row \<times> template_version_row option) list sql" where
  "ListTemplates_sql d = Inr (map (\<lambda>t. (t, find (\<lambda>x. tpl_current t = Some (ver_id x)) (versions d))) (templates d), d)"

definition ListTemplateVersions_sql :: "string \<Rightarrow> template_version_row list sql" where
  "ListTemplateVersions_sql nm d = Inr (rev (sort_key ver_num
     (filter (\<lambda>x. list_ex (\<lambda>t. tpl_id t = ver_template x \<and> tpl_name t = nm) (templates d)) (versions d))), d)"

definition GetTemplateVersionByID :: "nat \<Rightarrow> template_version_row sql" where
  "GetTemplateVersionByID i d = one_row (find (\<lambda>x. ver_id x = i) (versions d)) d"

definition InsertTemplateV2 :: "string \<Rightarrow> string \<Rightarrow> string option \<Rightarrow> string list \<Rightarrow> nat \<Rightarrow> nat option \<Rightarrow> template_row sql" where
  "InsertTemplateV2 nm display description tags owner team d =
     (if list_ex (\<lambda>t. tpl_name t = nm) (templates d) then Inl UniqueViolation
      else if (case team of Some i \<Rightarrow> \<not> list_ex (\<lambda>t. tea_id t = i) (teams d) | None \<Rightarrow> False) then Inl OtherError
      else let t = \<lparr>tpl_id = next_id d, tpl_name = nm, tpl_display = display, tpl_description = description, tpl_tags = tags,
          tpl_owner = owner, tpl_current = None, tpl_team = team\<rparr>
        in Inr (t, d\<lparr>templates := templates d @ [t], next_id := Suc (next_id d), used := next_id d # used d\<rparr>))"

definition UpdateTemplateMeta :: "string \<Rightarrow> string option \<Rightarrow> string option \<Rightarrow> string list option \<Rightarrow> template_row sql" where
  "UpdateTemplateMeta nm display description tags d = (case find (\<lambda>t. tpl_name t = nm) (templates d) of
     None \<Rightarrow> Inl NoRows
   | Some t \<Rightarrow> let t' = t\<lparr>tpl_display := nullish display (tpl_display t),
         tpl_description := (case description of Some x \<Rightarrow> Some x | None \<Rightarrow> tpl_description t), tpl_tags := nullish tags (tpl_tags t)\<rparr>
       in Inr (t', d\<lparr>templates := update_first (\<lambda>t. tpl_name t = nm) (\<lambda>_. t') (templates d)\<rparr>))"

definition UpdateTemplateCurrentVersion :: "nat \<Rightarrow> nat \<Rightarrow> unit sql" where
  "UpdateTemplateCurrentVersion i v d =
     Inr ((), d\<lparr>templates := update_first (\<lambda>t. tpl_id t = i) (\<lambda>t. t\<lparr>tpl_current := Some v\<rparr>) (templates d)\<rparr>)"

definition versions_of :: "db \<Rightarrow> nat \<Rightarrow> template_version_row list" where
  "versions_of d t = filter (\<lambda>x. ver_template x = t) (versions d)"

definition NextTemplateVersion :: "nat \<Rightarrow> int sql" where
  "NextTemplateVersion t d = Inr ((case map ver_num (versions_of d t) of [] \<Rightarrow> 0 | n # ns \<Rightarrow> foldl max n ns) + 1, d)"

definition InsertTemplateVersionV2 :: "nat \<Rightarrow> int \<Rightarrow> version_content \<Rightarrow> string \<Rightarrow> nat \<Rightarrow> string \<Rightarrow> template_version_row sql" where
  "InsertTemplateVersionV2 t n content status creator mode d =
     (if list_ex (\<lambda>x. ver_num x = n) (versions_of d t) \<or> status = ''draft'' \<and> list_ex (\<lambda>x. ver_status x = ''draft'') (versions_of d t)
      then Inl UniqueViolation
      else if \<not> list_ex (\<lambda>x. tpl_id x = t) (templates d) then Inl OtherError
      else let v = \<lparr>ver_id = next_id d, ver_template = t, ver_num = n, ver_status = status, ver_creator = creator, ver_mode = mode,
          ver_content = content\<rparr>
        in Inr (v, d\<lparr>versions := versions d @ [v], next_id := Suc (next_id d), used := next_id d # used d\<rparr>))"

definition change_version :: "(template_version_row \<Rightarrow> bool) \<Rightarrow> (template_version_row \<Rightarrow> template_version_row) \<Rightarrow> template_version_row sql" where
  "change_version P f d = (case find P (versions d) of None \<Rightarrow> Inl NoRows
   | Some v \<Rightarrow> Inr (f v, d\<lparr>versions := update_first P (\<lambda>_. f v) (versions d)\<rparr>))"

definition PublishTemplateVersion :: "nat \<Rightarrow> template_version_row sql" where
  "PublishTemplateVersion i = change_version (\<lambda>x. ver_id x = i \<and> ver_status x = ''draft'') (\<lambda>x. x\<lparr>ver_status := ''published''\<rparr>)"

definition SetTemplateVersionStatus :: "nat \<Rightarrow> string \<Rightarrow> template_version_row sql" where
  "SetTemplateVersionStatus i s = change_version (\<lambda>x. ver_id x = i) (\<lambda>x. x\<lparr>ver_status := s\<rparr>)"

text \<open>\<open>COALESCE(new, old)\<close> on a column that may be \<open>NULL\<close>.\<close>

definition coalesce :: "'a option \<Rightarrow> 'a option \<Rightarrow> 'a option" where
  "coalesce new old = (case new of Some x \<Rightarrow> Some x | None \<Rightarrow> old)"

definition UpdateDraftTemplateVersion :: "nat \<Rightarrow> string option \<Rightarrow> string option \<Rightarrow> string option \<Rightarrow> string option \<Rightarrow>
    go_resource list option \<Rightarrow> template_version_row sql" where
  "UpdateDraftTemplateVersion i res spec meta notes state =
     change_version (\<lambda>x. ver_id x = i \<and> ver_status x = ''draft'') (\<lambda>x. x\<lparr>ver_content :=
       \<lparr>con_resources = nullish res (con_resources (ver_content x)), con_spec = nullish spec (con_spec (ver_content x)),
        con_metadata = coalesce meta (con_metadata (ver_content x)), con_notes = coalesce notes (con_notes (ver_content x)),
        con_state = coalesce state (con_state (ver_content x))\<rparr>\<rparr>)"

text \<open>A version that releases refer to cannot be deleted; a template's pointer to it becomes \<open>NULL\<close>.\<close>

definition DeleteDraftTemplateVersion :: "nat \<Rightarrow> nat sql" where
  "DeleteDraftTemplateVersion i d =
     (if \<not> list_ex (\<lambda>x. ver_id x = i \<and> ver_status x = ''draft'') (versions d) then Inl NoRows
      else if list_ex (\<lambda>r. rel_version r = i) (releases d) then Inl OtherError
      else Inr (i, d\<lparr>versions := filter (\<lambda>x. ver_id x \<noteq> i) (versions d),
        templates := map (\<lambda>t. if tpl_current t = Some i then t\<lparr>tpl_current := None\<rparr> else t) (templates d)\<rparr>))"

definition ListClusters_sql :: "cluster_row list sql" where
  "ListClusters_sql d = Inr (clusters_t d, d)"

definition GetClusterByName :: "string \<Rightarrow> cluster_row sql" where
  "GetClusterByName nm d = one_row (find (\<lambda>c. clu_name c = nm) (clusters_t d)) d"

definition InsertCluster :: "string \<Rightarrow> string option \<Rightarrow> string \<Rightarrow> string option \<Rightarrow> string \<Rightarrow> string option \<Rightarrow> cluster_row sql" where
  "InsertCluster nm display url ca issuer ns d =
     (if list_ex (\<lambda>c. clu_name c = nm) (clusters_t d) then Inl UniqueViolation
      else let c = \<lparr>clu_id = next_id d, clu_name = nm, clu_display = display, clu_url = url, clu_ca = ca, clu_issuer = issuer,
          clu_namespace = ns\<rparr>
        in Inr (c, d\<lparr>clusters_t := clusters_t d @ [c], next_id := Suc (next_id d)\<rparr>))"

definition InsertRelease :: "string \<Rightarrow> nat \<Rightarrow> nat \<Rightarrow> string \<Rightarrow> string \<Rightarrow> string \<Rightarrow> nat \<Rightarrow> release_record sql" where
  "InsertRelease nm v cluster ns vals rendered creator d =
     (if list_ex (\<lambda>r. rel_cluster r = cluster \<and> rel_namespace r = ns \<and> rel_name r = nm) (releases d) then Inl UniqueViolation
      else if \<not> list_ex (\<lambda>x. ver_id x = v) (versions d) then Inl OtherError
      else let r = \<lparr>rel_id = next_id d, rel_name = nm, rel_version = v, rel_cluster = cluster, rel_namespace = ns, rel_values = vals,
          rel_rendered = rendered, rel_creator = creator\<rparr>
        in Inr (r, d\<lparr>releases := releases d @ [r], next_id := Suc (next_id d), used := next_id d # used d\<rparr>))"

definition UpdateReleaseValuesAndVersion :: "nat \<Rightarrow> nat \<Rightarrow> string \<Rightarrow> string \<Rightarrow> unit sql" where
  "UpdateReleaseValuesAndVersion i v vals rendered d =
     (if \<not> list_ex (\<lambda>x. ver_id x = v) (versions d) \<and> list_ex (\<lambda>r. rel_id r = i) (releases d) then Inl OtherError
      else Inr ((), d\<lparr>releases := update_first (\<lambda>r. rel_id r = i)
        (\<lambda>r. r\<lparr>rel_version := v, rel_values := vals, rel_rendered := rendered\<rparr>) (releases d)\<rparr>))"

definition DeleteRelease_sql :: "nat \<Rightarrow> unit sql" where
  "DeleteRelease_sql i d = Inr ((), d\<lparr>releases := filter (\<lambda>r. rel_id r \<noteq> i) (releases d)\<rparr>)"

text \<open>A release with its cluster, its template's name and its version.\<close>

record release_info =
  ri_row :: release_record
  ri_cluster :: cluster_row
  ri_template :: string
  ri_version :: int

definition release_join :: "db \<Rightarrow> release_record \<Rightarrow> release_info option" where
  "release_join d r = (case (find (\<lambda>c. clu_id c = rel_cluster r) (clusters_t d), find (\<lambda>x. ver_id x = rel_version r) (versions d)) of
     (Some c, Some v) \<Rightarrow> map_option (\<lambda>t. \<lparr>ri_row = r, ri_cluster = c, ri_template = tpl_name t, ri_version = ver_num v\<rparr>)
       (find (\<lambda>t. tpl_id t = ver_template v) (templates d))
   | _ \<Rightarrow> None)"

definition GetReleaseByID :: "nat \<Rightarrow> release_info sql" where
  "GetReleaseByID i d = one_row
     (case find (\<lambda>r. rel_id r = i) (releases d) of None \<Rightarrow> None | Some r \<Rightarrow> release_join d r) d"

text \<open>The newest releases first, of all users or of one.\<close>

definition ListReleases_sql :: "nat option \<Rightarrow> int \<Rightarrow> int \<Rightarrow> release_info list sql" where
  "ListReleases_sql creator limit offset d = Inr (take (nat limit) (drop (nat offset) (List.map_filter (release_join d)
     (filter (\<lambda>r. case creator of Some u \<Rightarrow> rel_creator r = u | None \<Rightarrow> True) (rev (releases d))))), d)"

section \<open>Transactions\<close>

text \<open>
  \<open>merged old new d\<close>: the tables \<open>d\<close> with the rows a transaction has written, which found \<open>old\<close> and sees \<open>new\<close>. The
  rows it changed or removed are locked until its end, so that the others leave them as they were, and they wait with
  what would break a constraint together with its rows; \<open>compatible\<close> are the changes of others that need not wait.
\<close>

definition upsert_row :: "('r \<Rightarrow> 'k) \<Rightarrow> 'r \<Rightarrow> 'r list \<Rightarrow> 'r list" where
  "upsert_row key r rs = (if list_ex (\<lambda>x. key x = key r) rs then map (\<lambda>x. if key x = key r then r else x) rs else rs @ [r])"

definition merged_rows :: "('r \<Rightarrow> 'k) \<Rightarrow> 'r list \<Rightarrow> 'r list \<Rightarrow> 'r list \<Rightarrow> 'r list" where
  "merged_rows key old new rs = fold (upsert_row key) (filter (\<lambda>r. r \<notin> set old) new)
     (filter (\<lambda>r. key r \<in> key ` set old \<longrightarrow> key r \<in> key ` set new) rs)"

definition merged :: "db \<Rightarrow> db \<Rightarrow> db \<Rightarrow> db" where
  "merged old new d = \<lparr>users = merged_rows usr_id (users old) (users new) (users d),
     teams = merged_rows tea_id (teams old) (teams new) (teams d),
     members = merged_rows (\<lambda>m. (mbr_user m, mbr_team m)) (members old) (members new) (members d),
     templates = merged_rows tpl_id (templates old) (templates new) (templates d),
     versions = merged_rows ver_id (versions old) (versions new) (versions d),
     clusters_t = merged_rows clu_id (clusters_t old) (clusters_t new) (clusters_t d),
     releases = merged_rows rel_id (releases old) (releases new) (releases d),
     next_id = max (next_id new) (next_id d), used = filter (\<lambda>i. i \<notin> set (used old)) (used new) @ used d\<rparr>"

definition rows_free :: "('r \<Rightarrow> 'k) \<Rightarrow> 'r list \<Rightarrow> 'r list \<Rightarrow> 'r list \<Rightarrow> bool" where
  "rows_free key old new rs \<longleftrightarrow> (\<forall>r \<in> set old. r \<notin> set new \<longrightarrow> r \<in> set rs)
     \<and> (\<forall>r \<in> set new. key r \<notin> key ` set old \<longrightarrow> key r \<notin> key ` set rs)"

text \<open>Numbers are not used twice by a template, and at most one of its versions is a draft.\<close>

definition numbers_ok :: "db \<Rightarrow> bool" where
  "numbers_ok d \<longleftrightarrow> (\<forall>x \<in> set (versions d). \<forall>y \<in> set (versions d). ver_template x = ver_template y \<longrightarrow> x \<noteq> y \<longrightarrow>
     ver_num x \<noteq> ver_num y \<and> \<not> (ver_status x = ''draft'' \<and> ver_status y = ''draft''))"

definition constraints :: "db \<Rightarrow> bool" where
  "constraints d \<longleftrightarrow> distinct (map usr_subject (users d)) \<and> distinct (map tea_name (teams d)) \<and> distinct (map tpl_name (templates d))
     \<and> numbers_ok d \<and> distinct (map clu_name (clusters_t d)) \<and> distinct (map (\<lambda>r. (rel_cluster r, rel_namespace r, rel_name r)) (releases d))
     \<and> (\<forall>v \<in> set (versions d). \<exists>t \<in> set (templates d). tpl_id t = ver_template v)
     \<and> (\<forall>r \<in> set (releases d). \<exists>v \<in> set (versions d). ver_id v = rel_version r)
     \<and> (\<forall>m \<in> set (members d). (\<exists>t \<in> set (teams d). tea_id t = mbr_team m) \<and> (\<exists>u \<in> set (users d). usr_id u = mbr_user m))
     \<and> (\<forall>t \<in> set (templates d). (case tpl_team t of None \<Rightarrow> True | Some i \<Rightarrow> \<exists>x \<in> set (teams d). tea_id x = i)
          \<and> (case tpl_current t of None \<Rightarrow> True | Some i \<Rightarrow> \<exists>v \<in> set (versions d). ver_id v = i))"

definition compatible :: "db \<Rightarrow> db \<Rightarrow> db \<Rightarrow> bool" where
  "compatible old new d \<longleftrightarrow> rows_free usr_id (users old) (users new) (users d) \<and> rows_free tea_id (teams old) (teams new) (teams d)
     \<and> rows_free (\<lambda>m. (mbr_user m, mbr_team m)) (members old) (members new) (members d)
     \<and> rows_free tpl_id (templates old) (templates new) (templates d) \<and> rows_free ver_id (versions old) (versions new) (versions d)
     \<and> rows_free clu_id (clusters_t old) (clusters_t new) (clusters_t d) \<and> rows_free rel_id (releases old) (releases new) (releases d)
     \<and> (\<forall>i \<in> set (used new). i \<notin> set (used old) \<longrightarrow> i \<notin> set (used d)) \<and> constraints (merged old new d)"

section \<open>Handlers\<close>

text \<open>
  A handler is a function of the world that ends early with an answer or goes on with a value. \<open>after\<close> runs
  two in turn; \<open>query\<close> is one statement, whose result the handler inspects; \<open>with_tx\<close> is \<open>WithTx\<close>, whose body
  stops at the first error and whose statements are \<open>tx_stmt\<close>. During a transaction \<open>tables\<close> is what it sees and
  \<open>committed\<close> what the others see.
\<close>

record world =
  tables :: db
  committed :: db
  others :: "nat \<Rightarrow> db \<Rightarrow> db"
  outage :: "nat \<Rightarrow> bool"
  ticks :: nat

type_synonym ('z, 'e, 'a) act = "'z world_scheme \<Rightarrow> ('e + 'a) \<times> 'z world_scheme"

definition give :: "'a \<Rightarrow> ('z, 'e, 'a) act" where
  "give x w = (Inr x, w)"

definition stop :: "'e \<Rightarrow> ('z, 'e, 'a) act" where
  "stop r w = (Inl r, w)"

definition after :: "('z, 'e, 'a) act \<Rightarrow> ('a \<Rightarrow> ('z, 'e, 'b) act) \<Rightarrow> ('z, 'e, 'b) act" where
  "after m f w = (case m w of (Inl r, w') \<Rightarrow> (Inl r, w') | (Inr x, w') \<Rightarrow> f x w')"

definition stmt :: "'a sql \<Rightarrow> ('z, dberr, 'a) act" where
  "stmt q w = (let d = others w (ticks w) (tables w); w' = w\<lparr>tables := d, ticks := Suc (ticks w)\<rparr> in
     if outage w (ticks w) then (Inl OtherError, w')
     else case q d of Inl e \<Rightarrow> (Inl e, w') | Inr (x, d') \<Rightarrow> (Inr x, w'\<lparr>tables := d'\<rparr>))"

definition query :: "'a sql \<Rightarrow> ('z, 'e, dberr + 'a) act" where
  "query q w = (case stmt q w of (r, w') \<Rightarrow> (Inr r, w'))"

text \<open>\<open>on_error f\<close> names the error of a statement; the first argument of \<open>with_tx\<close> names the errors of \<open>BEGIN\<close> and
  \<open>COMMIT\<close>.\<close>

definition on_error :: "('e \<Rightarrow> 'f) \<Rightarrow> ('z, 'e, 'a) act \<Rightarrow> ('z, 'f, 'a) act" where
  "on_error f m w = (case m w of (Inl e, w') \<Rightarrow> (Inl (f e), w') | (Inr x, w') \<Rightarrow> (Inr x, w'))"

definition settle :: "'z world_scheme \<Rightarrow> 'z world_scheme" where
  "settle w = (let c = (committed w)\<lparr>next_id := max (next_id (committed w)) (next_id (tables w))\<rparr>; d = others w (ticks w) c in
     if d = c \<or> \<not> compatible (committed w) (tables w) d then w
     else w\<lparr>tables := merged (committed w) (tables w) d, committed := d\<rparr>)"

definition tx_stmt :: "'a sql \<Rightarrow> ('z, dberr, 'a) act" where
  "tx_stmt q w = (let w' = (settle w)\<lparr>ticks := Suc (ticks w)\<rparr> in
     if outage w (ticks w) then (Inl OtherError, w')
     else case q (tables w') of Inl e \<Rightarrow> (Inl e, w') | Inr (x, d) \<Rightarrow> (Inr x, w'\<lparr>tables := d\<rparr>))"

definition with_tx :: "(dberr \<Rightarrow> 'f) \<Rightarrow> ('z, 'f, 'a) act \<Rightarrow> ('z, 'e, 'f + 'a) act" where
  "with_tx name m w = (let d = others w (ticks w) (tables w); w1 = w\<lparr>tables := d, ticks := Suc (ticks w)\<rparr>;
       rollback = (\<lambda>w'. w'\<lparr>tables := committed w', committed := committed w\<rparr>) in
     if outage w (ticks w) then (Inr (Inl (name OtherError)), w1)
     else case m (w1\<lparr>committed := d\<rparr>) of
         (Inl e, w2) \<Rightarrow> (Inr (Inl e), rollback w2)
       | (Inr x, w2) \<Rightarrow>
           let w3 = (settle w2)\<lparr>ticks := Suc (ticks w2)\<rparr> in
           if outage w2 (ticks w2) then (Inr (Inl (name OtherError)), rollback w3)
           else (Inr (Inr x), w3\<lparr>committed := committed w\<rparr>))"

text \<open>The answers of the API: a problem with its status, title and detail, or a status and a body.\<close>

datatype 'b api_reply = Problem nat string string | Answer nat 'b

definition serve :: "('z, 'b api_reply, 'b api_reply) act \<Rightarrow> 'z world_scheme \<Rightarrow> 'b api_reply \<times> 'z world_scheme" where
  "serve m w = (case m w of (Inl r, w') \<Rightarrow> (r, w') | (Inr r, w') \<Rightarrow> (r, w'))"

section \<open>Reasoning about handlers\<close>

lemma stmt_others: "stmt q w = (r, w') \<Longrightarrow> others w' = others w"
  by (auto simp: stmt_def Let_def split: if_splits sum.splits prod.splits)

lemma on_error_others: "on_error g (stmt q) w = (r, w') \<Longrightarrow> others w' = others w"
  by (auto simp: on_error_def split: sum.splits prod.splits dest: stmt_others)

text \<open>
  What a client of the shared tables may rely on: every change, its own and the others', is a step of a
  reflexive and transitive relation. \<open>sat P m Q\<close>: started where \<open>P\<close> holds, with others that keep to the
  relation, \<open>m\<close> keeps to it too, and where it goes on with \<open>x\<close>, \<open>Q x\<close> holds.
\<close>

locale shared_store =
  fixes R :: "db \<Rightarrow> db \<Rightarrow> bool"
  assumes R_refl: "R d d" and R_trans: "R d e \<Longrightarrow> R e f \<Longrightarrow> R d f" and R_ids: "next_id d \<le> n \<Longrightarrow> R d (d\<lparr>next_id := n\<rparr>)"
begin

definition polite :: "'z world_scheme \<Rightarrow> bool" where
  "polite w \<longleftrightarrow> (\<forall>n d. R d (others w n d))"

definition stable :: "(db \<Rightarrow> bool) \<Rightarrow> bool" where
  "stable P \<longleftrightarrow> (\<forall>d e. P d \<longrightarrow> R d e \<longrightarrow> P e)"

definition sat :: "(db \<Rightarrow> bool) \<Rightarrow> ('z, 'e, 'a) act \<Rightarrow> ('a \<Rightarrow> db \<Rightarrow> bool) \<Rightarrow> bool" where
  "sat P m Q \<longleftrightarrow> (\<forall>w r w'. polite w \<longrightarrow> P (tables w) \<longrightarrow> m w = (r, w') \<longrightarrow>
     polite w' \<and> R (tables w) (tables w') \<and> (\<forall>x. r = Inr x \<longrightarrow> Q x (tables w')))"

lemma sat_give: "(\<And>d. P d \<Longrightarrow> Q x d) \<Longrightarrow> sat P (give x) Q"
  by (auto simp: sat_def give_def intro: R_refl)

lemma sat_stop: "sat P (stop r) Q"
  by (auto simp: sat_def stop_def intro: R_refl)

lemma sat_after: "sat P m Q \<Longrightarrow> (\<And>x. sat (Q x) (f x) S) \<Longrightarrow> sat P (after m f) S"
  unfolding sat_def
proof (intro allI impI)
  fix w r w'
  assume m: "\<forall>w r w'. polite w \<longrightarrow> P (tables w) \<longrightarrow> m w = (r, w') \<longrightarrow> polite w' \<and> R (tables w) (tables w') \<and> (\<forall>x. r = Inr x \<longrightarrow> Q x (tables w'))"
    and f: "\<And>x. \<forall>w r w'. polite w \<longrightarrow> Q x (tables w) \<longrightarrow> f x w = (r, w') \<longrightarrow> polite w' \<and> R (tables w) (tables w') \<and> (\<forall>y. r = Inr y \<longrightarrow> S y (tables w'))"
    and w: "polite w" "P (tables w)" "after m f w = (r, w')"
  obtain r1 w1 where r1: "m w = (r1, w1)" by force
  note one = m [rule_format, OF w(1,2) r1]
  show "polite w' \<and> R (tables w) (tables w') \<and> (\<forall>x. r = Inr x \<longrightarrow> S x (tables w'))"
  proof (cases r1)
    case (Inl e)
    with w(3) r1 one show ?thesis by (auto simp: after_def)
  next
    case (Inr x)
    with w(3) r1 have "f x w1 = (r, w')" by (simp add: after_def)
    with f [rule_format, of w1 x r w'] one Inr R_trans [of "tables w" "tables w1" "tables w'"] show ?thesis by blast
  qed
qed

lemma sat_pre: "sat P m Q \<Longrightarrow> (\<And>d. P' d \<Longrightarrow> P d) \<Longrightarrow> sat P' m Q"
  by (auto simp: sat_def)

lemma sat_post: "sat P m Q \<Longrightarrow> (\<And>x d. Q x d \<Longrightarrow> Q' x d) \<Longrightarrow> sat P m Q'"
  unfolding sat_def by blast

lemma sat_if: "(b \<Longrightarrow> sat P m Q) \<Longrightarrow> (\<not> b \<Longrightarrow> sat P n Q) \<Longrightarrow> sat P (if b then m else n) Q"
  by simp

lemma sat_sum: "(\<And>e. x = Inl e \<Longrightarrow> sat P (f e) Q) \<Longrightarrow> (\<And>y. x = Inr y \<Longrightarrow> sat P (g y) Q) \<Longrightarrow> sat P (case x of Inl e \<Rightarrow> f e | Inr y \<Rightarrow> g y) Q"
  by (cases x) auto

lemma sat_option: "(x = None \<Longrightarrow> sat P f Q) \<Longrightarrow> (\<And>y. x = Some y \<Longrightarrow> sat P (g y) Q) \<Longrightarrow> sat P (case x of None \<Rightarrow> f | Some y \<Rightarrow> g y) Q"
  by (cases x) auto

text \<open>A statement whose changes keep to the relation.\<close>

lemma sat_query:
  assumes "stable P" and "\<And>d x e. P d \<Longrightarrow> q d = Inr (x, e) \<Longrightarrow> R d e \<and> Q x e"
  shows "sat P (query q) (\<lambda>r d. case r of Inl _ \<Rightarrow> P d | Inr x \<Rightarrow> Q x d)"
  unfolding sat_def
proof (intro allI impI)
  fix w r w'
  assume w: "polite w" "P (tables w)" "query q w = (r, w')"
  define d where "d = others w (ticks w) (tables w)"
  have d: "R (tables w) d" "P d" using w(1,2) assms(1) by (auto simp: d_def polite_def stable_def)
  consider e where "r = Inr (Inl e)" "tables w' = d" "others w' = others w"
    | x e where "r = Inr (Inr x)" "q d = Inr (x, e)" "tables w' = e" "others w' = others w"
    using w(3) unfolding query_def stmt_def Let_def d_def [symmetric]
    by (auto split: if_splits sum.splits prod.splits)
  then show "polite w' \<and> R (tables w) (tables w') \<and> (\<forall>x. r = Inr x \<longrightarrow> (case x of Inl _ \<Rightarrow> P (tables w') | Inr x \<Rightarrow> Q x (tables w')))"
  proof cases
    case 1
    then show ?thesis using w(1) d by (simp add: polite_def)
  next
    case 2
    then show ?thesis using w(1) assms(2) [OF d(2) 2(2)] R_trans [OF d(1)] by (simp add: polite_def)
  qed
qed

text \<open>
  A transaction. Its assertions are on two states, what is committed and what it sees; \<open>shared I\<close>: the changes of others
  keep \<open>I\<close>. Only at its end its changes, as a whole, keep to the relation.
\<close>

definition shared :: "(db \<Rightarrow> db \<Rightarrow> bool) \<Rightarrow> bool" where
  "shared I \<longleftrightarrow> (\<forall>b v d. I b v \<longrightarrow> R (b\<lparr>next_id := max (next_id b) (next_id v)\<rparr>) d \<longrightarrow> compatible b v d \<longrightarrow> I d (merged b v d))"

definition tx_ok :: "(db \<Rightarrow> db \<Rightarrow> bool) \<Rightarrow> ('z, 'e, 'a) act \<Rightarrow> ('a \<Rightarrow> db \<Rightarrow> db \<Rightarrow> bool) \<Rightarrow> bool" where
  "tx_ok I m J \<longleftrightarrow> (\<forall>w r w'. polite w \<longrightarrow> I (committed w) (tables w) \<longrightarrow> m w = (r, w') \<longrightarrow>
     others w' = others w \<and> R (committed w) (committed w') \<and> (\<forall>x. r = Inr x \<longrightarrow> J x (committed w') (tables w')))"

lemma tx_okD:
  assumes "tx_ok I m J" and "polite w" and "I (committed w) (tables w)" and "m w = (r, w')"
  shows "others w' = others w" and "R (committed w) (committed w')" and "r = Inr x \<Longrightarrow> J x (committed w') (tables w')"
  using assms unfolding tx_ok_def by blast+

lemma settle_keeps:
  assumes "polite w" and "shared I" and "I (committed w) (tables w)"
  shows "others (settle w) = others w \<and> outage (settle w) = outage w \<and> R (committed w) (committed (settle w))
    \<and> I (committed (settle w)) (tables (settle w))"
proof -
  let ?c = "(committed w)\<lparr>next_id := max (next_id (committed w)) (next_id (tables w))\<rparr>"
  have c: "R (committed w) ?c" by (rule R_ids) simp
  moreover have o: "R ?c (others w (ticks w) ?c)" using assms(1) by (simp add: polite_def)
  ultimately have "R (committed w) (others w (ticks w) ?c)" by (rule R_trans)
  moreover have "I (others w (ticks w) ?c) (merged (committed w) (tables w) (others w (ticks w) ?c))"
    if "compatible (committed w) (tables w) (others w (ticks w) ?c)"
    using assms(2,3) o that unfolding shared_def by blast
  ultimately show ?thesis using assms(3) R_refl by (simp add: settle_def Let_def)
qed

lemma tx_stmt_ok:
  assumes "shared I" and "\<And>b v x e. I b v \<Longrightarrow> q v = Inr (x, e) \<Longrightarrow> J x b e"
  shows "tx_ok I (tx_stmt q) J"
  unfolding tx_ok_def
proof (intro allI impI)
  fix w r w'
  assume w: "polite w" "I (committed w) (tables w)" "tx_stmt q w = (r, w')"
  note s = settle_keeps [OF w(1) assms(1) w(2)]
  consider e where "r = Inl e" "w' = (settle w)\<lparr>ticks := Suc (ticks w)\<rparr>"
    | x e where "r = Inr x" "q (tables (settle w)) = Inr (x, e)" "w' = (settle w)\<lparr>tables := e, ticks := Suc (ticks w)\<rparr>"
    using w(3) by (auto simp: tx_stmt_def Let_def split: if_splits sum.splits prod.splits)
  then show "others w' = others w \<and> R (committed w) (committed w') \<and> (\<forall>x. r = Inr x \<longrightarrow> J x (committed w') (tables w'))"
    using s assms(2) by cases auto
qed

lemma tx_after:
  assumes m: "tx_ok I m J" and f: "\<And>x. tx_ok (J x) (f x) K"
  shows "tx_ok I (after m f) K"
  unfolding tx_ok_def
proof (intro allI impI)
  fix w r w'
  assume w: "polite w" "I (committed w) (tables w)" "after m f w = (r, w')"
  obtain r1 w1 where r1: "m w = (r1, w1)" by force
  note one = tx_okD [OF m w(1,2) r1]
  show "others w' = others w \<and> R (committed w) (committed w') \<and> (\<forall>x. r = Inr x \<longrightarrow> K x (committed w') (tables w'))"
  proof (cases r1)
    case (Inl e)
    with w(3) r1 one show ?thesis by (auto simp: after_def)
  next
    case (Inr x)
    with w(3) r1 have "f x w1 = (r, w')" by (simp add: after_def)
    with tx_okD [OF f [of x], of w1 r w'] one Inr w(1) R_trans [of "committed w" "committed w1" "committed w'"]
    show ?thesis by (simp add: polite_def)
  qed
qed

lemma shared_fact: "shared I \<Longrightarrow> shared (\<lambda>b v. I b v \<and> F)"
  unfolding shared_def by blast

lemma tx_on_error: "tx_ok I m J \<Longrightarrow> tx_ok I (on_error g m) J"
  unfolding tx_ok_def on_error_def by (fastforce split: sum.splits prod.splits)

lemma tx_give: "(\<And>b v. I b v \<Longrightarrow> J x b v) \<Longrightarrow> tx_ok I (give x) J"
  by (auto simp: tx_ok_def give_def R_refl)

lemma tx_pre: "tx_ok I m J \<Longrightarrow> (\<And>b v. I' b v \<Longrightarrow> I b v) \<Longrightarrow> tx_ok I' m J"
  unfolding tx_ok_def by blast

lemma sat_tx:
  assumes "stable P" and "\<And>d. P d \<Longrightarrow> I d d" and "tx_ok I m J" and "\<And>x. shared (J x)"
    and "\<And>x b v. P b \<Longrightarrow> J x b v \<Longrightarrow> R b v \<and> Q x v"
  shows "sat P (with_tx name m) (\<lambda>r d. case r of Inl _ \<Rightarrow> P d | Inr x \<Rightarrow> Q x d)"
  unfolding sat_def
proof (intro allI impI)
  fix w r w'
  assume w: "polite w" "P (tables w)" "with_tx name m w = (r, w')"
  define d where "d = others w (ticks w) (tables w)"
  define w1 where "w1 = w\<lparr>tables := d, ticks := Suc (ticks w), committed := d\<rparr>"
  have d: "R (tables w) d" "P d" using w(1,2) assms(1) by (auto simp: d_def polite_def stable_def)
  obtain r2 w2 where m: "m w1 = (r2, w2)" by force
  have w1: "polite w1" "I (committed w1) (tables w1)" using w(1) assms(2) d(2) by (simp_all add: w1_def polite_def)
  note body = tx_okD [OF assms(3) w1 m]
  from body(1,2) have w2: "polite w2" "others w2 = others w" "R d (committed w2)" using w1(1) by (simp_all add: w1_def polite_def)
  have s: "others (settle w2) = others w \<and> R (committed w2) (committed (settle w2)) \<and> J x (committed (settle w2)) (tables (settle w2))"
    if "r2 = Inr x" for x
    using settle_keeps [OF w2(1) assms(4) [of x] body(3) [OF that]] w2(2) by simp
  consider e where "r = Inr (Inl e)" "tables w' = d" "others w' = others w"
    | e where "r = Inr (Inl e)" "tables w' = committed w2" "others w' = others w"
    | x e where "r = Inr (Inl e)" "r2 = Inr x" "tables w' = committed (settle w2)" "others w' = others w"
    | x where "r = Inr (Inr x)" "r2 = Inr x" "tables w' = tables (settle w2)" "others w' = others w"
    using w(3) m s w2(2) unfolding with_tx_def Let_def d_def [symmetric] w1_def by (cases r2) (auto split: if_splits)
  then show "polite w' \<and> R (tables w) (tables w') \<and> (\<forall>x. r = Inr x \<longrightarrow> (case x of Inl _ \<Rightarrow> P (tables w') | Inr x \<Rightarrow> Q x (tables w')))"
  proof cases
    case 1
    then show ?thesis using w(1) d by (simp add: polite_def)
  next
    case 2
    moreover have "P (committed w2)" using assms(1) d(2) w2(3) unfolding stable_def by blast
    ultimately show ?thesis using w(1) R_trans [OF d(1) w2(3)] by (simp add: polite_def)
  next
    case 3
    moreover have "R d (committed (settle w2))" using s [OF 3(2)] R_trans [OF w2(3)] by blast
    moreover from this have "P (committed (settle w2))" using assms(1) d(2) unfolding stable_def by blast
    ultimately show ?thesis using w(1) R_trans [OF d(1)] by (simp add: polite_def)
  next
    case 4
    have c: "R d (committed (settle w2))" using s [OF 4(2)] R_trans [OF w2(3)] by blast
    then have "P (committed (settle w2))" using assms(1) d(2) unfolding stable_def by blast
    with assms(5) s [OF 4(2)] have "R (committed (settle w2)) (tables (settle w2)) \<and> Q x (tables (settle w2))" by blast
    with 4 c show ?thesis using w(1) R_trans [OF R_trans [OF d(1) c]] by (simp add: polite_def)
  qed
qed

text \<open>The two ways a handler goes on: with an error, after which what held still holds, or with a value.\<close>

lemma sat_cases:
  assumes "sat P m (\<lambda>r d. case r of Inl _ \<Rightarrow> P d | Inr x \<Rightarrow> Q x d)" and "\<And>e. sat P (f (Inl e)) S" and "\<And>x. sat (Q x) (f (Inr x)) S"
  shows "sat P (after m f) S"
proof (rule sat_after [OF assms(1)])
  fix r
  show "sat (\<lambda>d. case r of Inl _ \<Rightarrow> P d | Inr x \<Rightarrow> Q x d) (f r) S" using assms(2,3) by (cases r) auto
qed

lemmas sat_ask = sat_cases [OF sat_query]
lemmas sat_transact = sat_cases [OF sat_tx]
lemmas sat_steps = sat_give sat_stop sat_if sat_sum sat_option

lemma sat_run:
  assumes "sat P m Q" and "polite w" and "P (tables w)" and "serve m w = (r, w')"
  shows "polite w' \<and> R (tables w) (tables w')"
  using assms unfolding sat_def serve_def by (auto split: prod.splits sum.splits)

end


section \<open>The invariant of the tables\<close>

abbreviation draft :: "template_version_row \<Rightarrow> bool" where
  "draft v \<equiv> ver_status v = ''draft''"

definition fresh_ids :: "db \<Rightarrow> bool" where
  "fresh_ids d \<longleftrightarrow> distinct (map tpl_id (templates d)) \<and> distinct (map tpl_name (templates d)) \<and> distinct (map ver_id (versions d))
     \<and> distinct (map rel_id (releases d)) \<and> (\<forall>t \<in> set (templates d). tpl_id t \<in> set (used d)) \<and> (\<forall>v \<in> set (versions d). ver_id v \<in> set (used d))
     \<and> (\<forall>r \<in> set (releases d). rel_id r \<in> set (used d)) \<and> (\<forall>i \<in> set (used d). i < next_id d)"

text \<open>A template's current version is one that is no draft; it has none exactly while all are drafts.\<close>

definition points :: "template_version_row list \<Rightarrow> template_row \<Rightarrow> bool" where
  "points vs t \<longleftrightarrow> (case tpl_current t of
     None \<Rightarrow> \<forall>v \<in> set vs. ver_template v = tpl_id t \<longrightarrow> draft v
   | Some i \<Rightarrow> \<exists>v \<in> set vs. ver_id v = i \<and> ver_template v = tpl_id t \<and> \<not> draft v)"

definition current_ok :: "db \<Rightarrow> bool" where
  "current_ok d \<longleftrightarrow> (\<forall>t \<in> set (templates d). points (versions d) t)"

text \<open>Every version has a template and every release a version, which is no draft.\<close>

definition links_ok :: "db \<Rightarrow> bool" where
  "links_ok d \<longleftrightarrow> (\<forall>v \<in> set (versions d). \<exists>t \<in> set (templates d). tpl_id t = ver_template v)
     \<and> (\<forall>r \<in> set (releases d). \<exists>v \<in> set (versions d). ver_id v = rel_version r \<and> \<not> draft v)"

definition states_ok :: "db \<Rightarrow> bool" where
  "states_ok d \<longleftrightarrow> (\<forall>v \<in> set (versions d). ver_status v \<in> {''draft'', ''published'', ''deprecated''} \<and> 1 \<le> ver_num v)"

definition store_ok :: "db \<Rightarrow> bool" where
  "store_ok d \<longleftrightarrow> fresh_ids d \<and> numbers_ok d \<and> current_ok d \<and> links_ok d \<and> states_ok d"

text \<open>What never changes of a row: of a version, and of a release.\<close>

definition same_version :: "template_version_row \<Rightarrow> template_version_row \<Rightarrow> bool" where
  "same_version v w \<longleftrightarrow> ver_id v = ver_id w \<and> ver_template v = ver_template w \<and> ver_num v = ver_num w \<and> ver_mode v = ver_mode w
     \<and> ver_creator v = ver_creator w"

definition same_release :: "release_record \<Rightarrow> release_record \<Rightarrow> bool" where
  "same_release r s \<longleftrightarrow> rel_id r = rel_id s \<and> rel_name r = rel_name s \<and> rel_cluster r = rel_cluster s
     \<and> rel_namespace r = rel_namespace s \<and> rel_creator r = rel_creator s"

text \<open>
  What any change keeps: templates stay, with their name, owner and team; a version that is no draft stays
  one and keeps its content; and a row with an old id is an old row.
\<close>

definition keeps :: "db \<Rightarrow> db \<Rightarrow> bool" where
  "keeps d e \<longleftrightarrow> next_id d \<le> next_id e \<and> set (used d) \<subseteq> set (used e)
     \<and> (\<forall>t \<in> set (templates d). \<exists>t' \<in> set (templates e). tpl_id t' = tpl_id t \<and> tpl_name t' = tpl_name t \<and> tpl_team t' = tpl_team t
          \<and> tpl_owner t' = tpl_owner t)
     \<and> (\<forall>v \<in> set (versions d). \<not> draft v \<longrightarrow> (\<exists>w \<in> set (versions e). same_version v w \<and> \<not> draft w \<and> ver_content w = ver_content v))
     \<and> (\<forall>w \<in> set (versions e). ver_id w \<in> set (used d) \<longrightarrow> (\<exists>v \<in> set (versions d). same_version v w))
     \<and> (\<forall>s \<in> set (releases e). rel_id s \<in> set (used d) \<longrightarrow> (\<exists>r \<in> set (releases d). same_release r s))"

definition evolves :: "db \<Rightarrow> db \<Rightarrow> bool" where
  "evolves d e \<longleftrightarrow> (store_ok d \<longrightarrow> store_ok e \<and> keeps d e)"

lemma keeps_refl: "keeps d d"
  unfolding keeps_def same_version_def same_release_def by blast

lemma keeps_trans:
  assumes "keeps d e" and "keeps e f"
  shows "keeps d f"
  unfolding keeps_def
proof (intro conjI ballI impI)
  show "next_id d \<le> next_id f" using assms by (simp add: keeps_def)
  show "set (used d) \<subseteq> set (used f)" using assms by (auto simp: keeps_def)
next
  fix t assume "t \<in> set (templates d)"
  with assms(1) obtain t' where t': "t' \<in> set (templates e)" "tpl_id t' = tpl_id t \<and> tpl_name t' = tpl_name t \<and> tpl_team t' = tpl_team t \<and> tpl_owner t' = tpl_owner t"
    unfolding keeps_def by blast
  with assms(2) have "\<exists>t'' \<in> set (templates f). tpl_id t'' = tpl_id t' \<and> tpl_name t'' = tpl_name t' \<and> tpl_team t'' = tpl_team t' \<and> tpl_owner t'' = tpl_owner t'"
    unfolding keeps_def by blast
  with t'(2) show "\<exists>t' \<in> set (templates f). tpl_id t' = tpl_id t \<and> tpl_name t' = tpl_name t \<and> tpl_team t' = tpl_team t \<and> tpl_owner t' = tpl_owner t"
    by simp
next
  fix v assume "v \<in> set (versions d)" "\<not> draft v"
  with assms(1) obtain w where w: "w \<in> set (versions e)" "same_version v w" "\<not> draft w" "ver_content w = ver_content v"
    unfolding keeps_def by blast
  with assms(2) obtain x where "x \<in> set (versions f)" "same_version w x" "\<not> draft x" "ver_content x = ver_content w"
    unfolding keeps_def by blast
  with w show "\<exists>w \<in> set (versions f). same_version v w \<and> \<not> draft w \<and> ver_content w = ver_content v"
    by (intro bexI [of _ x]) (simp_all add: same_version_def)
next
  fix x assume x: "x \<in> set (versions f)" "ver_id x \<in> set (used d)"
  with assms have "ver_id x \<in> set (used e)" by (auto simp: keeps_def)
  with x assms(2) obtain w where w: "w \<in> set (versions e)" "same_version w x" unfolding keeps_def by blast
  with x(2) have "ver_id w \<in> set (used d)" by (simp add: same_version_def)
  with w(1) assms(1) obtain v where "v \<in> set (versions d)" "same_version v w" unfolding keeps_def by blast
  with w(2) show "\<exists>v \<in> set (versions d). same_version v x" by (intro bexI [of _ v]) (simp_all add: same_version_def)
next
  fix x assume x: "x \<in> set (releases f)" "rel_id x \<in> set (used d)"
  with assms have "rel_id x \<in> set (used e)" by (auto simp: keeps_def)
  with x assms(2) obtain w where w: "w \<in> set (releases e)" "same_release w x" unfolding keeps_def by blast
  with x(2) have "rel_id w \<in> set (used d)" by (simp add: same_release_def)
  with w(1) assms(1) obtain v where "v \<in> set (releases d)" "same_release v w" unfolding keeps_def by blast
  with w(2) show "\<exists>v \<in> set (releases d). same_release v x" by (intro bexI [of _ v]) (simp_all add: same_release_def)
qed

lemma update_first_map:
  assumes "distinct (map key xs)" and "\<And>x. P x \<Longrightarrow> key x = k" and "\<And>x. P x \<Longrightarrow> f x = g x"
  shows "update_first P f xs = map (\<lambda>x. if P x then g x else x) xs"
  using assms
proof (induction xs)
  case (Cons x xs)
  show ?case
  proof (cases "P x")
    case True
    with Cons.prems have "\<forall>y \<in> set xs. \<not> P y" by fastforce
    with True Cons.prems show ?thesis by (simp add: map_idI)
  qed (use Cons in simp)
qed simp

lemma update_first_same: "find P xs = Some v \<Longrightarrow> update_first P (\<lambda>_. f v) xs = update_first P f xs"
  by (induction xs) (auto split: if_splits)

lemma changed_version:
  assumes "change_version P f d = Inr (x, e)" and "fresh_ids d" and "\<And>x. P x \<Longrightarrow> ver_id x = i"
  obtains v where "v \<in> set (versions d)" "P v" "x = f v"
    "e = d\<lparr>versions := map (\<lambda>x. if P x then f x else x) (versions d)\<rparr>"
proof -
  from assms(1) obtain v where v: "find P (versions d) = Some v" "x = f v" "e = d\<lparr>versions := update_first P f (versions d)\<rparr>"
    by (auto simp: change_version_def update_first_same split: option.splits)
  have "update_first P f (versions d) = map (\<lambda>x. if P x then f x else x) (versions d)"
    using assms(2,3) by (intro update_first_map [where key = ver_id]) (auto simp: fresh_ids_def)
  moreover have "v \<in> set (versions d)" "P v" using v(1) by (auto simp: find_Some_iff)
  ultimately show thesis using v that by simp
qed

text \<open>Changes of other tables.\<close>

lemma evolves_other:
  assumes "templates e = templates d" and "versions e = versions d" and "releases e = releases d" and "next_id d \<le> next_id e"
    and "used e = used d"
  shows "evolves d e"
proof -
  have "numbers_ok e = numbers_ok d" "current_ok e = current_ok d" "links_ok e = links_ok d" "states_ok e = states_ok d"
    unfolding numbers_ok_def current_ok_def links_ok_def states_ok_def assms(1-3) by (rule refl)+
  moreover have "fresh_ids d \<Longrightarrow> fresh_ids e"
    using assms(1-3,5) by (auto simp: fresh_ids_def intro: order.strict_trans2 [OF _ assms(4)])
  moreover have "keeps d e"
    using assms unfolding keeps_def same_version_def same_release_def by auto
  ultimately show ?thesis by (auto simp: evolves_def store_ok_def)
qed

text \<open>The tables of the API provide the interface.\<close>

interpretation api: shared_store evolves
proof unfold_locales
  show "evolves d d" for d by (simp add: evolves_def keeps_refl)
  show "evolves d f" if "evolves d e" "evolves e f" for d e f
    using that keeps_trans unfolding evolves_def by blast
  show "evolves d (d\<lparr>next_id := n\<rparr>)" if "next_id d \<le> n" for d n
    using that by (intro evolves_other) simp_all
qed

text \<open>Changes of versions that leave drafts drafts.\<close>

lemma evolves_map_versions:
  assumes g: "\<And>v. v \<in> set (versions d) \<Longrightarrow> same_version v (g v) \<and> (draft (g v) \<longleftrightarrow> draft v)
      \<and> ver_status (g v) \<in> {''draft'', ''published'', ''deprecated''} \<and> (\<not> draft v \<longrightarrow> ver_content (g v) = ver_content v)"
  shows "evolves d (d\<lparr>versions := map g (versions d)\<rparr>)"
proof -
  let ?e = "d\<lparr>versions := map g (versions d)\<rparr>"
  have ids: "map ver_id (map g (versions d)) = map ver_id (versions d)"
    using g by (simp add: same_version_def)
  have ok: "store_ok ?e" if ok: "store_ok d"
  proof -
    have "\<forall>v \<in> set (versions ?e). ver_id v \<in> set (used ?e)" using ok g by (auto simp: store_ok_def fresh_ids_def same_version_def)
    with ok ids have "fresh_ids ?e" by (simp add: store_ok_def fresh_ids_def del: map_map)
    moreover have "numbers_ok ?e" using ok g by (fastforce simp: store_ok_def numbers_ok_def same_version_def)
    moreover have "current_ok ?e"
      unfolding current_ok_def
    proof
      fix t assume t: "t \<in> set (templates ?e)"
      with ok have t': "points (versions d) t" by (simp add: store_ok_def current_ok_def)
      show "points (versions ?e) t"
      proof (cases "tpl_current t")
        case None
        with t' g show ?thesis by (auto simp: points_def same_version_def)
      next
        case (Some i)
        with t' obtain v where v: "v \<in> set (versions d)" "ver_id v = i" "ver_template v = tpl_id t" "\<not> draft v" by (auto simp: points_def)
        moreover have "same_version v (g v)" "\<not> draft (g v)" using v g by simp_all
        ultimately show ?thesis using Some v by (auto simp: points_def same_version_def intro!: bexI [of _ v])
      qed
    qed
    moreover have "links_ok ?e"
      unfolding links_ok_def
    proof (intro conjI ballI)
      fix v assume "v \<in> set (versions ?e)"
      then obtain x where "x \<in> set (versions d)" "v = g x" by auto
      with ok g show "\<exists>t \<in> set (templates ?e). tpl_id t = ver_template v"
        by (auto simp: store_ok_def links_ok_def same_version_def)
    next
      fix r assume "r \<in> set (releases ?e)"
      with ok obtain v where "v \<in> set (versions d)" "ver_id v = rel_version r" "\<not> draft v"
        by (auto simp: store_ok_def links_ok_def)
      with g show "\<exists>v \<in> set (versions ?e). ver_id v = rel_version r \<and> \<not> draft v"
        by (intro bexI [of _ "g v"]) (auto simp: same_version_def)
    qed
    moreover have "states_ok ?e" using ok g by (auto simp: store_ok_def states_ok_def same_version_def)
    ultimately show ?thesis by (simp add: store_ok_def)
  qed
  have "keeps d ?e"
    unfolding keeps_def
  proof (intro conjI ballI impI)
    fix v assume "v \<in> set (versions d)" "\<not> draft v"
    with g show "\<exists>w \<in> set (versions ?e). same_version v w \<and> \<not> draft w \<and> ver_content w = ver_content v"
      by (intro bexI [of _ "g v"]) auto
  qed (use g in \<open>auto simp: same_release_def\<close>)
  with ok show ?thesis by (simp add: evolves_def)
qed

lemma points_draft: "draft v \<Longrightarrow> points (vs @ [v]) t = points vs t"
  by (auto simp: points_def split: option.splits)


lemma evolves_upsert: "UpsertUser s em nm d = Inr (x, e) \<Longrightarrow> evolves d e"
  by (rule evolves_other) (auto simp: UpsertUser_def Let_def split: option.splits)

lemma evolves_set_status:
  assumes "SetTemplateVersionStatus i s d = Inr (x, e)" and "store_ok d" and "\<exists>v \<in> set (versions d). ver_id v = i \<and> \<not> draft v"
    and "s \<in> {''published'', ''deprecated''}"
  shows "evolves d e"
proof -
  from assms(1,2) have e: "e = d\<lparr>versions := map (\<lambda>x. if ver_id x = i then x\<lparr>ver_status := s\<rparr> else x) (versions d)\<rparr>"
    unfolding SetTemplateVersionStatus_def by (elim changed_version [where i = i]) (simp_all add: store_ok_def)
  have "\<not> draft v" if "v \<in> set (versions d)" "ver_id v = i" for v
    using assms(2,3) that by (auto simp: store_ok_def fresh_ids_def distinct_map inj_on_def)
  with assms(2,4) show ?thesis
    unfolding e by (intro evolves_map_versions) (auto simp: same_version_def store_ok_def states_ok_def)
qed

lemma evolves_update_draft:
  assumes "UpdateDraftTemplateVersion i res sp meta notes st d = Inr (x, e)" and "store_ok d"
  shows "evolves d e"
proof -
  define f :: "template_version_row \<Rightarrow> template_version_row" where "f = (\<lambda>x. x\<lparr>ver_content :=
       \<lparr>con_resources = nullish res (con_resources (ver_content x)), con_spec = nullish sp (con_spec (ver_content x)),
        con_metadata = coalesce meta (con_metadata (ver_content x)), con_notes = coalesce notes (con_notes (ver_content x)),
        con_state = coalesce st (con_state (ver_content x))\<rparr>\<rparr>)"
  from assms have e: "e = d\<lparr>versions := map (\<lambda>x. if ver_id x = i \<and> draft x then f x else x) (versions d)\<rparr>"
    unfolding UpdateDraftTemplateVersion_def f_def [symmetric] by (elim changed_version [where i = i]) (simp_all add: store_ok_def)
  from assms(2) show ?thesis
    unfolding e by (intro evolves_map_versions) (auto simp: same_version_def store_ok_def states_ok_def f_def)
qed

text \<open>What a transaction has written, beside users: new templates and new drafts.\<close>

definition adds :: "template_row list \<Rightarrow> template_version_row list \<Rightarrow> db \<Rightarrow> db \<Rightarrow> bool" where
  "adds ts vs b v \<longleftrightarrow> store_ok b \<and> templates v = templates b @ ts \<and> versions v = versions b @ vs \<and> teams v = teams b \<and> members v = members b
     \<and> clusters_t v = clusters_t b \<and> releases v = releases b \<and> next_id b \<le> next_id v
     \<and> set (used v) = set (used b) \<union> tpl_id ` set ts \<union> ver_id ` set vs \<and> (\<forall>i \<in> set (used v). i < next_id v)
     \<and> (\<forall>t \<in> set ts. tpl_id t \<notin> set (used b) \<and> tpl_current t = None) \<and> distinct (map tpl_id ts)
     \<and> (\<forall>x \<in> set vs. ver_id x \<notin> set (used b) \<and> draft x \<and> 1 \<le> ver_num x \<and> (\<exists>t \<in> set (templates v). tpl_id t = ver_template x))
     \<and> distinct (map ver_id vs) \<and> distinct (map tpl_name (templates b @ ts)) \<and> numbers_ok v"

lemma merged_none [simp]: "merged_rows key rs rs xs = xs"
  by (simp add: merged_rows_def)

lemma upsert_new: "key r \<notin> key ` set xs \<Longrightarrow> upsert_row key r xs = xs @ [r]"
  by (auto simp: upsert_row_def list_ex_iff rev_image_eqI)

lemma upsert_all_new:
  "distinct (map key rs) \<Longrightarrow> key ` set rs \<inter> key ` set xs = {} \<Longrightarrow> fold (upsert_row key) rs xs = xs @ rs"
proof (induction rs arbitrary: xs)
  case (Cons r rs)
  then have "upsert_row key r xs = xs @ [r]" by (intro upsert_new) auto
  moreover have "fold (upsert_row key) rs (xs @ [r]) = (xs @ [r]) @ rs" using Cons.prems by (intro Cons.IH) auto
  ultimately show ?case by simp
qed simp

lemma merged_added:
  assumes "distinct (map key rs)" and "key ` set rs \<inter> key ` set old = {}" and "key ` set rs \<inter> key ` set xs = {}"
  shows "merged_rows key old (old @ rs) xs = xs @ rs"
proof -
  have "filter (\<lambda>r. r \<notin> set old) rs = rs" using assms(2) by (auto intro!: filter_True)
  moreover have "filter (\<lambda>r. key r \<in> key ` set old \<longrightarrow> key r \<in> key ` set (old @ rs)) xs = xs" by (auto intro!: filter_True)
  ultimately show ?thesis using upsert_all_new [OF assms(1,3)] by (simp add: merged_rows_def)
qed

lemma merged_changed:
  assumes "distinct (map key old)" and "x \<in> set old" and "key y = key x" and "y \<notin> set old" and "x \<in> set xs" and "distinct (map key xs)"
  shows "merged_rows key old (map (\<lambda>z. if z = x then y else z) old) xs = map (\<lambda>z. if z = x then y else z) xs"
proof -
  let ?new = "map (\<lambda>z. if z = x then y else z) old"
  have one: "distinct zs \<Longrightarrow> x \<in> set zs \<Longrightarrow> set zs \<subseteq> set old \<Longrightarrow> filter (\<lambda>r. r \<notin> set old) (map (\<lambda>z. if z = x then y else z) zs) = [y]" for zs
  proof (induction zs)
    case (Cons z zs)
    show ?case
    proof (cases "z = x")
      case True
      with Cons.prems have "filter (\<lambda>r. r \<notin> set old) (map (\<lambda>z. if z = x then y else z) zs) = []"
        by (auto simp: filter_empty_conv)
      with True assms(4) show ?thesis by simp
    qed (use Cons in auto)
  qed simp
  have new: "filter (\<lambda>r. r \<notin> set old) ?new = [y]"
    using one [of old] assms(1,2) by (simp add: distinct_map)
  have "map key ?new = map key old" using assms(3) by simp
  then have "key ` set ?new = key ` set old" by (metis list.set_map)
  then have keep: "filter (\<lambda>r. key r \<in> key ` set old \<longrightarrow> key r \<in> key ` set ?new) xs = xs" by (auto intro!: filter_True)
  have "upsert_row key y xs = map (\<lambda>z. if z = x then y else z) xs"
    using assms(3,5,6) by (auto simp: upsert_row_def list_ex_iff distinct_map inj_on_def)
  then show ?thesis unfolding merged_rows_def new keep by simp
qed

text \<open>The tables others have committed, seen from a transaction that has drawn ids.\<close>

lemma others_committed:
  assumes "evolves (b\<lparr>next_id := max (next_id b) (next_id v)\<rparr>) d" and "store_ok b"
  shows "store_ok d \<and> keeps b d \<and> next_id v \<le> next_id d"
proof -
  let ?b = "b\<lparr>next_id := max (next_id b) (next_id v)\<rparr>"
  have "evolves b ?b" by (rule api.R_ids) simp
  with assms(2) have "store_ok ?b" "keeps b ?b" by (simp_all add: evolves_def)
  with assms(1) have "store_ok d" "keeps ?b d" by (simp_all add: evolves_def)
  with keeps_trans [OF \<open>keeps b ?b\<close>] show ?thesis by (simp add: keeps_def [of ?b])
qed

lemma shared_adds: "api.shared (adds ts vs)"
  unfolding api.shared_def
proof (intro allI impI)
  fix b v d
  assume a: "adds ts vs b v" and r: "evolves (b\<lparr>next_id := max (next_id b) (next_id v)\<rparr>) d" and c: "compatible b v d"
  from others_committed [OF r] a have d: "store_ok d" "keeps b d" "next_id v \<le> next_id d" by (auto simp: adds_def)
  from a have ids: "tpl_id ` set ts \<inter> tpl_id ` set (templates b) = {}" "ver_id ` set vs \<inter> ver_id ` set (versions b) = {}"
    by (fastforce simp: adds_def store_ok_def fresh_ids_def)+
  from c have free: "i \<notin> set (used d)" if "i \<in> set (used v)" "i \<notin> set (used b)" for i
    using that by (simp add: compatible_def)
  have new: "\<And>t. t \<in> set ts \<Longrightarrow> tpl_id t \<notin> set (used d)" "\<And>x. x \<in> set vs \<Longrightarrow> ver_id x \<notin> set (used d)"
    using a free by (auto simp: adds_def)
  then have rest: "tpl_id ` set ts \<inter> tpl_id ` set (templates d) = {}" "ver_id ` set vs \<inter> ver_id ` set (versions d) = {}"
    using d(1) by (fastforce simp: store_ok_def fresh_ids_def)+
  from a have dist: "distinct (map tpl_id ts)" "distinct (map ver_id vs)" by (simp_all add: adds_def)
  have m: "templates (merged b v d) = templates d @ ts" "versions (merged b v d) = versions d @ vs"
    using a merged_added [OF dist(1) ids(1) rest(1)] merged_added [OF dist(2) ids(2) rest(2)] by (simp_all add: merged_def adds_def)
  have same: "teams (merged b v d) = teams d" "members (merged b v d) = members d" "clusters_t (merged b v d) = clusters_t d"
    "releases (merged b v d) = releases d"
    using a by (simp_all add: merged_def adds_def)
  have "set (used (merged b v d)) = set (used d) \<union> (set (used v) - set (used b))" by (auto simp: merged_def)
  moreover have "set (used v) - set (used b) = tpl_id ` set ts \<union> ver_id ` set vs" using a by (auto simp: adds_def)
  ultimately have us: "set (used (merged b v d)) = set (used d) \<union> tpl_id ` set ts \<union> ver_id ` set vs" by auto
  have id: "next_id (merged b v d) = next_id d" using d(3) by (simp add: merged_def)
  have "\<forall>i \<in> set (used v). i < next_id v" using a by (simp add: adds_def)
  moreover have "tpl_id ` set ts \<union> ver_id ` set vs \<subseteq> set (used v)" using a by (auto simp: adds_def)
  moreover have "\<forall>i \<in> set (used d). i < next_id d" using d(1) by (simp add: store_ok_def fresh_ids_def)
  ultimately have below: "\<forall>i \<in> set (used (merged b v d)). i < next_id (merged b v d)"
    unfolding us id using d(3) by fastforce
  have "\<exists>t \<in> set (templates d @ ts). tpl_id t = ver_template x" if "x \<in> set vs" for x
  proof -
    from a that obtain t where "t \<in> set (templates b) \<or> t \<in> set ts" "tpl_id t = ver_template x" by (auto simp: adds_def)
    with d(2) show ?thesis unfolding keeps_def by fastforce
  qed
  moreover have "distinct (map tpl_name (templates d @ ts))" "numbers_ok (merged b v d)"
    using c by (simp_all only: compatible_def constraints_def m(1) [symmetric])
  ultimately show "adds ts vs d (merged b v d)"
    using a d(1) new m same us id below by (simp add: adds_def)
qed

lemma evolves_adds:
  assumes a: "adds ts vs b v"
  shows "evolves b v"
proof -
  from a have ok: "store_ok b" and t: "templates v = templates b @ ts" and x: "versions v = versions b @ vs" and r: "releases v = releases b"
    and us: "set (used v) = set (used b) \<union> tpl_id ` set ts \<union> ver_id ` set vs" by (simp_all add: adds_def)
  have "tpl_id ` set (templates b) \<inter> tpl_id ` set ts = {}" "ver_id ` set (versions b) \<inter> ver_id ` set vs = {}"
    using a ok by (fastforce simp: adds_def store_ok_def fresh_ids_def)+
  then have "distinct (map tpl_id (templates v))" "distinct (map ver_id (versions v))"
    using a ok unfolding t x by (simp_all add: adds_def store_ok_def fresh_ids_def)
  moreover have "distinct (map tpl_name (templates v))" "\<forall>i \<in> set (used v). i < next_id v" using a by (simp_all add: adds_def t)
  moreover have "distinct (map rel_id (releases v))" "\<forall>r \<in> set (releases v). rel_id r \<in> set (used v)"
    using ok by (auto simp: r us store_ok_def fresh_ids_def)
  moreover have "\<forall>t \<in> set (templates v). tpl_id t \<in> set (used v)" "\<forall>x \<in> set (versions v). ver_id x \<in> set (used v)"
    using ok by (auto simp: t x us store_ok_def fresh_ids_def)
  ultimately have "fresh_ids v" by (simp add: fresh_ids_def)
  moreover have "numbers_ok v" using a by (simp add: adds_def)
  moreover have "current_ok v"
    unfolding current_ok_def
  proof
    have drafts: "\<forall>y \<in> set vs. draft y" using a by (simp add: adds_def)
    fix s assume s: "s \<in> set (templates v)"
    show "points (versions v) s"
    proof (cases "s \<in> set (templates b)")
      case True
      with ok have "points (versions b) s" by (simp add: store_ok_def current_ok_def)
      with drafts show ?thesis unfolding x points_def by (auto split: option.splits)
    next
      case False
      with s t a have new: "tpl_id s \<notin> set (used b)" "tpl_current s = None" by (auto simp: adds_def)
      have "ver_template y \<noteq> tpl_id s" if "y \<in> set (versions b)" for y
      proof -
        from ok that obtain t where "t \<in> set (templates b)" "tpl_id t = ver_template y" by (auto simp: store_ok_def links_ok_def)
        with ok new(1) show ?thesis by (auto simp: store_ok_def fresh_ids_def)
      qed
      with drafts new(2) show ?thesis unfolding x points_def by auto
    qed
  qed
  moreover have "links_ok v"
    using a ok unfolding links_ok_def adds_def store_ok_def by fastforce
  moreover have "states_ok v" using a ok by (auto simp: adds_def store_ok_def states_ok_def)
  moreover have "keeps b v"
    using a unfolding keeps_def same_version_def same_release_def adds_def by fastforce
  ultimately show ?thesis by (simp add: evolves_def store_ok_def)
qed

text \<open>The statements of the transactions that create.\<close>

lemma adds_none: "store_ok d \<Longrightarrow> adds [] [] d d"
  by (simp add: adds_def store_ok_def fresh_ids_def)

lemma adds_upsert: "adds ts vs b v \<Longrightarrow> UpsertUser s em dn v = Inr (u, e) \<Longrightarrow> adds ts vs b e"
proof -
  assume a: "adds ts vs b v" and q: "UpsertUser s em dn v = Inr (u, e)"
  then obtain us n where e: "e = v\<lparr>users := us, next_id := n\<rparr>" "next_id v \<le> n"
    unfolding UpsertUser_def Let_def by (cases "find (\<lambda>u. usr_subject u = s) (users v)") (auto intro!: that)
  from a have "\<forall>i \<in> set (used v). i < next_id v" by (simp add: adds_def)
  with e(2) have "\<forall>i \<in> set (used v). i < n" by (blast intro: order.strict_trans2)
  with a e(2) show "adds ts vs b e" unfolding e(1) adds_def numbers_ok_def by (elim conjE) simp
qed

lemma adds_insert_template:
  assumes "adds [] [] b v" and "InsertTemplateV2 nm dis des tags owner team v = Inr (t, e)"
  shows "adds [t] [] b e"
proof -
  have e: "e = v\<lparr>templates := templates v @ [t], next_id := Suc (next_id v), used := next_id v # used v\<rparr>"
    and t: "tpl_id t = next_id v" "tpl_name t = nm" "tpl_current t = None" and new: "nm \<notin> tpl_name ` set (templates v)"
    using assms(2) by (auto simp: InsertTemplateV2_def Let_def list_ex_iff split: if_splits option.splits)
  have "next_id v \<notin> set (used b)" using assms(1) by (auto simp: adds_def)
  with assms(1) t new show ?thesis by (auto simp: e adds_def numbers_ok_def less_Suc_eq)
qed

lemma adds_insert_version:
  assumes "adds ts [] b v" and "InsertTemplateVersionV2 t n c ''draft'' u m v = Inr (x, e)" and "1 \<le> n"
  shows "adds ts [x] b e"
proof -
  have e: "e = v\<lparr>versions := versions v @ [x], next_id := Suc (next_id v), used := next_id v # used v\<rparr>"
    and x: "ver_id x = next_id v" "ver_template x = t" "ver_num x = n" "draft x"
    and new: "\<And>y. y \<in> set (versions v) \<Longrightarrow> ver_template y = t \<Longrightarrow> \<not> draft y \<and> ver_num y \<noteq> n" and t: "\<exists>s \<in> set (templates v). tpl_id s = t"
    using assms(2) by (auto simp: InsertTemplateVersionV2_def Let_def list_ex_iff versions_of_def split: if_splits)
  have "next_id v \<notin> set (used b)" using assms(1) by (auto simp: adds_def)
  moreover have "numbers_ok e"
    unfolding numbers_ok_def
  proof (intro ballI impI)
    fix y z assume yz: "y \<in> set (versions e)" "z \<in> set (versions e)" "ver_template y = ver_template z" "y \<noteq> z"
    have v: "numbers_ok v" using assms(1) by (simp add: adds_def)
    consider "y = x" "z \<in> set (versions v)" | "z = x" "y \<in> set (versions v)" | "y \<in> set (versions v)" "z \<in> set (versions v)"
      using yz by (auto simp: e)
    then show "ver_num y \<noteq> ver_num z \<and> \<not> (draft y \<and> draft z)"
    proof cases
      case 1
      with new [of z] yz(3) x show ?thesis by auto
    next
      case 2
      with new [of y] yz(3) x show ?thesis by auto
    next
      case 3
      with v yz(3,4) show ?thesis by (simp add: numbers_ok_def)
    qed
  qed
  moreover have "\<forall>i \<in> set (used e). i < next_id e" using assms(1) by (auto simp: adds_def e less_Suc_eq)
  ultimately show ?thesis using assms(1,3) x t unfolding adds_def e by simp
qed

lemma numbers_okD:
  "\<lbrakk>store_ok d; x \<in> set (versions d); y \<in> set (versions d); ver_template x = ver_template y; x \<noteq> y\<rbrakk>
    \<Longrightarrow> ver_num x \<noteq> ver_num y \<and> \<not> (draft x \<and> draft y)"
  by (simp add: store_ok_def numbers_ok_def)

text \<open>Publishing is two statements; only together they keep the invariant.\<close>

abbreviation swap :: "'r \<Rightarrow> 'r \<Rightarrow> 'r list \<Rightarrow> 'r list" where
  "swap x y rs \<equiv> map (\<lambda>r. if r = x then y else r) rs"

definition published_first :: "nat \<Rightarrow> nat \<Rightarrow> template_version_row \<Rightarrow> db \<Rightarrow> db \<Rightarrow> bool" where
  "published_first i t pub b v \<longleftrightarrow> store_ok b \<and> (\<exists>x \<in> set (versions b). ver_id x = i \<and> ver_template x = t \<and> draft x
     \<and> pub = x\<lparr>ver_status := ''published''\<rparr> \<and> v = b\<lparr>versions := swap x pub (versions b)\<rparr>)"

definition published_then :: "nat \<Rightarrow> nat \<Rightarrow> db \<Rightarrow> db \<Rightarrow> bool" where
  "published_then i t b v \<longleftrightarrow> store_ok b \<and> (\<exists>x \<in> set (versions b). \<exists>s \<in> set (templates b). ver_id x = i \<and> ver_template x = t \<and> draft x
     \<and> tpl_id s = t \<and> v = b\<lparr>versions := swap x (x\<lparr>ver_status := ''published''\<rparr>) (versions b),
         templates := swap s (s\<lparr>tpl_current := Some i\<rparr>) (templates b)\<rparr>)"

lemma merged_changed_version:
  assumes "store_ok b" and "store_ok d" and "x \<in> set (versions b)" and "x \<in> set (versions d)" and "draft x"
  shows "merged_rows ver_id (versions b) (swap x (x\<lparr>ver_status := ''published''\<rparr>) (versions b)) (versions d)
    = swap x (x\<lparr>ver_status := ''published''\<rparr>) (versions d)"
proof -
  have "x\<lparr>ver_status := ''published''\<rparr> \<notin> set (versions b)"
  proof
    assume y: "x\<lparr>ver_status := ''published''\<rparr> \<in> set (versions b)"
    from assms(1) have "inj_on ver_id (set (versions b))" by (simp add: store_ok_def fresh_ids_def distinct_map)
    from inj_onD [OF this _ y assms(3)] have "x\<lparr>ver_status := ''published''\<rparr> = x" by simp
    then have "ver_status x = ''published''" by (metis template_version_row.select_convs(4) template_version_row.surjective template_version_row.update_convs(4))
    with assms(5) show False by simp
  qed
  with assms show ?thesis by (intro merged_changed) (simp_all add: store_ok_def fresh_ids_def)
qed

lemma changed_apart: "draft x \<Longrightarrow> x \<notin> set (swap x (x\<lparr>ver_status := ''published''\<rparr>) rs)"
proof
  assume "draft x" "x \<in> set (swap x (x\<lparr>ver_status := ''published''\<rparr>) rs)"
  then have "x\<lparr>ver_status := ''published''\<rparr> = x" by (auto split: if_splits)
  then have "ver_status x = ''published''" by (metis template_version_row.select_convs(4) template_version_row.surjective template_version_row.update_convs(4))
  with \<open>draft x\<close> show False by simp
qed

lemma shared_first: "api.shared (published_first i t pub)"
  unfolding api.shared_def
proof (intro allI impI)
  fix b v d
  assume j: "published_first i t pub b v" and r: "evolves (b\<lparr>next_id := max (next_id b) (next_id v)\<rparr>) d" and c: "compatible b v d"
  from j obtain x where x: "store_ok b" "x \<in> set (versions b)" "ver_id x = i" "ver_template x = t" "draft x" "pub = x\<lparr>ver_status := ''published''\<rparr>"
    "v = b\<lparr>versions := swap x pub (versions b)\<rparr>" by (auto simp: published_first_def)
  from others_committed [OF r x(1)] have d: "store_ok d" "next_id b \<le> next_id d" using x(7) by auto
  have "x \<notin> set (swap x pub (versions b))" using changed_apart [OF x(5), of "versions b"] x(6) by simp
  with c x(2,7) have "x \<in> set (versions d)" by (auto simp: compatible_def rows_free_def)
  moreover from this have "merged b v d = d\<lparr>versions := swap x pub (versions d)\<rparr>"
    using merged_changed_version [OF x(1) d(1) x(2) _ x(5)] d(2) unfolding x(6,7) by (intro db.equality) (simp_all add: merged_def)
  ultimately show "published_first i t pub d (merged b v d)"
    using x(3-6) d(1) by (auto simp: published_first_def)
qed

lemma shared_then: "api.shared (published_then i t)"
  unfolding api.shared_def
proof (intro allI impI)
  fix b v d
  assume j: "published_then i t b v" and r: "evolves (b\<lparr>next_id := max (next_id b) (next_id v)\<rparr>) d" and c: "compatible b v d"
  define pub where "pub = (\<lambda>x :: template_version_row. x\<lparr>ver_status := ''published''\<rparr>)"
  define cur where "cur = (\<lambda>s :: template_row. s\<lparr>tpl_current := Some i\<rparr>)"
  from j obtain x s where x: "store_ok b" "x \<in> set (versions b)" "ver_id x = i" "ver_template x = t" "draft x" "s \<in> set (templates b)"
    "tpl_id s = t" "v = b\<lparr>versions := swap x (pub x) (versions b), templates := swap s (cur s) (templates b)\<rparr>"
    by (auto simp: published_then_def pub_def cur_def)
  from others_committed [OF r x(1)] have d: "store_ok d" "next_id b \<le> next_id d" using x(8) by auto
  have "x \<notin> set (swap x (pub x) (versions b))" using changed_apart [OF x(5), of "versions b"] by (simp add: pub_def)
  with c x(2,8) have xd: "x \<in> set (versions d)" by (auto simp: compatible_def rows_free_def)
  have "tpl_current s \<noteq> Some i"
  proof
    assume "tpl_current s = Some i"
    with x(1,6) obtain y where "y \<in> set (versions b)" "ver_id y = i" "\<not> draft y"
      by (force simp: store_ok_def current_ok_def points_def)
    with x(1-3,5) show False by (auto simp: store_ok_def fresh_ids_def distinct_map inj_on_def)
  qed
  then have cur: "cur s \<noteq> s" by (metis cur_def template_row.select_convs(7) template_row.surjective template_row.update_convs(7))
  then have "s \<notin> set (swap s (cur s) (templates b))" by auto
  with c x(6,8) have sd: "s \<in> set (templates d)" by (auto simp: compatible_def rows_free_def)
  have "cur s \<notin> set (templates b)"
  proof
    assume y: "cur s \<in> set (templates b)"
    from x(1) have "inj_on tpl_id (set (templates b))" by (simp add: store_ok_def fresh_ids_def distinct_map)
    from inj_onD [OF this _ y x(6)] cur show False by (simp add: cur_def)
  qed
  then have "merged_rows tpl_id (templates b) (swap s (cur s) (templates b)) (templates d) = swap s (cur s) (templates d)"
    using x(1,6) d(1) sd by (intro merged_changed) (simp_all add: store_ok_def fresh_ids_def cur_def)
  then have "merged b v d = d\<lparr>versions := swap x (pub x) (versions d), templates := swap s (cur s) (templates d)\<rparr>"
    using merged_changed_version [OF x(1) d(1) x(2) xd x(5)] d(2) unfolding x(8) pub_def by (intro db.equality) (simp_all add: merged_def)
  then show "published_then i t d (merged b v d)"
    using x(3-5,7) d(1) xd sd unfolding published_then_def pub_def cur_def by blast
qed

lemma evolves_published:
  assumes "published_then i t d e"
  shows "evolves d e"
proof -
  from assms obtain v x s0 where ok: "store_ok d" and v: "v \<in> set (versions d)" "ver_id v = i" "ver_template v = t" "draft v"
    and x: "x = v\<lparr>ver_status := ''published''\<rparr>" and s0: "s0 \<in> set (templates d)" "tpl_id s0 = t"
    and e0: "e = d\<lparr>versions := swap v x (versions d), templates := swap s0 (s0\<lparr>tpl_current := Some i\<rparr>) (templates d)\<rparr>"
    unfolding published_then_def by blast
  define vs where "vs = swap v x (versions d)"
  define ts where "ts = swap s0 (s0\<lparr>tpl_current := Some i\<rparr>) (templates d)"
  have e: "e = d\<lparr>versions := vs, templates := ts\<rparr>" by (simp add: e0 vs_def ts_def)
  have x': "ver_id x = i" "ver_template x = t" "ver_num x = ver_num v" "\<not> draft x" "same_version v x"
    using v x by (simp_all add: same_version_def)
  have vs: "y \<in> set vs \<longleftrightarrow> y = x \<or> y \<in> set (versions d) \<and> y \<noteq> v" for y
    using v(1) by (auto simp: vs_def)
  have ids: "map ver_id vs = map ver_id (versions d)" "map tpl_id ts = map tpl_id (templates d)" "map tpl_name ts = map tpl_name (templates d)"
    using v(2) x'(1) by (simp_all add: vs_def ts_def)
  have d: "fresh_ids d" using ok by (simp add: store_ok_def)
  from d v(1,2) have "i \<in> set (used d)" by (auto simp: fresh_ids_def)
  with d vs x'(1) have "\<forall>y \<in> set vs. ver_id y \<in> set (used d)" by (auto simp: fresh_ids_def)
  moreover have "\<forall>s \<in> set ts. tpl_id s \<in> set (used d)" using d s0 by (auto simp: fresh_ids_def ts_def)
  ultimately have "fresh_ids e" using d ids by (simp add: fresh_ids_def e)
  moreover have "numbers_ok e"
    unfolding numbers_ok_def
  proof (intro ballI impI)
    fix a b assume ab: "a \<in> set (versions e)" "b \<in> set (versions e)" "ver_template a = ver_template b" "a \<noteq> b"
    consider "a = x" "b \<in> set (versions d)" "b \<noteq> v" | "b = x" "a \<in> set (versions d)" "a \<noteq> v" | "a \<in> set (versions d)" "b \<in> set (versions d)"
      using ab(1,2,4) by (auto simp: e vs)
    then show "ver_num a \<noteq> ver_num b \<and> \<not> (draft a \<and> draft b)"
    proof cases
      case 1
      with numbers_okD [OF ok v(1) 1(2)] ab(3) v(3) x'(2-4) show ?thesis by auto
    next
      case 2
      with numbers_okD [OF ok v(1) 2(2)] ab(3) v(3) x'(2-4) show ?thesis by auto
    next
      case 3
      from numbers_okD [OF ok 3 ab(3,4)] show ?thesis .
    qed
  qed
  moreover have "states_ok e" using ok v x by (auto simp: e store_ok_def states_ok_def vs)
  moreover have "links_ok e"
    unfolding links_ok_def
  proof (intro conjI ballI)
    fix y assume "y \<in> set (versions e)"
    with x'(2) v(1,3) obtain z where "z \<in> set (versions d)" "ver_template y = ver_template z" by (auto simp: e vs)
    with ok obtain s where "s \<in> set (templates d)" "tpl_id s = ver_template y" by (auto simp: store_ok_def links_ok_def)
    then have "ver_template y \<in> set (map tpl_id ts)" unfolding ids(2) by force
    then show "\<exists>s \<in> set (templates e). tpl_id s = ver_template y" by (auto simp: e)
  next
    fix r assume "r \<in> set (releases e)"
    with ok obtain y where "y \<in> set (versions d)" "ver_id y = rel_version r" "\<not> draft y" by (auto simp: e store_ok_def links_ok_def)
    with v(4) show "\<exists>v \<in> set (versions e). ver_id v = rel_version r \<and> \<not> draft v"
      by (intro bexI [of _ y]) (auto simp: e vs)
  qed
  moreover have "current_ok e"
    unfolding current_ok_def
  proof
    fix s assume s: "s \<in> set (templates e)"
    show "points (versions e) s"
    proof (cases "tpl_id s = t")
      case True
      have "s = s0\<lparr>tpl_current := Some i\<rparr>"
      proof (rule ccontr)
        assume "s \<noteq> s0\<lparr>tpl_current := Some i\<rparr>"
        with s have "s \<in> set (templates d)" "s \<noteq> s0" by (auto simp: e ts_def split: if_splits)
        with True s0 d show False by (auto simp: fresh_ids_def distinct_map inj_on_def)
      qed
      moreover have "x \<in> set vs" using vs by blast
      ultimately show ?thesis unfolding points_def using True x'(1,2,4) s0(2) by (simp add: e) blast
    next
      case False
      with s s0(2) have "s \<in> set (templates d)" by (auto simp: e ts_def split: if_splits)
      with ok have "points (versions d) s" by (simp add: store_ok_def current_ok_def)
      with False show ?thesis using x'(2) v(3) by (cases "tpl_current s") (fastforce simp: points_def e vs)+
    qed
  qed
  moreover have "keeps d e"
    unfolding keeps_def
  proof (intro conjI ballI impI)
    fix s assume "s \<in> set (templates d)"
    then show "\<exists>s' \<in> set (templates e). tpl_id s' = tpl_id s \<and> tpl_name s' = tpl_name s \<and> tpl_team s' = tpl_team s \<and> tpl_owner s' = tpl_owner s"
      by (intro bexI [of _ "if s = s0 then s0\<lparr>tpl_current := Some i\<rparr> else s"]) (auto simp: e ts_def)
  next
    fix y assume "y \<in> set (versions d)" "\<not> draft y"
    with v(4) show "\<exists>w \<in> set (versions e). same_version y w \<and> \<not> draft w \<and> ver_content w = ver_content y"
      by (intro bexI [of _ y]) (auto simp: e vs same_version_def)
  next
    fix w assume "w \<in> set (versions e)"
    then show "\<exists>y \<in> set (versions d). same_version y w" using x'(5) v(1) by (auto simp: e vs same_version_def)
  qed (auto simp: e same_release_def)
  ultimately show ?thesis by (simp add: evolves_def store_ok_def)
qed

lemma evolves_delete_draft:
  assumes "DeleteDraftTemplateVersion i d = Inr (x, e)" and ok: "store_ok d"
  shows "evolves d e"
proof -
  have "\<not> list_ex (\<lambda>r. rel_version r = i) (releases d)" and ex: "list_ex (\<lambda>x. ver_id x = i \<and> draft x) (versions d)"
    and e': "e = d\<lparr>versions := filter (\<lambda>x. ver_id x \<noteq> i) (versions d),
        templates := map (\<lambda>t. if tpl_current t = Some i then t\<lparr>tpl_current := None\<rparr> else t) (templates d)\<rparr>"
    using assms(1) by (auto simp: DeleteDraftTemplateVersion_def split: if_splits)
  have gone: "draft v" if "v \<in> set (versions d)" "ver_id v = i" for v
    using ex that ok by (auto simp: list_ex_iff store_ok_def fresh_ids_def distinct_map inj_on_def)
  have "tpl_current t \<noteq> Some i" if "t \<in> set (templates d)" for t
  proof
    assume i: "tpl_current t = Some i"
    from that ok have "points (versions d) t" by (simp add: store_ok_def current_ok_def)
    with i gone show False by (auto simp: points_def)
  qed
  then have e: "e = d\<lparr>versions := filter (\<lambda>x. ver_id x \<noteq> i) (versions d)\<rparr>" unfolding e' by (simp add: map_idI)
  have "fresh_ids e" using ok by (auto simp: e store_ok_def fresh_ids_def distinct_map_filter)
  moreover have "numbers_ok e" "states_ok e" using ok by (auto simp: e store_ok_def numbers_ok_def states_ok_def)
  moreover have "links_ok e" using ok gone unfolding store_ok_def links_ok_def by (fastforce simp: e)
  moreover have "current_ok e" using ok gone unfolding store_ok_def current_ok_def points_def by (fastforce simp: e split: option.splits)
  moreover have "keeps d e" using gone unfolding keeps_def same_version_def same_release_def by (fastforce simp: e)
  ultimately show ?thesis by (simp add: evolves_def store_ok_def)
qed

text \<open>Changes of a template that are not of its identity or its current version.\<close>

definition seen :: "template_row \<Rightarrow> nat \<times> string \<times> nat option \<times> nat \<times> nat option" where
  "seen t = (tpl_id t, tpl_name t, tpl_team t, tpl_owner t, tpl_current t)"

lemma evolves_seen:
  assumes "map seen ts = map seen (templates d)"
  shows "evolves d (d\<lparr>templates := ts\<rparr>)"
proof -
  have ids: "map tpl_id ts = map tpl_id (templates d)" "map tpl_name ts = map tpl_name (templates d)"
    using arg_cong [OF assms, of "map fst"] arg_cong [OF assms, of "map (fst \<circ> snd)"] by (simp_all add: seen_def comp_def)
  from arg_cong [OF assms, of set] have s: "seen ` set ts = seen ` set (templates d)" by simp
  have old: "\<exists>t \<in> set (templates d). seen t = seen t'" if "t' \<in> set ts" for t'
    using imageI [OF that, of seen] unfolding s by force
  have mem: "\<exists>t' \<in> set ts. seen t' = seen t" if "t \<in> set (templates d)" for t
    using imageI [OF that, of seen] unfolding s [symmetric] by force
  have "store_ok (d\<lparr>templates := ts\<rparr>)" if ok: "store_ok d"
  proof -
    have "\<forall>t \<in> set ts. tpl_id t \<in> set (used d)" using old ok by (fastforce simp: seen_def store_ok_def fresh_ids_def)
    with ok ids have "fresh_ids (d\<lparr>templates := ts\<rparr>)" by (simp add: store_ok_def fresh_ids_def)
    moreover have "numbers_ok (d\<lparr>templates := ts\<rparr>)" "states_ok (d\<lparr>templates := ts\<rparr>)"
      using ok by (simp_all add: store_ok_def numbers_ok_def states_ok_def)
    moreover have "links_ok (d\<lparr>templates := ts\<rparr>)"
      unfolding links_ok_def
    proof (intro conjI ballI)
      fix v assume "v \<in> set (versions (d\<lparr>templates := ts\<rparr>))"
      with ok obtain t where "t \<in> set (templates d)" "tpl_id t = ver_template v" by (auto simp: store_ok_def links_ok_def)
      with mem [of t] show "\<exists>t \<in> set (templates (d\<lparr>templates := ts\<rparr>)). tpl_id t = ver_template v" by (auto simp: seen_def)
    qed (use ok in \<open>simp add: store_ok_def links_ok_def\<close>)
    moreover have "current_ok (d\<lparr>templates := ts\<rparr>)"
      unfolding current_ok_def
    proof
      fix t assume "t \<in> set (templates (d\<lparr>templates := ts\<rparr>))"
      with old [of t] obtain u where u: "u \<in> set (templates d)" "seen u = seen t" by auto
      with ok have "points (versions d) u" by (simp add: store_ok_def current_ok_def)
      moreover have "tpl_id u = tpl_id t" "tpl_current u = tpl_current t" using u(2) by (simp_all add: seen_def)
      ultimately show "points (versions (d\<lparr>templates := ts\<rparr>)) t" by (cases "tpl_current t") (simp_all add: points_def)
    qed
    ultimately show ?thesis by (simp add: store_ok_def)
  qed
  moreover have "keeps d (d\<lparr>templates := ts\<rparr>)"
    unfolding keeps_def
  proof (intro conjI ballI impI)
    fix t assume "t \<in> set (templates d)"
    with mem [of t] show "\<exists>t' \<in> set (templates (d\<lparr>templates := ts\<rparr>)). tpl_id t' = tpl_id t \<and> tpl_name t' = tpl_name t \<and> tpl_team t' = tpl_team t
        \<and> tpl_owner t' = tpl_owner t" by (auto simp: seen_def)
  qed (auto simp: same_version_def same_release_def)
  ultimately show ?thesis by (simp add: evolves_def)
qed

lemma evolves_update_meta:
  assumes "UpdateTemplateMeta nm dis des tags d = Inr (x, e)"
  shows "evolves d e"
proof -
  define f :: "template_row \<Rightarrow> template_row" where "f = (\<lambda>t. t\<lparr>tpl_display := nullish dis (tpl_display t),
         tpl_description := (case des of Some x \<Rightarrow> Some x | None \<Rightarrow> tpl_description t), tpl_tags := nullish tags (tpl_tags t)\<rparr>)"
  obtain t where t: "find (\<lambda>t. tpl_name t = nm) (templates d) = Some t"
    using assms by (auto simp: UpdateTemplateMeta_def split: option.splits)
  with assms have "e = d\<lparr>templates := update_first (\<lambda>t. tpl_name t = nm) (\<lambda>_. f t) (templates d)\<rparr>"
    unfolding UpdateTemplateMeta_def Let_def f_def by auto
  with t have e: "e = d\<lparr>templates := update_first (\<lambda>t. tpl_name t = nm) f (templates d)\<rparr>" by (simp add: update_first_same)
  show ?thesis
    unfolding e by (rule evolves_seen, rule map_update_first) (simp add: seen_def f_def)
qed


text \<open>Changes of releases, which refer to versions that are no drafts.\<close>

lemma evolves_releases:
  assumes ids: "store_ok d \<Longrightarrow> distinct (map rel_id rs) \<and> (\<forall>r \<in> set rs. rel_id r \<in> set us) \<and> (\<forall>i \<in> set us. i < n)"
    and "next_id d \<le> n" and us: "set (used d) \<subseteq> set us"
    and links: "\<And>r. store_ok d \<Longrightarrow> r \<in> set rs \<Longrightarrow> \<exists>v \<in> set (versions d). ver_id v = rel_version r \<and> \<not> draft v"
    and old: "\<And>s. store_ok d \<Longrightarrow> s \<in> set rs \<Longrightarrow> rel_id s \<in> set (used d) \<Longrightarrow> \<exists>r \<in> set (releases d). same_release r s"
  shows "evolves d (d\<lparr>releases := rs, next_id := n, used := us\<rparr>)"
proof -
  have "store_ok (d\<lparr>releases := rs, next_id := n, used := us\<rparr>)" if "store_ok d"
    using that ids links us
    by (auto simp: store_ok_def fresh_ids_def numbers_ok_def current_ok_def links_ok_def states_ok_def)
  moreover have "keeps d (d\<lparr>releases := rs, next_id := n, used := us\<rparr>)" if "store_ok d"
    using old [OF that] assms(2) us unfolding keeps_def same_version_def by auto
  ultimately show ?thesis by (simp add: evolves_def)
qed

lemma evolves_insert_release:
  assumes "InsertRelease nm v c ns vals ren u d = Inr (r, e)" and "\<exists>x \<in> set (versions d). ver_id x = v \<and> \<not> draft x"
  shows "evolves d e"
proof -
  have e: "e = d\<lparr>releases := releases d @ [r], next_id := Suc (next_id d), used := next_id d # used d\<rparr>" and r: "rel_id r = next_id d" "rel_version r = v"
    using assms(1) by (auto simp: InsertRelease_def Let_def split: if_splits)
  show ?thesis
    unfolding e using assms(2) r
    by (intro evolves_releases) (fastforce simp: store_ok_def fresh_ids_def links_ok_def same_release_def)+
qed

lemma evolves_update_release:
  assumes "UpdateReleaseValuesAndVersion i v vals ren d = Inr (u, e)" and "\<exists>x \<in> set (versions d). ver_id x = v \<and> \<not> draft x"
  shows "evolves d e"
proof -
  define f :: "release_record \<Rightarrow> release_record" where "f = (\<lambda>r. r\<lparr>rel_version := v, rel_values := vals, rel_rendered := ren\<rparr>)"
  define rs where "rs = update_first (\<lambda>r. rel_id r = i) f (releases d)"
  have e: "e = d\<lparr>releases := rs, next_id := next_id d, used := used d\<rparr>"
    using assms(1) by (auto simp: UpdateReleaseValuesAndVersion_def f_def rs_def split: if_splits)
  have ids: "map rel_id rs = map rel_id (releases d)" unfolding rs_def by (rule map_update_first) (simp add: f_def)
  have rs: "r \<in> set (releases d) \<or> r \<in> f ` set (releases d)" if "r \<in> set rs" for r
    using that set_update_first unfolding rs_def by fastforce
  have "\<forall>r \<in> set rs. rel_id r \<in> set (used d)" if "store_ok d"
    using that rs by (fastforce simp: store_ok_def fresh_ids_def f_def)
  with ids rs assms(2) show ?thesis
    unfolding e by (intro evolves_releases) (fastforce simp: store_ok_def fresh_ids_def links_ok_def same_release_def f_def)+
qed

lemma evolves_delete_release: "DeleteRelease_sql i d = Inr (u, e) \<Longrightarrow> evolves d e"
proof -
  assume "DeleteRelease_sql i d = Inr (u, e)"
  then have e: "e = d\<lparr>releases := filter (\<lambda>r. rel_id r \<noteq> i) (releases d), next_id := next_id d, used := used d\<rparr>"
    by (auto simp: DeleteRelease_sql_def)
  show ?thesis
    unfolding e by (intro evolves_releases) (auto simp: store_ok_def fresh_ids_def links_ok_def same_release_def distinct_map_filter)
qed

text \<open>What is known of a version that was read, however old the reading is.\<close>

definition known :: "template_version_row \<Rightarrow> db \<Rightarrow> bool" where
  "known tv d \<longleftrightarrow> ver_id tv \<in> set (used d) \<and> (\<forall>v \<in> set (versions d). ver_id v = ver_id tv \<longrightarrow> same_version v tv)
     \<and> (\<not> draft tv \<longrightarrow> (\<exists>w \<in> set (versions d). ver_id w = ver_id tv \<and> \<not> draft w \<and> ver_content w = ver_content tv))"

lemma known_now: "store_ok d \<Longrightarrow> tv \<in> set (versions d) \<Longrightarrow> known tv d"
  by (auto simp: known_def store_ok_def fresh_ids_def distinct_map inj_on_def same_version_def)

lemma stable_ok: "api.stable store_ok"
  by (simp add: api.stable_def evolves_def)

lemma stable_known: "api.stable (\<lambda>d. store_ok d \<and> known tv d)"
  unfolding api.stable_def
proof (intro allI impI)
  fix d e assume d: "store_ok d \<and> known tv d" and "evolves d e"
  then have e: "store_ok e" "keeps d e" by (simp_all add: evolves_def)
  have "same_version v tv" if "v \<in> set (versions e)" "ver_id v = ver_id tv" for v
  proof -
    from that d have "ver_id v \<in> set (used d)" by (simp add: known_def)
    with that(1) e(2) obtain w where "w \<in> set (versions d)" "same_version w v" unfolding keeps_def by blast
    with d that(2) show ?thesis by (auto simp: known_def same_version_def)
  qed
  moreover have "\<exists>w \<in> set (versions e). ver_id w = ver_id tv \<and> \<not> draft w \<and> ver_content w = ver_content tv" if "\<not> draft tv"
  proof -
    from that d obtain v where v: "v \<in> set (versions d)" "ver_id v = ver_id tv" "\<not> draft v" "ver_content v = ver_content tv" by (auto simp: known_def)
    with e(2) obtain w where "w \<in> set (versions e)" "same_version v w" "\<not> draft w" "ver_content w = ver_content v" unfolding keeps_def by blast
    with v show ?thesis by (intro bexI [of _ w]) (auto simp: same_version_def)
  qed
  moreover have "ver_id tv \<in> set (used e)" using d e(2) by (auto simp: known_def keeps_def)
  ultimately show "store_ok e \<and> known tv e" using e(1) by (simp add: known_def)
qed

lemma one_rowD: "one_row r d = Inr (x, e) \<Longrightarrow> r = Some x \<and> e = d"
  by (auto simp: one_row_def split: option.splits)

text \<open>The statements of the transaction that publishes a version read before.\<close>

lemma shared_known: "api.shared (\<lambda>b v. v = b \<and> store_ok b \<and> known tv b)"
  unfolding api.shared_def
proof (intro allI impI)
  fix b v d
  assume v: "v = b \<and> store_ok b \<and> known tv b" and r: "evolves (b\<lparr>next_id := max (next_id b) (next_id v)\<rparr>) d"
  from v have b: "b\<lparr>next_id := max (next_id b) (next_id v)\<rparr> = b" by simp
  with r have r': "evolves b d" by simp
  with v stable_known [of tv] have d: "store_ok d \<and> known tv d" unfolding api.stable_def by blast
  from r' v have "next_id b \<le> next_id d" by (simp add: evolves_def keeps_def)
  with v have "merged b v d = d" by (intro db.equality) (simp_all add: merged_def)
  with d show "merged b v d = d \<and> store_ok d \<and> known tv d" by simp
qed

lemma first_published:
  assumes "PublishTemplateVersion (ver_id tv) b = Inr (pub, v)" and "store_ok b" and "known tv b"
  shows "published_first (ver_id tv) (ver_template tv) pub b v"
proof -
  from assms(1,2) obtain x where x: "x \<in> set (versions b)" "ver_id x = ver_id tv" "draft x" "pub = x\<lparr>ver_status := ''published''\<rparr>"
    "v = b\<lparr>versions := map (\<lambda>x. if ver_id x = ver_id tv \<and> draft x then x\<lparr>ver_status := ''published''\<rparr> else x) (versions b)\<rparr>"
    unfolding PublishTemplateVersion_def by (elim changed_version [where i = "ver_id tv"]) (auto simp: store_ok_def)
  have "map (\<lambda>x. if ver_id x = ver_id tv \<and> draft x then x\<lparr>ver_status := ''published''\<rparr> else x) (versions b) = swap x pub (versions b)"
  proof (rule map_cong [OF refl])
    fix y assume "y \<in> set (versions b)"
    with x(1,2) assms(2) have "ver_id y = ver_id tv \<longleftrightarrow> y = x" by (auto simp: store_ok_def fresh_ids_def distinct_map inj_on_def)
    with x(3,4) show "(if ver_id y = ver_id tv \<and> draft y then y\<lparr>ver_status := ''published''\<rparr> else y) = (if y = x then pub else y)" by auto
  qed
  with x have "v = b\<lparr>versions := swap x pub (versions b)\<rparr>" by simp
  moreover have "ver_template x = ver_template tv" using x(1,2) assms(3) by (simp add: known_def same_version_def)
  ultimately show ?thesis unfolding published_first_def using assms(2) x(1-4) by blast
qed

lemma then_published:
  assumes "published_first i t pub b v" and "UpdateTemplateCurrentVersion t (ver_id pub) v = Inr (u, e)"
  shows "published_then i t b e"
proof -
  from assms(1) obtain x where x: "store_ok b" "x \<in> set (versions b)" "ver_id x = i" "ver_template x = t" "draft x" "pub = x\<lparr>ver_status := ''published''\<rparr>"
    "v = b\<lparr>versions := swap x pub (versions b)\<rparr>" by (auto simp: published_first_def)
  from x(1,2,4) obtain s where s: "s \<in> set (templates b)" "tpl_id s = t" by (auto simp: store_ok_def links_ok_def)
  have "update_first (\<lambda>s. tpl_id s = t) (\<lambda>s. s\<lparr>tpl_current := Some i\<rparr>) (templates b) = map (\<lambda>s. if tpl_id s = t then s\<lparr>tpl_current := Some i\<rparr> else s) (templates b)"
    using x(1) by (intro update_first_map [where key = tpl_id]) (auto simp: store_ok_def fresh_ids_def)
  also have "\<dots> = swap s (s\<lparr>tpl_current := Some i\<rparr>) (templates b)"
  proof (rule map_cong [OF refl])
    fix y assume "y \<in> set (templates b)"
    with s x(1) have "tpl_id y = t \<longleftrightarrow> y = s" by (auto simp: store_ok_def fresh_ids_def distinct_map inj_on_def)
    then show "(if tpl_id y = t then y\<lparr>tpl_current := Some i\<rparr> else y) = (if y = s then s\<lparr>tpl_current := Some i\<rparr> else y)" by auto
  qed
  finally have "e = b\<lparr>versions := swap x (x\<lparr>ver_status := ''published''\<rparr>) (versions b), templates := swap s (s\<lparr>tpl_current := Some i\<rparr>) (templates b)\<rparr>"
    using assms(2) x(3) unfolding x(6,7) by (simp add: UpdateTemplateCurrentVersion_def)
  with x(1-5) s show ?thesis unfolding published_then_def by blast
qed

text \<open>Reading a version by template and number, and any other reading.\<close>

lemma read_version: "store_ok d \<Longrightarrow> GetTemplateVersion nm n d = Inr (tv, e) \<Longrightarrow> evolves d e \<and> (store_ok e \<and> known tv e)"
  unfolding GetTemplateVersion_def
  by (drule one_rowD) (auto simp: find_Some_iff api.R_refl intro!: known_now)

lemma read_version_id: "store_ok d \<Longrightarrow> GetTemplateVersionByID i d = Inr (tv, e) \<Longrightarrow> evolves d e \<and> (store_ok e \<and> known tv e)"
  unfolding GetTemplateVersionByID_def
  by (drule one_rowD) (auto simp: find_Some_iff api.R_refl intro!: known_now)

lemma read_only:
  "GetTemplateByName nm d = Inr (t, e1) \<Longrightarrow> e1 = d" "GetUserByOidcSubject s d = Inr (u, e2) \<Longrightarrow> e2 = d"
  "GetTeamMembership team i d = Inr (m, e3) \<Longrightarrow> e3 = d" "GetClusterByName nm d = Inr (c, e4) \<Longrightarrow> e4 = d"
  "GetReleaseByID i d = Inr (ri, e5) \<Longrightarrow> e5 = d"
  by (auto simp: GetTemplateByName_def GetUserByOidcSubject_def GetTeamMembership_def GetClusterByName_def GetReleaseByID_def dest!: one_rowD)


text \<open>The steps of a handler that keeps the invariant: any statement, a statement about a version that was read before.\<close>

lemma ask_any:
  assumes "\<And>d x e. store_ok d \<Longrightarrow> q d = Inr (x, e) \<Longrightarrow> evolves d e"
    and "\<And>e. api.sat store_ok (f (Inl e)) S" and "\<And>x. api.sat store_ok (f (Inr x)) S"
  shows "api.sat store_ok (after (query q) f) S"
  using assms(1) by (intro api.sat_ask [OF stable_ok _ assms(2,3)]) (auto simp: evolves_def)

lemma ask_version:
  assumes "\<And>e. api.sat store_ok (f (Inl e)) S" and "\<And>tv. api.sat (\<lambda>d. store_ok d \<and> known tv d) (f (Inr tv)) S"
  shows "api.sat store_ok (after (query (GetTemplateVersion nm n)) f) S"
  by (rule api.sat_ask [OF stable_ok _ assms]) (rule read_version)

lemma ask_known:
  assumes "\<And>d x e. store_ok d \<Longrightarrow> known tv d \<Longrightarrow> q d = Inr (x, e) \<Longrightarrow> evolves d e"
    and "\<And>e. api.sat (\<lambda>d. store_ok d \<and> known tv d) (f (Inl e)) S" and "\<And>x. api.sat (\<lambda>d. store_ok d \<and> known tv d) (f (Inr x)) S"
  shows "api.sat (\<lambda>d. store_ok d \<and> known tv d) (after (query q) f) S"
proof (rule api.sat_ask [OF stable_known _ assms(2,3)])
  fix d x e assume d: "store_ok d \<and> known tv d" "q d = Inr (x, e)"
  with assms(1) have "evolves d e" by blast
  with d stable_known show "evolves d e \<and> store_ok e \<and> known tv e" unfolding api.stable_def by blast
qed

lemma ask_known_tx:
  assumes "\<And>d. store_ok d \<Longrightarrow> known tv d \<Longrightarrow> I d d" and "api.tx_ok I m J" and "\<And>x. api.shared (J x)" and "\<And>x b v. J x b v \<Longrightarrow> evolves b v"
    and "\<And>e. api.sat (\<lambda>d. store_ok d \<and> known tv d) (f (Inl e)) S" and "\<And>x. api.sat (\<lambda>d. store_ok d \<and> known tv d) (f (Inr x)) S"
  shows "api.sat (\<lambda>d. store_ok d \<and> known tv d) (after (with_tx name m) f) S"
proof (rule api.sat_transact [OF stable_known _ assms(2,3) _ assms(5,6)])
  show "I d d" if "store_ok d \<and> known tv d" for d using that assms(1) by blast
  show "evolves b v \<and> store_ok v \<and> known tv v" if "store_ok b \<and> known tv b" "J x b v" for x b v
    using that assms(4) stable_known [of tv] unfolding api.stable_def by blast
qed

lemma ask_tx:
  assumes "\<And>d. store_ok d \<Longrightarrow> I d d" and "api.tx_ok I m J" and "\<And>x. api.shared (J x)" and "\<And>x b v. J x b v \<Longrightarrow> evolves b v"
    and "\<And>e. api.sat store_ok (f (Inl e)) S" and "\<And>x. api.sat store_ok (f (Inr x)) S"
  shows "api.sat store_ok (after (with_tx name m) f) S"
proof (rule api.sat_transact [OF stable_ok assms(1-3) _ assms(5,6)])
  show "evolves b v \<and> store_ok v" if "store_ok b" "J x b v" for x b v
    using that assms(4) stable_ok unfolding api.stable_def by blast
qed

lemma keeps_reading: "(\<And>d x e. q d = Inr (x, e) \<Longrightarrow> e = d) \<Longrightarrow> q d = Inr (x, e) \<Longrightarrow> evolves d e"
  using api.R_refl by blast


section \<open>A request that runs alone\<close>

definition alone :: "'z world_scheme \<Rightarrow> bool" where
  "alone w \<longleftrightarrow> others w = (\<lambda>_ d. d) \<and> outage w = (\<lambda>_. False)"

lemma alone_update [simp]: "alone (w\<lparr>tables := d\<rparr>) = alone w" "alone (w\<lparr>ticks := n\<rparr>) = alone w" "alone (w\<lparr>committed := d\<rparr>) = alone w"
  by (simp_all add: alone_def)

lemma stmt_alone:
  "alone w \<Longrightarrow> stmt q w = (case q (tables w) of Inl e \<Rightarrow> (Inl e, w\<lparr>ticks := Suc (ticks w)\<rparr>)
     | Inr (x, d) \<Rightarrow> (Inr x, w\<lparr>tables := d, ticks := Suc (ticks w)\<rparr>))"
  by (simp add: stmt_def alone_def Let_def split: sum.splits prod.splits)

lemma query_alone:
  "alone w \<Longrightarrow> query q w = (case q (tables w) of Inl e \<Rightarrow> (Inr (Inl e), w\<lparr>ticks := Suc (ticks w)\<rparr>)
     | Inr (x, d) \<Rightarrow> (Inr (Inr x), w\<lparr>tables := d, ticks := Suc (ticks w)\<rparr>))"
  by (simp add: query_def stmt_alone split: sum.splits prod.splits)

lemma settle_alone: "alone w \<Longrightarrow> settle w = w"
  by (simp add: settle_def alone_def)

lemma tx_stmt_alone:
  "alone w \<Longrightarrow> tx_stmt q w = (case q (tables w) of Inl e \<Rightarrow> (Inl e, w\<lparr>ticks := Suc (ticks w)\<rparr>)
     | Inr (x, d) \<Rightarrow> (Inr x, w\<lparr>tables := d, ticks := Suc (ticks w)\<rparr>))"
  by (simp add: tx_stmt_def settle_alone Let_def alone_def split: sum.splits prod.splits)

lemma tx_alone:
  "alone w \<Longrightarrow> with_tx name m w = (case m (w\<lparr>committed := tables w, ticks := Suc (ticks w)\<rparr>) of
     (Inl e, w2) \<Rightarrow> (Inr (Inl e), w2\<lparr>tables := committed w2, committed := committed w\<rparr>)
   | (Inr x, w2) \<Rightarrow> let w3 = (settle w2)\<lparr>ticks := Suc (ticks w2)\<rparr> in
       if outage w2 (ticks w2) then (Inr (Inl (name OtherError)), w3\<lparr>tables := committed w3, committed := committed w\<rparr>)
       else (Inr (Inr x), w3\<lparr>committed := committed w\<rparr>))"
proof -
  assume w: "alone w"
  then have o: "others w = (\<lambda>_ d. d)" "outage w = (\<lambda>_. False)" by (simp_all add: alone_def)
  have same: "w\<lparr>tables := tables w, ticks := Suc (ticks w), committed := tables w\<rparr> = w\<lparr>committed := tables w, ticks := Suc (ticks w)\<rparr>" by simp
  show ?thesis unfolding with_tx_def Let_def o same by simp
qed

text \<open>Reading, alone and where the database may fail: the tables stay.\<close>

lemma stmt_undisturbed:
  assumes "others w = (\<lambda>_ d. d)" and "\<And>x e. q (tables w) = Inr (x, e) \<Longrightarrow> e = tables w"
  obtains "stmt q w = (Inl OtherError, w\<lparr>ticks := Suc (ticks w)\<rparr>)"
    | e where "q (tables w) = Inl e" "stmt q w = (Inl e, w\<lparr>ticks := Suc (ticks w)\<rparr>)"
    | x where "q (tables w) = Inr (x, tables w)" "stmt q w = (Inr x, w\<lparr>ticks := Suc (ticks w)\<rparr>)"
proof (cases "outage w (ticks w)")
  case True
  with assms(1) show thesis by (intro that(1)) (simp add: stmt_def Let_def)
next
  case False
  show thesis
  proof (cases "q (tables w)")
    case (Inl e)
    with False assms(1) show thesis by (intro that(2)) (simp_all add: stmt_def Let_def)
  next
    case (Inr p)
    then obtain x where "q (tables w) = Inr (x, tables w)" using assms(2) by (cases p) auto
    with False assms(1) show thesis by (intro that(3)) (simp_all add: stmt_def Let_def)
  qed
qed

end
