(* ===== verification/Api_Templates.thy ===== *)
theory Api_Templates
  imports Api_Store Template_Render "HOL-Library.Word"
begin

text \<open>
  The Go API's handlers of templates and their versions (\<open>backend/internal/api\<close>: \<open>permissions.go\<close>,
  \<open>templates.go\<close>, \<open>template_update.go\<close>, \<open>template_render.go\<close>, \<open>preview.go\<close>), and what holds of the tables
  they share whatever requests run at the same time.

  The caller is the one the middleware has authenticated. The decoded body of a request is an argument, or
  the decoder's error. YAML, JSON and UUIDs are read and written by the library.
\<close>

record caller =
  cl_sub :: string
  cl_email :: string
  cl_name :: string
  cl_groups :: "string list"
  cl_token :: string

text \<open>What the API takes from libraries, beside what checking a field needs.\<close>

record api_lib = golib +
  docs_of :: "string \<Rightarrow> (string + go_doc) list"
  spec_of :: "string \<Rightarrow> string + render_field list"
  docs_yaml :: "jsval list \<Rightarrow> string"
  spec_yaml :: "go_entry list \<Rightarrow> string"
  rendered_yaml :: "go_doc list \<Rightarrow> string"
  values_of :: "string \<Rightarrow> string + (string, jsval) obj"
  uuid_of :: "string \<Rightarrow> nat option"
  now_text :: string

datatype template_body = BNothing | BTemplate template_row | BVersion template_version_row | BCreated template_row template_version_row
  | BVersions "template_version_row list" | BTemplates "(template_row \<times> template_version_row option) list" | BYaml string string | BRendered string int string

abbreviation bad_request :: "string \<Rightarrow> 'b api_reply" where
  "bad_request detail \<equiv> Problem 400 ''validation-error'' detail"

section \<open>Permissions\<close>

definition isKuberportAdmin :: "caller \<Rightarrow> bool" where
  "isKuberportAdmin u \<longleftrightarrow> ''kuberport-admin'' \<in> set (cl_groups u)"

definition ensureTeamEditor :: "caller \<Rightarrow> nat \<Rightarrow> ('z, 'b api_reply, unit) act" where
  "ensureTeamEditor u team =
     (if isKuberportAdmin u then give ()
      else after (query (GetUserByOidcSubject (cl_sub u))) (\<lambda>r. case r of
          Inl e \<Rightarrow> if e = NoRows then stop (Problem 403 ''rbac-denied'' ''team editor required'')
            else stop (Problem 500 ''internal'' ''failed to resolve caller'')
        | Inr caller \<Rightarrow> after (query (GetTeamMembership team (usr_id caller))) (\<lambda>r. case r of
            Inl e \<Rightarrow> if e = NoRows then stop (Problem 403 ''rbac-denied'' ''team editor required'')
              else stop (Problem 500 ''internal'' ''failed to resolve membership'')
          | Inr mem \<Rightarrow> if mbr_role mem \<noteq> ''editor'' then stop (Problem 403 ''rbac-denied'' ''team editor required'') else give ())))"

definition ensureTemplateEditor :: "caller \<Rightarrow> string \<Rightarrow> ('z, 'b api_reply, template_row) act" where
  "ensureTemplateEditor u nm = after (query (GetTemplateByName nm)) (\<lambda>r. case r of
     Inl _ \<Rightarrow> stop (Problem 404 ''not-found'' (''template '' @ nm))
   | Inr tpl \<Rightarrow>
       if isKuberportAdmin u then give tpl
       else (case tpl_team tpl of None \<Rightarrow> stop (Problem 403 ''rbac-denied'' ''global template requires kuberport-admin'')
         | Some team \<Rightarrow> after (ensureTeamEditor u team) (\<lambda>_. give tpl)))"

section \<open>Requests that create\<close>

record version_body =
  vq_mode :: string
  vq_resources :: string
  vq_spec :: string
  vq_state :: "go_resource list option"
  vq_metadata :: string
  vq_notes :: string

record template_request = version_body +
  tq_name :: string
  tq_display :: string
  tq_description :: string
  tq_tags :: "string list"
  tq_team :: string

text \<open>The mode and its payload must agree; the result is the resources and the ui-spec to store.\<close>

definition payload :: "api_lib \<Rightarrow> 'q version_body_scheme \<Rightarrow> string + string \<times> string" where
  "payload lib r =
     (if vq_mode r = ''ui'' then
        (case vq_state r of None \<Rightarrow> Inl ''authoring_mode=ui requires ui_state''
         | Some ui \<Rightarrow>
            if vq_resources r \<noteq> [] \<or> vq_spec r \<noteq> [] then Inl ''authoring_mode=ui must not send resources_yaml/ui_spec_yaml''
            else map_sum id (\<lambda>(docs, entries). (docs_yaml lib docs, spec_yaml lib entries)) (SerializeUIMode ui))
      else if vq_mode r = ''yaml'' then
        (if vq_state r \<noteq> None then Inl ''authoring_mode=yaml must not send ui_state''
         else if vq_resources r = [] \<or> vq_spec r = [] then Inl ''authoring_mode=yaml requires resources_yaml + ui_spec_yaml''
         else Inr (vq_resources r, vq_spec r))
      else Inr (vq_resources r, vq_spec r))"

definition spec_error :: "api_lib \<Rightarrow> string \<times> string \<Rightarrow> string option" where
  "spec_error lib p = ValidateSpec (golib.truncate lib) (docs_of lib (fst p)) (spec_of lib (snd p))"

definition content_of :: "'q version_body_scheme \<Rightarrow> string \<times> string \<Rightarrow> string option \<Rightarrow> version_content" where
  "content_of r p notes = \<lparr>con_resources = fst p, con_spec = snd p, con_metadata = PgText (vq_metadata r), con_notes = notes,
     con_state = vq_state r\<rparr>"

definition create_failed :: "string \<Rightarrow> string \<Rightarrow> dberr \<Rightarrow> 'b api_reply" where
  "create_failed taken failed e = (if e = UniqueViolation then Problem 409 ''conflict'' taken else Problem 500 ''internal'' failed)"

definition CreateTemplate :: "api_lib \<Rightarrow> caller \<Rightarrow> string + template_request \<Rightarrow> ('z, template_body api_reply, template_body api_reply) act" where
  "CreateTemplate lib u body = (case body of Inl m \<Rightarrow> stop (bad_request m)
   | Inr r \<Rightarrow>
     (if tq_name r = [] \<or> tq_display r = [] \<or> vq_mode r \<notin> {''yaml'', ''ui''} then stop (bad_request ''binding'')
      else case payload lib r of Inl m \<Rightarrow> stop (bad_request m)
      | Inr p \<Rightarrow> (case spec_error lib p of Some m \<Rightarrow> stop (bad_request m)
      | None \<Rightarrow>
        (let owning = (if tq_team r = [] then Some None else map_option Some (uuid_of lib (tq_team r))) in
         case owning of None \<Rightarrow> stop (bad_request ''owning_team_id must be a uuid'')
         | Some team \<Rightarrow>
           after (case team of
               None \<Rightarrow> if isKuberportAdmin u then give () else stop (Problem 403 ''rbac-denied'' ''global template requires kuberport-admin'')
             | Some t \<Rightarrow> ensureTeamEditor u t) (\<lambda>_.
           after (with_tx id
              (after (tx_stmt (UpsertUser (cl_sub u) (PgText (cl_email u)) (PgText (cl_name u)))) (\<lambda>user.
               after (tx_stmt (InsertTemplateV2 (tq_name r) (tq_display r) (PgText (tq_description r)) (tq_tags r) (usr_id user) team)) (\<lambda>tpl.
               after (tx_stmt (InsertTemplateVersionV2 (tpl_id tpl) 1 (content_of r p None) ''draft'' (usr_id user) (vq_mode r))) (\<lambda>ver.
               give (tpl, ver)))))) (\<lambda>res.
           case res of Inl e \<Rightarrow> stop (create_failed ''template name already exists'' ''failed to create template'' e)
           | Inr (tpl, ver) \<Rightarrow> give (Answer 201 (BCreated tpl ver))))))))"

definition CreateTemplateVersion :: "api_lib \<Rightarrow> caller \<Rightarrow> string \<Rightarrow> string + version_body \<Rightarrow> ('z, template_body api_reply, template_body api_reply) act" where
  "CreateTemplateVersion lib u nm body = after (ensureTemplateEditor u nm) (\<lambda>tpl.
     case body of Inl m \<Rightarrow> stop (bad_request m)
     | Inr r \<Rightarrow>
       (if vq_mode r \<notin> {''yaml'', ''ui''} then stop (bad_request ''binding'')
        else case payload lib r of Inl m \<Rightarrow> stop (bad_request m)
        | Inr p \<Rightarrow> (case spec_error lib p of Some m \<Rightarrow> stop (bad_request m)
        | None \<Rightarrow>
           after (with_tx id
              (after (tx_stmt (UpsertUser (cl_sub u) (PgText (cl_email u)) (PgText (cl_name u)))) (\<lambda>user.
               after (tx_stmt (NextTemplateVersion (tpl_id tpl))) (\<lambda>n.
               tx_stmt (InsertTemplateVersionV2 (tpl_id tpl) n (content_of r p (PgText (vq_notes r))) ''draft'' (usr_id user) (vq_mode r)))))) (\<lambda>res.
           case res of
             Inl e \<Rightarrow> stop (create_failed ''a draft already exists for this template; publish or delete it before creating a new version''
                 ''failed to create version'' e)
           | Inr ver \<Rightarrow> give (Answer 201 (BVersion ver))))))"

section \<open>The life cycle of a version\<close>

text \<open>\<open>strconv.ParseInt(s, 10, 32)\<close>, and the conversion of an \<open>int\<close> to an \<open>int32\<close>, which keeps the lower half.\<close>

definition ParseInt32 :: "string \<Rightarrow> int option" where
  "ParseInt32 s = (case go_Atoi s of None \<Rightarrow> None | Some n \<Rightarrow> if - (2 ^ 31) \<le> n \<and> n < 2 ^ 31 then Some n else None)"

definition int32 :: "int \<Rightarrow> int" where
  "int32 n = sint (word_of_int n :: 32 word)"

definition PublishVersion :: "caller \<Rightarrow> string \<Rightarrow> string \<Rightarrow> ('z, template_body api_reply, template_body api_reply) act" where
  "PublishVersion u nm v = after (ensureTemplateEditor u nm) (\<lambda>_.
     case ParseInt32 v of None \<Rightarrow> stop (bad_request ''version must be integer'')
     | Some n \<Rightarrow> after (query (GetTemplateVersion nm n)) (\<lambda>r. case r of
         Inl _ \<Rightarrow> stop (Problem 404 ''not-found'' ''template version'')
       | Inr existing \<Rightarrow>
          after (with_tx (\<lambda>_. False)
            (after (on_error (\<lambda>_. True) (tx_stmt (PublishTemplateVersion (ver_id existing)))) (\<lambda>pub.
             after (on_error (\<lambda>_. False) (tx_stmt (UpdateTemplateCurrentVersion (ver_template existing) (ver_id pub)))) (\<lambda>_.
             give pub)))) (\<lambda>res.
          case res of
            Inl notDraft \<Rightarrow> if notDraft then stop (Problem 409 ''conflict'' ''version not in draft state'')
              else stop (Problem 500 ''internal'' ''publish failed'')
          | Inr published \<Rightarrow> give (Answer 200 (BVersion published)))))"

definition setVersionStatus :: "string \<Rightarrow> string \<Rightarrow> string \<Rightarrow> string \<Rightarrow> ('z, template_body api_reply, template_body api_reply) act" where
  "setVersionStatus nm v expected newStatus = (case go_Atoi v of None \<Rightarrow> stop (bad_request ''v must be an integer'')
   | Some n \<Rightarrow> after (query (GetTemplateVersion nm (int32 n))) (\<lambda>r. case r of
       Inl _ \<Rightarrow> stop (Problem 404 ''not-found'' ''template version'')
     | Inr tv \<Rightarrow>
        if ver_status tv \<noteq> expected then stop (Problem 409 ''conflict'' (''version is '' @ ver_status tv @ '', expected '' @ expected))
        else after (query (SetTemplateVersionStatus (ver_id tv) newStatus)) (\<lambda>r. case r of
            Inl _ \<Rightarrow> stop (Problem 500 ''internal'' ''failed to update version status'')
          | Inr updated \<Rightarrow> give (Answer 200 (BVersion updated)))))"

definition DeprecateVersion :: "caller \<Rightarrow> string \<Rightarrow> string \<Rightarrow> ('z, template_body api_reply, template_body api_reply) act" where
  "DeprecateVersion u nm v = after (ensureTemplateEditor u nm) (\<lambda>_. setVersionStatus nm v ''published'' ''deprecated'')"

definition UndeprecateVersion :: "caller \<Rightarrow> string \<Rightarrow> string \<Rightarrow> ('z, template_body api_reply, template_body api_reply) act" where
  "UndeprecateVersion u nm v = after (ensureTemplateEditor u nm) (\<lambda>_. setVersionStatus nm v ''deprecated'' ''published'')"

definition DeleteTemplateVersion :: "caller \<Rightarrow> string \<Rightarrow> string \<Rightarrow> ('z, template_body api_reply, template_body api_reply) act" where
  "DeleteTemplateVersion u nm v = after (ensureTemplateEditor u nm) (\<lambda>_.
     case go_Atoi v of None \<Rightarrow> stop (bad_request ''v must be an integer'')
     | Some n \<Rightarrow> after (query (GetTemplateVersion nm (int32 n))) (\<lambda>r. case r of
         Inl _ \<Rightarrow> stop (Problem 404 ''not-found'' ''template version'')
       | Inr tv \<Rightarrow>
          if ver_status tv \<noteq> ''draft'' then stop (Problem 409 ''conflict'' (''version is '' @ ver_status tv @ ''; only drafts can be deleted''))
          else after (query (DeleteDraftTemplateVersion (ver_id tv))) (\<lambda>r. case r of
              Inl e \<Rightarrow> if e = NoRows then stop (Problem 409 ''conflict'' ''version is no longer draft'')
                else stop (Problem 500 ''internal'' ''delete failed'')
            | Inr _ \<Rightarrow> give (Answer 204 BNothing))))"

section \<open>Requests that change\<close>

text \<open>A field that is not sent (\<^term>\<open>None\<close>) stays as it is.\<close>

record version_patch =
  vp_resources :: "string option"
  vp_spec :: "string option"
  vp_state :: "go_resource list option"
  vp_metadata :: "string option"
  vp_notes :: "string option"

text \<open>The new resources, ui-spec and state of a draft of the given mode, or the error.\<close>

definition patch_content :: "api_lib \<Rightarrow> string \<Rightarrow> version_patch \<Rightarrow> string + string option \<times> string option \<times> go_resource list option" where
  "patch_content lib mode r =
     (if mode = ''ui'' then
        (if vp_resources r \<noteq> None \<or> vp_spec r \<noteq> None
         then Inl ''authoring_mode=ui draft must not receive resources_yaml/ui_spec_yaml; send ui_state''
         else (case vp_state r of None \<Rightarrow> Inr (None, None, None)
           | Some ui \<Rightarrow> map_sum id (\<lambda>(docs, entries). (Some (docs_yaml lib docs), Some (spec_yaml lib entries), Some ui)) (SerializeUIMode ui)))
      else if mode = ''yaml'' then
        (if vp_state r \<noteq> None then Inl ''authoring_mode=yaml draft must not receive ui_state; send resources_yaml/ui_spec_yaml''
         else Inr (vp_resources r, vp_spec r, None))
      else Inr (None, None, None))"

definition UpdateTemplateVersion :: "api_lib \<Rightarrow> caller \<Rightarrow> string \<Rightarrow> string \<Rightarrow> string + version_patch \<Rightarrow>
    ('z, template_body api_reply, template_body api_reply) act" where
  "UpdateTemplateVersion lib u nm v body = after (ensureTemplateEditor u nm) (\<lambda>_.
     case go_Atoi v of None \<Rightarrow> stop (bad_request ''v must be an integer'')
     | Some n \<Rightarrow> after (query (GetTemplateVersion nm (int32 n))) (\<lambda>r. case r of
         Inl _ \<Rightarrow> stop (Problem 404 ''not-found'' ''template version'')
       | Inr tv \<Rightarrow>
          if ver_status tv \<noteq> ''draft'' then stop (Problem 409 ''conflict'' (''version is '' @ ver_status tv @ ''; only drafts can be updated''))
          else (case body of Inl m \<Rightarrow> stop (bad_request m)
          | Inr r \<Rightarrow> (case patch_content lib (ver_mode tv) r of Inl m \<Rightarrow> stop (bad_request m)
          | Inr (res, spec, state) \<Rightarrow>
            (case spec_error lib (nullish res (con_resources (ver_content tv)), nullish spec (con_spec (ver_content tv))) of
               Some m \<Rightarrow> stop (bad_request m)
             | None \<Rightarrow> after (query (UpdateDraftTemplateVersion (ver_id tv) res spec (vp_metadata r) (vp_notes r) state)) (\<lambda>r. case r of
                 Inl e \<Rightarrow> if e = NoRows then stop (Problem 409 ''conflict'' ''version is no longer draft'')
                   else stop (Problem 500 ''internal'' ''update failed'')
               | Inr updated \<Rightarrow> give (Answer 200 (BVersion updated))))))))"

record template_patch =
  tp_display :: "string option"
  tp_description :: "string option"
  tp_tags :: "string list option"

text \<open>\<open>strings.TrimSpace\<close>.\<close>

definition go_blank :: "string \<Rightarrow> bool" where
  "go_blank s \<longleftrightarrow> list_all (\<lambda>c. of_char c \<in> {9, 10, 11, 12, 13, 32, 133, 160 :: nat}) s"

definition UpdateTemplate :: "caller \<Rightarrow> string \<Rightarrow> string + template_patch \<Rightarrow> ('z, template_body api_reply, template_body api_reply) act" where
  "UpdateTemplate u nm body = after (ensureTemplateEditor u nm) (\<lambda>_.
     case body of Inl m \<Rightarrow> stop (bad_request m)
     | Inr r \<Rightarrow>
       (if tp_display r = None \<and> tp_description r = None \<and> tp_tags r = None then stop (bad_request ''no fields to update'')
        else if (case tp_display r of Some s \<Rightarrow> go_blank s | None \<Rightarrow> False) then stop (bad_request ''display_name cannot be empty'')
        else after (query (UpdateTemplateMeta nm (tp_display r) (tp_description r) (tp_tags r))) (\<lambda>q. case q of
            Inl e \<Rightarrow> if e = NoRows then stop (Problem 404 ''not-found'' (''template '' @ nm))
              else stop (Problem 500 ''internal'' ''failed to update template'')
          | Inr _ \<Rightarrow> after (query (GetTemplateByName nm)) (\<lambda>q. case q of
              Inl e \<Rightarrow> if e = NoRows then stop (Problem 404 ''not-found'' (''template '' @ nm))
                else stop (Problem 500 ''internal'' ''failed to reload template'')
            | Inr updated \<Rightarrow> give (Answer 200 (BTemplate updated))))))"

section \<open>Requests that read\<close>

definition ListTemplates :: "('z, template_body api_reply, template_body api_reply) act" where
  "ListTemplates = after (query ListTemplates_sql) (\<lambda>q. case q of
     Inl _ \<Rightarrow> stop (Problem 500 ''internal'' ''list'') | Inr rows \<Rightarrow> give (Answer 200 (BTemplates rows)))"

definition GetTemplate :: "string \<Rightarrow> ('z, template_body api_reply, template_body api_reply) act" where
  "GetTemplate nm = after (query (GetTemplateByName nm)) (\<lambda>q. case q of
     Inl _ \<Rightarrow> stop (Problem 404 ''not-found'' ''template'') | Inr t \<Rightarrow> give (Answer 200 (BTemplate t)))"

definition ListTemplateVersions :: "string \<Rightarrow> ('z, template_body api_reply, template_body api_reply) act" where
  "ListTemplateVersions nm = after (query (ListTemplateVersions_sql nm)) (\<lambda>q. case q of
     Inl _ \<Rightarrow> stop (Problem 500 ''internal'' ''list'') | Inr vs \<Rightarrow> give (Answer 200 (BVersions vs)))"

definition GetVersion :: "string \<Rightarrow> string \<Rightarrow> ('z, template_body api_reply, template_body api_reply) act" where
  "GetVersion nm v = (case ParseInt32 v of None \<Rightarrow> stop (bad_request ''version must be integer'')
   | Some n \<Rightarrow> after (query (GetTemplateVersion nm n)) (\<lambda>q. case q of
       Inl _ \<Rightarrow> stop (Problem 404 ''not-found'' ''template version'') | Inr tv \<Rightarrow> give (Answer 200 (BVersion tv))))"

definition resolveTemplateVersion :: "string \<Rightarrow> string \<Rightarrow> ('z, 'b api_reply, template_version_row) act" where
  "resolveTemplateVersion nm versionQuery =
     (if versionQuery \<noteq> [] then
        (case ParseInt32 versionQuery of None \<Rightarrow> stop (bad_request ''version must be integer'')
         | Some n \<Rightarrow> after (query (GetTemplateVersion nm n)) (\<lambda>r. case r of
             Inl _ \<Rightarrow> stop (Problem 404 ''not-found'' ''template version'') | Inr tv \<Rightarrow> give tv))
      else after (query (GetTemplateByName nm)) (\<lambda>r. case r of
          Inl e \<Rightarrow> if e = NoRows then stop (Problem 404 ''not-found'' ''template'') else stop (Problem 500 ''internal'' ''failed to load template'')
        | Inr tpl \<Rightarrow> (case tpl_current tpl of
            None \<Rightarrow> stop (Problem 404 ''not-found'' ''template has no published version; pass ?version=N'')
          | Some i \<Rightarrow> after (query (GetTemplateVersionByID i)) (\<lambda>r. case r of
              Inl e \<Rightarrow> if e = NoRows then stop (Problem 404 ''not-found'' ''template has no published version; pass ?version=N'')
                else stop (Problem 500 ''internal'' ''failed to load template version'')
            | Inr tv \<Rightarrow> give tv))))"

text \<open>Rendering what is stored, for the values of a form.\<close>

definition render_version :: "api_lib \<Rightarrow> template_version_row \<Rightarrow> string \<Rightarrow> release_labels \<Rightarrow> string + string" where
  "render_version lib tv vals l = map_sum id (rendered_yaml lib)
     (Render (golib.truncate lib) (docs_of lib (con_resources (ver_content tv))) (spec_of lib (con_spec (ver_content tv)))
        (values_of lib vals) l (now_text lib))"

text \<open>The body is the decoder's error or the text of the values, empty when they are missing.\<close>

definition PreviewRender :: "api_lib \<Rightarrow> string \<Rightarrow> string \<Rightarrow> string + string \<Rightarrow> ('z, template_body api_reply, template_body api_reply) act" where
  "PreviewRender lib nm versionQuery body = (case body of Inl m \<Rightarrow> stop (bad_request m)
   | Inr vals \<Rightarrow> after (resolveTemplateVersion nm versionQuery) (\<lambda>tv.
       case render_version lib tv (if vals = [] then ''{}'' else vals)
          \<lparr>l_release = ''preview'', l_template = nm, l_version = ver_num tv, l_id = [], l_appliedBy = []\<rparr> of
         Inl m \<Rightarrow> stop (bad_request m)
       | Inr rendered \<Rightarrow> give (Answer 200 (BRendered nm (ver_num tv) rendered))))"

definition PreviewTemplate :: "api_lib \<Rightarrow> string + go_resource list \<Rightarrow> ('z, template_body api_reply, template_body api_reply) act" where
  "PreviewTemplate lib body = (case body of Inl m \<Rightarrow> stop (bad_request m)
   | Inr ui \<Rightarrow> (case SerializeUIMode ui of Inl m \<Rightarrow> stop (bad_request m)
     | Inr (docs, entries) \<Rightarrow> give (Answer 200 (BYaml (docs_yaml lib docs) (spec_yaml lib entries)))))"


section \<open>Every handler keeps the invariant, whatever runs beside it\<close>

lemma keeps_team_editor: "api.sat store_ok (ensureTeamEditor u team) (\<lambda>_. store_ok)"
  unfolding ensureTeamEditor_def
  by (auto intro!: api.sat_steps ask_any intro: keeps_reading read_only)

lemma keeps_template_editor: "api.sat store_ok (ensureTemplateEditor u nm) (\<lambda>_. store_ok)"
  unfolding ensureTemplateEditor_def
  by (auto intro!: api.sat_steps ask_any api.sat_after [OF keeps_team_editor] intro: keeps_reading read_only)

lemma status_of_known:
  assumes "store_ok d" and "known tv d" and "SetTemplateVersionStatus (ver_id tv) s d = Inr (x, e)" and "\<not> draft tv"
    and "s \<in> {''published'', ''deprecated''}"
  shows "evolves d e"
  using assms by (intro evolves_set_status) (auto simp: known_def)

lemma keeps_set_status:
  assumes "expected \<noteq> ''draft''" and "new \<in> {''published'', ''deprecated''}"
  shows "api.sat store_ok (setVersionStatus nm v expected new) (\<lambda>_. store_ok)"
  unfolding setVersionStatus_def using assms
  by (auto intro!: api.sat_steps ask_version ask_known intro: status_of_known)

lemma keeps_deprecate: "api.sat store_ok (DeprecateVersion u nm v) (\<lambda>_. store_ok)"
  unfolding DeprecateVersion_def by (rule api.sat_after [OF keeps_template_editor keeps_set_status]) simp_all

lemma keeps_undeprecate: "api.sat store_ok (UndeprecateVersion u nm v) (\<lambda>_. store_ok)"
  unfolding UndeprecateVersion_def by (rule api.sat_after [OF keeps_template_editor keeps_set_status]) simp_all

lemma keeps_delete_version: "api.sat store_ok (DeleteTemplateVersion u nm v) (\<lambda>_. store_ok)"
  unfolding DeleteTemplateVersion_def
  by (auto intro!: api.sat_after [OF keeps_template_editor] api.sat_steps ask_version ask_known intro: evolves_delete_draft)

lemma keeps_update_version: "api.sat store_ok (UpdateTemplateVersion lib u nm v body) (\<lambda>_. store_ok)"
  unfolding UpdateTemplateVersion_def
  by (auto intro!: api.sat_after [OF keeps_template_editor] api.sat_steps ask_version ask_known intro: evolves_update_draft
      split: prod.splits)

lemma keeps_update_template: "api.sat store_ok (UpdateTemplate u nm body) (\<lambda>_. store_ok)"
  unfolding UpdateTemplate_def
  by (auto intro!: api.sat_after [OF keeps_template_editor] api.sat_steps ask_any intro: evolves_update_meta keeps_reading read_only)

text \<open>The bodies of the transactions.\<close>

lemma publish_body:
  "api.tx_ok (\<lambda>b v. v = b \<and> store_ok b \<and> known tv b)
     (after (on_error f (tx_stmt (PublishTemplateVersion (ver_id tv)))) (\<lambda>pub.
      after (on_error g (tx_stmt (UpdateTemplateCurrentVersion (ver_template tv) (ver_id pub)))) (\<lambda>_. give pub)))
     (\<lambda>_. published_then (ver_id tv) (ver_template tv))"
proof (rule api.tx_after [where J = "published_first (ver_id tv) (ver_template tv)"])
  show "api.tx_ok (\<lambda>b v. v = b \<and> store_ok b \<and> known tv b) (on_error f (tx_stmt (PublishTemplateVersion (ver_id tv)))) (published_first (ver_id tv) (ver_template tv))"
    by (intro api.tx_on_error api.tx_stmt_ok shared_known) (auto dest: first_published)
next
  fix pub
  show "api.tx_ok (published_first (ver_id tv) (ver_template tv) pub)
     (after (on_error g (tx_stmt (UpdateTemplateCurrentVersion (ver_template tv) (ver_id pub)))) (\<lambda>_. give pub))
     (\<lambda>_. published_then (ver_id tv) (ver_template tv))"
  proof (rule api.tx_after [where J = "\<lambda>_. published_then (ver_id tv) (ver_template tv)"])
    show "api.tx_ok (published_first (ver_id tv) (ver_template tv) pub)
      (on_error g (tx_stmt (UpdateTemplateCurrentVersion (ver_template tv) (ver_id pub)))) (\<lambda>_. published_then (ver_id tv) (ver_template tv))"
      by (intro api.tx_on_error api.tx_stmt_ok shared_first then_published)
  qed (rule api.tx_give)
qed

lemma keeps_publish: "api.sat store_ok (PublishVersion u nm v) (\<lambda>_. store_ok)"
  unfolding PublishVersion_def
  by (auto intro!: api.sat_after [OF keeps_template_editor] api.sat_steps ask_version
      ask_known_tx [OF _ publish_body shared_then evolves_published])

lemma start_below_max: "n \<le> foldl max n xs" for n :: int
proof (induction xs arbitrary: n)
  case (Cons x xs)
  from Cons [of "max n x"] show ?case by simp
qed simp

lemma below_max: "x \<in> set xs \<Longrightarrow> x \<le> foldl max n xs" for x n :: int
proof (induction xs arbitrary: n)
  case (Cons y xs)
  with start_below_max [of "max n y" xs] show ?case by auto
qed simp

lemma next_version:
  assumes "NextTemplateVersion t d = Inr (n, e)" and "store_ok d"
  shows "e = d \<and> 1 \<le> n \<and> (\<forall>x \<in> set (versions_of d t). ver_num x < n)"
proof -
  let ?ns = "map ver_num (versions_of d t)"
  have n: "n = (case ?ns of [] \<Rightarrow> 0 | m # ns \<Rightarrow> foldl max m ns) + 1" and e: "e = d"
    using assms(1) by (auto simp: NextTemplateVersion_def)
  have "x < n" if "x \<in> set ?ns" for x
  proof (cases ?ns)
    case (Cons m ns)
    with that n start_below_max [of m ns] below_max [of x ns m] show ?thesis by auto
  qed (use that in simp)
  moreover have "1 \<le> n"
  proof (cases ?ns)
    case (Cons m ns)
    then have "m \<in> ver_num ` set (versions_of d t)" by (metis list.set_intros(1) list.set_map)
    with assms(2) have "1 \<le> m" by (auto simp: versions_of_def store_ok_def states_ok_def)
    with n Cons start_below_max [of m ns] show ?thesis by simp
  qed (use n in simp)
  ultimately show ?thesis using e by simp
qed

lemma create_version_body:
  "api.tx_ok (adds [] []) (after (tx_stmt (UpsertUser s em dn)) (\<lambda>user. after (tx_stmt (NextTemplateVersion t)) (\<lambda>n.
      tx_stmt (InsertTemplateVersionV2 t n c ''draft'' (usr_id user) m)))) (\<lambda>x. adds [] [x])"
proof (rule api.tx_after [where J = "\<lambda>_. adds [] []"])
  show "api.tx_ok (adds [] []) (tx_stmt (UpsertUser s em dn)) (\<lambda>_. adds [] [])"
    by (rule api.tx_stmt_ok [OF shared_adds]) (rule adds_upsert)
next
  fix user
  show "api.tx_ok (adds [] []) (after (tx_stmt (NextTemplateVersion t)) (\<lambda>n.
      tx_stmt (InsertTemplateVersionV2 t n c ''draft'' (usr_id user) m))) (\<lambda>x. adds [] [x])"
  proof (rule api.tx_after [where J = "\<lambda>n b v. adds [] [] b v \<and> 1 \<le> n"])
    show "api.tx_ok (adds [] []) (tx_stmt (NextTemplateVersion t)) (\<lambda>n b v. adds [] [] b v \<and> 1 \<le> n)"
    proof (rule api.tx_stmt_ok [OF shared_adds])
      fix b v n e
      assume b: "adds [] [] b v" and n: "NextTemplateVersion t v = Inr (n, e)"
      from evolves_adds [OF b] b have "store_ok v" by (simp add: evolves_def adds_def)
      with next_version [OF n] b show "adds [] [] b e \<and> 1 \<le> n" by simp
    qed
    show "api.tx_ok (\<lambda>b v. adds [] [] b v \<and> 1 \<le> n) (tx_stmt (InsertTemplateVersionV2 t n c ''draft'' (usr_id user) m)) (\<lambda>x. adds [] [x])" for n
      by (rule api.tx_stmt_ok [OF api.shared_fact [OF shared_adds]]) (auto intro: adds_insert_version)
  qed
qed

lemma keeps_create_version: "api.sat store_ok (CreateTemplateVersion lib u nm body) (\<lambda>_. store_ok)"
  unfolding CreateTemplateVersion_def
  by (auto intro!: api.sat_after [OF keeps_template_editor] api.sat_steps
      ask_tx [OF adds_none create_version_body shared_adds evolves_adds])

lemma create_template_body:
  "api.tx_ok (adds [] []) (after (tx_stmt (UpsertUser s em dn)) (\<lambda>user. after (tx_stmt (InsertTemplateV2 nm dis des tags (usr_id user) team)) (\<lambda>tpl.
      after (tx_stmt (InsertTemplateVersionV2 (tpl_id tpl) 1 c ''draft'' (usr_id user) m)) (\<lambda>ver. give (tpl, ver)))))
     (\<lambda>(t, x). adds [t] [x])"
proof (rule api.tx_after [where J = "\<lambda>_. adds [] []"])
  show "api.tx_ok (adds [] []) (tx_stmt (UpsertUser s em dn)) (\<lambda>_. adds [] [])"
    by (rule api.tx_stmt_ok [OF shared_adds]) (rule adds_upsert)
next
  fix user
  show "api.tx_ok (adds [] []) (after (tx_stmt (InsertTemplateV2 nm dis des tags (usr_id user) team)) (\<lambda>tpl.
      after (tx_stmt (InsertTemplateVersionV2 (tpl_id tpl) 1 c ''draft'' (usr_id user) m)) (\<lambda>ver. give (tpl, ver)))) (\<lambda>(t, x). adds [t] [x])"
  proof (rule api.tx_after [where J = "\<lambda>t. adds [t] []"])
    show "api.tx_ok (adds [] []) (tx_stmt (InsertTemplateV2 nm dis des tags (usr_id user) team)) (\<lambda>t. adds [t] [])"
      by (rule api.tx_stmt_ok [OF shared_adds]) (rule adds_insert_template)
    fix t
    show "api.tx_ok (adds [t] []) (after (tx_stmt (InsertTemplateVersionV2 (tpl_id t) 1 c ''draft'' (usr_id user) m)) (\<lambda>ver. give (t, ver)))
        (\<lambda>(t, x). adds [t] [x])"
    proof (rule api.tx_after [where J = "\<lambda>x. adds [t] [x]"])
      show "api.tx_ok (adds [t] []) (tx_stmt (InsertTemplateVersionV2 (tpl_id t) 1 c ''draft'' (usr_id user) m)) (\<lambda>x. adds [t] [x])"
        by (rule api.tx_stmt_ok [OF shared_adds]) (erule adds_insert_version, assumption, rule order_refl)
    qed (simp add: api.tx_give)
  qed
qed

lemma keeps_create_template: "api.sat store_ok (CreateTemplate lib u body) (\<lambda>_. store_ok)"
proof -
  have allowed: "api.sat store_ok (case team of
      None \<Rightarrow> if isKuberportAdmin u then give () else stop (Problem 403 ''rbac-denied'' ''global template requires kuberport-admin'')
    | Some t \<Rightarrow> ensureTeamEditor u t) (\<lambda>_. store_ok)" for team
    by (auto intro!: api.sat_steps keeps_team_editor)
  have both: "api.shared (case x of (t, y) \<Rightarrow> adds [t] [y])" "(case x of (t, y) \<Rightarrow> adds [t] [y]) b v \<Longrightarrow> evolves b v" for x b v
    by (cases x; simp add: shared_adds evolves_adds)+
  show ?thesis
    unfolding CreateTemplate_def Let_def
    by (rule api.sat_stop api.sat_if api.sat_sum api.sat_option api.sat_after [OF allowed] ask_tx [OF adds_none create_template_body both] api.sat_give
        | simp add: api.sat_stop split: prod.splits)+ (auto intro: api.sat_give api.sat_stop)
qed

lemma keeps_resolve: "api.sat store_ok (resolveTemplateVersion nm q) (\<lambda>_. store_ok)"
  unfolding resolveTemplateVersion_def
  by (auto intro!: api.sat_steps ask_any dest: read_version read_version_id intro: keeps_reading read_only)

lemma keeps_preview_render: "api.sat store_ok (PreviewRender lib nm q body) (\<lambda>_. store_ok)"
  unfolding PreviewRender_def by (auto intro!: api.sat_steps api.sat_after [OF keeps_resolve])

lemma keeps_preview_template: "api.sat store_ok (PreviewTemplate lib body) (\<lambda>_. store_ok)"
  unfolding PreviewTemplate_def by (auto intro!: api.sat_steps split: prod.splits)

lemma keeps_list_templates: "api.sat store_ok ListTemplates (\<lambda>_. store_ok)"
  unfolding ListTemplates_def by (auto intro!: api.sat_steps ask_any simp: ListTemplates_sql_def api.R_refl)

lemma keeps_get_template: "api.sat store_ok (GetTemplate nm) (\<lambda>_. store_ok)"
  unfolding GetTemplate_def by (auto intro!: api.sat_steps ask_any intro: keeps_reading read_only)

lemma keeps_list_versions: "api.sat store_ok (ListTemplateVersions nm) (\<lambda>_. store_ok)"
  unfolding ListTemplateVersions_def by (auto intro!: api.sat_steps ask_any simp: ListTemplateVersions_sql_def api.R_refl)

lemma keeps_get_version: "api.sat store_ok (GetVersion nm v) (\<lambda>_. store_ok)"
  unfolding GetVersion_def by (auto intro!: api.sat_steps ask_any dest: read_version)

end
