(* ===== verification/Kube_Apply.thy ===== *)
theory Kube_Apply
  imports Template_Render "HOL-Library.Word"
begin

text \<open>
  The Go API's client of a cluster (\<open>backend/internal/k8s\<close>: \<open>apply.go\<close>, \<open>status.go\<close>, \<open>access.go\<close>, and the choice of the
  constructor in \<open>cmd/server/main.go\<close>).

  Kubernetes and its client library are a parameter: the decoder of a stream of documents, the accessors of an
  object, and the calls of the API server, which change the state of the cluster. What the lemmas rely on of
  them is said by the predicates at the end: a patch that succeeds leaves the object it names, and the deletion
  of a collection removes the objects the selector matches.
\<close>

type_synonym resource_id = "string \<times> string \<times> string"  \<comment> \<open>group, version, plural\<close>
type_synonym object_id = "resource_id \<times> string \<times> string"  \<comment> \<open>resource, namespace, name\<close>

record access_check =
  ac_namespace :: string
  ac_verb :: string
  ac_group :: string
  ac_resource :: string
  ac_name :: string

record access_result =
  ar_allowed :: bool
  ar_denied :: bool
  ar_reason :: string

record ('c, 'k) kube =
  decoder :: "string \<Rightarrow> (string + go_doc option) list"
  object_gvk :: "go_doc \<Rightarrow> resource_id"  \<comment> \<open>group, version, kind\<close>
  object_name :: "go_doc \<Rightarrow> string"
  object_namespace :: "go_doc \<Rightarrow> string"
  set_namespace :: "string \<Rightarrow> go_doc \<Rightarrow> go_doc"
  marshal :: "go_doc \<Rightarrow> string + string"
  secure_client :: "string \<Rightarrow> string \<Rightarrow> string \<Rightarrow> string + 'c"
  insecure_client :: "string \<Rightarrow> string \<Rightarrow> string + 'c"
  patch_object :: "'c \<Rightarrow> object_id \<Rightarrow> string \<Rightarrow> 'k \<Rightarrow> string option \<times> 'k"
  delete_collection :: "'c \<Rightarrow> resource_id \<Rightarrow> string \<Rightarrow> string \<Rightarrow> 'k \<Rightarrow> string option \<times> 'k"
  list_pods :: "'c \<Rightarrow> string \<Rightarrow> string \<Rightarrow> 'k \<Rightarrow> string + go_doc list"
  review_access :: "'c \<Rightarrow> access_check \<Rightarrow> 'k \<Rightarrow> string + access_result"

text \<open>The server falls back to a client that does not check certificates where the cluster has none.\<close>

definition NewWithToken :: "('c, 'k) kube \<Rightarrow> string \<Rightarrow> string \<Rightarrow> string \<Rightarrow> string + 'c" where
  "NewWithToken K url ca token = (if ca = [] then insecure_client K url token else secure_client K url ca token)"

section \<open>Applying and deleting\<close>

definition kindToPlural :: "(string \<times> string) list" where
  "kindToPlural = [(''Deployment'', ''deployments''), (''StatefulSet'', ''statefulsets''), (''DaemonSet'', ''daemonsets''),
     (''Job'', ''jobs''), (''CronJob'', ''cronjobs''), (''Service'', ''services''), (''Ingress'', ''ingresses''),
     (''ConfigMap'', ''configmaps''), (''Secret'', ''secrets''), (''PersistentVolumeClaim'', ''persistentvolumeclaims'')]"

definition pluralize :: "string \<Rightarrow> string" where
  "pluralize kind = nullish (map_of kindToPlural kind) []"

definition mvpResources :: "resource_id list" where
  "mvpResources = [(''apps'', ''v1'', ''deployments''), (''apps'', ''v1'', ''statefulsets''), (''apps'', ''v1'', ''daemonsets''),
     (''batch'', ''v1'', ''jobs''), (''batch'', ''v1'', ''cronjobs''), ([], ''v1'', ''services''),
     (''networking.k8s.io'', ''v1'', ''ingresses''), ([], ''v1'', ''configmaps''), ([], ''v1'', ''secrets''),
     ([], ''v1'', ''persistentvolumeclaims'')]"

text \<open>The decoder's stream up to its first error; documents that are \<open>null\<close> are left out.\<close>

fun splitYAML :: "(string + go_doc option) list \<Rightarrow> string + go_doc list" where
  "splitYAML [] = Inr []"
| "splitYAML (Inl e # _) = Inl e"
| "splitYAML (Inr None # ds) = splitYAML ds"
| "splitYAML (Inr (Some u) # ds) = map_sum id ((#) u) (splitYAML ds)"

text \<open>One document of \<open>ApplyAll\<close>, with its error if there is one.\<close>

definition apply_object :: "('c, 'k) kube \<Rightarrow> 'c \<Rightarrow> string \<Rightarrow> go_doc \<Rightarrow> 'k \<Rightarrow> string option \<times> 'k" where
  "apply_object K cli ns o1 k = (case object_gvk K o1 of (grp, vsn, kind) \<Rightarrow>
     let plural = pluralize kind in
     if plural = [] then (Some (''unsupported kind '' @ kind), k)
     else if object_name K o1 = [] then (Some (''object '' @ kind @ '' is missing metadata.name''), k)
     else let o2 = (if object_namespace K o1 = [] then set_namespace K ns o1 else o1);
         what = kind @ ''/'' @ object_namespace K o2 @ ''/'' @ object_name K o2 @ '': '' in
       case marshal K o2 of Inl e \<Rightarrow> (Some (''marshal '' @ what @ e), k)
       | Inr buf \<Rightarrow> (case patch_object K cli ((grp, vsn, plural), object_namespace K o2, object_name K o2) buf k of
           (None, k') \<Rightarrow> (None, k') | (Some e, k') \<Rightarrow> (Some (''apply '' @ what @ e), k')))"

text \<open>
  Steps tried one after the other whether or not those before failed, unless the context ends: \<open>ended n\<close> is its
  error before the n-th. The result is the errors and the new state.
\<close>

fun try_each :: "(nat \<Rightarrow> string option) \<Rightarrow> nat \<Rightarrow> ('k \<Rightarrow> string option \<times> 'k) list \<Rightarrow> 'k \<Rightarrow> string list \<times> 'k" where
  "try_each ended n [] k = ([], k)"
| "try_each ended n (f # fs) k = (case ended n of Some e \<Rightarrow> ([e], k)
   | None \<Rightarrow> (case f k of (err, k') \<Rightarrow> (case try_each ended (Suc n) fs k' of (errs, k'') \<Rightarrow>
       ((case err of Some e \<Rightarrow> [e] | None \<Rightarrow> []) @ errs, k''))))"

fun join_lines :: "string list \<Rightarrow> string" where
  "join_lines [] = []"
| "join_lines [e] = e"
| "join_lines (e # es) = e @ char_of (10 :: nat) # join_lines es"

definition join_errors :: "string list \<Rightarrow> string option" where
  "join_errors es = (if es = [] then None else Some (join_lines es))"

definition ApplyAll :: "('c, 'k) kube \<Rightarrow> 'c \<Rightarrow> (nat \<Rightarrow> string option) \<Rightarrow> string \<Rightarrow> string \<Rightarrow> 'k \<Rightarrow> string option \<times> 'k" where
  "ApplyAll K cli ended ns multiDoc k = (case splitYAML (decoder K multiDoc) of Inl e \<Rightarrow> (Some (''split yaml: '' @ e), k)
   | Inr objs \<Rightarrow> map_prod join_errors id (try_each ended 0 (map (apply_object K cli ns) objs) k))"

definition release_selector :: "string \<Rightarrow> string" where
  "release_selector release = ''kuberport.io/release='' @ release"

definition delete_kind :: "('c, 'k) kube \<Rightarrow> 'c \<Rightarrow> string \<Rightarrow> string \<Rightarrow> resource_id \<Rightarrow> 'k \<Rightarrow> string option \<times> 'k" where
  "delete_kind K cli ns release r k = (case delete_collection K cli r ns (release_selector release) k of
     (None, k') \<Rightarrow> (None, k') | (Some e, k') \<Rightarrow> (Some (''delete '' @ snd (snd r) @ '': '' @ e), k'))"

definition DeleteByRelease :: "('c, 'k) kube \<Rightarrow> 'c \<Rightarrow> (nat \<Rightarrow> string option) \<Rightarrow> string \<Rightarrow> string \<Rightarrow> 'k \<Rightarrow> string option \<times> 'k" where
  "DeleteByRelease K cli ended ns release k = map_prod join_errors id (try_each ended 0 (map (delete_kind K cli ns release) mvpResources) k)"

section \<open>The pods of a release\<close>

text \<open>Restarts are counted in 32 bits; \<open>w32\<close> is the conversion of a float that Go leaves to the implementation.\<close>

record pod_instance =
  in_name :: string
  in_phase :: string
  in_ready :: bool
  in_restarts :: "32 word"

fun first_ready :: "jsval list \<Rightarrow> bool" where
  "first_ready [] = False"
| "first_ready (JObj cond # cs) = (if oget cond ''type'' = Some (JStr ''Ready'') then oget cond ''status'' = Some (JStr ''True'') else first_ready cs)"
| "first_ready (_ # cs) = first_ready cs"

definition allContainersReady :: "go_doc \<Rightarrow> bool" where
  "allContainersReady status = (case oget status ''conditions'' of Some (JArr cs) \<Rightarrow> first_ready cs | _ \<Rightarrow> False)"

definition restart_count :: "(jnum \<Rightarrow> 32 word) \<Rightarrow> jsval \<Rightarrow> 32 word" where
  "restart_count w32 s = (case s of
     JObj cs \<Rightarrow> (case oget cs ''restartCount'' of
         Some (JNum (Num q)) \<Rightarrow>
           (if q = of_int \<lfloor>q\<rfloor> \<and> - (2 ^ 63) \<le> q \<and> q < 2 ^ 63 \<or> - (2 ^ 31) \<le> trunc q \<and> trunc q < 2 ^ 31 then word_of_int (trunc q) else w32 (Num q))
       | Some (JNum n) \<Rightarrow> w32 n
       | _ \<Rightarrow> 0)
   | _ \<Rightarrow> 0)"

definition totalRestarts :: "(jnum \<Rightarrow> 32 word) \<Rightarrow> go_doc \<Rightarrow> 32 word" where
  "totalRestarts w32 status = sum_list (map (\<lambda>key. case oget status key of Some (JArr ss) \<Rightarrow> sum_list (map (restart_count w32) ss) | _ \<Rightarrow> 0)
     [''containerStatuses'', ''initContainerStatuses''])"

definition instance_of :: "(jnum \<Rightarrow> 32 word) \<Rightarrow> ('c, 'k) kube \<Rightarrow> go_doc \<Rightarrow> pod_instance" where
  "instance_of w32 K p = (case oget p ''status'' of
     Some (JObj status) \<Rightarrow> \<lparr>in_name = object_name K p,
       in_phase = (case oget status ''phase'' of Some (JStr s) \<Rightarrow> s | _ \<Rightarrow> []),
       in_ready = allContainersReady status, in_restarts = totalRestarts w32 status\<rparr>
   | _ \<Rightarrow> \<lparr>in_name = object_name K p, in_phase = [], in_ready = False, in_restarts = 0\<rparr>)"

definition ListInstances :: "(jnum \<Rightarrow> 32 word) \<Rightarrow> ('c, 'k) kube \<Rightarrow> 'c \<Rightarrow> string \<Rightarrow> string \<Rightarrow> 'k \<Rightarrow> string + pod_instance list" where
  "ListInstances w32 K cli ns release k = map_sum id (map (instance_of w32 K)) (list_pods K cli ns (release_selector release) k)"

definition CheckAccess :: "('c, 'k) kube \<Rightarrow> 'c \<Rightarrow> access_check \<Rightarrow> 'k \<Rightarrow> string + access_result" where
  "CheckAccess K cli spec k = review_access K cli spec k"


section \<open>What is relied on of a cluster\<close>

text \<open>
  An object is kept under its group and plural, whatever the version it is accessed with. \<open>view\<close> reads from
  the state of a cluster which objects exist, each with its \<open>kuberport.io/release\<close> label, whether it has finalizers
  and whether it is being deleted, and \<open>label_of\<close> reads that label in a text that is applied. A server-side apply that
  succeeds leaves the object with the label of the text, if it has one, and does not end a deletion; one that fails may
  still have taken effect. Deleting a collection concerns the objects of one kind and namespace that have the label: those
  without finalizers are gone, those with finalizers may stay, marked as being deleted; if it fails, some are as before.
  Nobody else changes the objects meanwhile.
\<close>

type_synonym stored_id = "(string \<times> string) \<times> string \<times> string"

record object_state =
  ob_label :: "string option"
  ob_finalizers :: bool
  ob_deleting :: bool

type_synonym cluster_view = "stored_id \<Rightarrow> object_state option"

definition stored :: "resource_id \<Rightarrow> string \<times> string" where
  "stored r = (fst r, snd (snd r))"

definition key_of :: "object_id \<Rightarrow> stored_id" where
  "key_of i = (stored (fst i), snd i)"

definition has_label :: "cluster_view \<Rightarrow> string \<Rightarrow> stored_id \<Rightarrow> bool" where
  "has_label objs release i \<longleftrightarrow> (case objs i of Some x \<Rightarrow> ob_label x = Some release | None \<Rightarrow> False)"

definition in_deletion :: "cluster_view \<Rightarrow> stored_id \<Rightarrow> bool" where
  "in_deletion objs i \<longleftrightarrow> (case objs i of Some x \<Rightarrow> ob_deleting x | None \<Rightarrow> False)"

definition has_finalizers :: "cluster_view \<Rightarrow> stored_id \<Rightarrow> bool" where
  "has_finalizers objs i \<longleftrightarrow> (case objs i of Some x \<Rightarrow> ob_finalizers x | None \<Rightarrow> False)"

definition matched :: "cluster_view \<Rightarrow> resource_id \<Rightarrow> string \<Rightarrow> string \<Rightarrow> stored_id \<Rightarrow> bool" where
  "matched objs r ns release i \<longleftrightarrow> fst i = stored r \<and> fst (snd i) = ns \<and> has_label objs release i"

definition patched :: "string option \<Rightarrow> object_state option \<Rightarrow> object_state option \<Rightarrow> bool" where
  "patched l old new \<longleftrightarrow> (case new of
     None \<Rightarrow> (case old of Some x \<Rightarrow> ob_deleting x | None \<Rightarrow> False)
   | Some y \<Rightarrow> (l = None \<or> ob_label y = l) \<and> ob_deleting y = (case old of Some x \<Rightarrow> ob_deleting x | None \<Rightarrow> False))"

definition behaves :: "('c, 'k) kube \<Rightarrow> ('k \<Rightarrow> cluster_view) \<Rightarrow> (string \<Rightarrow> string option) \<Rightarrow> bool" where
  "behaves K view label_of \<longleftrightarrow>
     (\<forall>c i buf k. let (err, k') = patch_object K c i buf k in
        (\<forall>j. j \<noteq> key_of i \<longrightarrow> view k' j = view k j)
        \<and> (patched (label_of buf) (view k (key_of i)) (view k' (key_of i)) \<or> err \<noteq> None \<and> view k' (key_of i) = view k (key_of i)))
     \<and> (\<forall>c r ns release k. let (err, k') = delete_collection K c r ns (release_selector release) k in
        (\<forall>i. \<not> matched (view k) r ns release i \<longrightarrow> view k' i = view k i)
        \<and> (\<forall>i. matched (view k) r ns release i \<longrightarrow> view k' i = None
             \<or> has_finalizers (view k) i \<and> has_label (view k') release i \<and> in_deletion (view k') i
             \<or> err \<noteq> None \<and> view k' i = view k i))"

text \<open>Where a document goes, and the text that is sent: none if it is refused before.\<close>

definition manifest :: "('c, 'k) kube \<Rightarrow> string \<Rightarrow> go_doc \<Rightarrow> (object_id \<times> string) option" where
  "manifest K ns o1 = (case object_gvk K o1 of (grp, vsn, kind) \<Rightarrow>
     let o2 = (if object_namespace K o1 = [] then set_namespace K ns o1 else o1) in
     if pluralize kind = [] \<or> object_name K o1 = [] then None
     else case marshal K o2 of Inl _ \<Rightarrow> None
       | Inr buf \<Rightarrow> Some (((grp, vsn, pluralize kind), object_namespace K o2, object_name K o2), buf))"

lemma patch_step:
  assumes "behaves K view label_of" and "patch_object K cli i buf k = (err, k')"
  shows "(\<forall>j. j \<noteq> key_of i \<longrightarrow> view k' j = view k j)
    \<and> (patched (label_of buf) (view k (key_of i)) (view k' (key_of i)) \<or> err \<noteq> None \<and> view k' (key_of i) = view k (key_of i))"
  using assms(1) [unfolded behaves_def, THEN conjunct1, THEN spec [of _ cli], THEN spec [of _ i], THEN spec [of _ buf], THEN spec [of _ k]]
  unfolding assms(2) Let_def case_prod_conv .

lemma delete_step:
  assumes "behaves K view label_of" and "delete_collection K c r ns (release_selector release) k = (err, k')"
  shows "\<not> matched (view k) r ns release i \<Longrightarrow> view k' i = view k i"
    and "matched (view k) r ns release i \<Longrightarrow> view k' i = None
      \<or> has_finalizers (view k) i \<and> has_label (view k') release i \<and> in_deletion (view k') i \<or> err \<noteq> None \<and> view k' i = view k i"
  using assms(1) [unfolded behaves_def, THEN conjunct2, THEN spec [of _ c], THEN spec [of _ r], THEN spec [of _ ns], THEN spec [of _ release], THEN spec [of _ k]]
  unfolding assms(2) Let_def case_prod_conv by blast+

lemma apply_object_step:
  assumes "behaves K view label_of" and "apply_object K cli ns o1 k = (err, k')"
  shows "case manifest K ns o1 of None \<Rightarrow> err \<noteq> None \<and> view k' = view k
    | Some (i, buf) \<Rightarrow> (err = None \<longleftrightarrow> fst (patch_object K cli i buf k) = None) \<and> (\<forall>j. j \<noteq> key_of i \<longrightarrow> view k' j = view k j)
        \<and> (patched (label_of buf) (view k (key_of i)) (view k' (key_of i)) \<or> err \<noteq> None \<and> view k' (key_of i) = view k (key_of i))"
proof -
  obtain grp vsn kind where g: "object_gvk K o1 = (grp, vsn, kind)" by (cases "object_gvk K o1") auto
  define o2 where "o2 = (if object_namespace K o1 = [] then set_namespace K ns o1 else o1)"
  show ?thesis
  proof (cases "pluralize kind = [] \<or> object_name K o1 = []")
    case True
    with assms(2) g show ?thesis by (auto simp: apply_object_def manifest_def Let_def split: if_splits)
  next
    case False
    show ?thesis
    proof (cases "marshal K o2")
      case (Inl e)
      with False assms(2) g show ?thesis by (auto simp: apply_object_def manifest_def Let_def o2_def [symmetric])
    next
      case (Inr buf)
      define i where "i = ((grp, vsn, pluralize kind), object_namespace K o2, object_name K o2)"
      obtain e k1 where p: "patch_object K cli i buf k = (e, k1)" by fastforce
      have m: "manifest K ns o1 = Some (i, buf)" using False Inr g by (auto simp: manifest_def Let_def o2_def [symmetric] i_def)
      have "(err = None \<longleftrightarrow> e = None) \<and> k' = k1"
        using assms(2) False Inr g p by (auto simp: apply_object_def Let_def o2_def [symmetric] i_def [symmetric] split: option.splits)
      with patch_step [OF assms(1) p] m p show ?thesis by simp
    qed
  qed
qed

lemma try_each_Cons:
  "ended n = None \<Longrightarrow> try_each ended n (f # fs) k = (errs, k') \<Longrightarrow>
    \<exists>err k1 errs1. f k = (err, k1) \<and> try_each ended (Suc n) fs k1 = (errs1, k') \<and> errs = (case err of Some e \<Rightarrow> [e] | None \<Rightarrow> []) @ errs1"
  by (auto split: prod.splits)

lemma join_errors_None: "join_errors es = None \<longleftrightarrow> es = []"
  by (simp add: join_errors_def)

text \<open>The documents of a stream with one label, applied in turn: what is there before stays, what is applied is there.\<close>

definition goes_to :: "('c, 'k) kube \<Rightarrow> string \<Rightarrow> go_doc \<Rightarrow> stored_id \<Rightarrow> bool" where
  "goes_to K ns o1 i \<longleftrightarrow> (case manifest K ns o1 of Some (j, _) \<Rightarrow> key_of j = i | None \<Rightarrow> False)"

definition all_labelled :: "('c, 'k) kube \<Rightarrow> (string \<Rightarrow> string option) \<Rightarrow> string \<Rightarrow> string \<Rightarrow> go_doc list \<Rightarrow> bool" where
  "all_labelled K label_of ns release objs \<longleftrightarrow> list_all (\<lambda>o1. case manifest K ns o1 of Some (_, buf) \<Rightarrow> label_of buf = Some release | None \<Rightarrow> True) objs"

lemma one_step:
  assumes "behaves K view label_of" and "apply_object K cli ns o1 k = (err, k')"
  shows "\<not> goes_to K ns o1 i \<Longrightarrow> view k' i = view k i"
    and "in_deletion (view k') i \<Longrightarrow> in_deletion (view k) i" and "view k i \<noteq> None \<Longrightarrow> \<not> in_deletion (view k) i \<Longrightarrow> view k' i \<noteq> None"
    and "case manifest K ns o1 of Some (_, buf) \<Rightarrow> label_of buf = Some release | None \<Rightarrow> True \<Longrightarrow>
      view k' i = view k i \<or> view k' i = None \<or> has_label (view k') release i"
    and "case manifest K ns o1 of Some (_, buf) \<Rightarrow> label_of buf = Some release | None \<Rightarrow> True \<Longrightarrow> goes_to K ns o1 i \<Longrightarrow> err = None \<Longrightarrow>
      \<not> in_deletion (view k) i \<Longrightarrow> has_label (view k') release i"
proof -
  have away: "view k' i = view k i" if no: "\<not> goes_to K ns o1 i" for i
    using apply_object_step [OF assms] no
    by (cases "manifest K ns o1") (auto simp: goes_to_def simp del: split_paired_All split_paired_Ex)
  have here: "\<exists>buf. manifest K ns o1 = Some (the (map_option fst (manifest K ns o1)), buf)
      \<and> (patched (label_of buf) (view k i) (view k' i) \<or> err \<noteq> None \<and> view k' i = view k i)" if go: "goes_to K ns o1 i" for i
    using apply_object_step [OF assms] go by (auto simp: goes_to_def split: option.splits prod.splits)
  have eqs: "in_deletion (view a) i = in_deletion (view b) i" if "view a i = view b i" for a b
    using that by (simp add: in_deletion_def)
  have p: "in_deletion (view k') i \<longrightarrow> in_deletion (view k) i" "view k i \<noteq> None \<and> \<not> in_deletion (view k) i \<longrightarrow> view k' i \<noteq> None"
      "l = Some release \<longrightarrow> view k' i = None \<or> has_label (view k') release i"
      "l = Some release \<and> \<not> in_deletion (view k) i \<longrightarrow> has_label (view k') release i" if "patched l (view k i) (view k' i)" for l
    using that by (auto simp: patched_def in_deletion_def has_label_def split: option.splits)
  show "\<not> goes_to K ns o1 i \<Longrightarrow> view k' i = view k i" by (rule away)
  show "in_deletion (view k') i \<Longrightarrow> in_deletion (view k) i"
    using away [of i] here [of i] eqs [of k' k] p(1) by blast
  show "view k i \<noteq> None \<Longrightarrow> \<not> in_deletion (view k) i \<Longrightarrow> view k' i \<noteq> None"
    using away [of i] here [of i] p(2) by metis
  {
    assume l: "case manifest K ns o1 of Some (_, buf) \<Rightarrow> label_of buf = Some release | None \<Rightarrow> True"
    then have l': "manifest K ns o1 = Some (j, buf) \<Longrightarrow> label_of buf = Some release" for j buf by simp
    show "view k' i = view k i \<or> view k' i = None \<or> has_label (view k') release i"
      using away [of i] here [of i] p(3) l' by blast
    assume "goes_to K ns o1 i" "err = None" "\<not> in_deletion (view k) i"
    with here [of i] p(4) l' show "has_label (view k') release i" by blast
  }
qed

lemma apply_each_keeps:
  assumes "behaves K view label_of" and "try_each ended n (map (apply_object K cli ns) objs) k = (errs, k')"
  shows "(\<not> list_ex (\<lambda>o1. goes_to K ns o1 i) objs \<longrightarrow> view k' i = view k i) \<and> (\<not> in_deletion (view k) i \<longrightarrow> \<not> in_deletion (view k') i)
    \<and> (view k i \<noteq> None \<and> \<not> in_deletion (view k) i \<longrightarrow> view k' i \<noteq> None)
    \<and> (all_labelled K label_of ns release objs \<longrightarrow> view k' i = view k i \<or> view k' i = None \<or> has_label (view k') release i)"
  using assms(2)
proof (induction objs arbitrary: n k errs)
  case (Cons o1 objs)
  show ?case
  proof (cases "ended n")
    case None
    obtain err k1 errs1 where one: "apply_object K cli ns o1 k = (err, k1)"
      and rest: "try_each ended (Suc n) (map (apply_object K cli ns) objs) k1 = (errs1, k')"
      using try_each_Cons [of ended n, OF None] Cons.prems by fastforce
    note first = one_step [OF assms(1) one, where i = i] and then_rest = Cons.IH [OF rest]
    have same: "has_label (view k') release i" if "view k' i = view k1 i" "has_label (view k1) release i"
      using that by (simp add: has_label_def)
    have "all_labelled K label_of ns release objs \<and> (case manifest K ns o1 of Some (_, buf) \<Rightarrow> label_of buf = Some release | None \<Rightarrow> True)"
      if "all_labelled K label_of ns release (o1 # objs)" using that by (simp add: all_labelled_def)
    note labelled_rest = this
    have "view k' i = view k i" if "\<not> list_ex (\<lambda>o1. goes_to K ns o1 i) (o1 # objs)" using that first(1) then_rest by simp
    moreover have "\<not> in_deletion (view k') i" if "\<not> in_deletion (view k) i" using that first(2) then_rest by blast
    moreover have "view k' i \<noteq> None" if "view k i \<noteq> None" "\<not> in_deletion (view k) i" using that first(2,3) then_rest by blast
    moreover have "view k' i = view k i \<or> view k' i = None \<or> has_label (view k') release i"
      if "all_labelled K label_of ns release (o1 # objs)" using labelled_rest [OF that] first(4) [where release = release] then_rest same by metis
    ultimately show ?thesis by blast
  qed (use Cons.prems in simp)
qed simp

lemma apply_each_done:
  assumes "behaves K view label_of" and "all_labelled K label_of ns release objs"
    and "try_each (\<lambda>_. None) n (map (apply_object K cli ns) objs) k = (errs, k')"
    and "o1 \<in> set objs" and "errs = [] \<or> (\<exists>i buf. manifest K ns o1 = Some (i, buf) \<and> (\<forall>k. fst (patch_object K cli i buf k) = None))"
  shows "\<exists>i. goes_to K ns o1 i \<and> (\<not> in_deletion (view k) i \<longrightarrow> has_label (view k') release i)"
  using assms(2-5)
proof (induction objs arbitrary: n k errs)
  case (Cons o2 objs)
  obtain err k1 errs1 where one: "apply_object K cli ns o2 k = (err, k1)"
    and rest: "try_each (\<lambda>_. None) (Suc n) (map (apply_object K cli ns) objs) k1 = (errs1, k')"
    and errs: "errs = (case err of Some e \<Rightarrow> [e] | None \<Rightarrow> []) @ errs1"
    using try_each_Cons [of "\<lambda>_. None"] Cons.prems(2) by fastforce
  from Cons.prems(1) have l: "all_labelled K label_of ns release objs"
    "case manifest K ns o2 of Some (_, buf) \<Rightarrow> label_of buf = Some release | None \<Rightarrow> True" by (simp_all add: all_labelled_def)
  show ?case
  proof (cases "o1 = o2 \<and> err = None")
    case True
    with apply_object_step [OF assms(1) one] obtain i where i: "goes_to K ns o1 i"
      by (auto simp: goes_to_def split: option.splits prod.splits)
    have "has_label (view k') release i" if quiet: "\<not> in_deletion (view k) i"
    proof -
      from True i l(2) quiet have "has_label (view k1) release i" using one_step(5) [OF assms(1) one] by blast
      moreover have "\<not> in_deletion (view k1) i" using one_step(2) [OF assms(1) one] quiet by blast
      ultimately show ?thesis
        using apply_each_keeps [OF assms(1) rest, where i = i and release = release] l(1) by (auto simp: has_label_def split: option.splits)
    qed
    with i show ?thesis by blast
  next
    case False
    have "o1 \<in> set objs \<and> (errs1 = [] \<or> (\<exists>i buf. manifest K ns o1 = Some (i, buf) \<and> (\<forall>k. fst (patch_object K cli i buf k) = None)))"
    proof (cases "o1 = o2")
      case True
      with False Cons.prems(4) errs apply_object_step [OF assms(1) one] show ?thesis by (auto split: option.splits)
    next
      case other: False
      with Cons.prems(3,4) errs show ?thesis by (auto split: option.splits)
    qed
    then obtain i where i: "goes_to K ns o1 i" "\<not> in_deletion (view k1) i \<longrightarrow> has_label (view k') release i"
      using Cons.IH [OF l(1) rest] by blast
    with one_step(2) [OF assms(1) one, where i = i] show ?thesis by blast
  qed
qed simp

text \<open>Deleting by release, of the ten kinds.\<close>

lemma delete_each:
  assumes "behaves K view label_of" and "try_each ended n (map (delete_kind K cli ns release) rs) k = (errs, k')"
  shows "(view k' i = view k i \<or> fst i \<in> stored ` set rs \<and> fst (snd i) = ns \<and> has_label (view k) release i
      \<and> (view k' i = None \<or> has_finalizers (view k) i \<and> has_label (view k') release i \<and> in_deletion (view k') i))
    \<and> (errs = [] \<longrightarrow> fst i \<in> stored ` set rs \<longrightarrow> fst (snd i) = ns \<longrightarrow> has_label (view k) release i \<longrightarrow>
      view k' i = None \<or> has_finalizers (view k) i \<and> in_deletion (view k') i)"
  using assms(2)
proof (induction rs arbitrary: n k errs)
  case (Cons r rs)
  show ?case
  proof (cases "ended n")
    case None
    obtain err k1 errs1 where one: "delete_kind K cli ns release r k = (err, k1)"
      and rest: "try_each ended (Suc n) (map (delete_kind K cli ns release) rs) k1 = (errs1, k')"
      and errs: "errs = (case err of Some e \<Rightarrow> [e] | None \<Rightarrow> []) @ errs1"
      using try_each_Cons [of ended n, OF None] Cons.prems by fastforce
    obtain e k2 where d: "delete_collection K cli r ns (release_selector release) k = (e, k2)" by fastforce
    with one have k1: "k2 = k1" "err = None \<longleftrightarrow> e = None" by (auto simp: delete_kind_def split: option.splits)
    note del = delete_step [OF assms(1) d, of i, unfolded k1(1)]
    note ih = Cons.IH [OF rest]
    have errs1: "errs = [] \<longleftrightarrow> e = None \<and> errs1 = []" using errs k1(2) by (cases err) auto
    have eqs: "has_label (view a) release i = has_label (view b) release i" "in_deletion (view a) i = in_deletion (view b) i"
        "has_finalizers (view a) i = has_finalizers (view b) i" if "view a i = view b i" for a b
      using that by (simp_all add: has_label_def in_deletion_def has_finalizers_def)
    show ?thesis
    proof (cases "matched (view k) r ns release i")
      case True
      then have m: "fst i = stored r" "fst (snd i) = ns" "has_label (view k) release i" by (simp_all add: matched_def)
      consider "view k1 i = None" | "has_finalizers (view k) i" "has_label (view k1) release i" "in_deletion (view k1) i"
        | "e \<noteq> None" "view k1 i = view k i" using del(2) [OF True] by (elim disjE conjE) simp_all
      then show ?thesis
      proof cases
        case 1
        then have "\<not> has_label (view k1) release i" by (simp add: has_label_def)
        with ih 1 m show ?thesis by auto
      next
        case 2
        with ih m show ?thesis using eqs [of k' k1] by auto
      next
        case 3
        with ih m errs1 show ?thesis using eqs [of k1 k] by auto
      qed
    next
      case False
      with del(1) have same: "view k1 i = view k i" by blast
      with False eqs [OF same] have "fst i = stored r \<Longrightarrow> fst (snd i) = ns \<Longrightarrow> \<not> has_label (view k) release i" by (simp add: matched_def)
      with ih same errs1 eqs [OF same] show ?thesis by auto
    qed
  qed (use Cons.prems in auto)
qed simp


section \<open>Applying a release, and deleting it\<close>

text \<open>Applying a release tries every document: a document the cluster accepts is there afterwards, with the release's
  label, whatever became of the others; if no error is reported, all of them are there. Objects that no document names stay as
  they are, and no object disappears, if it was not being deleted. A document of an unsupported kind, without a name, or refused is reported.\<close>

lemma apply_all_outcome:
  assumes "behaves K view label_of" and "splitYAML (decoder K stream) = Inr objs" and "all_labelled K label_of ns release objs"
    and "ApplyAll K cli (\<lambda>_. None) ns stream k = (err, k')"
  shows "(err = None \<longrightarrow> list_all (\<lambda>o1. \<exists>i. goes_to K ns o1 i \<and> (\<not> in_deletion (view k) i \<longrightarrow> has_label (view k') release i)) objs)
    \<and> (o1 \<in> set objs \<and> manifest K ns o1 = Some (i, buf) \<and> (\<forall>k. fst (patch_object K cli i buf k) = None) \<and> \<not> in_deletion (view k) (key_of i)
        \<longrightarrow> has_label (view k') release (key_of i))
    \<and> (\<not> list_ex (\<lambda>o1. goes_to K ns o1 j) objs \<longrightarrow> view k' j = view k j) \<and> (view k j \<noteq> None \<and> \<not> in_deletion (view k) j \<longrightarrow> view k' j \<noteq> None)"
proof -
  obtain errs where run: "try_each (\<lambda>_. None) 0 (map (apply_object K cli ns) objs) k = (errs, k')" and err: "err = join_errors errs"
    using assms(2,4) by (cases "try_each (\<lambda>_. None) 0 (map (apply_object K cli ns) objs) k") (auto simp: ApplyAll_def)
  have there: "\<exists>i. goes_to K ns o1 i \<and> (\<not> in_deletion (view k) i \<longrightarrow> has_label (view k') release i)"
    if "o1 \<in> set objs" "errs = [] \<or> (\<exists>i buf. manifest K ns o1 = Some (i, buf) \<and> (\<forall>k. fst (patch_object K cli i buf k) = None))" for o1
    using apply_each_done [OF assms(1,3) run that] .
  have "has_label (view k') release (key_of i)"
    if "o1 \<in> set objs" "manifest K ns o1 = Some (i, buf)" "\<forall>k. fst (patch_object K cli i buf k) = None" "\<not> in_deletion (view k) (key_of i)"
    using there [OF that(1)] that by (auto simp: goes_to_def)
  then show ?thesis
    using apply_each_keeps [OF assms(1) run, where i = j] there err by (auto simp: list_all_iff join_errors_None)
qed

definition text_at :: "go_doc \<Rightarrow> string \<Rightarrow> string" where
  "text_at d f = (case oget d f of Some (JStr s) \<Rightarrow> s | _ \<Rightarrow> [])"

text \<open>A cluster that accepts everything and protects volume claims by a finalizer, and two documents, the second with a
  namespace of its own.\<close>

definition easy_kube :: "go_doc list \<Rightarrow> (unit, cluster_view) kube" where
  "easy_kube docs = \<lparr>decoder = (\<lambda>_. map (Inr \<circ> Some) docs), object_gvk = (\<lambda>d. (text_at d ''group'', ''v1'', text_at d ''kind'')),
     object_name = (\<lambda>d. text_at d ''name''), object_namespace = (\<lambda>d. text_at d ''namespace''),
     set_namespace = (\<lambda>ns d. oset d ''namespace'' (JStr ns)), marshal = (\<lambda>d. Inr (text_at d ''release'')),
     secure_client = (\<lambda>_ _ _. Inr ()), insecure_client = (\<lambda>_ _. Inr ()),
     patch_object = (\<lambda>_ i buf k. (None, k(key_of i := Some (case k (key_of i) of Some x \<Rightarrow> x\<lparr>ob_label := Some buf\<rparr>
        | None \<Rightarrow> \<lparr>ob_label = Some buf, ob_finalizers = (snd (stored (fst i)) = ''persistentvolumeclaims''), ob_deleting = False\<rparr>)))),
     delete_collection = (\<lambda>_ r ns sel k. (None, \<lambda>i. case k i of None \<Rightarrow> None
        | Some x \<Rightarrow> if fst i = stored r \<and> fst (snd i) = ns \<and> (case ob_label x of Some l \<Rightarrow> release_selector l = sel | _ \<Rightarrow> False)
            then (if ob_finalizers x then Some (x\<lparr>ob_deleting := True\<rparr>) else None) else Some x)),
     list_pods = (\<lambda>_ _ _ _. Inr []), review_access = (\<lambda>_ _ _. Inr \<lparr>ar_allowed = True, ar_denied = False, ar_reason = []\<rparr>)\<rparr>"

definition easy_docs :: "go_doc list" where
  "easy_docs = [[(''group'', JStr ''apps''), (''kind'', JStr ''Deployment''), (''name'', JStr ''web''), (''release'', JStr ''shop'')],
     [(''kind'', JStr ''ConfigMap''), (''name'', JStr ''conf''), (''namespace'', JStr ''other''), (''release'', JStr ''shop'')]]"

lemma easy_behaves: "behaves (easy_kube docs) id Some"
  unfolding behaves_def
  by (auto simp: easy_kube_def Let_def matched_def patched_def has_label_def in_deletion_def has_finalizers_def release_selector_def split: option.splits)

lemma easy_stream: "splitYAML (decoder (easy_kube docs) stream) = Inr docs"
proof -
  have "splitYAML (map (Inr \<circ> Some) docs) = Inr docs" by (induction docs) auto
  then show ?thesis by (simp add: easy_kube_def)
qed

lemma easy_manifests:
  "manifest (easy_kube easy_docs) ''prod'' (easy_docs ! 0) = Some (((''apps'', ''v1'', ''deployments''), ''prod'', ''web''), ''shop'')"
  "manifest (easy_kube easy_docs) ''prod'' (easy_docs ! 1) = Some ((([], ''v1'', ''configmaps''), ''other'', ''conf''), ''shop'')"
  by (simp_all add: manifest_def easy_kube_def easy_docs_def text_at_def pluralize_def kindToPlural_def Let_def)

lemma easy_labelled: "all_labelled (easy_kube easy_docs) Some ''prod'' ''shop'' easy_docs"
  using easy_manifests by (simp add: all_labelled_def easy_docs_def)

definition labelled :: "string \<Rightarrow> object_state" where
  "labelled l = \<lparr>ob_label = Some l, ob_finalizers = False, ob_deleting = False\<rparr>"

definition easy_end :: cluster_view where
  "easy_end = (\<lambda>_. None)(((''apps'', ''deployments''), ''prod'', ''web'') := Some (labelled ''shop''),
     (([], ''configmaps''), ''other'', ''conf'') := Some (labelled ''shop''))"

lemma easy_applied: "ApplyAll (easy_kube easy_docs) () (\<lambda>_. None) ''prod'' [] (\<lambda>_. None) = (None, easy_end)"
  unfolding ApplyAll_def easy_stream
  by (simp add: easy_docs_def apply_object_def easy_kube_def text_at_def pluralize_def kindToPlural_def Let_def easy_end_def
      join_errors_def key_of_def stored_def labelled_def)

text \<open>Property C16: Deleting a release after its documents were applied, even in part, leaves in its namespace nothing of the ten
  supported kinds with its label except what is being deleted and waits for its finalizers, and so nothing else the documents created
  there. Objects without the label or in other namespaces stay. So does what a document with a namespace of its own, or of a supported
  kind's name in another group, created.\<close>

theorem deletion_undoes_apply:
  assumes "behaves K view label_of" and "splitYAML (decoder K stream) = Inr objs" and "all_labelled K label_of ns release objs"
    and "ApplyAll K cli (\<lambda>_. None) ns stream k = (err, k1)" and "DeleteByRelease K cli (\<lambda>_. None) ns release k1 = (None, k2)"
  shows "(fst j \<in> stored ` set mvpResources \<and> fst (snd j) = ns \<longrightarrow>
        (has_label (view k1) release j \<longrightarrow> view k2 j = None \<or> has_finalizers (view k1) j \<and> in_deletion (view k2) j)
        \<and> (has_label (view k2) release j \<longrightarrow> has_finalizers (view k1) j \<and> in_deletion (view k2) j)
        \<and> (list_ex (\<lambda>o1. goes_to K ns o1 j) objs \<and> view k j = None \<longrightarrow> view k2 j = None \<or> has_finalizers (view k1) j \<and> in_deletion (view k2) j))
    \<and> (\<not> has_label (view k1) release j \<or> fst (snd j) \<noteq> ns \<or> fst j \<notin> stored ` set mvpResources \<longrightarrow> view k2 j = view k1 j)
    \<and> (err = None \<and> list_ex (\<lambda>o1. goes_to K ns o1 j) objs \<and> \<not> in_deletion (view k) j \<and> (fst (snd j) \<noteq> ns \<or> fst j \<notin> stored ` set mvpResources)
        \<longrightarrow> has_label (view k2) release j \<and> \<not> in_deletion (view k2) j)"
proof -
  obtain errs where run: "try_each (\<lambda>_. None) 0 (map (apply_object K cli ns) objs) k = (errs, k1)" and err: "err = join_errors errs"
    using assms(2,4) by (cases "try_each (\<lambda>_. None) 0 (map (apply_object K cli ns) objs) k") (auto simp: ApplyAll_def)
  have del: "try_each (\<lambda>_. None) 0 (map (delete_kind K cli ns release) mvpResources) k1 = ([], k2)"
    using assms(5) by (auto simp: DeleteByRelease_def join_errors_None map_prod_def split: prod.splits)
  note d = delete_each [OF assms(1) del, of j]
  note a = apply_each_keeps [OF assms(1) run, where i = j and release = release]
  have same: "has_label (view k2) release j = has_label (view k1) release j" "in_deletion (view k2) j = in_deletion (view k1) j" if "view k2 j = view k1 j"
    using that by (simp_all add: has_label_def in_deletion_def)
  have "has_label (view k1) release j" if "err = None" "list_ex (\<lambda>o1. goes_to K ns o1 j) objs" "\<not> in_deletion (view k) j"
  proof -
    from that(2) obtain o1 where o1: "o1 \<in> set objs" "goes_to K ns o1 j" by (auto simp: list_ex_iff)
    with apply_each_done [OF assms(1,3) run o1(1)] that(1) err obtain i where "goes_to K ns o1 i" "\<not> in_deletion (view k) i \<longrightarrow> has_label (view k1) release i"
      by (auto simp: join_errors_None)
    with o1(2) that(3) show ?thesis by (auto simp: goes_to_def split: option.splits)
  qed
  moreover have "view k1 j = None \<or> has_label (view k1) release j" if "view k j = None"
    using a assms(3) that by auto
  moreover have "\<not> has_label (view k2) release j" if "view k2 j = None" using that by (simp add: has_label_def)
  moreover have "\<not> in_deletion (view k1) j" if "\<not> in_deletion (view k) j" using a that by blast
  moreover have "view k1 j = None \<Longrightarrow> \<not> has_label (view k1) release j" by (simp add: has_label_def)
  ultimately show ?thesis using d same by (intro conjI impI; metis)
qed

lemma deletion_undoes_apply_witness:
  "snd (DeleteByRelease (easy_kube easy_docs) () (\<lambda>_. None) ''prod'' ''shop'' easy_end) ((''apps'', ''deployments''), ''prod'', ''web'') = None
   \<and> snd (DeleteByRelease (easy_kube easy_docs) () (\<lambda>_. None) ''prod'' ''shop'' easy_end) (([], ''configmaps''), ''other'', ''conf'') = Some (labelled ''shop'')"
proof -
  obtain k2 where d: "DeleteByRelease (easy_kube easy_docs) () (\<lambda>_. None) ''prod'' ''shop'' easy_end = (None, k2)"
    by (simp add: DeleteByRelease_def mvpResources_def delete_kind_def easy_kube_def join_errors_def)
  note use_it = deletion_undoes_apply [OF easy_behaves easy_stream easy_labelled easy_applied d]
  have web: "easy_end ((''apps'', ''deployments''), ''prod'', ''web'') = Some (labelled ''shop'')"
    and conf: "easy_end (([], ''configmaps''), ''other'', ''conf'') = Some (labelled ''shop'')" by (simp_all add: easy_end_def)
  have "k2 ((''apps'', ''deployments''), ''prod'', ''web'') = None"
    using use_it [where j = "((''apps'', ''deployments''), ''prod'', ''web'')", THEN conjunct1] web
    by (simp add: mvpResources_def stored_def has_label_def has_finalizers_def labelled_def)
  moreover have "k2 (([], ''configmaps''), ''other'', ''conf'') = Some (labelled ''shop'')"
    using use_it [where j = "(([], ''configmaps''), ''other'', ''conf'')", THEN conjunct2, THEN conjunct1] conf by simp
  ultimately show ?thesis using d by simp
qed

end
