(* ===== verification/Api_Releases.thy ===== *)
theory Api_Releases
  imports Api_Templates Kube_Apply
begin

text \<open>
  The Go API's handlers of releases (\<open>backend/internal/api\<close>: \<open>releases.go\<close>, \<open>release_update.go\<close>, \<open>release_logs.go\<close>, \<open>ssar.go\<close>).

  To the world of \<open>Api_Store\<close> they add the state of the clusters, which their calls of \<open>Kube_Apply\<close> change. A
  context is the error it has ended with before the n-th document or kind, if it has; cleaning up has one of
  its own. A word stands for the detail of an answer that quotes the database.
\<close>

record 'k kworld = world +
  kube_state :: 'k

definition on_cluster :: "('k \<Rightarrow> 'a \<times> 'k) \<Rightarrow> ('k, 'z) kworld_scheme \<Rightarrow> ('e + 'a) \<times> ('k, 'z) kworld_scheme" where
  "on_cluster f w = (case f (kube_state w) of (x, k) \<Rightarrow> (Inr x, w\<lparr>kube_state := k\<rparr>))"

lemma alone_kube [simp]: "alone (w\<lparr>kube_state := k\<rparr>) = alone w"
  by (simp add: alone_def)

record contexts =
  of_request :: "nat \<Rightarrow> string option"
  of_cleanup :: "nat \<Rightarrow> string option"

record release_request =
  rq_template :: string
  rq_version :: int
  rq_cluster :: string
  rq_namespace :: string
  rq_name :: string
  rq_values :: string

record update_request =
  uq_version :: int
  uq_values :: string

text \<open>What is shown of a release and its pods.\<close>

record release_overview =
  ov_release :: release_info
  ov_total :: nat
  ov_ready :: nat
  ov_instances :: "pod_instance list"
  ov_status :: string

datatype release_body = RCreated release_record | RList "release_info list" | ROverview release_overview | RDeleted bool
  | RUpdated nat int | RAccess access_result | RLogs string "string list"

section \<open>Who may\<close>

definition isAdmin :: "caller \<Rightarrow> bool" where
  "isAdmin u \<longleftrightarrow> ''kuberport-admin'' \<in> set (cl_groups u)"

definition resolveUser :: "caller \<Rightarrow> ('z, 'b api_reply, user_record) act" where
  "resolveUser u = after (query (UpsertUser (cl_sub u) (PgText (cl_email u)) (PgText (cl_name u)))) (\<lambda>r. case r of
     Inl _ \<Rightarrow> stop (Problem 500 ''internal'' ''upsert user'') | Inr user \<Rightarrow> give user)"

definition authorizeReleaseAccess :: "caller \<Rightarrow> release_info \<Rightarrow> ('z, 'b api_reply, unit) act" where
  "authorizeReleaseAccess u rel =
     (if isAdmin u then give ()
      else after (resolveUser u) (\<lambda>user.
        if rel_creator (ri_row rel) \<noteq> usr_id user then stop (Problem 403 ''rbac-denied'' ''not the release owner'') else give ()))"

text \<open>The result is the answer if the version cannot back a release.\<close>

definition requireDeployableVersion :: "template_version_row \<Rightarrow> string \<Rightarrow> 'b api_reply option" where
  "requireDeployableVersion tv templateName =
     (if ver_status tv = ''deprecated''
      then Some (bad_request (''template '' @ templateName @ '' v'' @ int_text (ver_num tv) @ '' is deprecated; pick a non-deprecated version''))
      else if ver_status tv \<noteq> ''published'' then Some (Problem 409 ''conflict'' ''version not published'') else None)"

text \<open>\<open>limit\<close> and \<open>offset\<close> of a listing: what cannot be read, or is out of range, is the default.\<close>

definition parsePagination :: "string \<Rightarrow> string \<Rightarrow> int \<times> int" where
  "parsePagination limit offset =
     ((case ParseInt32 limit of Some n \<Rightarrow> if 0 < n \<and> n \<le> 200 then n else 50 | None \<Rightarrow> 50),
      (case ParseInt32 offset of Some n \<Rightarrow> if 0 \<le> n then n else 0 | None \<Rightarrow> 0))"

section \<open>Creating\<close>

definition CreateRelease :: "api_lib \<Rightarrow> (string \<Rightarrow> bool) \<Rightarrow> ('c, 'k) kube \<Rightarrow> contexts \<Rightarrow> caller \<Rightarrow> string + release_request \<Rightarrow>
    (('k, 'z) kworld_ext, release_body api_reply, release_body api_reply) act" where
  "CreateRelease lib hostname_rfc1123 K ctx u body = (case body of Inl m \<Rightarrow> stop (bad_request m)
   | Inr r \<Rightarrow>
     if rq_template r = [] \<or> rq_version r < 1 \<or> rq_cluster r = [] \<or> rq_namespace r = [] \<or> rq_name r = [] \<or> \<not> hostname_rfc1123 (rq_name r)
        \<or> rq_values r = [] then stop (bad_request ''binding'')
     else after (query (GetTemplateVersion (rq_template r) (int32 (rq_version r)))) (\<lambda>q. case q of
       Inl _ \<Rightarrow> stop (Problem 404 ''not-found'' ''template version'')
     | Inr tv \<Rightarrow> (case requireDeployableVersion tv (rq_template r) of Some refusal \<Rightarrow> stop refusal
       | None \<Rightarrow> after (query (GetClusterByName (rq_cluster r))) (\<lambda>q. case q of
           Inl _ \<Rightarrow> stop (Problem 404 ''not-found'' ''cluster'')
         | Inr cluster \<Rightarrow> (case render_version lib tv (rq_values r)
               \<lparr>l_release = rq_name r, l_template = rq_template r, l_version = rq_version r, l_id = rq_name r, l_appliedBy = cl_email u\<rparr> of
             Inl m \<Rightarrow> stop (bad_request m)
           | Inr rendered \<Rightarrow> after (resolveUser u) (\<lambda>user.
               after (query (InsertRelease (rq_name r) (ver_id tv) (clu_id cluster) (rq_namespace r) (rq_values r) rendered (usr_id user)))
                 (\<lambda>q. case q of
                   Inl e \<Rightarrow> stop (create_failed ''release name already exists in this cluster/namespace'' ''failed to create release'' e)
                 | Inr rel \<Rightarrow> (case NewWithToken K (clu_url cluster) (nullish (clu_ca cluster) []) (cl_token u) of
                     Inl m \<Rightarrow> after (query (DeleteRelease_sql (rel_id rel))) (\<lambda>_. stop (Problem 500 ''k8s-error'' m))
                   | Inr cli \<Rightarrow> after (on_cluster (ApplyAll K cli (of_request ctx) (rq_namespace r) rendered)) (\<lambda>err. case err of
                       Some m \<Rightarrow> after (on_cluster (DeleteByRelease K cli (of_cleanup ctx) (rq_namespace r) (rq_name r))) (\<lambda>_.
                         after (query (DeleteRelease_sql (rel_id rel))) (\<lambda>_. stop (Problem 502 ''k8s-error'' m)))
                     | None \<Rightarrow> give (Answer 201 (RCreated rel)))))))))))"

section \<open>Reading\<close>

definition ListReleases :: "caller \<Rightarrow> string \<Rightarrow> string \<Rightarrow> ('z, release_body api_reply, release_body api_reply) act" where
  "ListReleases u limitQuery offsetQuery = (case parsePagination limitQuery offsetQuery of (limit, offset) \<Rightarrow>
     let answer = (\<lambda>q. case q of Inl _ \<Rightarrow> stop (Problem 500 ''internal'' ''list'') | Inr rows \<Rightarrow> give (Answer 200 (RList rows))) in
     if isAdmin u then after (query (ListReleases_sql None limit offset)) answer
     else after (resolveUser u) (\<lambda>user. after (query (ListReleases_sql (Some (usr_id user)) limit offset)) answer))"

definition abstractStatus :: "pod_instance list \<Rightarrow> string" where
  "abstractStatus instances =
     (if instances = [] then ''unknown''
      else if list_ex (\<lambda>i. in_phase i = ''Failed'' \<or> 5 < sint (in_restarts i)) instances then ''error''
      else if list_all (\<lambda>i. in_ready i \<or> in_phase i = ''Succeeded'') instances then ''healthy'' else ''warning'')"

definition respondReleaseOverview :: "release_info \<Rightarrow> pod_instance list \<Rightarrow> string \<Rightarrow> release_body api_reply" where
  "respondReleaseOverview rel instances statusOverride = Answer 200 (ROverview \<lparr>ov_release = rel, ov_total = length instances,
     ov_ready = length (filter in_ready instances), ov_instances = instances,
     ov_status = (if statusOverride = [] then abstractStatus instances else statusOverride)\<rparr>)"

definition GetRelease :: "api_lib \<Rightarrow> (jnum \<Rightarrow> 32 word) \<Rightarrow> ('c, 'k) kube \<Rightarrow> caller \<Rightarrow> string \<Rightarrow>
    (('k, 'z) kworld_ext, release_body api_reply, release_body api_reply) act" where
  "GetRelease lib w32 K u idText = (case uuid_of lib idText of None \<Rightarrow> stop (bad_request ''invalid release id'')
   | Some i \<Rightarrow> after (query (GetReleaseByID i)) (\<lambda>q. case q of
       Inl _ \<Rightarrow> stop (Problem 404 ''not-found'' ''release'')
     | Inr rel \<Rightarrow> after (authorizeReleaseAccess u rel) (\<lambda>_.
         case NewWithToken K (clu_url (ri_cluster rel)) (nullish (clu_ca (ri_cluster rel)) []) (cl_token u) of
           Inl _ \<Rightarrow> give (respondReleaseOverview rel [] ''cluster-unreachable'')
         | Inr cli \<Rightarrow> after (on_cluster (\<lambda>k. (ListInstances w32 K cli (rel_namespace (ri_row rel)) (rel_name (ri_row rel)) k, k))) (\<lambda>l. case l of
             Inl _ \<Rightarrow> give (respondReleaseOverview rel [] ''cluster-unreachable'')
           | Inr instances \<Rightarrow> give (respondReleaseOverview rel instances (if instances = [] then ''resources-missing'' else []))))))"

section \<open>Deleting and updating\<close>

definition DeleteRelease :: "api_lib \<Rightarrow> ('c, 'k) kube \<Rightarrow> contexts \<Rightarrow> caller \<Rightarrow> string \<Rightarrow> string \<Rightarrow>
    (('k, 'z) kworld_ext, release_body api_reply, release_body api_reply) act" where
  "DeleteRelease lib K ctx u idText forceQuery = (case uuid_of lib idText of None \<Rightarrow> stop (bad_request ''invalid release id'')
   | Some i \<Rightarrow> after (query (GetReleaseByID i)) (\<lambda>q. case q of
       Inl _ \<Rightarrow> stop (Problem 404 ''not-found'' ''release'')
     | Inr rel \<Rightarrow> after (authorizeReleaseAccess u rel) (\<lambda>_.
         let force = (forceQuery = ''true'');
             drop_row = after (query (DeleteRelease_sql i)) (\<lambda>q. case q of
               Inl _ \<Rightarrow> stop (Problem 500 ''internal'' ''delete'') | Inr _ \<Rightarrow> give (Answer 200 (RDeleted force))) in
         if force \<and> \<not> isAdmin u then stop (Problem 403 ''rbac-denied'' ''force delete requires admin'')
         else if force then drop_row
         else (case NewWithToken K (clu_url (ri_cluster rel)) (nullish (clu_ca (ri_cluster rel)) []) (cl_token u) of
             Inl m \<Rightarrow> stop (Problem 500 ''k8s-error'' m)
           | Inr cli \<Rightarrow> after (on_cluster (DeleteByRelease K cli (of_request ctx) (rel_namespace (ri_row rel)) (rel_name (ri_row rel)))) (\<lambda>err.
               case err of Some m \<Rightarrow> stop (Problem 502 ''k8s-error'' m) | None \<Rightarrow> drop_row)))))"

text \<open>\<open>bytes.TrimSpace\<close>.\<close>

definition TrimSpace :: "string \<Rightarrow> string" where
  "TrimSpace s = rev (dropWhile (\<lambda>c. go_blank [c]) (rev (dropWhile (\<lambda>c. go_blank [c]) s)))"

definition UpdateRelease :: "api_lib \<Rightarrow> ('c, 'k) kube \<Rightarrow> contexts \<Rightarrow> caller \<Rightarrow> string \<Rightarrow> string + update_request \<Rightarrow>
    (('k, 'z) kworld_ext, release_body api_reply, release_body api_reply) act" where
  "UpdateRelease lib K ctx u idText body = (case uuid_of lib idText of None \<Rightarrow> stop (bad_request ''invalid release id'')
   | Some i \<Rightarrow> (case body of Inl m \<Rightarrow> stop (bad_request m)
   | Inr r \<Rightarrow>
     if uq_version r < 1 \<or> uq_values r = [] then stop (bad_request ''binding'')
     else if TrimSpace (uq_values r) = ''null'' then stop (bad_request ''values must be a JSON object'')
     else after (query (GetReleaseByID i)) (\<lambda>q. case q of
       Inl _ \<Rightarrow> stop (Problem 404 ''not-found'' ''release'')
     | Inr rel \<Rightarrow> after (authorizeReleaseAccess u rel) (\<lambda>_.
         after (query (GetTemplateVersion (ri_template rel) (int32 (uq_version r)))) (\<lambda>q. case q of
           Inl e \<Rightarrow> if e = NoRows then stop (bad_request (''unknown template version '' @ int_text (uq_version r) @ '' for template '' @ ri_template rel))
             else stop (Problem 500 ''internal'' ''failed to load template version'')
         | Inr tv \<Rightarrow> (case requireDeployableVersion tv (ri_template rel) of Some refusal \<Rightarrow> stop refusal
           | None \<Rightarrow> (case render_version lib tv (uq_values r) \<lparr>l_release = rel_name (ri_row rel), l_template = ri_template rel,
                 l_version = uq_version r, l_id = rel_name (ri_row rel), l_appliedBy = cl_email u\<rparr> of
               Inl m \<Rightarrow> stop (bad_request m)
             | Inr rendered \<Rightarrow> (case NewWithToken K (clu_url (ri_cluster rel)) (nullish (clu_ca (ri_cluster rel)) []) (cl_token u) of
                 Inl m \<Rightarrow> stop (Problem 500 ''k8s-error'' m)
               | Inr cli \<Rightarrow> after (on_cluster (ApplyAll K cli (of_request ctx) (rel_namespace (ri_row rel)) rendered)) (\<lambda>err. case err of
                   Some m \<Rightarrow> stop (Problem 502 ''k8s-error'' m)
                 | None \<Rightarrow> after (query (UpdateReleaseValuesAndVersion i (ver_id tv) (uq_values r) rendered)) (\<lambda>q. case q of
                     Inl _ \<Rightarrow> after (on_cluster (ApplyAll K cli (of_cleanup ctx) (rel_namespace (ri_row rel)) (rel_rendered (ri_row rel)))) (\<lambda>_.
                       stop (Problem 500 ''internal'' ''failed to update release''))
                   | Inr _ \<Rightarrow> give (Answer 200 (RUpdated i (uq_version r)))))))))))))"

section \<open>Access reviews\<close>

definition CheckSelfSubjectAccess :: "('c, 'k) kube \<Rightarrow> caller \<Rightarrow> string + string \<times> access_check \<Rightarrow>
    (('k, 'z) kworld_ext, release_body api_reply, release_body api_reply) act" where
  "CheckSelfSubjectAccess K u body = (case body of Inl m \<Rightarrow> stop (bad_request m)
   | Inr (cname, spec) \<Rightarrow>
     if cname = [] \<or> ac_verb spec = [] \<or> ac_resource spec = [] then stop (bad_request ''cluster, verb, and resource are required'')
     else after (query (GetClusterByName cname)) (\<lambda>q. case q of
       Inl _ \<Rightarrow> stop (Problem 404 ''not-found'' ''cluster'')
     | Inr cluster \<Rightarrow> (case NewWithToken K (clu_url cluster) (nullish (clu_ca cluster) []) (cl_token u) of
         Inl m \<Rightarrow> stop (Problem 500 ''k8s-error'' m)
       | Inr cli \<Rightarrow> after (on_cluster (\<lambda>k. (CheckAccess K cli spec k, k))) (\<lambda>out. case out of
           Inl m \<Rightarrow> stop (Problem 502 ''k8s-error'' m) | Inr res \<Rightarrow> give (Answer 200 (RAccess res))))))"

section \<open>Logs\<close>

text \<open>The pods whose logs are streamed, in which namespace (\<open>Pod_Logs\<close> has the stream itself). The query's \<open>instance\<close> may be missing.\<close>

definition StreamReleaseLogs :: "api_lib \<Rightarrow> (jnum \<Rightarrow> 32 word) \<Rightarrow> ('c, 'k) kube \<Rightarrow> caller \<Rightarrow> string \<Rightarrow> string option \<Rightarrow>
    (('k, 'z) kworld_ext, release_body api_reply, release_body api_reply) act" where
  "StreamReleaseLogs lib w32 K u idText inst = (case uuid_of lib idText of None \<Rightarrow> stop (bad_request ''invalid release id'')
   | Some i \<Rightarrow> after (query (GetReleaseByID i)) (\<lambda>q. case q of
       Inl _ \<Rightarrow> stop (Problem 404 ''not-found'' ''release'')
     | Inr rel \<Rightarrow> after (authorizeReleaseAccess u rel) (\<lambda>_.
         case NewWithToken K (clu_url (ri_cluster rel)) (nullish (clu_ca (ri_cluster rel)) []) (cl_token u) of
           Inl m \<Rightarrow> stop (Problem 500 ''k8s-error'' m)
         | Inr cli \<Rightarrow> after (on_cluster (\<lambda>k. (ListInstances w32 K cli (rel_namespace (ri_row rel)) (rel_name (ri_row rel)) k, k))) (\<lambda>l. case l of
             Inl m \<Rightarrow> stop (Problem 502 ''k8s-error'' m)
           | Inr instances \<Rightarrow>
               (let want = nullish inst ''all'';
                    pods = filter (\<lambda>p. want = ''all'' \<or> want = p) (map in_name instances) in
                if 253 < length want then stop (bad_request ''instance name too long'')
                else if pods = [] then stop (Problem 404 ''no-pods'' ''no matching instance'')
                else give (Answer 200 (RLogs (rel_namespace (ri_row rel)) pods)))))))"


section \<open>Every handler keeps the invariant\<close>

lemma sat_cluster: "api.sat P (on_cluster f) (\<lambda>_. P)"
  by (auto simp: api.sat_def on_cluster_def api.polite_def api.R_refl split: prod.splits)

lemma keeps_resolve_user:
  assumes "api.stable P" and "\<And>d. P d \<Longrightarrow> store_ok d"
  shows "api.sat P (resolveUser u) (\<lambda>_. P)"
  unfolding resolveUser_def
  by (rule api.sat_ask [OF assms(1), where Q = "\<lambda>_. P"])
    (use assms evolves_upsert in \<open>auto intro!: api.sat_steps simp: api.stable_def\<close>)

lemma keeps_release_access: "api.sat store_ok (authorizeReleaseAccess u rel) (\<lambda>_. store_ok)"
  unfolding authorizeReleaseAccess_def
  by (auto intro!: api.sat_steps api.sat_after [OF keeps_resolve_user [OF stable_ok]])

lemma deployable: "requireDeployableVersion tv t = None \<Longrightarrow> \<not> draft tv"
  by (auto simp: requireDeployableVersion_def split: if_splits)

lemma known_release: "\<lbrakk>known tv d; \<not> draft tv\<rbrakk> \<Longrightarrow> \<exists>x \<in> set (versions d). ver_id x = ver_id tv \<and> \<not> draft x"
  by (auto simp: known_def)

lemma keeps_create_release: "api.sat store_ok (CreateRelease lib hn K ctx u body) (\<lambda>_. store_ok)"
  unfolding CreateRelease_def
  by (auto intro!: api.sat_steps ask_version ask_known api.sat_after [OF keeps_resolve_user [OF stable_known]] api.sat_after [OF sat_cluster]
      intro: keeps_reading read_only evolves_delete_release evolves_insert_release known_release dest!: deployable)

lemma keeps_list_releases: "api.sat store_ok (ListReleases u l off) (\<lambda>_. store_ok)"
  unfolding ListReleases_def Let_def
  by (auto intro!: api.sat_steps ask_any api.sat_after [OF keeps_resolve_user [OF stable_ok]] intro: keeps_reading
      simp: ListReleases_sql_def api.R_refl split: prod.splits)

lemma keeps_get_release: "api.sat store_ok (GetRelease lib w32 K u i) (\<lambda>_. store_ok)"
  unfolding GetRelease_def
  by (auto intro!: api.sat_steps ask_any api.sat_after [OF keeps_release_access] api.sat_after [OF sat_cluster] intro: keeps_reading read_only)

lemma keeps_logs: "api.sat store_ok (StreamReleaseLogs lib w32 K u i inst) (\<lambda>_. store_ok)"
  unfolding StreamReleaseLogs_def Let_def
  by (auto intro!: api.sat_steps ask_any api.sat_after [OF keeps_release_access] api.sat_after [OF sat_cluster] intro: keeps_reading read_only)

lemma keeps_delete_release: "api.sat store_ok (DeleteRelease lib K ctx u i f) (\<lambda>_. store_ok)"
  unfolding DeleteRelease_def Let_def
  by (auto intro!: api.sat_steps ask_any api.sat_after [OF keeps_release_access] api.sat_after [OF sat_cluster]
      intro: keeps_reading read_only evolves_delete_release)

lemma keeps_update_release: "api.sat store_ok (UpdateRelease lib K ctx u i body) (\<lambda>_. store_ok)"
  unfolding UpdateRelease_def
  by (auto intro!: api.sat_steps ask_any ask_version ask_known api.sat_after [OF keeps_release_access] api.sat_after [OF sat_cluster]
      intro: keeps_reading read_only evolves_update_release known_release dest!: deployable)

lemma keeps_check_access: "api.sat store_ok (CheckSelfSubjectAccess K u body) (\<lambda>_. store_ok)"
  unfolding CheckSelfSubjectAccess_def
  by (auto intro!: api.sat_steps ask_any api.sat_after [OF sat_cluster] intro: keeps_reading read_only split: prod.splits)

end
