(* ===== verification/Api_Life_Cycle.thy ===== *)
theory Api_Life_Cycle
  imports Template_Pages Api_Releases
begin

text \<open>
  Who may change a template, and the life cycle of its versions: the handlers of \<open>Api_Templates\<close> against what
  they promise, and against what the template's page of the front end (\<open>Template_Pages\<close>) offers.
\<close>

section \<open>Who may change a template\<close>

definition may_edit :: "caller \<Rightarrow> db \<Rightarrow> template_row \<Rightarrow> bool" where
  "may_edit u d t \<longleftrightarrow> isKuberportAdmin u \<or> (case tpl_team t of None \<Rightarrow> False
     | Some team \<Rightarrow> (case find (\<lambda>x. usr_subject x = cl_sub u) (users d) of None \<Rightarrow> False
       | Some x \<Rightarrow> (case find (\<lambda>m. mbr_team m = team \<and> mbr_user m = usr_id x) (members d) of None \<Rightarrow> False
         | Some m \<Rightarrow> mbr_role m = ''editor'')))"

text \<open>What changes a template or its versions.\<close>

datatype template_change = ActOn version_action string | NewVersion "string + version_body"
  | EditDraftVersion string "string + version_patch" | EditMeta "string + template_patch"

definition change_template :: "api_lib \<Rightarrow> caller \<Rightarrow> string \<Rightarrow> template_change \<Rightarrow> ('z, template_body api_reply, template_body api_reply) act" where
  "change_template lib u nm c = (case c of
     ActOn a v \<Rightarrow> (case a of Publish \<Rightarrow> PublishVersion u nm v | Deprecate \<Rightarrow> DeprecateVersion u nm v
       | Undeprecate \<Rightarrow> UndeprecateVersion u nm v | DeleteDraft \<Rightarrow> DeleteTemplateVersion u nm v)
   | NewVersion b \<Rightarrow> CreateTemplateVersion lib u nm b
   | EditDraftVersion v b \<Rightarrow> UpdateTemplateVersion lib u nm v b
   | EditMeta b \<Rightarrow> UpdateTemplate u nm b)"

text \<open>Every change first asks who may.\<close>

lemma change_begins: "\<exists>rest. change_template lib u nm c = after (ensureTemplateEditor u nm) rest"
  by (cases c) (auto simp: change_template_def PublishVersion_def DeprecateVersion_def UndeprecateVersion_def DeleteTemplateVersion_def
      CreateTemplateVersion_def UpdateTemplateVersion_def UpdateTemplate_def split: version_action.split)

lemma find_query:
  "GetTemplateByName nm d = (case find (\<lambda>t. tpl_name t = nm) (templates d) of None \<Rightarrow> Inl NoRows | Some t \<Rightarrow> Inr (t, d))"
  "GetUserByOidcSubject s d = (case find (\<lambda>x. usr_subject x = s) (users d) of None \<Rightarrow> Inl NoRows | Some x \<Rightarrow> Inr (x, d))"
  "GetTeamMembership team i d = (case find (\<lambda>m. mbr_team m = team \<and> mbr_user m = i) (members d) of None \<Rightarrow> Inl NoRows | Some m \<Rightarrow> Inr (m, d))"
  by (simp_all add: GetTemplateByName_def GetUserByOidcSubject_def GetTeamMembership_def one_row_def)

lemma team_editor_refused:
  assumes w: "others w = (\<lambda>_ d. d)" and no: "\<not> isKuberportAdmin u"
    and user: "\<And>x m. find (\<lambda>x. usr_subject x = cl_sub u) (users (tables w)) = Some x \<Longrightarrow>
      find (\<lambda>m. mbr_team m = team \<and> mbr_user m = usr_id x) (members (tables w)) = Some m \<Longrightarrow> mbr_role m \<noteq> ''editor''"
  shows "\<exists>s k m n. s \<in> {403, 500} \<and> ensureTeamEditor u team w = (Inl (Problem s k m), w\<lparr>ticks := n\<rparr>)"
proof (rule stmt_undisturbed [OF w, of "GetUserByOidcSubject (cl_sub u)"])
  show "e = tables w" if "GetUserByOidcSubject (cl_sub u) (tables w) = Inr (x, e)" for x e
    using that by (rule read_only)
next
  fix x assume x: "GetUserByOidcSubject (cl_sub u) (tables w) = Inr (x, tables w)"
    and q: "stmt (GetUserByOidcSubject (cl_sub u)) w = (Inr x, w\<lparr>ticks := Suc (ticks w)\<rparr>)"
  have x: "find (\<lambda>x. usr_subject x = cl_sub u) (users (tables w)) = Some x"
    using x by (simp add: find_query split: option.splits)
  let ?w = "w\<lparr>ticks := Suc (ticks w)\<rparr>"
  show ?thesis
  proof (rule stmt_undisturbed [of ?w "GetTeamMembership team (usr_id x)"])
    show "others ?w = (\<lambda>_ d. d)" using w by simp
    show "e = tables ?w" if "GetTeamMembership team (usr_id x) (tables ?w) = Inr (m, e)" for m e
      using that by (rule read_only)
  next
    fix m assume "GetTeamMembership team (usr_id x) (tables ?w) = Inr (m, tables ?w)"
      and "stmt (GetTeamMembership team (usr_id x)) ?w = (Inr m, ?w\<lparr>ticks := Suc (ticks ?w)\<rparr>)"
    with q user [OF x] no show ?thesis
      by (auto simp: ensureTeamEditor_def after_def stop_def query_def find_query split: option.splits)
  qed (use q no in \<open>auto simp: ensureTeamEditor_def after_def stop_def query_def\<close>)
qed (use no in \<open>auto simp: ensureTeamEditor_def after_def stop_def query_def\<close>)

text \<open>Property C9: Only a \<open>kuberport-admin\<close> and the editors of the team that owns it change a template: from anyone else, a request
  to publish, deprecate, restore or delete a version, to add or edit one or to edit the template is answered by a problem (403,
  or 404 and 500 where the database fails) and changes nothing, whatever it contains.\<close>

theorem only_editors_change:
  assumes "others w = (\<lambda>_ d. d)" and "find (\<lambda>t. tpl_name t = nm) (templates (tables w)) = Some t" and "\<not> may_edit u (tables w) t"
    and "serve (change_template lib u nm c) w = (r, w')"
  shows "tables w' = tables w \<and> (\<exists>s k m. r = Problem s k m \<and> s \<in> {403, 404, 500})"
proof -
  have admin: "\<not> isKuberportAdmin u" using assms(3) by (simp add: may_edit_def)
  have refused: "\<exists>s k m n. s \<in> {403, 404, 500} \<and> ensureTemplateEditor u nm w = (Inl (Problem s k m :: template_body api_reply), w\<lparr>ticks := n\<rparr>)"
  proof (rule stmt_undisturbed [OF assms(1), of "GetTemplateByName nm"])
    show "e = tables w" if "GetTemplateByName nm (tables w) = Inr (x, e)" for x e
      using that by (rule read_only)
  next
    fix t1 assume "GetTemplateByName nm (tables w) = Inr (t1, tables w)"
      and q: "stmt (GetTemplateByName nm) w = (Inr t1, w\<lparr>ticks := Suc (ticks w)\<rparr>)"
    then have t1: "t1 = t" using assms(2) by (simp add: find_query)
    show ?thesis
    proof (cases "tpl_team t")
      case None
      with q t1 admin show ?thesis by (auto simp: ensureTemplateEditor_def query_def after_def stop_def)
    next
      case (Some team)
      have "\<exists>s k m n. s \<in> {403, 500} \<and> ensureTeamEditor u team (w\<lparr>ticks := Suc (ticks w)\<rparr>)
          = (Inl (Problem s k m :: template_body api_reply), w\<lparr>ticks := Suc (ticks w)\<rparr>\<lparr>ticks := n\<rparr>)"
        using assms(1,3) Some by (intro team_editor_refused [OF _ admin]) (auto simp: may_edit_def)
      with q t1 admin Some show ?thesis by (auto simp: ensureTemplateEditor_def query_def after_def)
    qed
  qed (auto simp: ensureTemplateEditor_def query_def after_def stop_def)
  obtain rest where "change_template lib u nm c w = after (ensureTemplateEditor u nm) rest w"
    by (metis change_begins)
  with refused assms(4) show ?thesis by (auto simp: serve_def after_def)
qed


section \<open>The life cycle of a version\<close>

definition required :: "version_action \<Rightarrow> string" where
  "required a = (case a of Publish \<Rightarrow> ''draft'' | DeleteDraft \<Rightarrow> ''draft'' | Deprecate \<Rightarrow> ''published'' | Undeprecate \<Rightarrow> ''deprecated'')"

definition with_status :: "nat \<Rightarrow> string \<Rightarrow> template_version_row list \<Rightarrow> template_version_row list" where
  "with_status i s = map (\<lambda>x. if ver_id x = i then x\<lparr>ver_status := s\<rparr> else x)"

text \<open>What an action is meant to do to the tables.\<close>

definition after_action :: "version_action \<Rightarrow> template_version_row \<Rightarrow> db \<Rightarrow> db" where
  "after_action a tv d = (case a of
     Publish \<Rightarrow> d\<lparr>versions := with_status (ver_id tv) ''published'' (versions d),
       templates := map (\<lambda>t. if tpl_id t = ver_template tv then t\<lparr>tpl_current := Some (ver_id tv)\<rparr> else t) (templates d)\<rparr>
   | Deprecate \<Rightarrow> d\<lparr>versions := with_status (ver_id tv) ''deprecated'' (versions d)\<rparr>
   | Undeprecate \<Rightarrow> d\<lparr>versions := with_status (ver_id tv) ''published'' (versions d)\<rparr>
   | DeleteDraft \<Rightarrow> d\<lparr>versions := filter (\<lambda>x. ver_id x \<noteq> ver_id tv) (versions d)\<rparr>)"

lemma editor_alone:
  assumes "alone w" and "find (\<lambda>t. tpl_name t = nm) (templates (tables w)) = Some t" and "may_edit u (tables w) t"
  shows "\<exists>n. ensureTemplateEditor u nm w = (Inr t, w\<lparr>ticks := n\<rparr>)"
  using assms
  by (auto simp: ensureTemplateEditor_def ensureTeamEditor_def after_def give_def may_edit_def query_alone find_query split: option.splits)

lemma parse_int32: "ParseInt32 v = Some n \<Longrightarrow> go_Atoi v = Some n \<and> int32 n = n"
  by (auto simp: ParseInt32_def int32_def sint_sbintrunc' signed_take_bit_int_eq_self split: option.splits if_splits)

lemma the_version:
  assumes "store_ok d" and "GetTemplateVersion nm n d = Inr (tv, e)"
  shows "e = d" and "tv \<in> set (versions d)" and "\<And>x. x \<in> set (versions d) \<Longrightarrow> ver_id x = ver_id tv \<Longrightarrow> x = tv"
proof -
  show e: "e = d" and tv: "tv \<in> set (versions d)"
    using one_rowD [OF assms(2) [unfolded GetTemplateVersion_def]] by (auto simp: find_Some_iff)
  show "x = tv" if "x \<in> set (versions d)" "ver_id x = ver_id tv" for x
    using that tv assms(1) by (auto simp: store_ok_def fresh_ids_def distinct_map inj_on_def)
qed

lemma changed_now:
  assumes "store_ok d" and "tv \<in> set (versions d)" and "P tv" and "\<And>x. P x \<Longrightarrow> ver_id x = ver_id tv"
  shows "change_version P f d = Inr (f tv, d\<lparr>versions := map (\<lambda>x. if ver_id x = ver_id tv then f x else x) (versions d)\<rparr>)"
proof -
  have only: "x = tv" if "x \<in> set (versions d)" "ver_id x = ver_id tv" for x
    using that assms(1,2) by (auto simp: store_ok_def fresh_ids_def distinct_map inj_on_def)
  obtain v where v: "find P (versions d) = Some v" using assms(2,3) by (cases "find P (versions d)") (auto simp: find_None_iff)
  then have "v \<in> set (versions d)" "P v" by (auto simp: find_Some_iff)
  with only assms(4) have "v = tv" by blast
  with v have "change_version P f d = Inr (f tv, d\<lparr>versions := update_first P f (versions d)\<rparr>)"
    by (simp add: change_version_def update_first_same)
  moreover have "update_first P f (versions d) = map (\<lambda>x. if P x then f x else x) (versions d)"
    using assms(1,4) by (intro update_first_map [where key = ver_id]) (auto simp: store_ok_def fresh_ids_def)
  moreover have "map (\<lambda>x. if P x then f x else x) (versions d) = map (\<lambda>x. if ver_id x = ver_id tv then f x else x) (versions d)"
  proof (rule map_cong [OF refl])
    fix x assume x: "x \<in> set (versions d)"
    show "(if P x then f x else x) = (if ver_id x = ver_id tv then f x else x)"
    proof (cases "ver_id x = ver_id tv")
      case True
      with only [OF x] assms(3) show ?thesis by simp
    next
      case False
      with assms(4) show ?thesis by auto
    qed
  qed
  ultimately show ?thesis by simp
qed


lemma publish_now:
  assumes "store_ok d" and "tv \<in> set (versions d)" and "draft tv"
  shows "PublishTemplateVersion (ver_id tv) d = Inr (tv\<lparr>ver_status := ''published''\<rparr>, d\<lparr>versions := with_status (ver_id tv) ''published'' (versions d)\<rparr>)"
  unfolding PublishTemplateVersion_def with_status_def using assms by (intro changed_now) simp_all

lemma set_status_now:
  assumes "store_ok d" and "tv \<in> set (versions d)"
  shows "SetTemplateVersionStatus (ver_id tv) s d = Inr (tv\<lparr>ver_status := s\<rparr>, d\<lparr>versions := with_status (ver_id tv) s (versions d)\<rparr>)"
  unfolding SetTemplateVersionStatus_def with_status_def using assms by (intro changed_now) simp_all

lemma publish_refused:
  assumes "store_ok d" and "tv \<in> set (versions d)" and "\<not> draft tv"
  shows "PublishTemplateVersion (ver_id tv) d = Inl NoRows"
proof -
  have "find (\<lambda>x. ver_id x = ver_id tv \<and> draft x) (versions d) = None"
    using assms by (auto simp: find_None_iff store_ok_def fresh_ids_def distinct_map inj_on_def)
  then show ?thesis by (simp add: PublishTemplateVersion_def change_version_def)
qed

lemma delete_draft_now:
  assumes "store_ok d" and "tv \<in> set (versions d)" and "draft tv"
  shows "DeleteDraftTemplateVersion (ver_id tv) d = Inr (ver_id tv, d\<lparr>versions := filter (\<lambda>x. ver_id x \<noteq> ver_id tv) (versions d)\<rparr>)"
proof -
  have only: "x = tv" if "x \<in> set (versions d)" "ver_id x = ver_id tv" for x
    using that assms(1,2) by (auto simp: store_ok_def fresh_ids_def distinct_map inj_on_def)
  have "\<not> list_ex (\<lambda>r. rel_version r = ver_id tv) (releases d)"
  proof
    assume "list_ex (\<lambda>r. rel_version r = ver_id tv) (releases d)"
    with assms(1) obtain v where "v \<in> set (versions d)" "ver_id v = ver_id tv" "\<not> draft v"
      by (auto simp: store_ok_def links_ok_def list_ex_iff)
    with only assms(3) show False by blast
  qed
  moreover have "tpl_current t \<noteq> Some (ver_id tv)" if "t \<in> set (templates d)" for t
  proof
    assume i: "tpl_current t = Some (ver_id tv)"
    from that assms(1) have "points (versions d) t" by (simp add: store_ok_def current_ok_def)
    with i only assms(3) show False by (auto simp: points_def)
  qed
  moreover have "list_ex (\<lambda>x. ver_id x = ver_id tv \<and> draft x) (versions d)" using assms(2,3) by (auto simp: list_ex_iff)
  ultimately show ?thesis by (simp add: DeleteDraftTemplateVersion_def map_idI)
qed

lemma action_now:
  assumes "alone w" and "store_ok (tables w)" and "find (\<lambda>t. tpl_name t = nm) (templates (tables w)) = Some t" and "may_edit u (tables w) t"
    and "ParseInt32 v = Some n" and "GetTemplateVersion nm n (tables w) = Inr (tv, d)"
  shows "if ver_status tv = required a
     then \<exists>b k. serve (change_template lib u nm (ActOn a v)) w
        = (Answer (if a = DeleteDraft then 204 else 200) b, w\<lparr>tables := after_action a tv (tables w), ticks := k\<rparr>)
     else \<exists>m k. serve (change_template lib u nm (ActOn a v)) w = (Problem 409 ''conflict'' m, w\<lparr>ticks := k\<rparr>)"
proof -
  obtain k where k: "ensureTemplateEditor u nm w = (Inr t :: template_body api_reply + template_row, w\<lparr>ticks := k\<rparr>)"
    using editor_alone [OF assms(1,3,4)] by blast
  have v: "go_Atoi v = Some n" "int32 n = n" using parse_int32 [OF assms(5)] by simp_all
  note tv = the_version [OF assms(2,6)]
  have q: "GetTemplateVersion nm n (tables w) = Inr (tv, tables w)" using assms(6) tv(1) by simp
  have w: "alone w" "outage w = (\<lambda>_. False)" "others w = (\<lambda>_ d. d)" using assms(1) by (simp_all add: alone_def)
  have o: "w\<lparr>tables := d, others := \<lambda>_ d. d, ticks := n\<rparr> = w\<lparr>tables := d, ticks := n\<rparr>" for d n using w(3) by (cases w) simp
  have o2: "w\<lparr>ticks := n, others := \<lambda>_ d. d\<rparr> = w\<lparr>ticks := n\<rparr>" for n using w(3) by (cases w) simp
  note now = publish_now [OF assms(2) tv(2)] set_status_now [OF assms(2) tv(2)] delete_draft_now [OF assms(2) tv(2)]
  have current: "update_first (\<lambda>s. tpl_id s = i) (\<lambda>s. s\<lparr>tpl_current := Some j\<rparr>) (templates (tables w))
      = map (\<lambda>s. if tpl_id s = i then s\<lparr>tpl_current := Some j\<rparr> else s) (templates (tables w))" for i j
    using assms(2) by (intro update_first_map [where key = tpl_id]) (auto simp: store_ok_def fresh_ids_def)
  note handler = change_template_def PublishVersion_def DeprecateVersion_def UndeprecateVersion_def DeleteTemplateVersion_def setVersionStatus_def
    serve_def after_def give_def stop_def
  show ?thesis
  proof (cases "ver_status tv = required a")
    case True
    with now show ?thesis
      by (cases a) (auto simp: handler k v assms(5) q w query_alone tx_alone tx_stmt_alone settle_alone Let_def on_error_def UpdateTemplateCurrentVersion_def current
          required_def after_action_def o)
  next
    case False
    with now publish_refused [OF assms(2) tv(2)] show ?thesis
      by (cases a) (auto simp: handler k v assms(5) q w query_alone tx_alone tx_stmt_alone settle_alone Let_def on_error_def required_def o2)
  qed
qed

text \<open>Property C5: The life cycle of a version: a draft is published or deleted, a published version deprecated, a deprecated one
  published again. An action on a version in the right state, by someone who may edit the template, succeeds and changes
  the tables as intended (publishing also makes the version the template's current one); in any other state it is answered
  by 409 and changes nothing. The template's page offers an action exactly for the versions that are in the right state.\<close>

theorem version_life_cycle:
  assumes "alone w" and "store_ok (tables w)" and "find (\<lambda>t. tpl_name t = nm) (templates (tables w)) = Some t" and "may_edit u (tables w) t"
    and "ParseInt32 v = Some n" and "GetTemplateVersion nm n (tables w) = Inr (tv, d)"
    and "serve (change_template lib u nm (ActOn a v)) w = (r, w')"
  shows "(if ver_status tv = required a
        then tables w' = after_action a tv (tables w) \<and> (\<exists>b. r = Answer (if a = DeleteDraft then 204 else 200) b)
        else tables w' = tables w \<and> (\<exists>m. r = Problem 409 ''conflict'' m))
    \<and> (tv_status row = ver_status tv \<longrightarrow> (a \<in> set (offered_actions row) \<longleftrightarrow> ver_status tv = required a))"
proof -
  have "if ver_status tv = required a
        then tables w' = after_action a tv (tables w) \<and> (\<exists>b. r = Answer (if a = DeleteDraft then 204 else 200) b)
        else tables w' = tables w \<and> (\<exists>m. r = Problem 409 ''conflict'' m)"
    using action_now [OF assms(1-6), of a lib] assms(7) by (auto split: if_splits)
  then show ?thesis by (cases a) (auto simp: offered_actions_def required_def)
qed


section \<open>A small database\<close>

definition demo_content :: version_content where
  "demo_content = \<lparr>con_resources = ''r'', con_spec = ''s'', con_metadata = None, con_notes = None, con_state = None\<rparr>"

definition demo_version :: "nat \<Rightarrow> int \<Rightarrow> string \<Rightarrow> template_version_row" where
  "demo_version i n s = \<lparr>ver_id = i, ver_template = 2, ver_num = n, ver_status = s, ver_creator = 1, ver_mode = ''yaml'', ver_content = demo_content\<rparr>"

definition demo_template :: template_row where
  "demo_template = \<lparr>tpl_id = 2, tpl_name = ''web'', tpl_display = ''Web'', tpl_description = None, tpl_tags = [], tpl_owner = 1,
     tpl_current = Some 3, tpl_team = None\<rparr>"

definition stored_release :: release_record where
  "stored_release = \<lparr>rel_id = 5, rel_name = ''shop'', rel_version = 3, rel_cluster = 6, rel_namespace = ''prod'', rel_values = ''{}'',
     rel_rendered = ''r'', rel_creator = 1\<rparr>"

definition demo_db :: db where
  "demo_db = \<lparr>users = [\<lparr>usr_id = 1, usr_subject = ''alice'', usr_email = None, usr_name = None\<rparr>], teams = [], members = [],
     templates = [demo_template], versions = [demo_version 3 1 ''published'', demo_version 4 2 ''draft''],
     clusters_t = [\<lparr>clu_id = 6, clu_name = ''east'', clu_display = None, clu_url = ''https://east'', clu_ca = None, clu_issuer = ''https://id'', clu_namespace = None\<rparr>], releases = [stored_release], next_id = 7, used = [2, 3, 4, 5]\<rparr>"

definition quiet_world :: "'k \<Rightarrow> 'k kworld" where
  "quiet_world k = \<lparr>tables = demo_db, committed = demo_db, others = (\<lambda>_ d. d), outage = (\<lambda>_. False), ticks = 0, kube_state = k\<rparr>"

text \<open>Libraries that read every text as a template without fields.\<close>

definition demo_lib :: api_lib where
  "demo_lib = \<lparr>big = (\<lambda>_ _. None), sprint = (\<lambda>_ _. []), compiles = (\<lambda>_. True), matches_re = (\<lambda>_ _. True), docs_of = (\<lambda>_. []),
     spec_of = (\<lambda>_. Inr []), docs_yaml = (\<lambda>_. []), spec_yaml = (\<lambda>_. []), rendered_yaml = (\<lambda>_. ''y''), values_of = (\<lambda>_. Inr []),
     uuid_of = (\<lambda>s. if s = ''5'' then Some 5 else None), now_text = []\<rparr>"

definition demo_ctx :: contexts where
  "demo_ctx = \<lparr>of_request = (\<lambda>_. None), of_cleanup = (\<lambda>_. None)\<rparr>"

definition an_admin :: caller where
  "an_admin = \<lparr>cl_sub = ''bob'', cl_email = [], cl_name = [], cl_groups = [''kuberport-admin''], cl_token = ''t''\<rparr>"

definition a_user :: caller where
  "a_user = \<lparr>cl_sub = ''carol'', cl_email = [], cl_name = [], cl_groups = [], cl_token = ''t''\<rparr>"

lemmas demo_defs = demo_db_def demo_version_def demo_template_def stored_release_def demo_content_def quiet_world_def

lemma demo_ok: "store_ok demo_db"
  unfolding store_ok_def fresh_ids_def numbers_ok_def current_ok_def points_def links_ok_def states_ok_def demo_defs by simp

lemma demo_alone: "alone (quiet_world k)" "store_ok (tables (quiet_world k))" "tables (quiet_world k) = demo_db"
  by (simp_all add: alone_def quiet_world_def demo_ok)

lemma demo_found: "find (\<lambda>t. tpl_name t = ''web'') (templates demo_db) = Some demo_template"
  by (simp add: demo_db_def demo_template_def)

lemma demo_versions:
  "GetTemplateVersion ''web'' 1 demo_db = Inr (demo_version 3 1 ''published'', demo_db)"
  "GetTemplateVersion ''web'' 2 demo_db = Inr (demo_version 4 2 ''draft'', demo_db)"
  by (simp_all add: GetTemplateVersion_def one_row_def demo_defs)

lemma demo_numbers: "ParseInt32 ''1'' = Some 1" "ParseInt32 ''2'' = Some 2"
  by (simp_all add: ParseInt32_def go_Atoi_def Let_def digits_val_def digit_val_def is_digit_def)

lemma only_editors_change_witness:
  "tables (snd (serve (change_template demo_lib a_user ''web'' (ActOn Publish ''2'')) (quiet_world ()))) = demo_db"
proof -
  obtain r w' where run: "serve (change_template demo_lib a_user ''web'' (ActOn Publish ''2'')) (quiet_world ()) = (r, w')" by fastforce
  have "others (quiet_world ()) = (\<lambda>_ d. d)" by (simp add: quiet_world_def)
  moreover have "find (\<lambda>t. tpl_name t = ''web'') (templates (tables (quiet_world ()))) = Some demo_template" by (simp add: demo_alone demo_found)
  moreover have "\<not> may_edit a_user (tables (quiet_world ())) demo_template"
    by (simp add: may_edit_def isKuberportAdmin_def a_user_def demo_template_def)
  ultimately show ?thesis using only_editors_change [OF _ _ _ run, THEN conjunct1] run by (simp add: demo_alone)
qed

lemma version_life_cycle_witness:
  "map ver_status (versions (tables (snd (serve (change_template demo_lib an_admin ''web'' (ActOn Publish ''2'')) (quiet_world ())))))
     = [''published'', ''published'']"
proof -
  obtain r w' where run: "serve (change_template demo_lib an_admin ''web'' (ActOn Publish ''2'')) (quiet_world ()) = (r, w')" by fastforce
  have t: "find (\<lambda>t. tpl_name t = ''web'') (templates (tables (quiet_world ()))) = Some demo_template" by (simp add: demo_alone demo_found)
  have m: "may_edit an_admin (tables (quiet_world ())) demo_template"
    by (simp add: may_edit_def isKuberportAdmin_def an_admin_def)
  have q: "GetTemplateVersion ''web'' 2 (tables (quiet_world ())) = Inr (demo_version 4 2 ''draft'', demo_db)"
    by (simp add: demo_alone demo_versions)
  have state: "ver_status (demo_version 4 2 ''draft'') = required Publish" by (simp add: required_def demo_version_def)
  have "tables w' = after_action Publish (demo_version 4 2 ''draft'') (tables (quiet_world ()))"
    using version_life_cycle [OF demo_alone(1,2) t m demo_numbers(2) q run, THEN conjunct1, unfolded if_P [OF state]] by blast
  then show ?thesis unfolding run by (simp add: demo_alone after_action_def with_status_def demo_defs)
qed

section \<open>The numbers of versions\<close>

lemma same_int32: "n' mod 2 ^ 32 = n mod 2 ^ 32 \<Longrightarrow> int32 n' = int32 n"
proof -
  assume "n' mod 2 ^ 32 = n mod 2 ^ 32"
  then have "(word_of_int n' :: 32 word) = word_of_int n" by (simp add: word_of_int_eq_iff take_bit_eq_mod)
  then show ?thesis by (simp add: int32_def)
qed

text \<open>Property C37: The number in a request's path is cut to 32 bits when a version is edited, deprecated, restored or deleted: two numbers
  that agree modulo \<open>2 ^ 32\<close> mean the same version there. To publish a version, a number that does not fit into 32 bits is
  refused instead.\<close>

theorem version_numbers_wrap:
  assumes "go_Atoi v = Some n" and "go_Atoi v' = Some n'" and "n' mod 2 ^ 32 = n mod 2 ^ 32"
  shows "change_template lib u nm (ActOn Deprecate v') w = change_template lib u nm (ActOn Deprecate v) w
    \<and> change_template lib u nm (ActOn Undeprecate v') w = change_template lib u nm (ActOn Undeprecate v) w
    \<and> change_template lib u nm (ActOn DeleteDraft v') w = change_template lib u nm (ActOn DeleteDraft v) w
    \<and> change_template lib u nm (EditDraftVersion v' b) w = change_template lib u nm (EditDraftVersion v b) w
    \<and> (n' < - (2 ^ 31) \<or> 2 ^ 31 \<le> n' \<longrightarrow> change_template lib u nm (ActOn Publish v') w
        = after (ensureTemplateEditor u nm) (\<lambda>_. stop (bad_request ''version must be integer'')) w)"
  using assms same_int32 [OF assms(3)]
  by (auto simp: change_template_def DeprecateVersion_def UndeprecateVersion_def DeleteTemplateVersion_def setVersionStatus_def
      UpdateTemplateVersion_def PublishVersion_def ParseInt32_def)

lemma version_numbers_wrap_witness:
  "change_template demo_lib an_admin ''web'' (ActOn DeleteDraft ''4294967298'') (quiet_world ())
     = change_template demo_lib an_admin ''web'' (ActOn DeleteDraft ''2'') (quiet_world ())"
proof -
  have "go_Atoi ''2'' = Some 2" "go_Atoi ''4294967298'' = Some 4294967298"
    by (simp_all add: go_Atoi_def Let_def digits_val_def digit_val_def is_digit_def)
  from version_numbers_wrap [OF this, THEN conjunct2, THEN conjunct2, THEN conjunct1] show ?thesis by simp
qed


section \<open>Deprecating the current version\<close>

lemma find_with_status:
  assumes "\<And>x. P (x\<lparr>ver_status := s\<rparr>) = P x"
  shows "find P (with_status i s vs) = map_option (\<lambda>x. if ver_id x = i then x\<lparr>ver_status := s\<rparr> else x) (find P vs)"
  by (induction vs) (simp_all add: with_status_def assms)

text \<open>Deprecating the version that is a template's current one leaves it current: what the API renders as a preview when
  no version is asked for is still this version, which it would not deploy, since a release of it is refused as a bad request.\<close>

lemma deprecated_stays_current:
  assumes "alone w" and "store_ok (tables w)" and "find (\<lambda>t. tpl_name t = nm) (templates (tables w)) = Some t" and "may_edit u (tables w) t"
    and "ParseInt32 v = Some n" and "GetTemplateVersion nm n (tables w) = Inr (tv, d)" and "ver_status tv = ''published''"
    and "tpl_current t = Some (ver_id tv)" and "serve (DeprecateVersion u nm v) w = (r, w')"
  shows "(\<exists>k. resolveTemplateVersion nm [] w' = (Inr (tv\<lparr>ver_status := ''deprecated''\<rparr>) :: template_body api_reply + _, w'\<lparr>ticks := k\<rparr>))
    \<and> (rq_template rq = nm \<and> rq_version rq = n \<longrightarrow> (\<exists>m. fst (serve (CreateRelease lib hn K ctx u2 (Inr rq)) w') = bad_request m))"
proof -
  have "if ver_status tv = required Deprecate
     then \<exists>b k. serve (change_template lib u nm (ActOn Deprecate v)) w
        = (Answer (if Deprecate = DeleteDraft then 204 else 200) b, w\<lparr>tables := after_action Deprecate tv (tables w), ticks := k\<rparr>)
     else \<exists>m k. serve (change_template lib u nm (ActOn Deprecate v)) w = (Problem 409 ''conflict'' m, w\<lparr>ticks := k\<rparr>)"
    by (rule action_now [OF assms(1-6)])
  with assms(7,9) obtain k where w': "w' = w\<lparr>tables := after_action Deprecate tv (tables w), ticks := k\<rparr>"
    by (auto simp: change_template_def required_def)
  have a: "alone w'" using assms(1) by (simp add: w')
  note tv = the_version [OF assms(2,6)]
  have n: "int32 n = n" using parse_int32 [OF assms(5)] by simp
  let ?tv = "tv\<lparr>ver_status := ''deprecated''\<rparr>"
  have vs: "versions (tables w') = with_status (ver_id tv) ''deprecated'' (versions (tables w))" and ts: "templates (tables w') = templates (tables w)"
    by (simp_all add: w' after_action_def)
  obtain x where x: "find (\<lambda>x. ver_id x = ver_id tv) (versions (tables w)) = Some x" using tv(2) by (fastforce simp: find_None_iff)
  then have "x \<in> set (versions (tables w))" "ver_id x = ver_id tv" by (auto simp: find_Some_iff)
  with x tv(3) have "find (\<lambda>x. ver_id x = ver_id tv) (versions (tables w)) = Some tv" by simp
  then have by_id: "GetTemplateVersionByID (ver_id tv) (tables w') = Inr (?tv, tables w')"
    by (simp add: GetTemplateVersionByID_def one_row_def vs find_with_status)
  have "find (\<lambda>x. ver_num x = n \<and> list_ex (\<lambda>t. tpl_id t = ver_template x \<and> tpl_name t = nm) (templates (tables w))) (versions (tables w)) = Some tv"
    using one_rowD [OF assms(6) [unfolded GetTemplateVersion_def]] by blast
  then have by_num: "GetTemplateVersion nm n (tables w') = Inr (?tv, tables w')"
    by (simp add: GetTemplateVersion_def one_row_def vs ts find_with_status)
  have "GetTemplateByName nm (tables w') = Inr (t, tables w')" using assms(3) by (simp add: find_query ts)
  then have "\<exists>k. resolveTemplateVersion nm [] w' = (Inr ?tv :: template_body api_reply + _, w'\<lparr>ticks := k\<rparr>)"
    using assms(8) by (auto simp: resolveTemplateVersion_def after_def query_alone a by_id give_def)
  moreover have "\<exists>m. fst (serve (CreateRelease lib hn K ctx u2 (Inr rq)) w') = bad_request m" if "rq_template rq = nm" "rq_version rq = n"
    using that by (auto simp: CreateRelease_def serve_def after_def stop_def query_alone a n by_num requireDeployableVersion_def)
  ultimately show ?thesis by blast
qed

lemma deprecated_stays_current_witness:
  "tpl_current demo_template = Some 3 \<and> fst (resolveTemplateVersion ''web'' [] (snd (serve (DeprecateVersion an_admin ''web'' ''1'') (quiet_world ()))))
     = (Inr (demo_version 3 1 ''deprecated'') :: template_body api_reply + _)"
proof -
  obtain r w' where run: "serve (DeprecateVersion an_admin ''web'' ''1'') (quiet_world ()) = (r, w')" by fastforce
  have t: "find (\<lambda>t. tpl_name t = ''web'') (templates (tables (quiet_world ()))) = Some demo_template" by (simp add: demo_alone demo_found)
  have m: "may_edit an_admin (tables (quiet_world ())) demo_template"
    by (simp add: may_edit_def isKuberportAdmin_def an_admin_def)
  have q: "GetTemplateVersion ''web'' 1 (tables (quiet_world ())) = Inr (demo_version 3 1 ''published'', demo_db)"
    by (simp add: demo_alone demo_versions)
  have s: "ver_status (demo_version 3 1 ''published'') = ''published''" "tpl_current demo_template = Some (ver_id (demo_version 3 1 ''published''))"
    by (simp_all add: demo_version_def demo_template_def)
  from deprecated_stays_current [OF demo_alone(1,2) t m demo_numbers(1) q s run, THEN conjunct1] run s(2)
  show ?thesis unfolding run by (auto simp: demo_version_def)
qed

end
