(* ===== verification/Api_Deployments.thy ===== *)
theory Api_Deployments
  imports Api_Life_Cycle
begin

text \<open>
  What the handlers of releases (\<open>Api_Releases\<close>) promise: a release is created as a whole or not at all, only its
  creator and administrators reach it, an update is applied before it is stored and undone if it cannot be, and
  what that leaves in the cluster.
\<close>

section \<open>The caller's row\<close>

lemma upsert_total: "\<exists>x e. UpsertUser s em nm d = Inr (x, e)"
  by (auto simp: UpsertUser_def Let_def split: option.splits)

lemma upsert_facts:
  assumes "UpsertUser s em nm d = Inr (x, e)"
  shows "releases e = releases d \<and> templates e = templates d \<and> versions e = versions d \<and> clusters_t e = clusters_t d
    \<and> next_id d \<le> next_id e \<and> x \<in> set (users e) \<and> usr_subject x = s
    \<and> usr_id x = (case find (\<lambda>u. usr_subject u = s) (users d) of None \<Rightarrow> next_id d | Some y \<Rightarrow> usr_id y)"
proof (cases "find (\<lambda>u. usr_subject u = s) (users d)")
  case None
  with assms show ?thesis by (auto simp: UpsertUser_def Let_def)
next
  case (Some y)
  let ?y = "y\<lparr>usr_email := em, usr_name := nm\<rparr>"
  have "?y \<in> set (update_first (\<lambda>u. usr_subject u = s) (\<lambda>_. ?y) us)" if "find (\<lambda>u. usr_subject u = s) us = Some y" for us
    using that by (induction us) (auto split: if_splits)
  moreover have "usr_subject y = s" using Some by (auto simp: find_Some_iff)
  ultimately show ?thesis using assms Some by (auto simp: UpsertUser_def Let_def)
qed

section \<open>Listing\<close>

text \<open>A listing of releases shows at most 200, whatever limit is asked for, from a place that is not negative, and to anyone but an
  administrator only releases he created.\<close>

lemma listing_is_own:
  assumes "alone w" and "serve (ListReleases u limitQuery offsetQuery) w = (Answer s (RList rows), w')"
  shows "length rows \<le> 200 \<and> releases (tables w') = releases (tables w)
    \<and> (isAdmin u \<or> list_all (\<lambda>i. \<exists>x \<in> set (users (tables w')). usr_subject x = cl_sub u \<and> rel_creator (ri_row i) = usr_id x) rows)"
proof -
  obtain limit offset where p: "parsePagination limitQuery offsetQuery = (limit, offset)" and l: "limit \<le> 200"
    by (cases "parsePagination limitQuery offsetQuery") (auto simp: parsePagination_def split: option.splits if_splits)
  have short: "min n (nat limit) \<le> 200" for n using l by simp
  have own: "rel_creator (ri_row i) = c" if "i \<in> set (List.map_filter (release_join d) (filter (\<lambda>r. rel_creator r = c) rs))" for i c d rs
    using that by (auto simp: List.map_filter_def release_join_def split: option.splits)
  obtain x e where up: "UpsertUser (cl_sub u) (PgText (cl_email u)) (PgText (cl_name u)) (tables w) = Inr (x, e)"
    using upsert_total by blast
  show ?thesis
  proof (cases "isAdmin u")
    case True
    with assms p short show ?thesis
      by (auto simp: serve_def ListReleases_def Let_def after_def query_alone ListReleases_sql_def give_def)
  next
    case False
    with assms p up have w': "tables w' = e" "rows = take (nat limit) (drop (nat offset) (List.map_filter (release_join e)
        (filter (\<lambda>r. rel_creator r = usr_id x) (rev (releases e)))))"
      by (auto simp: serve_def ListReleases_def resolveUser_def Let_def after_def query_alone ListReleases_sql_def give_def)
    have "rel_creator (ri_row i) = usr_id x" if "i \<in> set rows" for i
      using that own unfolding w'(2) by (blast dest: in_set_takeD in_set_dropD)
    with w' upsert_facts [OF up] short show ?thesis by (auto simp: list_all_iff w'(2))
  qed
qed


lemma listing_is_own_witness:
  "\<exists>rows w'. serve (ListReleases an_admin ''0'' ''x'') (quiet_world ()) = (Answer 200 (RList rows), w') \<and> length rows \<le> 200"
proof -
  obtain rows w' where run: "serve (ListReleases an_admin ''0'' ''x'') (quiet_world ()) = (Answer 200 (RList rows), w')"
    by (cases "parsePagination ''0'' ''x''")
      (simp add: serve_def ListReleases_def isAdmin_def an_admin_def Let_def after_def query_alone demo_alone ListReleases_sql_def give_def)
  from listing_is_own [OF demo_alone(1) run, THEN conjunct1] run show ?thesis by blast
qed

section \<open>What a handler keeps of the cluster\<close>

definition cluster_inv :: "('k \<Rightarrow> bool) \<Rightarrow> (('k, 'z) kworld_ext, 'e, 'a) act \<Rightarrow> bool" where
  "cluster_inv I m \<longleftrightarrow> (\<forall>w. I (kube_state w) \<longrightarrow> I (kube_state (snd (m w))))"

lemma ci_steps:
  "cluster_inv I (give x)" "cluster_inv I (stop r)"
  "(\<And>e. x1 = Inl e \<Longrightarrow> cluster_inv I (f1 e)) \<Longrightarrow> (\<And>y. x1 = Inr y \<Longrightarrow> cluster_inv I (g1 y)) \<Longrightarrow> cluster_inv I (case x1 of Inl e \<Rightarrow> f1 e | Inr y \<Rightarrow> g1 y)"
  "(x2 = None \<Longrightarrow> cluster_inv I f2) \<Longrightarrow> (\<And>y. x2 = Some y \<Longrightarrow> cluster_inv I (g2 y)) \<Longrightarrow> cluster_inv I (case x2 of None \<Rightarrow> f2 | Some y \<Rightarrow> g2 y)"
  "(b \<Longrightarrow> cluster_inv I m3) \<Longrightarrow> (\<not> b \<Longrightarrow> cluster_inv I n3) \<Longrightarrow> cluster_inv I (if b then m3 else n3)"
  by (auto simp: cluster_inv_def give_def stop_def split: sum.splits option.splits)

lemma ci_after: "cluster_inv I m \<Longrightarrow> (\<And>x. cluster_inv I (f x)) \<Longrightarrow> cluster_inv I (after m f)"
  unfolding cluster_inv_def after_def by (auto split: prod.splits sum.splits)

lemma stmt_kube: "stmt q w = (r, w') \<Longrightarrow> kube_state w' = kube_state w"
  by (auto simp: stmt_def Let_def split: if_splits sum.splits prod.splits)

lemma ci_query: "cluster_inv I (query q)"
  by (auto simp: cluster_inv_def query_def split: prod.splits dest: stmt_kube)

lemma ci_on_cluster: "(\<And>k. I k \<Longrightarrow> I (snd (f k))) \<Longrightarrow> cluster_inv I (on_cluster f)"
  by (auto simp: cluster_inv_def on_cluster_def split: prod.splits) (metis snd_conv)

lemma ci_access: "cluster_inv I (authorizeReleaseAccess u rel)"
  unfolding authorizeReleaseAccess_def resolveUser_def by (intro ci_steps ci_after ci_query)

lemma ci_serve: "cluster_inv I m \<Longrightarrow> I (kube_state w) \<Longrightarrow> I (kube_state (snd (serve m w)))"
  unfolding cluster_inv_def serve_def by (auto split: prod.splits sum.splits)

section \<open>Updating\<close>

lemma patched_stays:
  assumes "behaves K view label_of" and "view k j \<noteq> None \<and> \<not> in_deletion (view k) j"
  shows "view (snd (ApplyAll K cli ended ns multi k)) j \<noteq> None \<and> \<not> in_deletion (view (snd (ApplyAll K cli ended ns multi k))) j"
proof (cases "splitYAML (decoder K multi)")
  case (Inr objs)
  obtain errs k' where run: "try_each ended 0 (map (apply_object K cli ns) objs) k = (errs, k')" by fastforce
  from apply_each_keeps [OF assms(1) run, where i = j] assms(2) run Inr show ?thesis by (simp add: ApplyAll_def)
qed (use assms(2) in \<open>simp add: ApplyAll_def\<close>)

text \<open>Updating a release deletes nothing from the cluster, however it ends: an object of the old version that the new
  version or the new values no longer contain stays there, unless it was already being deleted.\<close>

lemma update_prunes_nothing:
  assumes "behaves K view label_of" and "view (kube_state w) j \<noteq> None" and "\<not> in_deletion (view (kube_state w)) j"
  shows "view (kube_state (snd (serve (UpdateRelease lib K ctx u i body) w))) j \<noteq> None"
proof -
  let ?I = "\<lambda>k. view k j \<noteq> None \<and> \<not> in_deletion (view k) j"
  have apply_keeps: "cluster_inv ?I (on_cluster (ApplyAll K cli ended ns multi))" for cli ended ns multi
    by (rule ci_on_cluster) (rule patched_stays [OF assms(1)])
  have "cluster_inv ?I (UpdateRelease lib K ctx u i body)"
    unfolding UpdateRelease_def by (intro ci_steps ci_after ci_query ci_access apply_keeps)
  from ci_serve [OF this, of w] assms(2,3) show ?thesis by blast
qed

lemma update_prunes_nothing_witness:
  "kube_state (snd (serve (UpdateRelease demo_lib (easy_kube easy_docs) demo_ctx an_admin ''5'' (Inr \<lparr>uq_version = 1, uq_values = ''{}''\<rparr>))
     (quiet_world easy_end))) ((''apps'', ''deployments''), ''prod'', ''web'') \<noteq> None"
proof -
  have "id (kube_state (quiet_world easy_end)) ((''apps'', ''deployments''), ''prod'', ''web'') \<noteq> None"
    "\<not> in_deletion (id (kube_state (quiet_world easy_end))) ((''apps'', ''deployments''), ''prod'', ''web'')"
    by (simp_all add: quiet_world_def easy_end_def in_deletion_def labelled_def)
  from update_prunes_nothing [where view = id and w = "quiet_world easy_end", OF easy_behaves this] show ?thesis by simp
qed


section \<open>Whose release it is\<close>

text \<open>The id the caller has, or will be given with the next statement.\<close>

definition caller_id :: "caller \<Rightarrow> db \<Rightarrow> nat" where
  "caller_id u d = (case find (\<lambda>x. usr_subject x = cl_sub u) (users d) of None \<Rightarrow> next_id d | Some x \<Rightarrow> usr_id x)"

datatype release_op = Look | Follow "string option" | Change "string + update_request" | Remove string

definition release_op_run :: "api_lib \<Rightarrow> (jnum \<Rightarrow> 32 word) \<Rightarrow> ('c, 'k) kube \<Rightarrow> contexts \<Rightarrow> caller \<Rightarrow> string \<Rightarrow> release_op \<Rightarrow>
    (('k, 'z) kworld_ext, release_body api_reply, release_body api_reply) act" where
  "release_op_run lib w32 K ctx u idText op = (case op of Look \<Rightarrow> GetRelease lib w32 K u idText
   | Follow inst \<Rightarrow> StreamReleaseLogs lib w32 K u idText inst | Change body \<Rightarrow> UpdateRelease lib K ctx u idText body | Remove f \<Rightarrow> DeleteRelease lib K ctx u idText f)"

definition denied :: "('k, 'z) kworld_scheme \<Rightarrow> release_body api_reply \<times> ('k, 'z) kworld_scheme \<Rightarrow> bool" where
  "denied w rw \<longleftrightarrow> kube_state (snd rw) = kube_state w \<and> releases (tables (snd rw)) = releases (tables w)
     \<and> (case fst rw of Problem s _ _ \<Rightarrow> s \<in> {400, 403, 404, 500} | Answer _ _ \<Rightarrow> False)"

lemma access_refused:
  assumes w: "others w = (\<lambda>_ d. d)" and u: "\<not> isAdmin u" "rel_creator (ri_row rel) \<noteq> caller_id u (tables w)"
  shows "\<exists>s k m w'. authorizeReleaseAccess u rel w = (Inl (Problem s k m :: release_body api_reply), w') \<and> s \<in> {403, 500}
    \<and> kube_state w' = kube_state w \<and> releases (tables w') = releases (tables w)"
proof -
  obtain x e where up: "UpsertUser (cl_sub u) (PgText (cl_email u)) (PgText (cl_name u)) (tables w) = Inr (x, e)"
    using upsert_total by blast
  from upsert_facts [OF up] u(2) have x: "rel_creator (ri_row rel) \<noteq> usr_id x" "releases e = releases (tables w)"
    by (simp_all add: caller_id_def)
  show ?thesis
  proof (cases "outage w (ticks w)")
    case True
    with w u(1) show ?thesis
      by (auto simp: authorizeReleaseAccess_def resolveUser_def after_def query_def stmt_def Let_def stop_def)
  next
    case False
    with w u(1) up x show ?thesis
      by (auto simp: authorizeReleaseAccess_def resolveUser_def after_def query_def stmt_def Let_def stop_def give_def)
  qed
qed

lemma access_first:
  assumes w: "others w = (\<lambda>_ d. d)" and u: "\<not> isAdmin u" and row: "find (\<lambda>r. rel_id r = i) (releases (tables w)) = Some row"
    and other: "rel_creator row \<noteq> caller_id u (tables w)"
  shows "denied w (serve (after (query (GetReleaseByID i)) (\<lambda>q. case q of Inl _ \<Rightarrow> stop (Problem 404 ''not-found'' ''release'')
    | Inr rel \<Rightarrow> after (authorizeReleaseAccess u rel) (rest rel))) w)"
proof (rule stmt_undisturbed [OF w, of "GetReleaseByID i"])
  show "e = tables w" if "GetReleaseByID i (tables w) = Inr (x, e)" for x e
    using that by (rule read_only)
next
  fix rel assume g: "GetReleaseByID i (tables w) = Inr (rel, tables w)" and q: "stmt (GetReleaseByID i) w = (Inr rel, w\<lparr>ticks := Suc (ticks w)\<rparr>)"
  have "ri_row rel = row"
    using g row by (auto simp: GetReleaseByID_def release_join_def one_row_def split: option.splits)
  with other obtain s k m w' where "authorizeReleaseAccess u rel (w\<lparr>ticks := Suc (ticks w)\<rparr>) = (Inl (Problem s k m :: release_body api_reply), w')"
    "s \<in> {403, 500}" "kube_state w' = kube_state w" "releases (tables w') = releases (tables w)"
    using access_refused [of "w\<lparr>ticks := Suc (ticks w)\<rparr>" u rel] w u by auto
  with q show ?thesis by (auto simp: denied_def serve_def after_def query_def)
qed (auto simp: denied_def serve_def after_def query_def stop_def)

text \<open>Property C10: A release is reached only by its creator and by administrators: to anyone else, looking at it, following its
  logs, updating it or deleting it (forced or not) is answered by a problem, and neither a cluster nor the table of releases changes.\<close>

theorem foreign_release_refused:
  assumes "others w = (\<lambda>_ d. d)" and "\<not> isAdmin u" and "uuid_of lib idText = Some i"
    and "find (\<lambda>r. rel_id r = i) (releases (tables w)) = Some row" and "rel_creator row \<noteq> caller_id u (tables w)"
  shows "denied w (serve (release_op_run lib w32 K ctx u idText op) w)"
proof -
  have quick: "denied w (serve (stop (bad_request m)) w)" for m by (simp add: denied_def serve_def stop_def)
  note first = access_first [OF assms(1,2,4,5)]
  show ?thesis
    using first quick
    by (cases op) (simp_all add: release_op_run_def GetRelease_def StreamReleaseLogs_def DeleteRelease_def UpdateRelease_def assms(3) split: sum.splits if_splits)
qed

lemma foreign_release_refused_witness:
  "denied (quiet_world easy_end) (serve (release_op_run demo_lib (\<lambda>_. 0) (easy_kube easy_docs) demo_ctx a_user ''5'' (Remove ''true'')) (quiet_world easy_end))"
  by (rule foreign_release_refused [where i = 5 and row = stored_release])
    (simp_all add: demo_lib_def demo_defs a_user_def isAdmin_def caller_id_def)


section \<open>Creating a release\<close>

text \<open>A statement that nothing runs beside, but that may fail.\<close>

definition outcome_of :: "'a sql \<Rightarrow> 'z world_scheme \<Rightarrow> dberr + 'a \<times> db" where
  "outcome_of q w = (if outage w (ticks w) then Inl OtherError else q (tables w))"

lemma query_outcome:
  "others w = (\<lambda>_ d. d) \<Longrightarrow> query q w = (case outcome_of q w of Inl e \<Rightarrow> (Inr (Inl e), w\<lparr>ticks := Suc (ticks w)\<rparr>)
     | Inr (x, d) \<Rightarrow> (Inr (Inr x), w\<lparr>tables := d, ticks := Suc (ticks w)\<rparr>))"
  by (simp add: query_def stmt_def outcome_of_def Let_def split: sum.splits prod.splits)

lemma outcome_Inr: "outcome_of q w = Inr p \<Longrightarrow> q (tables w) = Inr p"
  by (simp add: outcome_of_def split: if_splits)

definition release_labels_of :: "release_request \<Rightarrow> caller \<Rightarrow> release_labels" where
  "release_labels_of rq u = \<lparr>l_release = rq_name rq, l_template = rq_template rq, l_version = rq_version rq, l_id = rq_name rq, l_appliedBy = cl_email u\<rparr>"

text \<open>Whether a document of a text goes to an object.\<close>

definition names_object :: "('c, 'k) kube \<Rightarrow> string \<Rightarrow> string \<Rightarrow> stored_id \<Rightarrow> bool" where
  "names_object K ns multi j \<longleftrightarrow> (case splitYAML (decoder K multi) of Inr objs \<Rightarrow> list_ex (\<lambda>o1. goes_to K ns o1 j) objs | Inl _ \<Rightarrow> False)"

text \<open>
  What a request to create a release leaves of the cluster after an error of applying: objects no document names and that do not
  carry the release's name are as before; and if the clean-up succeeds, what carries it, of the ten kinds in the
  namespace, is at most still being deleted. And after a success: every document's object is there with the label.
\<close>

definition cleaned_up :: "('c, 'k) kube \<Rightarrow> ('k \<Rightarrow> cluster_view) \<Rightarrow> string \<Rightarrow> string \<Rightarrow> string \<Rightarrow> string option \<Rightarrow> 'k \<Rightarrow> 'k \<Rightarrow> bool" where
  "cleaned_up K view ns release multi cleanup k k' \<longleftrightarrow>
     (\<forall>j. \<not> names_object K ns multi j \<and> \<not> has_label (view k) release j \<longrightarrow> view k' j = view k j)
     \<and> (cleanup = None \<longrightarrow> (\<forall>j. fst j \<in> stored ` set mvpResources \<and> fst (snd j) = ns \<and> has_label (view k') release j \<longrightarrow> in_deletion (view k') j))"

definition all_there :: "('c, 'k) kube \<Rightarrow> ('k \<Rightarrow> cluster_view) \<Rightarrow> (string \<Rightarrow> string option) \<Rightarrow> string \<Rightarrow> string \<Rightarrow> string \<Rightarrow> 'k \<Rightarrow> 'k \<Rightarrow> bool" where
  "all_there K view label_of ns release multi k k' \<longleftrightarrow> (\<exists>objs. splitYAML (decoder K multi) = Inr objs
     \<and> (all_labelled K label_of ns release objs \<longrightarrow>
          list_all (\<lambda>o1. \<exists>i. goes_to K ns o1 i \<and> (\<not> in_deletion (view k) i \<longrightarrow> has_label (view k') release i)) objs)
     \<and> (\<forall>j. \<not> names_object K ns multi j \<longrightarrow> view k' j = view k j))"

text \<open>
  What a request to create a release is meant to leave. The row may only stay after a problem if the database failed at the last
  statement, the one that removes it.
\<close>

definition as_promised :: "api_lib \<Rightarrow> ('c, 'k) kube \<Rightarrow> ('k \<Rightarrow> cluster_view) \<Rightarrow> (string \<Rightarrow> string option) \<Rightarrow> contexts \<Rightarrow> caller \<Rightarrow>
    string + release_request \<Rightarrow> ('k, 'z) kworld_scheme \<Rightarrow> release_body api_reply \<Rightarrow> ('k, 'z) kworld_scheme \<Rightarrow> bool" where
  "as_promised lib K view label_of ctx u body w r w' \<longleftrightarrow> (case r of
     Problem s k m \<Rightarrow>
       (releases (tables w') = releases (tables w)
        \<or> (\<exists>rq rel. body = Inr rq \<and> releases (tables w') = releases (tables w) @ [rel] \<and> rel_name rel = rq_name rq \<and> outage w (ticks w' - 1)
             \<and> (s = 502 \<or> s = 500 \<and> k = ''k8s-error'')))
       \<and> (if s = 502 then \<exists>rq tv cli multi k1 cleanup. body = Inr rq \<and> tv \<in> set (versions (tables w)) \<and> ver_status tv = ''published''
              \<and> render_version lib tv (rq_values rq) (release_labels_of rq u) = Inr multi
              \<and> ApplyAll K cli (of_request ctx) (rq_namespace rq) multi (kube_state w) = (Some m, k1)
              \<and> DeleteByRelease K cli (of_cleanup ctx) (rq_namespace rq) (rq_name rq) k1 = (cleanup, kube_state w')
              \<and> cleaned_up K view (rq_namespace rq) (rq_name rq) multi cleanup (kube_state w) (kube_state w')
          else kube_state w' = kube_state w)
   | Answer s b \<Rightarrow> (\<exists>rq rel tv cli. body = Inr rq \<and> b = RCreated rel \<and> releases (tables w') = releases (tables w) @ [rel]
       \<and> rel_name rel = rq_name rq \<and> rel_namespace rel = rq_namespace rq \<and> rel_values rel = rq_values rq
       \<and> tv \<in> set (versions (tables w')) \<and> rel_version rel = ver_id tv \<and> ver_status tv = ''published''
       \<and> render_version lib tv (rq_values rq) (release_labels_of rq u) = Inr (rel_rendered rel)
       \<and> ApplyAll K cli (of_request ctx) (rq_namespace rq) (rel_rendered rel) (kube_state w) = (None, kube_state w')
       \<and> all_there K view label_of (rq_namespace rq) (rq_name rq) (rel_rendered rel) (kube_state w) (kube_state w')))"

lemma insert_release_facts:
  assumes "InsertRelease nm v c ns vals ren us d = Inr (r, e)"
  shows "e = d\<lparr>releases := releases d @ [r], next_id := Suc (next_id d), used := next_id d # used d\<rparr> \<and> rel_id r = next_id d \<and> rel_name r = nm \<and> rel_version r = v
    \<and> rel_namespace r = ns \<and> rel_values r = vals \<and> rel_rendered r = ren"
  using assms by (auto simp: InsertRelease_def Let_def split: if_splits)

lemma unended: "try_each ended n fs k = ([], k') \<Longrightarrow> try_each (\<lambda>_. None) n fs k = ([], k')"
  by (induction fs arbitrary: n k) (auto split: option.splits prod.splits)

lemma applied_all_there:
  assumes "behaves K view label_of" and "ApplyAll K cli ended ns multi k = (None, k')"
  shows "all_there K view label_of ns release multi k k'"
proof -
  from assms(2) obtain objs where objs: "splitYAML (decoder K multi) = Inr objs" "try_each ended 0 (map (apply_object K cli ns) objs) k = ([], k')"
    by (auto simp: ApplyAll_def map_prod_def join_errors_None split: sum.splits prod.splits)
  from apply_each_done [OF assms(1) _ unended [OF objs(2)]] apply_each_keeps [OF assms(1) objs(2)] objs(1)
  show ?thesis by (auto simp: all_there_def names_object_def list_all_iff)
qed

lemma deleted_cleaned_up:
  assumes "behaves K view label_of" and "ApplyAll K cli ended ns multi k = (failure, k1)"
    and "DeleteByRelease K cli ended' ns release k1 = (cleanup, k2)"
  shows "cleaned_up K view ns release multi cleanup k k2"
proof -
  obtain errs where del: "try_each ended' 0 (map (delete_kind K cli ns release) mvpResources) k1 = (errs, k2)" "cleanup = join_errors errs"
    using assms(3) by (auto simp: DeleteByRelease_def map_prod_def split: prod.splits)
  note d = delete_each [OF assms(1) del(1)]
  have same: "view k1 j = view k j" if "\<not> names_object K ns multi j" for j
  proof (cases "splitYAML (decoder K multi)")
    case (Inr objs)
    obtain es k' where run: "try_each ended 0 (map (apply_object K cli ns) objs) k = (es, k')" by fastforce
    from apply_each_keeps [OF assms(1) run, where i = j] that assms(2) run Inr show ?thesis by (simp add: ApplyAll_def names_object_def)
  qed (use assms(2) in \<open>simp add: ApplyAll_def\<close>)
  have "view k2 j = view k j" if "\<not> names_object K ns multi j" "\<not> has_label (view k) release j" for j
    using d [of j] same [OF that(1)] that(2) by (auto simp: has_label_def)
  moreover have "in_deletion (view k2) j"
    if "cleanup = None" "fst j \<in> stored ` set mvpResources" "fst (snd j) = ns" "has_label (view k2) release j" for j
  proof -
    have "errs = []" using that(1) del(2) by (simp add: join_errors_None)
    moreover have "has_label (view k1) release j" using d [of j] that(4) by (auto simp: has_label_def)
    moreover have "view k2 j \<noteq> None" using that(4) by (auto simp: has_label_def split: option.splits)
    ultimately show ?thesis using d [of j] that(2,3) by blast
  qed
  ultimately show ?thesis by (simp add: cleaned_up_def)
qed

text \<open>The requests that store a row, with what was read on the way and the world by then; all others change neither table nor cluster.\<close>

definition stored_by :: "api_lib \<Rightarrow> caller \<Rightarrow> release_request \<Rightarrow> ('k, 'z) kworld_scheme \<Rightarrow> release_record \<Rightarrow> ('k, 'z) kworld_scheme \<Rightarrow> cluster_row \<Rightarrow>
    template_version_row \<Rightarrow> bool" where
  "stored_by lib u rq w rel w1 c tv \<longleftrightarrow>
     GetTemplateVersion (rq_template rq) (int32 (rq_version rq)) (tables w) = Inr (tv, tables w) \<and> ver_status tv = ''published''
     \<and> render_version lib tv (rq_values rq) (release_labels_of rq u) = Inr (rel_rendered rel)
     \<and> rel_name rel = rq_name rq \<and> rel_namespace rel = rq_namespace rq \<and> rel_values rel = rq_values rq \<and> rel_version rel = ver_id tv
     \<and> releases (tables w1) = releases (tables w) @ [rel] \<and> versions (tables w1) = versions (tables w)
     \<and> others w1 = others w \<and> outage w1 = outage w \<and> kube_state w1 = kube_state w \<and> rel_id rel \<notin> rel_id ` set (releases (tables w))"

text \<open>What the handler does once the row is stored.\<close>

definition create_tail :: "('c, 'k) kube \<Rightarrow> contexts \<Rightarrow> caller \<Rightarrow> release_request \<Rightarrow> cluster_row \<Rightarrow> release_record \<Rightarrow>
    (('k, 'z) kworld_ext, release_body api_reply, release_body api_reply) act" where
  "create_tail K ctx u rq c rel = (case NewWithToken K (clu_url c) (nullish (clu_ca c) []) (cl_token u) of
      Inl m \<Rightarrow> after (query (DeleteRelease_sql (rel_id rel))) (\<lambda>_. stop (Problem 500 ''k8s-error'' m))
    | Inr cli \<Rightarrow> after (on_cluster (ApplyAll K cli (of_request ctx) (rq_namespace rq) (rel_rendered rel))) (\<lambda>failure. case failure of
        Some m \<Rightarrow> after (on_cluster (DeleteByRelease K cli (of_cleanup ctx) (rq_namespace rq) (rq_name rq))) (\<lambda>_.
          after (query (DeleteRelease_sql (rel_id rel))) (\<lambda>_. stop (Problem 502 ''k8s-error'' m)))
      | None \<Rightarrow> give (Answer 201 (RCreated rel))))"

lemma create_stores:
  assumes "others w = (\<lambda>_ d. d)" and "store_ok (tables w)" and "serve (CreateRelease lib hn K ctx u body) w = (r, w')"
  obtains s k m where "r = Problem s k m" and "s \<noteq> 502" and "releases (tables w') = releases (tables w)" and "kube_state w' = kube_state w"
    | rq rel w1 c tv where "body = Inr rq" and "stored_by lib u rq w rel w1 c tv" and "serve (create_tail K ctx u rq c rel) w1 = (r, w')"
proof (cases body)
  case (Inl m)
  with assms(3) show thesis by (intro that(1)) (auto simp: CreateRelease_def serve_def stop_def)
next
  case (Inr rq)
  note step = CreateRelease_def serve_def stop_def give_def after_def query_outcome resolveUser_def
  note ended_early = that(1)
  have quiet: thesis if "\<exists>s k m. r = Problem s k m \<and> s \<noteq> 502" "releases (tables w') = releases (tables w)" "kube_state w' = kube_state w"
    using that ended_early by blast
  show thesis
  proof (cases "rq_template rq = [] \<or> rq_version rq < 1 \<or> rq_cluster rq = [] \<or> rq_namespace rq = [] \<or> rq_name rq = [] \<or> \<not> hn (rq_name rq)
        \<or> rq_values rq = []")
    case True
    with assms Inr show thesis by (intro quiet) (auto simp: CreateRelease_def serve_def stop_def)
  next
    case bound: False
    show thesis
    proof (cases "outcome_of (GetTemplateVersion (rq_template rq) (int32 (rq_version rq))) w")
      case (Inl e)
      with assms Inr bound show thesis by (intro quiet) (auto simp: step)
    next
      case version: (Inr p)
      then obtain tv where tv: "outcome_of (GetTemplateVersion (rq_template rq) (int32 (rq_version rq))) w = Inr (tv, tables w)"
        "GetTemplateVersion (rq_template rq) (int32 (rq_version rq)) (tables w) = Inr (tv, tables w)"
        using outcome_Inr [OF version] the_version(1) [OF assms(2)] by (cases p) blast
      show thesis
      proof (cases "requireDeployableVersion tv (rq_template rq) :: release_body api_reply option")
        case (Some a)
        then have "\<exists>s k m. a = Problem s k m \<and> s \<noteq> 502" by (auto simp: requireDeployableVersion_def split: if_splits)
        with assms Inr bound tv Some show thesis by (intro quiet) (auto simp: step)
      next
        case deployable: None
        let ?w1 = "w\<lparr>ticks := Suc (ticks w)\<rparr>"
        let ?w2 = "w\<lparr>ticks := Suc (Suc (ticks w))\<rparr>"
        show thesis
        proof (cases "outcome_of (GetClusterByName (rq_cluster rq)) ?w1")
          case (Inl e)
          with assms Inr bound tv deployable show thesis by (intro quiet) (auto simp: step)
        next
          case cluster: (Inr p)
          then obtain c where c: "outcome_of (GetClusterByName (rq_cluster rq)) ?w1 = Inr (c, tables w)"
            using outcome_Inr [OF cluster] read_only(4) by (cases p) fastforce
          show thesis
          proof (cases "render_version lib tv (rq_values rq) (release_labels_of rq u)")
            case (Inl m)
            with assms Inr bound tv deployable c show thesis by (intro quiet) (auto simp: step release_labels_of_def)
          next
            case ren: (Inr multi)
            note so_far = Inr bound tv deployable c ren [unfolded release_labels_of_def]
            show thesis
            proof (cases "outcome_of (UpsertUser (cl_sub u) (PgText (cl_email u)) (PgText (cl_name u))) ?w2")
              case (Inl e)
              with assms so_far show thesis by (intro quiet) (auto simp: step)
            next
              case user: (Inr p)
              then obtain x d1 where up: "outcome_of (UpsertUser (cl_sub u) (PgText (cl_email u)) (PgText (cl_name u))) ?w2 = Inr (x, d1)"
                "UpsertUser (cl_sub u) (PgText (cl_email u)) (PgText (cl_name u)) (tables w) = Inr (x, d1)"
                using outcome_Inr [OF user] by (cases p) simp
              let ?w3 = "w\<lparr>tables := d1, ticks := Suc (Suc (Suc (ticks w)))\<rparr>"
              let ?ins = "InsertRelease (rq_name rq) (ver_id tv) (clu_id c) (rq_namespace rq) (rq_values rq) multi (usr_id x)"
              show thesis
              proof (cases "outcome_of ?ins ?w3")
                case (Inl failure)
                with assms so_far up(1) upsert_facts [OF up(2)] show thesis by (intro quiet) (auto simp: step create_failed_def)
              next
                case ins: (Inr p)
                then obtain rel e where rel: "outcome_of ?ins ?w3 = Inr (rel, e)" "?ins d1 = Inr (rel, e)"
                  using outcome_Inr [OF ins] by (cases p) simp
                note facts = insert_release_facts [OF rel(2)] upsert_facts [OF up(2)]
                have new: "rel_id rel \<notin> rel_id ` set (releases (tables w))"
                  using facts assms(2) by (fastforce simp: store_ok_def fresh_ids_def)
                let ?w4 = "w\<lparr>tables := e, ticks := Suc (Suc (Suc (Suc (ticks w))))\<rparr>"
                have "stored_by lib u rq w rel ?w4 c tv"
                  using facts new tv(2) deployable ren by (auto simp: stored_by_def requireDeployableVersion_def split: if_splits)
                moreover have "serve (create_tail K ctx u rq c rel) ?w4 = (r, w')"
                  using assms so_far up(1) rel(1) facts unfolding create_tail_def facts(1) [THEN conjunct2, THEN conjunct2, THEN conjunct2, THEN conjunct2, THEN conjunct2, THEN conjunct2]
                  by (simp add: step)
                ultimately show thesis by (rule that(2) [OF Inr])
              qed
            qed
          qed
        qed
      qed
    qed
  qed
qed

lemma create_ends:
  assumes "others w = (\<lambda>_ d. d)" and "store_ok (tables w)" and "behaves K view label_of" and "body = Inr rq"
    and st: "stored_by lib u rq w rel w1 c tv" and run: "serve (create_tail K ctx u rq c rel) w1 = (r, w')"
  shows "as_promised lib K view label_of ctx u body w r w'"
proof -
  note step = create_tail_def serve_def stop_def give_def after_def query_outcome on_cluster_def
  have w1: "others w1 = (\<lambda>_ d. d)" "outage w1 = outage w" "kube_state w1 = kube_state w" "releases (tables w1) = releases (tables w) @ [rel]"
    using st assms(1) by (simp_all add: stored_by_def)
  have tv: "tv \<in> set (versions (tables w))" using st the_version(2) [OF assms(2)] by (auto simp: stored_by_def)
  have "filter (\<lambda>x. rel_id x \<noteq> rel_id rel) (releases (tables w)) = releases (tables w)"
    using st unfolding stored_by_def filter_id_conv by (metis imageI)
  then have undo: "\<exists>t. query (DeleteRelease_sql (rel_id rel)) v = (Inr t :: release_body api_reply + dberr + unit, w') \<Longrightarrow> releases (tables w') = releases (tables w) \<and> kube_state w' = kube_state v
      \<or> releases (tables w') = releases (tables w) @ [rel] \<and> outage w (ticks w' - 1) \<and> kube_state w' = kube_state v"
    if "tables v = tables w1" "others v = others w1" "outage v = outage w1" for v
    using w1 that by (auto simp: query_outcome outcome_of_def DeleteRelease_sql_def split: if_splits)
  show ?thesis
  proof (cases "NewWithToken K (clu_url c) (nullish (clu_ca c) []) (cl_token u)")
    case (Inl m)
    then have "r = Problem 500 ''k8s-error'' m" "\<exists>t. query (DeleteRelease_sql (rel_id rel)) w1 = (Inr t :: release_body api_reply + dberr + unit, w')"
      using run by (auto simp: create_tail_def serve_def stop_def after_def query_def split: prod.splits sum.splits)
    with undo [of w1] w1 assms(4) st show ?thesis by (auto simp: as_promised_def stored_by_def)
  next
    case (Inr cli)
    obtain failure k1 where app: "ApplyAll K cli (of_request ctx) (rq_namespace rq) (rel_rendered rel) (kube_state w) = (failure, k1)" by fastforce
    show ?thesis
    proof (cases failure)
      case None
      with run Inr app w1 have e: "r = Answer 201 (RCreated rel)" "tables w' = tables w1" "kube_state w' = k1" by (auto simp: step)
      have "all_there K view label_of (rq_namespace rq) (rq_name rq) (rel_rendered rel) (kube_state w) k1"
        by (rule applied_all_there [OF assms(3) app [unfolded None]])
      with e st tv app None assms(4) show ?thesis by (auto simp: as_promised_def stored_by_def intro!: exI [of _ tv] exI [of _ cli])
    next
      case (Some m)
      obtain del k2 where del: "DeleteByRelease K cli (of_cleanup ctx) (rq_namespace rq) (rq_name rq) k1 = (del, k2)" by fastforce
      have clean: "cleaned_up K view (rq_namespace rq) (rq_name rq) (rel_rendered rel) del (kube_state w) k2"
        by (rule deleted_cleaned_up [OF assms(3) app del])
      have q: "r = Problem 502 ''k8s-error'' m" "\<exists>t. query (DeleteRelease_sql (rel_id rel)) (w1\<lparr>kube_state := k2\<rparr>) = (Inr t :: release_body api_reply + dberr + unit, w')"
        using run Inr app Some del w1(3)
        by (auto simp: create_tail_def serve_def stop_def after_def query_def on_cluster_def split: prod.splits sum.splits)
      have r: "r = Problem 502 ''k8s-error'' m" "kube_state w' = k2"
        and t: "releases (tables w') = releases (tables w)
          \<or> releases (tables w') = releases (tables w) @ [rel] \<and> outage w (ticks w' - 1)"
        using undo [OF _ _ _ q(2)] q(1) by auto
      have "\<exists>rq tv cli multi k1 cleanup. body = Inr rq \<and> tv \<in> set (versions (tables w)) \<and> ver_status tv = ''published''
              \<and> render_version lib tv (rq_values rq) (release_labels_of rq u) = Inr multi
              \<and> ApplyAll K cli (of_request ctx) (rq_namespace rq) multi (kube_state w) = (Some m, k1)
              \<and> DeleteByRelease K cli (of_cleanup ctx) (rq_namespace rq) (rq_name rq) k1 = (cleanup, kube_state w')
              \<and> cleaned_up K view (rq_namespace rq) (rq_name rq) multi cleanup (kube_state w) (kube_state w')"
        using assms(4) st tv app Some del clean r(2)
        by (intro exI [of _ rq] exI [of _ tv] exI [of _ cli] exI [of _ "rel_rendered rel"] exI [of _ k1] exI [of _ del]) (simp add: stored_by_def)
      with r(1) t assms(4) st show ?thesis by (auto simp: as_promised_def stored_by_def)
    qed
  qed
qed



definition demo_request :: release_request where
  "demo_request = \<lparr>rq_template = ''web'', rq_version = 1, rq_cluster = ''east'', rq_namespace = ''prod'', rq_name = ''blog'', rq_values = ''{}''\<rparr>"


text \<open>The row stays where the database fails a second time: the fifth statement removes it.\<close>

definition refusing :: "(unit, cluster_view) kube" where
  "refusing = (easy_kube easy_docs)\<lparr>patch_object := (\<lambda>_ _ _ k. (Some ''refused'', k))\<rparr>"

lemma row_stays:
  "length (releases (tables (snd (serve (CreateRelease demo_lib (\<lambda>_. True) refusing demo_ctx an_admin (Inr demo_request))
     ((quiet_world (\<lambda>_. None))\<lparr>outage := (\<lambda>n. n = 4)\<rparr>))))) = 2"
  by code_simp


section \<open>Updating a release\<close>

text \<open>Who asks does not matter for what is known afterwards: the table of releases and what is joined to it are as before.\<close>

lemma access_keeps:
  assumes "others w = (\<lambda>_ d. d)" and "authorizeReleaseAccess u rel w = (r, w1)"
  shows "others w1 = (\<lambda>_ d. d) \<and> kube_state w1 = kube_state w \<and> releases (tables w1) = releases (tables w)
    \<and> versions (tables w1) = versions (tables w) \<and> templates (tables w1) = templates (tables w)
    \<and> (\<forall>a. r = Inl a \<longrightarrow> (\<exists>s k m. a = Problem s k m \<and> s \<noteq> 502))"
proof -
  obtain x e where up: "UpsertUser (cl_sub u) (PgText (cl_email u)) (PgText (cl_name u)) (tables w) = Inr (x, e)"
    using upsert_total by blast
  show ?thesis
    using assms upsert_facts [OF up]
    by (auto simp: authorizeReleaseAccess_def resolveUser_def after_def query_outcome outcome_of_def up stop_def give_def split: if_splits)
qed

text \<open>What an update is meant to leave, if the database may fail at any statement.\<close>

definition updated_as_promised :: "api_lib \<Rightarrow> ('c, 'k) kube \<Rightarrow> contexts \<Rightarrow> caller \<Rightarrow> nat \<Rightarrow> string + update_request \<Rightarrow> ('k, 'z) kworld_scheme \<Rightarrow>
    release_body api_reply \<Rightarrow> ('k, 'z) kworld_scheme \<Rightarrow> bool" where
  "updated_as_promised lib K ctx u i body w r w' \<longleftrightarrow>
     releases (tables w') = releases (tables w) \<and> kube_state w' = kube_state w \<and> (case r of Problem s _ _ \<Rightarrow> s \<noteq> 502 | Answer _ _ \<Rightarrow> False)
   \<or> (\<exists>rq rel tv multi cli. body = Inr rq \<and> GetReleaseByID i (tables w) = Inr (rel, tables w)
       \<and> GetTemplateVersion (ri_template rel) (int32 (uq_version rq)) (tables w) = Inr (tv, tables w) \<and> ver_status tv = ''published''
       \<and> render_version lib tv (uq_values rq) \<lparr>l_release = rel_name (ri_row rel), l_template = ri_template rel, l_version = uq_version rq,
           l_id = rel_name (ri_row rel), l_appliedBy = cl_email u\<rparr> = Inr multi
       \<and> (case ApplyAll K cli (of_request ctx) (rel_namespace (ri_row rel)) multi (kube_state w) of
           (Some m, k) \<Rightarrow> r = Problem 502 ''k8s-error'' m \<and> kube_state w' = k \<and> releases (tables w') = releases (tables w)
         | (None, k) \<Rightarrow>
             r = Answer 200 (RUpdated i (uq_version rq)) \<and> kube_state w' = k
               \<and> releases (tables w') = update_first (\<lambda>r. rel_id r = i)
                   (\<lambda>r. r\<lparr>rel_version := ver_id tv, rel_values := uq_values rq, rel_rendered := multi\<rparr>) (releases (tables w))
             \<or> (\<exists>m. r = Problem 500 ''internal'' m) \<and> releases (tables w') = releases (tables w)
               \<and> kube_state w' = snd (ApplyAll K cli (of_cleanup ctx) (rel_namespace (ri_row rel)) (rel_rendered (ri_row rel)) k)))"

lemma same_version_query:
  "versions e = versions d \<Longrightarrow> templates e = templates d \<Longrightarrow> GetTemplateVersion nm n e = Inr (tv, e') \<Longrightarrow> GetTemplateVersion nm n d = Inr (tv, d)"
  by (auto simp: GetTemplateVersion_def one_row_def split: option.splits)

text \<open>The requests that get as far as the version, and the world by then.\<close>

lemma update_reads:
  assumes "others w = (\<lambda>_ d. d)" and "uuid_of lib idText = Some i" and "serve (UpdateRelease lib K ctx u idText body) w = (r, w')"
  obtains "updated_as_promised lib K ctx u i body w r w'"
    | rq rel w1 x where "body = Inr rq" and "\<not> (uq_version rq < 1 \<or> uq_values rq = [] \<or> TrimSpace (uq_values rq) = ''null'')"
      and "outcome_of (GetReleaseByID i) w = Inr (rel, tables w)" and "GetReleaseByID i (tables w) = Inr (rel, tables w)"
      and "authorizeReleaseAccess u rel (w\<lparr>ticks := Suc (ticks w)\<rparr>) = (Inr x :: release_body api_reply + unit, w1)"
      and "others w1 = (\<lambda>_ d. d)" and "kube_state w1 = kube_state w" and "releases (tables w1) = releases (tables w)"
      and "versions (tables w1) = versions (tables w)" and "templates (tables w1) = templates (tables w)"
proof (cases body)
  case (Inl m)
  with assms show thesis by (intro that(1)) (auto simp: updated_as_promised_def UpdateRelease_def serve_def stop_def)
next
  case (Inr rq)
  note step = UpdateRelease_def serve_def stop_def give_def after_def query_outcome on_cluster_def
  note kept = that(1)
  have quiet: thesis if that2: "\<exists>s k m. r = Problem s k m \<and> s \<noteq> 502" "releases (tables w') = releases (tables w)" "kube_state w' = kube_state w"
    by (intro kept) (use that2 in \<open>auto simp: updated_as_promised_def\<close>)
  show thesis
  proof (cases "uq_version rq < 1 \<or> uq_values rq = [] \<or> TrimSpace (uq_values rq) = ''null''")
    case True
    with assms Inr show thesis by (intro quiet) (auto simp: UpdateRelease_def serve_def stop_def split: if_splits)
  next
    case bound: False
    show thesis
    proof (cases "outcome_of (GetReleaseByID i) w")
      case (Inl e)
      with assms Inr bound show thesis by (intro quiet) (auto simp: step)
    next
      case read: (Inr p)
      then obtain rel where rel: "outcome_of (GetReleaseByID i) w = Inr (rel, tables w)" "GetReleaseByID i (tables w) = Inr (rel, tables w)"
        using outcome_Inr [OF read] read_only(5) by (cases p) blast
      let ?w = "w\<lparr>ticks := Suc (ticks w)\<rparr>"
      obtain ra w1 where acc: "authorizeReleaseAccess u rel ?w = (ra :: release_body api_reply + unit, w1)" by fastforce
      have w1: "others w1 = (\<lambda>_ d. d)" "kube_state w1 = kube_state w" "releases (tables w1) = releases (tables w)"
        "versions (tables w1) = versions (tables w)" "templates (tables w1) = templates (tables w)"
        and denied: "\<And>a. ra = Inl a \<Longrightarrow> \<exists>s k m. a = Problem s k m \<and> s \<noteq> 502"
        using access_keeps [of ?w, OF _ acc] assms(1) by auto
      show thesis
      proof (cases ra)
        case (Inl a)
        with assms \<open>body = Inr rq\<close> bound rel acc w1 denied show thesis by (intro quiet) (auto simp: step)
      next
        case allowed: (Inr x)
        show thesis using that(2) [OF Inr bound rel(1,2)] acc allowed w1 by simp
      qed
    qed
  qed
qed

lemma read_only_version: "GetTemplateVersion nm n d = Inr (tv, e) \<Longrightarrow> e = d"
  by (auto simp: GetTemplateVersion_def dest!: one_rowD)

text \<open>The last steps: applying, storing, and applying the old rendering where storing fails.\<close>

lemma update_ends:
  assumes "others w = (\<lambda>_ d. d)" and "uuid_of lib idText = Some i" and "serve (UpdateRelease lib K ctx u idText body) w = (r, w')"
    and "body = Inr rq" and "\<not> (uq_version rq < 1 \<or> uq_values rq = [] \<or> TrimSpace (uq_values rq) = ''null'')"
    and "outcome_of (GetReleaseByID i) w = Inr (rel, tables w)" and "GetReleaseByID i (tables w) = Inr (rel, tables w)"
    and "authorizeReleaseAccess u rel (w\<lparr>ticks := Suc (ticks w)\<rparr>) = (Inr x :: release_body api_reply + unit, w1)"
    and "others w1 = (\<lambda>_ d. d)" and "kube_state w1 = kube_state w" and "releases (tables w1) = releases (tables w)"
    and "versions (tables w1) = versions (tables w)" and "templates (tables w1) = templates (tables w)"
    and "outcome_of (GetTemplateVersion (ri_template rel) (int32 (uq_version rq))) w1 = Inr (tv, tables w1)"
    and tv: "GetTemplateVersion (ri_template rel) (int32 (uq_version rq)) (tables w) = Inr (tv, tables w)"
    and dep: "requireDeployableVersion tv (ri_template rel) = (None :: release_body api_reply option)"
    and ren: "render_version lib tv (uq_values rq) \<lparr>l_release = rel_name (ri_row rel), l_template = ri_template rel, l_version = uq_version rq,
           l_id = rel_name (ri_row rel), l_appliedBy = cl_email u\<rparr> = Inr multi"
    and "NewWithToken K (clu_url (ri_cluster rel)) (nullish (clu_ca (ri_cluster rel)) []) (cl_token u) = Inr cli"
  shows "updated_as_promised lib K ctx u i body w r w'"
proof -
  note step = UpdateRelease_def serve_def stop_def give_def after_def query_outcome on_cluster_def
  have published: "ver_status tv = ''published''" using dep by (auto simp: requireDeployableVersion_def split: if_splits)
  obtain err k1 where app: "ApplyAll K cli (of_request ctx) (rel_namespace (ri_row rel)) multi (kube_state w) = (err, k1)" by fastforce
  let ?row = "\<lambda>r. r\<lparr>rel_version := ver_id tv, rel_values := uq_values rq, rel_rendered := multi\<rparr>"
  have last: ?thesis if "case err of Some m \<Rightarrow> r = Problem 502 ''k8s-error'' m \<and> kube_state w' = k1 \<and> releases (tables w') = releases (tables w)
      | None \<Rightarrow> r = Answer 200 (RUpdated i (uq_version rq)) \<and> kube_state w' = k1
          \<and> releases (tables w') = update_first (\<lambda>r. rel_id r = i) ?row (releases (tables w))
        \<or> (\<exists>m. r = Problem 500 ''internal'' m) \<and> releases (tables w') = releases (tables w)
          \<and> kube_state w' = snd (ApplyAll K cli (of_cleanup ctx) (rel_namespace (ri_row rel)) (rel_rendered (ri_row rel)) k1)"
    unfolding updated_as_promised_def using that assms(4,7) tv published ren app
    by (intro disjI2 exI [of _ rq] exI [of _ rel] exI [of _ tv] exI [of _ multi] exI [of _ cli]) (cases err; simp)
  show ?thesis
  proof (cases err)
    case (Some m)
    with assms app show ?thesis by (intro last) (auto simp: step)
  next
    case None
    let ?w = "w1\<lparr>ticks := Suc (ticks w1), kube_state := k1\<rparr>"
    show ?thesis
    proof (cases "outcome_of (UpdateReleaseValuesAndVersion i (ver_id tv) (uq_values rq) multi) ?w")
      case (Inl e)
      obtain err2 k2 where "ApplyAll K cli (of_cleanup ctx) (rel_namespace (ri_row rel)) (rel_rendered (ri_row rel)) k1 = (err2, k2)" by fastforce
      with assms app None Inl show ?thesis by (intro last) (auto simp: step)
    next
      case (Inr p)
      then obtain y d where p: "outcome_of (UpdateReleaseValuesAndVersion i (ver_id tv) (uq_values rq) multi) ?w = Inr (y, d)"
        "releases d = update_first (\<lambda>r. rel_id r = i) ?row (releases (tables w))"
        using outcome_Inr [OF Inr] assms(11) by (cases p) (auto simp: UpdateReleaseValuesAndVersion_def split: if_splits)
      with assms app None show ?thesis by (intro last) (auto simp: step)
    qed
  qed
qed

text \<open>Property C8: An update of a release is applied before it is stored: the answer is a success, then the rendering of a published version of
  the release's own template was applied without an error and the row is changed to it; or the row is as before. In the second case the
  cluster is as before too, except that a failed application is left as it is (502), and that after a failure of the database
  (500) the stored rendering is applied again.\<close>

theorem update_applies_first:
  assumes "others w = (\<lambda>_ d. d)" and "uuid_of lib idText = Some i" and "serve (UpdateRelease lib K ctx u idText body) w = (r, w')"
  shows "updated_as_promised lib K ctx u i body w r w'"
proof (cases rule: update_reads [OF assms])
  case 1
  then show ?thesis .
next
  case (2 rq rel w1 x)
  note step = UpdateRelease_def serve_def stop_def give_def after_def query_outcome on_cluster_def
  note so_far = 2
  have quiet: ?thesis if "\<exists>s k m. r = Problem s k m \<and> s \<noteq> 502" "releases (tables w') = releases (tables w)" "kube_state w' = kube_state w"
    using that by (auto simp: updated_as_promised_def)
  show ?thesis
  proof (cases "outcome_of (GetTemplateVersion (ri_template rel) (int32 (uq_version rq))) w1")
    case (Inl e)
    with assms so_far show ?thesis by (cases "e = NoRows"; intro quiet) (auto simp: step)
  next
    case version: (Inr p)
    then obtain tv where tv: "outcome_of (GetTemplateVersion (ri_template rel) (int32 (uq_version rq))) w1 = Inr (tv, tables w1)"
      "GetTemplateVersion (ri_template rel) (int32 (uq_version rq)) (tables w) = Inr (tv, tables w)"
      using outcome_Inr [OF version] same_version_query [OF 2(9,10)] read_only_version by (cases p) blast
    show ?thesis
    proof (cases "requireDeployableVersion tv (ri_template rel) :: release_body api_reply option")
      case (Some a)
      then have "\<exists>s k m. a = Problem s k m \<and> s \<noteq> 502" by (auto simp: requireDeployableVersion_def split: if_splits)
      with assms so_far tv Some show ?thesis by (intro quiet) (auto simp: step)
    next
      case deployable: None
      let ?l = "\<lparr>l_release = rel_name (ri_row rel), l_template = ri_template rel, l_version = uq_version rq,
           l_id = rel_name (ri_row rel), l_appliedBy = cl_email u\<rparr>"
      show ?thesis
      proof (cases "render_version lib tv (uq_values rq) ?l")
        case (Inl m)
        with assms so_far tv deployable show ?thesis by (intro quiet) (auto simp: step)
      next
        case ren: (Inr multi)
        show ?thesis
        proof (cases "NewWithToken K (clu_url (ri_cluster rel)) (nullish (clu_ca (ri_cluster rel)) []) (cl_token u)")
          case (Inl m)
          with assms so_far tv deployable ren show ?thesis by (intro quiet) (auto simp: step)
        next
          case (Inr cli)
          with assms so_far tv deployable ren show ?thesis by (rule update_ends)
        qed
      qed
    qed
  qed
qed


lemma update_applies_first_witness:
  "updated_as_promised demo_lib (easy_kube easy_docs) demo_ctx an_admin 5 (Inr \<lparr>uq_version = 1, uq_values = ''{}''\<rparr>) (quiet_world easy_end)
     (fst (serve (UpdateRelease demo_lib (easy_kube easy_docs) demo_ctx an_admin ''5'' (Inr \<lparr>uq_version = 1, uq_values = ''{}''\<rparr>)) (quiet_world easy_end)))
     (snd (serve (UpdateRelease demo_lib (easy_kube easy_docs) demo_ctx an_admin ''5'' (Inr \<lparr>uq_version = 1, uq_values = ''{}''\<rparr>)) (quiet_world easy_end)))"
  by (rule update_applies_first [OF _ _ prod.collapse [symmetric]]) (simp_all add: quiet_world_def demo_lib_def)

section \<open>The preview\<close>

text \<open>Two renderings of the same that differ in the labels only.\<close>

definition same_but_labels :: "go_doc \<Rightarrow> go_doc \<Rightarrow> bool" where
  "same_but_labels d e \<longleftrightarrow> (\<forall>us. not_owned us \<longrightarrow> value_at (JObj d) us = value_at (JObj e) us)"

lemma render_relabelled:
  assumes "render_version lib tv vals l = Inr t"
  shows "\<exists>docs docs'. t = rendered_yaml lib docs \<and> render_version lib tv vals l' = Inr (rendered_yaml lib docs') \<and> list_all2 same_but_labels docs docs'"
proof -
  let ?render = "Render (golib.truncate lib) (docs_of lib (con_resources (ver_content tv))) (spec_of lib (con_spec (ver_content tv))) (values_of lib vals)"
  from assms obtain out where out: "?render l (now_text lib) = Inr out" "t = rendered_yaml lib out"
    by (auto simp: render_version_def map_sum_Inr)
  from Render_Inr [OF out(1)] obtain docs fs input mid where mid: "parseMultiDoc (docs_of lib (con_resources (ver_content tv))) = Inr docs"
    "parseSpec (compiles (golib.truncate lib)) (spec_of lib (con_spec (ver_content tv))) = Inr fs" "values_of lib vals = Inr input"
    "render_fields (golib.truncate lib) input fs docs = Inr mid" "out = map (stampLabels l (now_text lib)) mid" by blast
  then have "?render l' (now_text lib) = Inr (map (stampLabels l' (now_text lib)) mid)" by (simp add: Render_def)
  then have "render_version lib tv vals l' = Inr (rendered_yaml lib (map (stampLabels l' (now_text lib)) mid))" by (simp add: render_version_def)
  moreover have "list_all2 same_but_labels out (map (stampLabels l' (now_text lib)) mid)"
    unfolding mid(5) by (auto simp: list_all2_map1 list_all2_map2 list_all2_same same_but_labels_def stampLabels_off [unfolded keeps_off_def])
  ultimately show ?thesis using out(2) by blast
qed



end
