(* ===== verification/Api_Teams.thy ===== *)
theory Api_Teams
  imports Api_Templates
begin

text \<open>
  The Go API's authentication and its handlers of teams, clusters and the caller
  (\<open>backend/internal/api\<close>: \<open>middleware.go\<close>, \<open>teams.go\<close>, \<open>clusters.go\<close>, \<open>me.go\<close>).

  Verifying a token is a parameter. A word stands for the detail of an answer that quotes a library's error.
\<close>

datatype team_body = TTeam team_row | TTeams "team_row list" | TMembers "(membership \<times> user_record) list" | TMember membership | TNothing
  | TCluster cluster_row | TClusters "cluster_row list" | TMe string string "string list"

section \<open>Authentication\<close>

text \<open>\<open>strings.ToLower\<close> on ASCII, and \<open>strings.Split\<close> at a character.\<close>

definition ToLower :: "string \<Rightarrow> string" where
  "ToLower s = map (\<lambda>c. if is_upper c then char_of (of_char c + 32 :: nat) else c) s"

fun go_Split :: "char \<Rightarrow> string \<Rightarrow> string list" where
  "go_Split sep [] = [[]]"
| "go_Split sep (c # cs) = (if c = sep then [] # go_Split sep cs
     else (case go_Split sep cs of [] \<Rightarrow> [[c]] | w # ws \<Rightarrow> (c # w) # ws))"

definition go_trim :: "string \<Rightarrow> string" where
  "go_trim s = rev (dropWhile (\<lambda>c. go_blank [c]) (rev (dropWhile (\<lambda>c. go_blank [c]) s)))"

definition parseDevAdminEmails :: "string \<Rightarrow> string list" where
  "parseDevAdminEmails raw = filter (\<lambda>e. e \<noteq> []) (map (\<lambda>e. go_trim (ToLower e)) (go_Split (CHR '','') raw))"

definition bearer_scheme :: string where
  "bearer_scheme = ''Bearer ''"

text \<open>The caller, or the answer. The groups of a token may name administrators, and so may the environment.\<close>

definition requireAuth :: "(string \<Rightarrow> string + caller) \<Rightarrow> string \<Rightarrow> string \<Rightarrow> 'b api_reply + caller" where
  "requireAuth verify devAdmins header =
     (if take 7 header \<noteq> bearer_scheme then Inl (Problem 401 ''unauthenticated'' ''missing bearer token'')
      else (case verify (drop 7 header) of Inl m \<Rightarrow> Inl (Problem 401 ''unauthenticated'' m)
        | Inr u \<Rightarrow> Inr (u\<lparr>cl_token := drop 7 header,
            cl_groups := cl_groups u @ (if cl_email u \<noteq> [] \<and> ToLower (cl_email u) \<in> set (parseDevAdminEmails devAdmins)
              then [''kuberport-admin''] else [])\<rparr>)))"

definition requireAdmin :: "caller \<Rightarrow> ('z, 'b api_reply, 'a) act \<Rightarrow> ('z, 'b api_reply, 'a) act" where
  "requireAdmin u next_handler =
     (if ''kuberport-admin'' \<in> set (cl_groups u) then next_handler else stop (Problem 403 ''rbac-denied'' ''admin group required''))"

section \<open>Teams\<close>

definition CreateTeam :: "string + string \<times> string \<Rightarrow> ('z, team_body api_reply, team_body api_reply) act" where
  "CreateTeam body = (case body of Inl m \<Rightarrow> stop (bad_request m)
   | Inr (nm, display) \<Rightarrow>
     if nm = [] then stop (bad_request ''binding'')
     else after (query (InsertTeam nm (PgText display))) (\<lambda>q. case q of
       Inl e \<Rightarrow> stop (create_failed ''team name already exists'' ''failed to create team'' e)
     | Inr team \<Rightarrow> give (Answer 201 (TTeam team))))"

definition ListTeams :: "caller \<Rightarrow> ('z, team_body api_reply, team_body api_reply) act" where
  "ListTeams u =
     (let answer = (\<lambda>q. case q of Inl _ \<Rightarrow> stop (Problem 500 ''internal'' ''list'') | Inr ts \<Rightarrow> give (Answer 200 (TTeams ts))) in
      if isKuberportAdmin u then after (query (ListTeams_sql None)) answer
      else after (query (GetUserByOidcSubject (cl_sub u))) (\<lambda>q. case q of
          Inl _ \<Rightarrow> give (Answer 200 (TTeams []))
        | Inr user \<Rightarrow> after (query (ListTeams_sql (Some (usr_id user)))) answer))"

definition ListTeamMembers :: "api_lib \<Rightarrow> caller \<Rightarrow> string \<Rightarrow> ('z, team_body api_reply, team_body api_reply) act" where
  "ListTeamMembers lib u idText = (case uuid_of lib idText of None \<Rightarrow> stop (bad_request ''invalid id'')
   | Some team \<Rightarrow> after
       (if isKuberportAdmin u then give ()
        else after (query (GetUserByOidcSubject (cl_sub u))) (\<lambda>q. case q of
            Inl _ \<Rightarrow> stop (Problem 403 ''rbac-denied'' ''user not registered yet; call GET /v1/me first, then retry'')
          | Inr caller \<Rightarrow> after (query (GetTeamMembership team (usr_id caller))) (\<lambda>q. case q of
              Inl _ \<Rightarrow> stop (Problem 403 ''rbac-denied'' ''team member or kuberport-admin required'')
            | Inr _ \<Rightarrow> give ())))
       (\<lambda>_. after (query (ListTeamMembers_sql team)) (\<lambda>q. case q of
           Inl _ \<Rightarrow> stop (Problem 500 ''internal'' ''list'') | Inr ms \<Rightarrow> give (Answer 200 (TMembers ms)))))"

text \<open>\<open>is_email\<close> is the validator of the binding.\<close>

definition AddTeamMember :: "api_lib \<Rightarrow> (string \<Rightarrow> bool) \<Rightarrow> string \<Rightarrow> string + string \<times> string \<Rightarrow>
    ('z, team_body api_reply, team_body api_reply) act" where
  "AddTeamMember lib is_email idText body = (case uuid_of lib idText of None \<Rightarrow> stop (bad_request ''invalid id'')
   | Some team \<Rightarrow> (case body of Inl m \<Rightarrow> stop (bad_request m)
   | Inr (email, role) \<Rightarrow>
     if email = [] \<or> \<not> is_email email \<or> role \<notin> {''editor'', ''viewer''} then stop (bad_request ''binding'')
     else after (query (GetUserByEmail (PgText email))) (\<lambda>q. case q of
       Inl _ \<Rightarrow> stop (Problem 404 ''user-not-found'' ''user must have logged in at least once before being added to a team'')
     | Inr user \<Rightarrow> after (query (InsertTeamMembership (usr_id user) team role)) (\<lambda>q. case q of
         Inl _ \<Rightarrow> stop (Problem 500 ''internal'' ''insert'') | Inr m \<Rightarrow> give (Answer 201 (TMember m))))))"

definition RemoveTeamMember :: "api_lib \<Rightarrow> string \<Rightarrow> string \<Rightarrow> ('z, team_body api_reply, team_body api_reply) act" where
  "RemoveTeamMember lib idText userText = (case (uuid_of lib idText, uuid_of lib userText) of
     (None, _) \<Rightarrow> stop (bad_request ''invalid id'')
   | (_, None) \<Rightarrow> stop (bad_request ''invalid user_id'')
   | (Some team, Some user) \<Rightarrow> after (query (DeleteTeamMembership team user)) (\<lambda>q. case q of
       Inl _ \<Rightarrow> stop (Problem 500 ''internal'' ''delete'') | Inr _ \<Rightarrow> give (Answer 204 TNothing)))"

section \<open>Clusters and the caller\<close>

definition ListClusters :: "('z, team_body api_reply, team_body api_reply) act" where
  "ListClusters = after (query ListClusters_sql) (\<lambda>q. case q of
     Inl _ \<Rightarrow> stop (Problem 500 ''internal'' ''list'') | Inr cs \<Rightarrow> give (Answer 200 (TClusters cs)))"

text \<open>\<open>is_url\<close> is the validator of the binding.\<close>

record cluster_request =
  cq_name :: string
  cq_display :: string
  cq_url :: string
  cq_ca :: string
  cq_issuer :: string
  cq_namespace :: string

definition CreateCluster :: "(string \<Rightarrow> bool) \<Rightarrow> string + cluster_request \<Rightarrow> ('z, team_body api_reply, team_body api_reply) act" where
  "CreateCluster is_url body = (case body of Inl m \<Rightarrow> stop (bad_request m)
   | Inr r \<Rightarrow>
     if cq_name r = [] \<or> cq_url r = [] \<or> \<not> is_url (cq_url r) \<or> cq_issuer r = [] \<or> \<not> is_url (cq_issuer r) then stop (bad_request ''binding'')
     else after (query (InsertCluster (cq_name r) (PgText (cq_display r)) (cq_url r) (PgText (cq_ca r)) (cq_issuer r) (PgText (cq_namespace r)))) (\<lambda>q. case q of
       Inl e \<Rightarrow> stop (create_failed ''cluster name already exists'' ''insert'' e)
     | Inr c \<Rightarrow> give (Answer 201 (TCluster c))))"

definition GetMe :: "caller \<Rightarrow> ('z, team_body api_reply, team_body api_reply) act" where
  "GetMe u = after (query (GetUserByOidcSubject (cl_sub u))) (\<lambda>existing.
     let needWrite = (case existing of Inl _ \<Rightarrow> True
           | Inr x \<Rightarrow> nullish (usr_email x) [] \<noteq> cl_email u \<or> nullish (usr_name x) [] \<noteq> cl_name u);
         answer = give (Answer 200 (TMe (cl_sub u) (cl_email u) (cl_groups u))) in
     if needWrite then after (query (UpsertUser (cl_sub u) (PgText (cl_email u)) (PgText (cl_name u)))) (\<lambda>q. case q of
         Inl _ \<Rightarrow> stop (Problem 500 ''internal'' ''upsert'') | Inr _ \<Rightarrow> answer)
     else answer)"

section \<open>Every handler keeps the invariant\<close>

lemma evolves_small:
  "InsertTeam nm display d = Inr (x1, e1) \<Longrightarrow> evolves d e1"
  "InsertTeamMembership user team role d = Inr (x2, e2) \<Longrightarrow> evolves d e2"
  "DeleteTeamMembership team user d = Inr (x3, e3) \<Longrightarrow> evolves d e3"
  "InsertCluster cn cd url ca iss ns d = Inr (x4, e4) \<Longrightarrow> evolves d e4"
  "GetUserByEmail email d = Inr (x5, e5) \<Longrightarrow> evolves d e5"
  by (rule evolves_other, auto simp: InsertTeam_def InsertTeamMembership_def DeleteTeamMembership_def InsertCluster_def GetUserByEmail_def
      Let_def split: if_splits dest!: one_rowD)+

lemma keeps_create_team: "api.sat store_ok (CreateTeam body) (\<lambda>_. store_ok)"
  unfolding CreateTeam_def
  by (auto intro!: api.sat_steps ask_any intro: evolves_small split: prod.splits)

lemma keeps_list_teams: "api.sat store_ok (ListTeams u) (\<lambda>_. store_ok)"
  unfolding ListTeams_def Let_def
  by (auto intro!: api.sat_steps ask_any intro: keeps_reading read_only simp: ListTeams_sql_def api.R_refl)

lemma keeps_list_members: "api.sat store_ok (ListTeamMembers lib u i) (\<lambda>_. store_ok)"
proof -
  have member: "api.sat store_ok (if isKuberportAdmin u then give ()
        else after (query (GetUserByOidcSubject (cl_sub u))) (\<lambda>q. case q of
            Inl _ \<Rightarrow> stop (Problem 403 ''rbac-denied'' ''user not registered yet; call GET /v1/me first, then retry'')
          | Inr caller \<Rightarrow> after (query (GetTeamMembership team (usr_id caller))) (\<lambda>q. case q of
              Inl _ \<Rightarrow> stop (Problem 403 ''rbac-denied'' ''team member or kuberport-admin required'')
            | Inr _ \<Rightarrow> give ()))) (\<lambda>_. store_ok)" for team
    by (auto intro!: api.sat_steps ask_any intro: keeps_reading read_only)
  show ?thesis
    unfolding ListTeamMembers_def
    by (rule api.sat_option, rule api.sat_stop, rule api.sat_after [OF member])
      (auto intro!: api.sat_steps ask_any simp: ListTeamMembers_sql_def api.R_refl)
qed

lemma keeps_add_member: "api.sat store_ok (AddTeamMember lib is_email i body) (\<lambda>_. store_ok)"
  unfolding AddTeamMember_def
  by (auto intro!: api.sat_steps ask_any intro: evolves_small split: prod.splits)

lemma keeps_remove_member: "api.sat store_ok (RemoveTeamMember lib i j) (\<lambda>_. store_ok)"
  unfolding RemoveTeamMember_def
  by (auto intro!: api.sat_steps ask_any intro: evolves_small split: option.splits)

lemma keeps_list_clusters: "api.sat store_ok ListClusters (\<lambda>_. store_ok)"
  unfolding ListClusters_def by (auto intro!: api.sat_steps ask_any simp: ListClusters_sql_def api.R_refl)

lemma keeps_create_cluster: "api.sat store_ok (CreateCluster is_url body) (\<lambda>_. store_ok)"
  unfolding CreateCluster_def
  by (auto intro!: api.sat_steps ask_any intro: evolves_small)

lemma keeps_me: "api.sat store_ok (GetMe u) (\<lambda>_. store_ok)"
  unfolding GetMe_def Let_def
  by (auto intro!: api.sat_steps ask_any intro: keeps_reading read_only evolves_upsert)

end
