(* ===== verification/Api_Routes.thy ===== *)
theory Api_Routes
  imports Api_Deployments Api_Teams
begin

text \<open>
  The routes of the Go API (\<open>backend/internal/api/routes.go\<close>): which handler answers a request, and what holds of
  the tables after any requests, from anyone and interleaved with others.
\<close>

datatype api_call =
    GetMeR | ListClustersR | CreateClusterR "string + cluster_request" | AccessR "string + string \<times> access_check"
  | ListTemplatesR | CreateTemplateR "string + template_request" | PreviewTemplateR "string + go_resource list"
  | PreviewRenderR string string "string + string" | GetTemplateR string | UpdateTemplateR string "string + template_patch"
  | ListVersionsR string | CreateVersionR string "string + version_body" | GetVersionR string string
  | UpdateVersionR string string "string + version_patch" | DeleteVersionR string string | PublishR string string
  | DeprecateR string string | UndeprecateR string string
  | ListReleasesR string string | CreateReleaseR "string + release_request" | GetReleaseR string | LogsR string "string option"
  | UpdateReleaseR string "string + update_request" | DeleteReleaseR string string
  | ListTeamsR | CreateTeamR "string + string \<times> string" | ListMembersR string | AddMemberR string "string + string \<times> string"
  | RemoveMemberR string string

datatype any_body = OfTemplate template_body | OfRelease release_body | OfTeam team_body

text \<open>What the API takes from outside: the libraries, the validators of its bindings, and the clusters.\<close>

record ('c, 'k) outside =
  o_lib :: api_lib
  o_w32 :: "jnum \<Rightarrow> 32 word"
  o_hostname :: "string \<Rightarrow> bool"
  o_email :: "string \<Rightarrow> bool"
  o_url :: "string \<Rightarrow> bool"
  o_kube :: "('c, 'k) kube"
  o_ctx :: contexts
  o_verify :: "string \<Rightarrow> string + caller"
  o_admins :: string

definition answer_with :: "('b \<Rightarrow> any_body) \<Rightarrow> ('z, 'b api_reply, 'b api_reply) act \<Rightarrow> 'z world_scheme \<Rightarrow> any_body api_reply \<times> 'z world_scheme" where
  "answer_with f m w = (case serve m w of (r, w') \<Rightarrow> (map_api_reply f r, w'))"

definition dispatch :: "('c, 'k) outside \<Rightarrow> caller \<Rightarrow> api_call \<Rightarrow> ('k, 'z) kworld_scheme \<Rightarrow> any_body api_reply \<times> ('k, 'z) kworld_scheme" where
  "dispatch E u req = (let lib = o_lib E; K = o_kube E; ctx = o_ctx E in case req of
     GetMeR \<Rightarrow> answer_with OfTeam (GetMe u)
   | ListClustersR \<Rightarrow> answer_with OfTeam ListClusters
   | CreateClusterR b \<Rightarrow> answer_with OfTeam (requireAdmin u (CreateCluster (o_url E) b))
   | AccessR b \<Rightarrow> answer_with OfRelease (CheckSelfSubjectAccess K u b)
   | ListTemplatesR \<Rightarrow> answer_with OfTemplate ListTemplates
   | CreateTemplateR b \<Rightarrow> answer_with OfTemplate (CreateTemplate lib u b)
   | PreviewTemplateR b \<Rightarrow> answer_with OfTemplate (PreviewTemplate lib b)
   | PreviewRenderR nm v b \<Rightarrow> answer_with OfTemplate (PreviewRender lib nm v b)
   | GetTemplateR nm \<Rightarrow> answer_with OfTemplate (GetTemplate nm)
   | UpdateTemplateR nm b \<Rightarrow> answer_with OfTemplate (UpdateTemplate u nm b)
   | ListVersionsR nm \<Rightarrow> answer_with OfTemplate (ListTemplateVersions nm)
   | CreateVersionR nm b \<Rightarrow> answer_with OfTemplate (CreateTemplateVersion lib u nm b)
   | GetVersionR nm v \<Rightarrow> answer_with OfTemplate (GetVersion nm v)
   | UpdateVersionR nm v b \<Rightarrow> answer_with OfTemplate (UpdateTemplateVersion lib u nm v b)
   | DeleteVersionR nm v \<Rightarrow> answer_with OfTemplate (DeleteTemplateVersion u nm v)
   | PublishR nm v \<Rightarrow> answer_with OfTemplate (PublishVersion u nm v)
   | DeprecateR nm v \<Rightarrow> answer_with OfTemplate (DeprecateVersion u nm v)
   | UndeprecateR nm v \<Rightarrow> answer_with OfTemplate (UndeprecateVersion u nm v)
   | ListReleasesR l off \<Rightarrow> answer_with OfRelease (ListReleases u l off)
   | CreateReleaseR b \<Rightarrow> answer_with OfRelease (CreateRelease lib (o_hostname E) K ctx u b)
   | GetReleaseR i \<Rightarrow> answer_with OfRelease (GetRelease lib (o_w32 E) K u i)
   | LogsR i inst \<Rightarrow> answer_with OfRelease (StreamReleaseLogs lib (o_w32 E) K u i inst)
   | UpdateReleaseR i b \<Rightarrow> answer_with OfRelease (UpdateRelease lib K ctx u i b)
   | DeleteReleaseR i f \<Rightarrow> answer_with OfRelease (DeleteRelease lib K ctx u i f)
   | ListTeamsR \<Rightarrow> answer_with OfTeam (ListTeams u)
   | CreateTeamR b \<Rightarrow> answer_with OfTeam (requireAdmin u (CreateTeam b))
   | ListMembersR i \<Rightarrow> answer_with OfTeam (ListTeamMembers lib u i)
   | AddMemberR i b \<Rightarrow> answer_with OfTeam (requireAdmin u (AddTeamMember lib (o_email E) i b))
   | RemoveMemberR i j \<Rightarrow> answer_with OfTeam (requireAdmin u (RemoveTeamMember lib i j)))"

text \<open>A request with its \<open>Authorization\<close> header, and requests one after the other.\<close>

definition api_serve :: "('c, 'k) outside \<Rightarrow> string \<Rightarrow> api_call \<Rightarrow> ('k, 'z) kworld_scheme \<Rightarrow> any_body api_reply \<times> ('k, 'z) kworld_scheme" where
  "api_serve E header req w = (case requireAuth (o_verify E) (o_admins E) header of Inl r \<Rightarrow> (r, w) | Inr u \<Rightarrow> dispatch E u req w)"

fun serve_all :: "('c, 'k) outside \<Rightarrow> (string \<times> api_call) list \<Rightarrow> ('k, 'z) kworld_scheme \<Rightarrow> any_body api_reply list \<times> ('k, 'z) kworld_scheme" where
  "serve_all E [] w = ([], w)"
| "serve_all E ((h, r) # rs) w = (case api_serve E h r w of (a, w') \<Rightarrow> map_prod ((#) a) id (serve_all E rs w'))"

section \<open>The tables after any requests\<close>

lemma keeps_admin: "api.sat store_ok m (\<lambda>_. store_ok) \<Longrightarrow> api.sat store_ok (requireAdmin u m) (\<lambda>_. store_ok)"
  by (simp add: requireAdmin_def api.sat_stop)

lemma answer_run:
  assumes "answer_with f m w = (r, w')" and "api.sat store_ok m (\<lambda>_. store_ok)" and "api.polite w" and "store_ok (tables w)"
  shows "api.polite w' \<and> evolves (tables w) (tables w')"
  using api.sat_run [OF assms(2-4)] assms(1) by (auto simp: answer_with_def split: prod.splits)

lemmas every_handler = keeps_me keeps_list_clusters keeps_create_cluster keeps_check_access keeps_list_templates keeps_create_template
  keeps_preview_template keeps_preview_render keeps_get_template keeps_update_template keeps_list_versions keeps_create_version
  keeps_get_version keeps_update_version keeps_delete_version keeps_publish keeps_deprecate keeps_undeprecate keeps_list_releases
  keeps_create_release keeps_get_release keeps_logs keeps_update_release keeps_delete_release keeps_list_teams keeps_create_team keeps_list_members
  keeps_add_member keeps_remove_member keeps_admin

lemma dispatch_run:
  assumes "api.polite w" and "store_ok (tables w)" and "dispatch E u req w = (r, w')"
  shows "api.polite w' \<and> evolves (tables w) (tables w')"
  using assms(3)
  by (cases req) (simp_all add: dispatch_def Let_def, (erule answer_run [OF _ _ assms(1,2)], (rule every_handler)+)+)

lemma serve_run:
  assumes "api.polite w" and "store_ok (tables w)" and "api_serve E h req w = (r, w')"
  shows "api.polite w' \<and> evolves (tables w) (tables w')"
proof (cases "requireAuth (o_verify E) (o_admins E) h :: any_body api_reply + caller")
  case (Inl m)
  with assms show ?thesis by (simp add: api_serve_def api.R_refl)
next
  case (Inr u)
  with assms(3) have "dispatch E u req w = (r, w')" by (simp add: api_serve_def)
  from dispatch_run [OF assms(1,2) this] show ?thesis .
qed

lemma serve_all_run:
  assumes "api.polite w" and "store_ok (tables w)" and "serve_all E rs w = (as, w')"
  shows "evolves (tables w) (tables w')"
  using assms
proof (induction rs arbitrary: w as)
  case (Cons hr rs)
  obtain h req where hr: "hr = (h, req)" by (cases hr)
  obtain a w1 where one: "api_serve E h req w = (a, w1)" by fastforce
  with serve_run [OF Cons.prems(1,2)] have w1: "api.polite w1" "evolves (tables w) (tables w1)" by blast+
  with Cons.prems(2) have "store_ok (tables w1)" by (simp add: evolves_def)
  with Cons.IH [OF w1(1)] Cons.prems(3) hr one have "evolves (tables w1) (tables w')" by (cases "serve_all E rs w1") auto
  with w1(2) show ?case using api.R_trans by blast
qed (simp add: api.R_refl)

text \<open>Property C1: Whatever requests the API serves, one after the other and with any change of the tables by other requests
  between their statements that keeps to the same, with any failures of the database and of the clusters: the tables stay
  consistent (a template's numbers are unique and at most one of its versions is a draft, its current version is one that is no draft
  and it has one as soon as there is one, a release refers to a version that is no draft), a template keeps its name, owner and
  team, and a version that has been published keeps its number and its content for ever. Transactions are not serial: between
  their statements they see what others commit.\<close>

theorem api_keeps_published:
  assumes "store_ok (tables w)" and "\<And>n d. store_ok d \<Longrightarrow> store_ok (others w n d) \<and> keeps d (others w n d)"
  shows "store_ok (tables (snd (serve_all E rs w))) \<and> keeps (tables w) (tables (snd (serve_all E rs w)))"
proof -
  have "api.polite w" using assms(2) by (simp add: api.polite_def evolves_def)
  from serve_all_run [OF this assms(1), of E rs] assms(1) show ?thesis
    by (cases "serve_all E rs w") (simp add: evolves_def)
qed


definition demo_outside :: "(unit, cluster_view) outside" where
  "demo_outside = \<lparr>o_lib = demo_lib, o_w32 = (\<lambda>_. 0), o_hostname = (\<lambda>_. True), o_email = (\<lambda>_. True), o_url = (\<lambda>_. True),
     o_kube = easy_kube easy_docs, o_ctx = demo_ctx, o_verify = (\<lambda>_. Inr an_admin), o_admins = []\<rparr>"

lemma api_keeps_published_witness:
  "store_ok (tables (snd (serve_all demo_outside [(''Bearer t'', PublishR ''web'' ''2''), (''Bearer t'', DeprecateR ''web'' ''1'')] (quiet_world (\<lambda>_. None)))))"
  by (rule api_keeps_published [THEN conjunct1]) (simp_all add: quiet_world_def demo_ok keeps_refl)

section \<open>What only administrators change\<close>

definition same_admin :: "db \<Rightarrow> db \<Rightarrow> bool" where
  "same_admin d e \<longleftrightarrow> teams e = teams d \<and> members e = members d \<and> clusters_t e = clusters_t d"

text \<open>The tables provide the interface for this relation too.\<close>

interpretation adm: shared_store same_admin
  by unfold_locales (simp_all add: same_admin_def)

definition calm :: "('z, 'e, 'a) act \<Rightarrow> bool" where
  "calm m \<longleftrightarrow> adm.sat (\<lambda>_. True) m (\<lambda>_ _. True)"

lemma calm_steps:
  "calm (give x)" "calm (stop r)"
  "(\<And>e. x1 = Inl e \<Longrightarrow> calm (f1 e)) \<Longrightarrow> (\<And>y. x1 = Inr y \<Longrightarrow> calm (g1 y)) \<Longrightarrow> calm (case x1 of Inl e \<Rightarrow> f1 e | Inr y \<Rightarrow> g1 y)"
  "(x2 = None \<Longrightarrow> calm f2) \<Longrightarrow> (\<And>y. x2 = Some y \<Longrightarrow> calm (g2 y)) \<Longrightarrow> calm (case x2 of None \<Rightarrow> f2 | Some y \<Rightarrow> g2 y)"
  "(b \<Longrightarrow> calm m3) \<Longrightarrow> (\<not> b \<Longrightarrow> calm n3) \<Longrightarrow> calm (if b then m3 else n3)"
  "(\<And>a b. x4 = (a, b) \<Longrightarrow> calm (h4 a b)) \<Longrightarrow> calm (case x4 of (a, b) \<Rightarrow> h4 a b)"
  unfolding calm_def by (auto intro: adm.sat_give adm.sat_stop split: sum.splits option.splits prod.splits)

lemma calm_after: "calm m \<Longrightarrow> (\<And>x. calm (f x)) \<Longrightarrow> calm (after m f)"
  unfolding calm_def by (rule adm.sat_after)

lemma calm_query: "(\<And>d x e. q d = Inr (x, e) \<Longrightarrow> same_admin d e) \<Longrightarrow> calm (query q)"
  unfolding calm_def
  by (rule adm.sat_post [OF adm.sat_query [where Q = "\<lambda>_ _. True"]]) (auto simp: adm.stable_def)

lemma calm_cluster: "calm (on_cluster f)"
  by (auto simp: calm_def adm.sat_def on_cluster_def adm.polite_def adm.R_refl split: prod.splits)

definition calm_tx_body :: "('z, 'e, 'a) act \<Rightarrow> bool" where
  "calm_tx_body m \<longleftrightarrow> adm.tx_ok same_admin m (\<lambda>_. same_admin)"

lemma shared_admin: "adm.shared same_admin"
  by (auto simp: adm.shared_def same_admin_def merged_def)

lemma calm_tx: "calm_tx_body m \<Longrightarrow> calm (with_tx name m)"
  unfolding calm_def calm_tx_body_def
  by (rule adm.sat_post [OF adm.sat_tx [where Q = "\<lambda>_ _. True", OF _ _ _ shared_admin]]) (auto simp: adm.stable_def adm.R_refl)

text \<open>The statements that leave the three tables alone.\<close>

lemma calm_sql:
  "UpsertUser s em dn d = Inr (x1, e1) \<Longrightarrow> same_admin d e1"
  "GetTemplateVersion nm n d = Inr (x2, e2) \<Longrightarrow> same_admin d e2"
  "InsertTemplateV2 nm dis des tags owner team d = Inr (x3, e3) \<Longrightarrow> same_admin d e3"
  "UpdateTemplateMeta nm dis' des tags' d = Inr (x4, e4) \<Longrightarrow> same_admin d e4"
  "UpdateTemplateCurrentVersion i v d = Inr (x5, e5) \<Longrightarrow> same_admin d e5"
  "NextTemplateVersion i d = Inr (x6, e6) \<Longrightarrow> same_admin d e6"
  "InsertTemplateVersionV2 i n c st2 cr2 mo2 d = Inr (x7, e7) \<Longrightarrow> same_admin d e7"
  "PublishTemplateVersion i d = Inr (x8, e8) \<Longrightarrow> same_admin d e8"
  "SetTemplateVersionStatus i st2 d = Inr (x9, e9) \<Longrightarrow> same_admin d e9"
  "UpdateDraftTemplateVersion i res sp me no state1 d = Inr (x10, e10) \<Longrightarrow> same_admin d e10"
  "DeleteDraftTemplateVersion i d = Inr (x11, e11) \<Longrightarrow> same_admin d e11"
  "InsertRelease nm i c' ns vals ren us d = Inr (x12, e12) \<Longrightarrow> same_admin d e12"
  "UpdateReleaseValuesAndVersion i v vals ren d = Inr (x13, e13) \<Longrightarrow> same_admin d e13"
  "DeleteRelease_sql i d = Inr (x14, e14) \<Longrightarrow> same_admin d e14"
  "GetTemplateVersionByID i d = Inr (x15, e15) \<Longrightarrow> same_admin d e15"
  "ListReleases_sql cr' l off d = Inr (x16, e16) \<Longrightarrow> same_admin d e16"
  "ListTemplates_sql d = Inr (x17, e17) \<Longrightarrow> same_admin d e17"
  "ListTemplateVersions_sql nm d = Inr (x18, e18) \<Longrightarrow> same_admin d e18"
  "ListTeams_sql us' d = Inr (x19, e19) \<Longrightarrow> same_admin d e19"
  "ListTeamMembers_sql i d = Inr (x20, e20) \<Longrightarrow> same_admin d e20"
  "ListClusters_sql d = Inr (x21, e21) \<Longrightarrow> same_admin d e21"
  "GetTemplateByName nm d = Inr (x22, e22) \<Longrightarrow> same_admin d e22"
  "GetUserByOidcSubject s d = Inr (x23, e23) \<Longrightarrow> same_admin d e23"
  "GetTeamMembership i j d = Inr (x24, e24) \<Longrightarrow> same_admin d e24"
  "GetClusterByName nm d = Inr (x25, e25) \<Longrightarrow> same_admin d e25"
  "GetReleaseByID i d = Inr (x26, e26) \<Longrightarrow> same_admin d e26"
  by (auto simp: same_admin_def UpsertUser_def GetTemplateVersion_def InsertTemplateV2_def UpdateTemplateMeta_def UpdateTemplateCurrentVersion_def
      NextTemplateVersion_def InsertTemplateVersionV2_def PublishTemplateVersion_def SetTemplateVersionStatus_def UpdateDraftTemplateVersion_def
      change_version_def DeleteDraftTemplateVersion_def InsertRelease_def UpdateReleaseValuesAndVersion_def DeleteRelease_sql_def
      GetTemplateVersionByID_def ListReleases_sql_def ListTemplates_sql_def ListTemplateVersions_sql_def ListTeams_sql_def
      ListTeamMembers_sql_def ListClusters_sql_def Let_def dest!: one_rowD read_only split: option.splits if_splits)

lemma calm_body:
  assumes q: "\<And>d x e. q d = Inr (x, e) \<Longrightarrow> same_admin d e"
  shows "calm_tx_body (tx_stmt q)"
  unfolding calm_tx_body_def by (rule adm.tx_stmt_ok [OF shared_admin]) (use q adm.R_trans in blast)

lemma calm_tx_after: "calm_tx_body m \<Longrightarrow> (\<And>x. calm_tx_body (f x)) \<Longrightarrow> calm_tx_body (after m f)"
  unfolding calm_tx_body_def by (rule adm.tx_after)

lemma calm_tx_error: "calm_tx_body m \<Longrightarrow> calm_tx_body (on_error g m)"
  unfolding calm_tx_body_def by (rule adm.tx_on_error)

lemma calm_end: "calm_tx_body (give y)"
  unfolding calm_tx_body_def by (simp add: adm.tx_give)

lemmas calm_rules = calm_steps calm_after calm_query calm_cluster calm_tx calm_body calm_tx_after calm_tx_error calm_end

lemmas template_handlers = ListTemplates_def GetTemplate_def ListTemplateVersions_def GetVersion_def CreateTemplate_def CreateTemplateVersion_def
  PublishVersion_def DeprecateVersion_def UndeprecateVersion_def setVersionStatus_def DeleteTemplateVersion_def UpdateTemplateVersion_def
  UpdateTemplate_def PreviewRender_def resolveTemplateVersion_def PreviewTemplate_def ensureTemplateEditor_def ensureTeamEditor_def

lemmas other_handlers = CreateRelease_def ListReleases_def GetRelease_def StreamReleaseLogs_def DeleteRelease_def UpdateRelease_def CheckSelfSubjectAccess_def
  authorizeReleaseAccess_def resolveUser_def ListTeams_def ListTeamMembers_def ListClusters_def GetMe_def

lemma calm_handlers:
  "calm ListTemplates" "calm (GetTemplate nm)" "calm (ListTemplateVersions nm)" "calm (GetVersion nm v)" "calm (CreateTemplate lib u b1)"
  "calm (CreateTemplateVersion lib u nm b2)" "calm (PublishVersion u nm v)" "calm (DeprecateVersion u nm v)" "calm (UndeprecateVersion u nm v)"
  "calm (DeleteTemplateVersion u nm v)" "calm (UpdateTemplateVersion lib u nm v b3)" "calm (UpdateTemplate u nm b4)" "calm (PreviewRender lib nm v b5)"
  "calm (PreviewTemplate lib b6)"
  unfolding template_handlers Let_def by ((rule calm_rules | erule calm_sql)+)

lemma calm_others:
  "calm (CreateRelease lib hn K ctx u b1)" "calm (ListReleases u l off)" "calm (GetRelease lib w32 K u i)" "calm (DeleteRelease lib K ctx u i f)"
  "calm (UpdateRelease lib K ctx u i b2)" "calm (CheckSelfSubjectAccess K u b3)" "calm (ListTeams u)" "calm (ListTeamMembers lib u i)"
  "calm ListClusters" "calm (GetMe u)" "calm (StreamReleaseLogs lib w32 K u i inst)"
  unfolding other_handlers Let_def by ((rule calm_rules | erule calm_sql)+)


lemma calm_answer:
  assumes "answer_with f m w = (r, w')" and "calm m" and "adm.polite w"
  shows "same_admin (tables w) (tables w')"
  using adm.sat_run [of "\<lambda>_. True" m "\<lambda>_ _. True" w] assms
  by (auto simp: calm_def answer_with_def split: prod.splits)

lemma calm_dispatch:
  assumes "adm.polite w" and "\<not> isAdmin u" and "dispatch E u req w = (r, w')"
  shows "same_admin (tables w) (tables w')"
proof -
  have no: "calm (requireAdmin u m)" for m :: "(('k, 'z) kworld_ext, team_body api_reply, team_body api_reply) act"
    using assms(2) by (simp add: requireAdmin_def isAdmin_def calm_steps)
  show ?thesis
    using assms(3)
    by (cases req) (simp_all add: dispatch_def Let_def, (erule calm_answer [OF _ _ assms(1)], rule calm_handlers calm_others no)+)
qed

text \<open>Property C13: Only administrators change the teams, who belongs to them in which role, and the registered clusters: after any request of
  anyone else the three tables are what they were, even if other requests, which change none of them, run beside it and the database
  fails at any statement. A caller is an administrator by a group of his token or by his address in the server's environment.\<close>

theorem only_admins_administrate:
  assumes "\<And>n d. same_admin d (others w n d)"
    and "requireAuth (o_verify E) (o_admins E) header = (Inr u :: any_body api_reply + caller)" and "\<not> isAdmin u"
  shows "same_admin (tables w) (tables (snd (api_serve E header req w)))"
proof -
  have "adm.polite w" using assms(1) by (simp add: adm.polite_def)
  moreover obtain r w' where "dispatch E u req w = (r, w')" by fastforce
  ultimately show ?thesis using calm_dispatch [OF _ assms(3)] assms(2) by (simp add: api_serve_def)
qed

lemma only_admins_administrate_witness:
  "same_admin demo_db (tables (snd (api_serve (demo_outside\<lparr>o_verify := (\<lambda>_. Inr a_user)\<rparr>) ''Bearer t'' (CreateTeamR (Inr (''ops'', []))) (quiet_world (\<lambda>_. None)))))"
proof -
  have r: "requireAuth (\<lambda>_. Inr a_user) [] ''Bearer t'' = (Inr a_user :: any_body api_reply + caller)"
    by (simp add: requireAuth_def bearer_scheme_def a_user_def)
  have "same_admin (tables (quiet_world ((\<lambda>_. None) :: cluster_view))) (tables (snd (api_serve (demo_outside\<lparr>o_verify := (\<lambda>_. Inr a_user)\<rparr>) ''Bearer t''
      (CreateTeamR (Inr (''ops'', []))) (quiet_world (\<lambda>_. None)))))"
    by (rule only_admins_administrate [where u = a_user])
      (use r in \<open>simp_all add: quiet_world_def adm.R_refl demo_outside_def isAdmin_def a_user_def\<close>)
  then show ?thesis by (simp add: quiet_world_def)
qed

end
