(* ===== verification/Pod_Logs.thy ===== *)
theory Pod_Logs
  imports Log_Stream
begin

text \<open>
  The stream of a release's logs as the Go API sends it: one goroutine per pod reads the pod's log and puts the lines
  into a shared channel (\<open>backend/internal/k8s/logs.go\<close>), and the handler's loop (\<open>backend/internal/api/release_logs.go\<close>)
  takes them out and sends them to the browser, whose panel is \<open>Log_Stream\<close>.

  The goroutines and the loop run in any interleaving, so a step is a relation. What a pod's log gives is a
  parameter: the error of opening it, if there is one, and the result of its n-th scan. A scan that waits for
  a line is a step that is not taken. A pod is followed once.
\<close>

section \<open>The goroutines\<close>

datatype scan = Line string | Ended | Broken string

text \<open>Where a goroutine is: before it has opened the log, before its n-th scan, before it has sent the n-th line, before it has
  sent its error, or finished. What it does to the channels in a step: nothing, a line or an error.\<close>

datatype reader = Opening | Reading nat | Holding nat string | Failing string | Gone

datatype channel_act = Quiet | Send string | Report string

definition open_error :: "string \<Rightarrow> string \<Rightarrow> string" where
  "open_error p e = ''pod '' @ p @ '': '' @ e"

definition scan_error :: "string \<Rightarrow> string \<Rightarrow> string" where
  "scan_error p e = ''pod '' @ p @ '' scan: '' @ e"

inductive reads :: "(string \<Rightarrow> string option) \<Rightarrow> (string \<Rightarrow> nat \<Rightarrow> scan) \<Rightarrow> bool \<Rightarrow> string \<Rightarrow> reader \<Rightarrow> channel_act \<Rightarrow> reader \<Rightarrow> bool"
  for opens source cancelled p where
  opened: "opens p = None \<Longrightarrow> reads opens source cancelled p Opening Quiet (Reading 0)"
| refused: "opens p = Some e \<Longrightarrow> reads opens source cancelled p Opening Quiet (Failing (open_error p e))"
| open_cut: "cancelled \<Longrightarrow> reads opens source cancelled p Opening Quiet (Failing (open_error p e))"
| scanned: "source p n = Line t \<Longrightarrow> reads opens source cancelled p (Reading n) Quiet (Holding n t)"
| ended: "source p n = Ended \<Longrightarrow> reads opens source cancelled p (Reading n) Quiet Gone"
| broken: "source p n = Broken e \<Longrightarrow> reads opens source cancelled p (Reading n) Quiet (Failing (scan_error p e))"
| scan_cut: "cancelled \<Longrightarrow> reads opens source cancelled p (Reading n) Quiet (Failing (scan_error p e))"
| send: "reads opens source cancelled p (Holding n t) (Send t) (Reading (Suc n))"
| give_up: "cancelled \<Longrightarrow> reads opens source cancelled p (Holding n t) Quiet Gone"
| report: "reads opens source cancelled p (Failing e) (Report e) Gone"

inductive_cases reads_GoneE: "reads opens source c p Gone a r"

section \<open>The channels and the handler's loop\<close>

text \<open>What the loop sends: the time of a ping, an error, or a line with its time and pod.\<close>

datatype sse = Ping int | ErrorData string | LogData int string string

record log_server =
  readers :: "(string \<times> reader) list"
  ch :: "(string \<times> string) list"
  errCh :: "string list"
  ch_closed :: bool
  err_closed :: bool
  cancelled :: bool
  sent :: "sse list"
  over :: bool

definition StreamPodLogs :: "string list \<Rightarrow> log_server" where
  "StreamPodLogs pods = \<lparr>readers = map (\<lambda>p. (p, Opening)) pods, ch = [], errCh = [], ch_closed = False, err_closed = False,
     cancelled = False, sent = [], over = False\<rparr>"

text \<open>A channel takes as many values as it has room for: 64 lines, an error per pod.\<close>

fun has_room :: "channel_act \<Rightarrow> log_server \<Rightarrow> bool" where
  "has_room Quiet s = True"
| "has_room (Send t) s = (length (ch s) < 64)"
| "has_room (Report e) s = (length (errCh s) < length (readers s))"

fun put :: "channel_act \<Rightarrow> string \<Rightarrow> log_server \<Rightarrow> log_server" where
  "put Quiet p s = s"
| "put (Send t) p s = s\<lparr>ch := ch s @ [(p, t)]\<rparr>"
| "put (Report e) p s = s\<lparr>errCh := errCh s @ [e]\<rparr>"

definition all_gone :: "log_server \<Rightarrow> bool" where
  "all_gone s \<longleftrightarrow> list_all (\<lambda>x. snd x = Gone) (readers s)"

text \<open>The loop takes any of the cases that are ready. \<open>leaves\<close> says whether the client may leave; when the loop ends, the
  goroutines' context is cancelled too.\<close>

inductive log_step :: "(string \<Rightarrow> string option) \<Rightarrow> (string \<Rightarrow> nat \<Rightarrow> scan) \<Rightarrow> bool \<Rightarrow> log_server \<Rightarrow> log_server \<Rightarrow> bool"
  for opens source leaves where
  reader: "\<lbrakk>i < length (readers s); readers s ! i = (p, r); reads opens source (cancelled s) p r a r'; has_room a s\<rbrakk>
    \<Longrightarrow> log_step opens source leaves s (put a p (s\<lparr>readers := (readers s)[i := (p, r')]\<rparr>))"
| close_ch: "\<lbrakk>all_gone s; \<not> ch_closed s\<rbrakk> \<Longrightarrow> log_step opens source leaves s (s\<lparr>ch_closed := True\<rparr>)"
| close_err: "\<lbrakk>ch_closed s; \<not> err_closed s\<rbrakk> \<Longrightarrow> log_step opens source leaves s (s\<lparr>err_closed := True\<rparr>)"
| leave: "\<lbrakk>leaves; \<not> cancelled s\<rbrakk> \<Longrightarrow> log_step opens source leaves s (s\<lparr>cancelled := True\<rparr>)"
| on_done: "\<lbrakk>\<not> over s; cancelled s\<rbrakk> \<Longrightarrow> log_step opens source leaves s (s\<lparr>over := True\<rparr>)"
| on_ping: "\<not> over s \<Longrightarrow> log_step opens source leaves s (s\<lparr>sent := sent s @ [Ping t]\<rparr>)"
| on_error: "\<lbrakk>\<not> over s; errCh s = e # es\<rbrakk> \<Longrightarrow> log_step opens source leaves s (s\<lparr>errCh := es, sent := sent s @ [ErrorData e]\<rparr>)"
| on_error_closed: "\<lbrakk>\<not> over s; errCh s = []; err_closed s\<rbrakk> \<Longrightarrow> log_step opens source leaves s (s\<lparr>over := True, cancelled := True\<rparr>)"
| on_line: "\<lbrakk>\<not> over s; ch s = (p, t) # ls\<rbrakk> \<Longrightarrow> log_step opens source leaves s (s\<lparr>ch := ls, sent := sent s @ [LogData now p t]\<rparr>)"
| on_lines_closed: "\<lbrakk>\<not> over s; ch s = []; ch_closed s\<rbrakk> \<Longrightarrow> log_step opens source leaves s (s\<lparr>over := True, cancelled := True\<rparr>)"

section \<open>What holds in every state\<close>

text \<open>The first \<open>k\<close> lines of a pod's log, and the lines of a pod on their way to the browser.\<close>

fun line_text :: "scan \<Rightarrow> string" where
  "line_text (Line t) = t"
| "line_text _ = []"

definition log_of :: "(string \<Rightarrow> nat \<Rightarrow> scan) \<Rightarrow> string \<Rightarrow> nat \<Rightarrow> string list" where
  "log_of source p k = map (\<lambda>j. line_text (source p j)) [0..<k]"

definition has_lines :: "(string \<Rightarrow> nat \<Rightarrow> scan) \<Rightarrow> string \<Rightarrow> nat \<Rightarrow> bool" where
  "has_lines source p k \<longleftrightarrow> (\<forall>j < k. \<exists>t. source p j = Line t)"

definition lines_sent :: "string \<Rightarrow> sse list \<Rightarrow> string list" where
  "lines_sent p es = List.map_filter (\<lambda>e. case e of LogData _ q t \<Rightarrow> if q = p then Some t else None | _ \<Rightarrow> None) es"

definition lines_waiting :: "string \<Rightarrow> (string \<times> string) list \<Rightarrow> string list" where
  "lines_waiting p ls = map snd (filter (\<lambda>l. fst l = p) ls)"

definition errors_sent :: "sse list \<Rightarrow> nat" where
  "errors_sent es = length (filter (\<lambda>e. case e of ErrorData _ \<Rightarrow> True | _ \<Rightarrow> False) es)"

fun read_so_far :: "(string \<Rightarrow> nat \<Rightarrow> scan) \<Rightarrow> string \<Rightarrow> reader \<Rightarrow> nat \<Rightarrow> bool" where
  "read_so_far source p Opening k = (k = 0)"
| "read_so_far source p (Reading n) k = (k = n)"
| "read_so_far source p (Holding n t) k = (k = n \<and> source p n = Line t)"
| "read_so_far source p _ k = True"

definition gone_count :: "log_server \<Rightarrow> nat" where
  "gone_count s = length (filter (\<lambda>x. snd x = Gone) (readers s))"

definition logs_ok :: "(string \<Rightarrow> nat \<Rightarrow> scan) \<Rightarrow> string list \<Rightarrow> log_server \<Rightarrow> bool" where
  "logs_ok source pods s \<longleftrightarrow> map fst (readers s) = pods
     \<and> (\<forall>x \<in> set (readers s). \<exists>k. lines_sent (fst x) (sent s) @ lines_waiting (fst x) (ch s) = log_of source (fst x) k
         \<and> has_lines source (fst x) k \<and> read_so_far source (fst x) (snd x) k)
     \<and> fst ` set (ch s) \<subseteq> set pods \<and> (\<forall>p. lines_sent p (sent s) \<noteq> [] \<longrightarrow> p \<in> set pods)
     \<and> length (ch s) \<le> 64 \<and> length (errCh s) + errors_sent (sent s) \<le> gone_count s
     \<and> (ch_closed s \<longrightarrow> all_gone s) \<and> (err_closed s \<longrightarrow> ch_closed s) \<and> (over s \<longrightarrow> cancelled s)"


lemma lines_sent_simps [simp]:
  "lines_sent p [] = []" "lines_sent p (es @ [Ping tm]) = lines_sent p es" "lines_sent p (es @ [ErrorData m]) = lines_sent p es"
  "lines_sent p (es @ [LogData now q t]) = lines_sent p es @ (if q = p then [t] else [])"
  by (simp_all add: lines_sent_def map_filter_snoc)

lemma errors_sent_simps [simp]:
  "errors_sent [] = 0" "errors_sent (es @ [Ping tm]) = errors_sent es" "errors_sent (es @ [ErrorData m]) = Suc (errors_sent es)"
  "errors_sent (es @ [LogData now q t]) = errors_sent es"
  by (simp_all add: errors_sent_def)

lemma lines_waiting_simps [simp]:
  "lines_waiting p [] = []" "lines_waiting p ((q, t) # ls) = (if q = p then [t] else []) @ lines_waiting p ls"
  "lines_waiting p (ls @ [(q, t)]) = lines_waiting p ls @ (if q = p then [t] else [])"
  by (simp_all add: lines_waiting_def)

lemma log_of_Suc: "log_of source p (Suc k) = log_of source p k @ [line_text (source p k)]"
  by (simp add: log_of_def)

lemma length_filter_update:
  "i < length xs \<Longrightarrow> length (filter P (xs[i := y])) + (if P (xs ! i) then 1 else 0) = length (filter P xs) + (if P y then 1 else 0)"
proof (induction xs arbitrary: i)
  case (Cons x xs)
  then show ?case by (cases i) auto
qed simp

lemma all_gone_count: "all_gone s \<longleftrightarrow> gone_count s = length (readers s)"
proof -
  have "(\<forall>x \<in> set xs. P x) \<longleftrightarrow> length (filter P xs) = length xs" for P :: "string \<times> reader \<Rightarrow> bool" and xs
  proof (cases "\<forall>x \<in> set xs. P x")
    case False
    then obtain x where "x \<in> set xs" "\<not> P x" by blast
    then have "length (filter P xs) < length xs" by (rule length_filter_less)
    with False show ?thesis by simp
  qed simp
  from this [of "readers s" "\<lambda>x. snd x = Gone"] show ?thesis unfolding all_gone_def gone_count_def list_all_iff .
qed

text \<open>The one line a reader sends in a step, and how far it has read then.\<close>

fun line_of_act :: "channel_act \<Rightarrow> string list" where
  "line_of_act (Send t) = [t]"
| "line_of_act _ = []"

lemma reads_on:
  assumes "reads opens source c p r a r'" and "read_so_far source p r k" and "has_lines source p k"
  shows "\<exists>k'. log_of source p k @ line_of_act a = log_of source p k' \<and> has_lines source p k' \<and> read_so_far source p r' k'"
proof (cases "\<exists>t. a = Send t")
  case True
  with assms(1) obtain n t where "a = Send t" "r = Holding n t" "r' = Reading (Suc n)" by (auto elim: reads.cases)
  with assms(2,3) have "log_of source p k @ line_of_act a = log_of source p (Suc n) \<and> has_lines source p (Suc n) \<and> read_so_far source p r' (Suc n)"
    by (auto simp: log_of_Suc has_lines_def less_Suc_eq)
  then show ?thesis by blast
next
  case False
  with assms(1,2) have "line_of_act a = [] \<and> read_so_far source p r' k" by (cases rule: reads.cases) simp_all
  with assms(3) show ?thesis by auto
qed

lemma put_fields [simp]:
  "readers (put a p s) = readers s" "sent (put a p s) = sent s" "ch_closed (put a p s) = ch_closed s" "err_closed (put a p s) = err_closed s"
  "cancelled (put a p s) = cancelled s" "over (put a p s) = over s"
  by (cases a; simp)+

lemma put_lines:
  "lines_waiting q (ch (put a p s)) = lines_waiting q (ch s) @ (if q = p then line_of_act a else [])"
  "set (ch (put a p s)) \<subseteq> insert (p, hd (line_of_act a)) (set (ch s))"
  "has_room a s \<Longrightarrow> length (ch s) \<le> 64 \<Longrightarrow> length (ch (put a p s)) \<le> 64"
  by (cases a; auto)+

lemma reads_not_gone: "reads opens source c p r a r' \<Longrightarrow> r \<noteq> Gone"
  by (auto elim: reads.cases)

lemma reads_report: "reads opens source c p r (Report e) r' \<Longrightarrow> r' = Gone"
  by (auto elim: reads.cases)

lemma start_ok: "logs_ok source pods (StreamPodLogs pods)"
proof -
  have [simp]: "length (filter (\<lambda>x. snd x = Gone) (map (\<lambda>p. (p, Opening)) ps)) = 0" for ps :: "string list" by (induction ps) auto
  show ?thesis by (auto simp: logs_ok_def StreamPodLogs_def log_of_def has_lines_def gone_count_def comp_def intro: exI [of _ 0])
qed

lemma reader_keeps:
  assumes ok: "logs_ok source pods s" and "distinct pods" and i: "i < length (readers s)" "readers s ! i = (p, r)"
    and step: "reads opens source (cancelled s) p r a r'" and room: "has_room a s"
  shows "logs_ok source pods (put a p (s\<lparr>readers := (readers s)[i := (p, r')]\<rparr>))"
proof -
  let ?s = "put a p (s\<lparr>readers := (readers s)[i := (p, r')]\<rparr>)"
  have "map fst ((readers s)[i := (p, r')]) = map fst (readers s)" using i by (metis fst_conv list_update_id map_update)
  with ok have names: "map fst (readers ?s) = pods" by (simp add: logs_ok_def)
  have dist: "distinct (map fst (readers s))" using ok assms(2) by (simp add: logs_ok_def)
  have here: "(p, r) \<in> set (readers s)" using i nth_mem by force
  have lines: "\<exists>k. lines_sent (fst x) (sent ?s) @ lines_waiting (fst x) (ch ?s) = log_of source (fst x) k
      \<and> has_lines source (fst x) k \<and> read_so_far source (fst x) (snd x) k" if x: "x \<in> set (readers ?s)" for x
  proof (cases "x = (p, r')")
    case True
    from ok here obtain k where k: "lines_sent p (sent s) @ lines_waiting p (ch s) = log_of source p k" "has_lines source p k"
      "read_so_far source p r k" unfolding logs_ok_def by (auto dest!: bspec [OF _ here])
    from reads_on [OF step k(3,2)] True k(1) show ?thesis by (auto simp: put_lines(1) simp flip: append_assoc)
  next
    case False
    moreover have "distinct (readers s)" using dist by (simp add: distinct_map)
    ultimately have "x \<in> set (readers s)" "x \<noteq> (p, r)" using x i by (auto simp: set_update_distinct)
    moreover have "fst x \<noteq> p" using calculation dist here by (metis eq_key_imp_eq_value prod.collapse)
    ultimately show ?thesis using ok by (simp add: logs_ok_def put_lines(1))
  qed
  have "r \<noteq> Gone" by (rule reads_not_gone [OF step])
  with length_filter_update [OF i(1), of "\<lambda>x. snd x = Gone" "(p, r')"] i(2)
  have count: "gone_count ?s = gone_count s + (if r' = Gone then 1 else 0)" by (simp add: gone_count_def)
  have errs: "length (errCh ?s) \<le> length (errCh s) + (if r' = Gone then 1 else 0)"
    using reads_report step by (cases a) auto
  have open_still: "\<not> ch_closed s"
    using ok here \<open>r \<noteq> Gone\<close> by (auto simp: logs_ok_def all_gone_def list_all_iff)
  have "fst (p, r) \<in> set (map fst (readers s))" using here by (simp only: set_map image_eqI)
  with ok have "p \<in> set pods" by (simp add: logs_ok_def)
  then have from_pods: "fst ` set (ch ?s) \<subseteq> set pods" using ok by (cases a) (auto simp: logs_ok_def)
  show ?thesis
    using ok names lines count errs open_still from_pods put_lines(3) [OF room] unfolding logs_ok_def
    by (cases a) (auto simp del: map_update)
qed

lemma step_keeps:
  assumes ok: "logs_ok source pods s" and "distinct pods" and step: "log_step opens source leaves s s'"
  shows "logs_ok source pods s'"
  using step
proof cases
  case (reader i p r a r')
  with reader_keeps [OF ok assms(2)] show ?thesis by simp
next
  case (on_line p t ls now)
  have "lines_sent q (sent s') @ lines_waiting q (ch s') = lines_sent q (sent s) @ lines_waiting q (ch s)" for q
    using on_line by simp
  with ok on_line show ?thesis by (auto simp: logs_ok_def gone_count_def all_gone_def)
qed (use ok in \<open>simp_all add: logs_ok_def gone_count_def all_gone_def\<close>)

lemma run_keeps:
  assumes "(log_step opens source leaves)\<^sup>*\<^sup>* (StreamPodLogs pods) s" and "distinct pods"
  shows "logs_ok source pods s"
  using assms(1)
proof (induction rule: rtranclp_induct)
  case base
  show ?case by (rule start_ok)
next
  case (step t s)
  from step_keeps [OF step.IH assms(2) step.hyps(2)] show ?case .
qed

section \<open>What the browser shows\<close>

text \<open>The events as the browser sees them: the panel listens to \<open>log\<close> and \<open>error\<close>, whose data are printed by \<open>json.Marshal\<close> and
  parsed again.\<close>

definition seen_as :: "sse \<Rightarrow> stream_event list" where
  "seen_as e = (case e of Ping t \<Rightarrow> []
   | ErrorData m \<Rightarrow> [ErrorEvent 0 (Inr (JObj [(''error'', JStr m)]))]
   | LogData now p t \<Rightarrow> [LogEvent (Inr (JObj [(''pod'', JStr p), (''text'', JStr t), (''time'', JNum (Num (of_int now)))]))])"

text \<open>The lines of a pod among the panel's.\<close>

definition lines_shown :: "string \<Rightarrow> entry list \<Rightarrow> jsval list" where
  "lines_shown p ls = List.map_filter (\<lambda>l. if oget l ''kind'' = Some (JStr ''log'') \<and> oget l ''pod'' = Some (JStr p) then oget l ''text'' else None) ls"

lemma lines_shown_append: "lines_shown p (xs @ ys) = lines_shown p xs @ lines_shown p ys"
  by (simp add: lines_shown_def List.map_filter_def)

lemma lines_shown_lastn: "\<exists>m. lines_shown p (lastn n ls) = drop m (lines_shown p ls)"
proof -
  have "lines_shown p ls = lines_shown p (take (length ls - n) ls) @ lines_shown p (lastn n ls)"
    by (simp add: lastn_def flip: lines_shown_append)
  then show ?thesis by (metis append_eq_conv_conj)
qed

lemma lines_shown_Cons: "lines_shown p (l # ls) =
    (if oget l ''kind'' = Some (JStr ''log'') \<and> oget l ''pod'' = Some (JStr p) then (case oget l ''text'' of Some v \<Rightarrow> [v] | None \<Rightarrow> []) else []) @ lines_shown p ls"
  by (simp add: lines_shown_def split: option.split)

lemma lines_sent_Cons: "lines_sent p (e # es) = (case e of LogData _ q t \<Rightarrow> if q = p then [t] else [] | _ \<Rightarrow> []) @ lines_sent p es"
  by (simp add: lines_sent_def split: sse.split)

lemma seen_as_simps: "seen_as (Ping tm) = []" "seen_as (ErrorData m) = [ErrorEvent 0 (Inr (JObj [(''error'', JStr m)]))]"
  "seen_as (LogData now q t) = [LogEvent (Inr (JObj [(''pod'', JStr q), (''text'', JStr t), (''time'', JNum (Num (of_int now)))]))]"
  by (simp_all add: seen_as_def)

lemma appended_simps: "appended (LogEvent d) = log_entry d" "appended (ErrorEvent now d) = error_entry now d"
  by (simp_all add: appended_def)

lemma shown_seen: "lines_shown p (numbered n (List.map_filter appended (concat (map seen_as es)))) = map JStr (lines_sent p es)"
proof (induction es arbitrary: n)
  case Nil
  show ?case by (simp add: lines_shown_def lines_sent_def)
next
  case (Cons e es)
  show ?case
    by (cases e) (simp_all add: seen_as_simps appended_simps log_entry_def error_entry_def lines_shown_Cons lines_sent_Cons Cons.IH)
qed

lemma no_clear: "Cleared \<notin> set (concat (map seen_as es))"
  by (induction es) (auto simp: seen_as_def split: sse.splits)

definition panel_after :: "sse list \<Rightarrow> entry list" where
  "panel_after es = lines (foldl stream_step new_stream (concat (map seen_as es)))"

lemma panel_lines: "\<exists>m. lines_shown p (panel_after es) = drop m (map JStr (lines_sent p es))"
proof -
  have "lines (foldl stream_step new_stream (concat (map seen_as es))) =
      lastn 2000 (numbered (seqRef new_stream) (List.map_filter appended (concat (map seen_as es))))"
    using stream_steps [OF no_clear, of new_stream] by (simp add: new_stream_def)
  with lines_shown_lastn show ?thesis unfolding panel_after_def by (metis shown_seen)
qed

lemma take_first: "take n [0..<k] = [0..<min n k]"
  by (cases "n \<le> k") (simp_all add: min_def)

text \<open>Property C18: What the panel shows of a pod is a piece of its log without gaps and in order, whatever the goroutines, the loop, the
  clusters and the client do: from the API's goroutine through the shared channel and the events to the last 2000 lines. Other pods'
  lines come in between, and nothing is shown of a pod that was not asked for. The channels stay within their capacities, no line is sent
  to a closed channel, and a goroutine that has failed can always report it.\<close>

theorem log_stream_in_order:
  assumes "(log_step opens source leaves)\<^sup>*\<^sup>* (StreamPodLogs pods) s" and "distinct pods"
  shows "(\<exists>m k. lines_shown p (panel_after (sent s)) = drop m (map JStr (log_of source p k)) \<and> has_lines source p k
      \<and> (p \<notin> set pods \<longrightarrow> k = 0))
    \<and> length (ch s) \<le> 64 \<and> errors_sent (sent s) \<le> length pods
    \<and> ((q, r) \<in> set (readers s) \<and> r \<noteq> Gone \<longrightarrow> \<not> ch_closed s \<and> \<not> err_closed s \<and> length (errCh s) < length (readers s))"
proof -
  note ok = run_keeps [OF assms]
  obtain m where m: "lines_shown p (panel_after (sent s)) = drop m (map JStr (lines_sent p (sent s)))" using panel_lines by blast
  have "\<exists>k. lines_sent p (sent s) = log_of source p k \<and> has_lines source p k \<and> (p \<notin> set pods \<longrightarrow> k = 0)"
  proof (cases "p \<in> set pods")
    case True
    then obtain r where "(p, r) \<in> set (readers s)" using ok by (force simp: logs_ok_def)
    then obtain k where k: "lines_sent p (sent s) @ lines_waiting p (ch s) = log_of source p k" "has_lines source p k"
      using ok by (fastforce simp: logs_ok_def)
    then have "lines_sent p (sent s) = take (length (lines_sent p (sent s))) (log_of source p k)" by (metis append_eq_conv_conj)
    also have "\<dots> = log_of source p (min (length (lines_sent p (sent s))) k)" by (simp add: log_of_def take_map take_first)
    finally show ?thesis using k(2) True by (auto simp: has_lines_def)
  next
    case False
    with ok have "lines_sent p (sent s) = []" by (auto simp: logs_ok_def)
    with False show ?thesis by (auto simp: log_of_def has_lines_def intro: exI [of _ 0])
  qed
  moreover have "gone_count s < length (readers s)" if "(q, r) \<in> set (readers s)" "r \<noteq> Gone" for q r
    using length_filter_less [OF that(1)] that(2) by (simp add: gone_count_def)
  moreover have "gone_count s \<le> length pods" using ok by (auto simp: gone_count_def logs_ok_def intro: order_trans [OF length_filter_le])
  moreover have "\<not> ch_closed s" if "(q, r) \<in> set (readers s)" "r \<noteq> Gone" for q r
    using ok that by (auto simp: logs_ok_def all_gone_def list_all_iff)
  ultimately show ?thesis using m ok unfolding logs_ok_def by (smt (verit) add_leD1 add_leD2 le_trans order_le_less_trans)
qed

section \<open>After the loop has ended\<close>

fun weight :: "reader \<Rightarrow> nat" where
  "weight Opening = 5"
| "weight (Reading n) = 4"
| "weight (Holding n t) = 3"
| "weight (Failing e) = 1"
| "weight Gone = 0"

definition steps_left :: "log_server \<Rightarrow> nat" where
  "steps_left s = sum_list (map (\<lambda>x. weight (snd x)) (readers s)) + 2 * (64 - length (ch s))
     + (if ch_closed s then 0 else 1) + (if err_closed s then 0 else 1)"

lemma sum_list_update: "i < length xs \<Longrightarrow> sum_list (map f (xs[i := y])) + f (xs ! i) = sum_list (map f xs) + (f y :: nat)"
proof (induction xs arbitrary: i)
  case (Cons x xs)
  then show ?case by (cases i) auto
qed simp

lemma reads_weight: "reads opens source c p r a r' \<Longrightarrow> weight r' + 1 \<le> weight r + 2 * length (line_of_act a)"
  by (auto elim: reads.cases)

lemma over_step:
  assumes "over s" and "cancelled s" and "log_step opens source leaves s s'"
  shows "over s' \<and> cancelled s' \<and> steps_left s' < steps_left s"
  using assms(3)
proof cases
  case (reader i p r a r')
  with sum_list_update [OF reader(2), of "\<lambda>x. weight (snd x)" "(p, r')"] reads_weight [OF reader(4)] assms(1,2) show ?thesis
    by (cases a) (auto simp: steps_left_def)
qed (use assms in \<open>simp_all add: steps_left_def\<close>)

lemma over_run:
  assumes "(log_step opens source leaves ^^ n) s s'" and "over s" and "cancelled s"
  shows "over s' \<and> cancelled s' \<and> n + steps_left s' \<le> steps_left s"
  using assms(1)
proof (induction n arbitrary: s')
  case 0
  with assms show ?case by simp
next
  case (Suc n)
  then obtain t where "(log_step opens source leaves ^^ n) s t" "log_step opens source leaves t s'" by auto
  with Suc.IH over_step show ?case by (metis Suc_leI add_Suc add_le_cancel_left add_mono_thms_linordered_semiring(1) le_trans not_less_eq_eq order_less_imp_le trans_le_add2)
qed

lemma steps_left_bound: "steps_left s \<le> 5 * length (readers s) + 130"
proof -
  have "sum_list (map (\<lambda>x. weight (snd x)) xs) \<le> 5 * length xs" for xs :: "(string \<times> reader) list"
  proof (induction xs)
    case (Cons x xs)
    have "weight (snd x) \<le> 5" by (cases "snd x") auto
    with Cons show ?case by simp
  qed simp
  moreover have "2 * (64 - length (ch s)) \<le> 128" by simp
  ultimately have "sum_list (map (\<lambda>x. weight (snd x)) (readers s)) + 2 * (64 - length (ch s)) \<le> 5 * length (readers s) + 128"
    by (rule add_mono)
  then show ?thesis by (simp add: steps_left_def)
qed

lemma reader_can:
  assumes "r \<noteq> Gone" and "length (errCh s) < length (readers s)"
  shows "\<exists>a r'. reads opens source True p r a r' \<and> has_room a s"
proof (cases r)
  case Opening
  have "reads opens source True p Opening Quiet (Failing (open_error p []))" by (rule reads.open_cut) simp
  with Opening show ?thesis by (metis has_room.simps(1))
next
  case (Reading n)
  have "reads opens source True p (Reading n) Quiet (Failing (scan_error p []))" by (rule reads.scan_cut) simp
  with Reading show ?thesis by (metis has_room.simps(1))
next
  case (Holding n t)
  have "reads opens source True p (Holding n t) Quiet Gone" by (rule reads.give_up) simp
  with Holding show ?thesis by (metis has_room.simps(1))
next
  case (Failing e)
  have "reads opens source True p (Failing e) (Report e) Gone" by (rule reads.report)
  with Failing assms(2) show ?thesis by (metis has_room.simps(3))
qed (use assms in simp)

lemma nothing_left:
  assumes ok: "logs_ok source pods s" and c: "cancelled s" and stuck: "\<And>t. \<not> log_step opens source leaves s t"
  shows "all_gone s \<and> ch_closed s \<and> err_closed s"
proof -
  have gone: "all_gone s"
  proof (rule ccontr)
    assume "\<not> all_gone s"
    then obtain x where "x \<in> set (readers s)" "snd x \<noteq> Gone" by (auto simp: all_gone_def list_all_iff)
    then obtain i where i: "i < length (readers s)" "readers s ! i = x" by (auto simp: in_set_conv_nth)
    have "gone_count s < length (readers s)"
      using length_filter_less [OF \<open>x \<in> set (readers s)\<close>, of "\<lambda>x. snd x = Gone"] \<open>snd x \<noteq> Gone\<close> by (simp add: gone_count_def)
    with ok have "length (errCh s) < length (readers s)" by (simp add: logs_ok_def)
    from reader_can [OF \<open>snd x \<noteq> Gone\<close> this] obtain a r' where "reads opens source True (fst x) (snd x) a r'" "has_room a s" by blast
    with c have "reads opens source (cancelled s) (fst x) (snd x) a r'" by simp
    from log_step.reader [of _ s, OF i(1) _ this \<open>has_room a s\<close>] i(2) stuck show False by (metis prod.collapse)
  qed
  have closed: "ch_closed s"
  proof (rule ccontr)
    assume "\<not> ch_closed s"
    from log_step.close_ch [OF gone this] stuck show False by metis
  qed
  have "err_closed s"
  proof (rule ccontr)
    assume "\<not> err_closed s"
    from log_step.close_err [OF closed this] stuck show False by metis
  qed
  with gone closed show ?thesis by simp
qed

text \<open>Property C19: No goroutine outlives the request: once the loop has ended, because the client has left or the stream is complete, at
  most \<open>5 * n + 130\<close> more steps are taken for \<open>n\<close> pods, whatever the pods' logs give, and where no step is possible every
  goroutine has finished and both channels are closed.\<close>

theorem log_goroutines_end:
  assumes "(log_step opens source leaves)\<^sup>*\<^sup>* (StreamPodLogs pods) s" and "distinct pods" and "over s"
  shows "((log_step opens source leaves ^^ n) s s' \<longrightarrow> n \<le> 5 * length pods + 130)
    \<and> ((log_step opens source leaves)\<^sup>*\<^sup>* s t \<and> (\<forall>t'. \<not> log_step opens source leaves t t')
        \<longrightarrow> all_gone t \<and> ch_closed t \<and> err_closed t)"
proof (intro conjI impI)
  note ok = run_keeps [OF assms(1,2)]
  have c: "cancelled s" using ok assms(3) by (simp add: logs_ok_def)
  have pods: "length (readers s) = length pods" using ok by (auto simp: logs_ok_def)
  show "n \<le> 5 * length pods + 130" if "(log_step opens source leaves ^^ n) s s'"
    using over_run [OF that assms(3) c] steps_left_bound [of s] pods by linarith
  assume t: "(log_step opens source leaves)\<^sup>*\<^sup>* s t \<and> (\<forall>t'. \<not> log_step opens source leaves t t')"
  then obtain k where "(log_step opens source leaves ^^ k) s t" by (auto dest: rtranclp_imp_relpowp)
  from over_run [OF this assms(3) c] have "cancelled t" by simp
  moreover have "logs_ok source pods t" using run_keeps [OF rtranclp_trans [OF assms(1)] assms(2)] t by blast
  ultimately have "all_gone t \<and> ch_closed t \<and> err_closed t" using nothing_left t by blast
  then show "all_gone t" "ch_closed t" "err_closed t" by simp_all
qed

section \<open>Lines that never arrive\<close>

text \<open>One pod, in the middle of its log.\<close>

definition one_pod :: "string \<Rightarrow> reader \<Rightarrow> (string \<times> string) list \<Rightarrow> sse list \<Rightarrow> log_server" where
  "one_pod p r waiting es = \<lparr>readers = [(p, r)], ch = waiting, errCh = [], ch_closed = False, err_closed = False, cancelled = False,
     sent = es, over = False\<rparr>"

lemma one_pod_step:
  assumes "reads opens source False p r a r'" and "has_room a (one_pod p r waiting es)"
  shows "log_step opens source leaves (one_pod p r waiting es) (put a p (one_pod p r' waiting es))"
proof -
  have "reads opens source (cancelled (one_pod p r waiting es)) p r a r'" using assms(1) by (simp add: one_pod_def)
  from log_step.reader [of 0 "one_pod p r waiting es" p r, OF _ _ this assms(2)] show ?thesis by (simp add: one_pod_def)
qed

lemma one_pod_scan:
  assumes "source p n = Line t" and "length waiting < 64"
  shows "(log_step opens source leaves)\<^sup>*\<^sup>* (one_pod p (Reading n) waiting es) (one_pod p (Reading (Suc n)) (waiting @ [(p, t)]) es)"
proof -
  have "log_step opens source leaves (one_pod p (Reading n) waiting es) (one_pod p (Holding n t) waiting es)"
    using one_pod_step [of opens source p "Reading n" Quiet "Holding n t" waiting es leaves] assms(1) by (simp add: reads.scanned)
  moreover have "log_step opens source leaves (one_pod p (Holding n t) waiting es) (one_pod p (Reading (Suc n)) (waiting @ [(p, t)]) es)"
    using one_pod_step [of opens source p "Holding n t" "Send t" "Reading (Suc n)" waiting es leaves] assms(2)
    by (simp add: reads.send one_pod_def)
  ultimately show ?thesis by (meson converse_rtranclp_into_rtranclp r_into_rtranclp)
qed

lemma one_pod_opened:
  assumes "opens p = None"
  shows "(log_step opens source leaves)\<^sup>*\<^sup>* (StreamPodLogs [p]) (one_pod p (Reading 0) [] [])"
proof -
  have "StreamPodLogs [p] = one_pod p Opening [] []" by (simp add: StreamPodLogs_def one_pod_def)
  moreover have "log_step opens source leaves (one_pod p Opening [] []) (one_pod p (Reading 0) [] [])"
    using one_pod_step [of opens source p Opening Quiet "Reading 0" "[]" "[]" leaves] assms by (simp add: reads.opened)
  ultimately show ?thesis by (simp add: r_into_rtranclp)
qed

lemma has_lines_Suc: "has_lines source p (Suc n) \<longleftrightarrow> has_lines source p n \<and> (\<exists>t. source p n = Line t)"
  by (auto simp: has_lines_def less_Suc_eq)

text \<open>The goroutine may fill the channel before the loop takes a line, or the loop take each line at once.\<close>

lemma one_pod_fill:
  assumes "has_lines source p n" and "n \<le> 64"
  shows "(log_step opens source leaves)\<^sup>*\<^sup>* (one_pod p (Reading 0) [] es) (one_pod p (Reading n) (map (Pair p) (log_of source p n)) es)"
  using assms
proof (induction n)
  case 0
  then show ?case by (simp add: log_of_def)
next
  case (Suc n)
  then obtain t where t: "source p n = Line t" "has_lines source p n" by (auto simp: has_lines_Suc)
  have "length (map (Pair p) (log_of source p n)) < 64" using Suc.prems(2) by (simp add: log_of_def)
  from one_pod_scan [of source, OF t(1) this, of opens leaves es] t Suc show ?case by (auto simp: log_of_Suc intro: rtranclp_trans)
qed

lemma one_pod_deliver:
  assumes "has_lines source p n"
  shows "(log_step opens source leaves)\<^sup>*\<^sup>* (one_pod p (Reading 0) [] []) (one_pod p (Reading n) [] (map (LogData now p) (log_of source p n)))"
  using assms
proof (induction n)
  case 0
  then show ?case by (simp add: log_of_def)
next
  case (Suc n)
  then obtain t where t: "source p n = Line t" "has_lines source p n" by (auto simp: has_lines_Suc)
  let ?es = "map (LogData now p) (log_of source p n)"
  have "log_step opens source leaves (one_pod p (Reading (Suc n)) [(p, t)] ?es) (one_pod p (Reading (Suc n)) [] (?es @ [LogData now p t]))"
    using log_step.on_line [of "one_pod p (Reading (Suc n)) [(p, t)] ?es" p t "[]" opens source leaves now] by (simp add: one_pod_def)
  with one_pod_scan [of source, OF t(1), of "[]" opens leaves ?es] have
    "(log_step opens source leaves)\<^sup>*\<^sup>* (one_pod p (Reading n) [] ?es) (one_pod p (Reading (Suc n)) [] (?es @ [LogData now p t]))"
    by (simp add: rtranclp.rtrancl_into_rtrancl)
  with Suc.IH [OF t(2)] t(1) show ?case by (auto simp: log_of_Suc intro: rtranclp_trans)
qed

text \<open>Once the goroutine has finished, both channels are closed, and the loop may end at once, or, if no line is left, ends.\<close>

lemma one_pod_close:
  "(log_step opens source leaves)\<^sup>*\<^sup>* (one_pod p Gone waiting es) ((one_pod p Gone waiting es)\<lparr>ch_closed := True, err_closed := True\<rparr>)"
proof -
  have "log_step opens source leaves (one_pod p Gone waiting es) ((one_pod p Gone waiting es)\<lparr>ch_closed := True\<rparr>)"
    by (rule log_step.close_ch) (simp_all add: one_pod_def all_gone_def)
  moreover have "log_step opens source leaves ((one_pod p Gone waiting es)\<lparr>ch_closed := True\<rparr>)
      ((one_pod p Gone waiting es)\<lparr>ch_closed := True, err_closed := True\<rparr>)"
    using log_step.close_err [of "(one_pod p Gone waiting es)\<lparr>ch_closed := True\<rparr>" opens source leaves] by (simp add: one_pod_def)
  ultimately show ?thesis by (meson converse_rtranclp_into_rtranclp r_into_rtranclp)
qed

lemma one_pod_end:
  "\<exists>s. (log_step opens source leaves)\<^sup>*\<^sup>* (one_pod p Gone waiting es) s \<and> over s \<and> sent s = es \<and> ch s = waiting"
proof -
  let ?s = "(one_pod p Gone waiting es)\<lparr>ch_closed := True, err_closed := True\<rparr>"
  have "log_step opens source leaves ?s (?s\<lparr>over := True, cancelled := True\<rparr>)"
    by (rule log_step.on_error_closed) (simp_all add: one_pod_def)
  with one_pod_close have "(log_step opens source leaves)\<^sup>*\<^sup>* (one_pod p Gone waiting es) (?s\<lparr>over := True, cancelled := True\<rparr>)"
    by (rule rtranclp.rtrancl_into_rtrancl)
  then show ?thesis by (rule exI [where x = "?s\<lparr>over := True, cancelled := True\<rparr>", OF conjI]) (simp add: one_pod_def)
qed

lemma one_pod_finish:
  assumes "source p n = Ended"
  shows "\<exists>s. (log_step opens source leaves)\<^sup>*\<^sup>* (one_pod p (Reading n) waiting es) s \<and> over s \<and> sent s = es \<and> ch s = waiting"
proof -
  have "log_step opens source leaves (one_pod p (Reading n) waiting es) (one_pod p Gone waiting es)"
    using one_pod_step [of opens source p "Reading n" Quiet Gone waiting es leaves] assms by (simp add: reads.ended)
  moreover obtain s where "(log_step opens source leaves)\<^sup>*\<^sup>* (one_pod p Gone waiting es) s" "over s \<and> sent s = es \<and> ch s = waiting"
    using one_pod_end by blast
  ultimately have "(log_step opens source leaves)\<^sup>*\<^sup>* (one_pod p (Reading n) waiting es) s" by (simp add: converse_rtranclp_into_rtranclp)
  with \<open>over s \<and> sent s = es \<and> ch s = waiting\<close> show ?thesis by blast
qed

text \<open>Property C20: Both channels are closed together, and a closed empty \<open>errCh\<close> is ready like a line that waits: the loop may end while up
  to 64 lines of a pod that has finished are still in the channel, and so nothing of a short log arrives, though the client
  stays and no call fails. In the same way the error of a pod whose log cannot be opened may be lost. Another
  run of the same pod delivers every line.\<close>

theorem last_lines_lost:
  assumes "has_lines source p n" and "source p n = Ended" and "n \<le> 64" and "opens p = None" and "opens q = Some e"
  shows "(\<exists>s. (log_step opens source False)\<^sup>*\<^sup>* (StreamPodLogs [p]) s \<and> over s \<and> sent s = [] \<and> map snd (ch s) = log_of source p n)
    \<and> (\<exists>s. (log_step opens source False)\<^sup>*\<^sup>* (StreamPodLogs [p]) s \<and> over s \<and> lines_sent p (sent s) = log_of source p n)
    \<and> (\<exists>s. (log_step opens source False)\<^sup>*\<^sup>* (StreamPodLogs [q]) s \<and> over s \<and> sent s = [] \<and> errCh s = [open_error q e])"
proof (intro conjI)
  note opened = one_pod_opened [of opens p source False, OF assms(4)]
  have texts: "map snd (map (Pair p) ts) = ts" "lines_sent p (map (LogData 0 p) ts) = ts" for ts :: "string list"
    by (simp_all add: comp_def) (induction ts, simp_all add: lines_sent_Cons)
  show "\<exists>s. (log_step opens source False)\<^sup>*\<^sup>* (StreamPodLogs [p]) s \<and> over s \<and> sent s = [] \<and> map snd (ch s) = log_of source p n"
    using opened one_pod_fill [OF assms(1,3), of opens False "[]"] one_pod_finish [of source, OF assms(2)] texts(1) by (metis (no_types, lifting) rtranclp_trans)
  show "\<exists>s. (log_step opens source False)\<^sup>*\<^sup>* (StreamPodLogs [p]) s \<and> over s \<and> lines_sent p (sent s) = log_of source p n"
    using opened one_pod_deliver [OF assms(1), of opens False 0] one_pod_finish [of source, OF assms(2)] texts(2) by (metis (no_types, lifting) rtranclp_trans)
  let ?m = "open_error q e" and ?f = "one_pod q Gone [] []"
  have "log_step opens source False (StreamPodLogs [q]) (one_pod q (Failing ?m) [] [])"
    using one_pod_step [of opens source q Opening Quiet "Failing ?m" "[]" "[]" False] assms(5)
    by (simp add: reads.refused StreamPodLogs_def one_pod_def)
  moreover have "log_step opens source False (one_pod q (Failing ?m) [] []) (?f\<lparr>errCh := [?m]\<rparr>)"
    using one_pod_step [of opens source q "Failing ?m" "Report ?m" Gone "[]" "[]" False] by (simp add: reads.report one_pod_def)
  moreover have "log_step opens source False (?f\<lparr>errCh := [?m]\<rparr>) (?f\<lparr>errCh := [?m], ch_closed := True\<rparr>)"
    using log_step.close_ch [of "?f\<lparr>errCh := [?m]\<rparr>" opens source False] by (simp add: one_pod_def all_gone_def)
  moreover have "log_step opens source False (?f\<lparr>errCh := [?m], ch_closed := True\<rparr>) (?f\<lparr>errCh := [?m], ch_closed := True, over := True, cancelled := True\<rparr>)"
    using log_step.on_lines_closed [of "?f\<lparr>errCh := [?m], ch_closed := True\<rparr>" opens source False] by (simp add: one_pod_def)
  ultimately have "(log_step opens source False)\<^sup>*\<^sup>* (StreamPodLogs [q]) (?f\<lparr>errCh := [?m], ch_closed := True, over := True, cancelled := True\<rparr>)"
    by (meson converse_rtranclp_into_rtranclp r_into_rtranclp)
  then show "\<exists>s. (log_step opens source False)\<^sup>*\<^sup>* (StreamPodLogs [q]) s \<and> over s \<and> sent s = [] \<and> errCh s = [open_error q e]"
    by (rule exI [where x = "?f\<lparr>errCh := [?m], ch_closed := True, over := True, cancelled := True\<rparr>", OF conjI]) (simp add: one_pod_def)
qed

definition two_lines :: "string \<Rightarrow> nat \<Rightarrow> scan" where
  "two_lines p n = (if n = 0 then Line ''a'' else if n = 1 then Line ''b'' else Ended)"

lemma two_lines: "has_lines two_lines p 2" "two_lines p 2 = Ended" "log_of two_lines p 2 = [''a'', ''b'']"
  by (simp_all add: has_lines_def two_lines_def log_of_def numeral_2_eq_2)

lemma last_lines_lost_witness:
  "\<exists>s. (log_step (\<lambda>p. if p = ''web'' then None else Some ''gone'') two_lines False)\<^sup>*\<^sup>* (StreamPodLogs [''web'']) s \<and> over s \<and> sent s = []
    \<and> map snd (ch s) = [''a'', ''b'']"
  using last_lines_lost [of two_lines "''web''" 2 "\<lambda>p. if p = ''web'' then None else Some ''gone''" "''db''" "''gone''"] two_lines by simp

lemma two_lines_over: "\<exists>s. (log_step (\<lambda>_. None) two_lines False)\<^sup>*\<^sup>* (StreamPodLogs [''web'']) s \<and> over s
    \<and> sent s = [LogData 0 ''web'' ''a'', LogData 0 ''web'' ''b'']"
proof -
  obtain s where s: "(log_step (\<lambda>_. None) two_lines False)\<^sup>*\<^sup>* (one_pod ''web'' (Reading 2) [] (map (LogData 0 ''web'') [''a'', ''b''])) s" "over s"
    "sent s = map (LogData 0 ''web'') [''a'', ''b'']"
    using one_pod_finish [of two_lines "''web''" 2 "\<lambda>_. None" False "[]" "map (LogData 0 ''web'') [''a'', ''b'']", OF two_lines(2)] by blast
  have a: "(log_step (\<lambda>_. None) two_lines False)\<^sup>*\<^sup>* (StreamPodLogs [''web'']) (one_pod ''web'' (Reading 0) [] [])"
    by (rule one_pod_opened) simp
  have b: "(log_step (\<lambda>_. None) two_lines False)\<^sup>*\<^sup>* (one_pod ''web'' (Reading 0) [] []) (one_pod ''web'' (Reading 2) [] (map (LogData 0 ''web'') [''a'', ''b'']))"
    using one_pod_deliver [OF two_lines(1), of "\<lambda>_. None" False "''web''" 0] unfolding two_lines(3) .
  from rtranclp_trans [OF a rtranclp_trans [OF b s(1)]] s(2,3) show ?thesis by (intro exI [of _ s]) simp
qed

lemma log_stream_in_order_witness:
  "\<exists>(s :: log_server) m k. lines_shown ''web'' (panel_after (sent s)) = drop m (map JStr (log_of two_lines ''web'' k)) \<and> sent s \<noteq> []"
proof -
  obtain s where s: "(log_step (\<lambda>_. None) two_lines False)\<^sup>*\<^sup>* (StreamPodLogs [''web'']) s" "sent s \<noteq> []" using two_lines_over by force
  have "distinct [''web'']" by simp
  from log_stream_in_order [where p = "''web''", OF s(1) this, THEN conjunct1] s(2)
  show ?thesis by blast
qed

lemma log_goroutines_end_witness:
  "\<exists>s. over s \<and> (\<forall>n s'. \<not> 135 < n \<or> \<not> (log_step (\<lambda>_. None) two_lines False ^^ n) s s')"
proof -
  obtain s where s: "(log_step (\<lambda>_. None) two_lines False)\<^sup>*\<^sup>* (StreamPodLogs [''web'']) s" "over s" using two_lines_over by blast
  from log_goroutines_end [OF s(1) _ s(2), THEN conjunct1] s(2) show ?thesis by force
qed

lemma length_log_of: "length (log_of source p n) = n"
  by (simp add: log_of_def)

text \<open>The panel never closes its source, and a browser opens the stream again when it has ended, from the first line. So
  when a pod has finished, its log is shown once more for every new connection.\<close>

lemma reconnect_repeats:
  assumes "has_lines source p n" and "source p n = Ended" and "opens p = None" and "n \<le> 1000"
  shows "\<exists>s. (log_step opens source False)\<^sup>*\<^sup>* (StreamPodLogs [p]) s \<and> over s
    \<and> lines_shown p (lines (foldl stream_step new_stream
        (concat (map seen_as (sent s)) @ [ErrorEvent 0 (Inl m), Opened] @ concat (map seen_as (sent s)))))
      = map JStr (log_of source p n @ log_of source p n)"
proof -
  let ?es = "map (LogData 0 p) (log_of source p n)"
  obtain s where s: "(log_step opens source False)\<^sup>*\<^sup>* (StreamPodLogs [p]) s" "over s" "sent s = ?es"
    using one_pod_opened [of opens p source False, OF assms(3)] one_pod_deliver [OF assms(1), of opens False 0]
      one_pod_finish [of source, OF assms(2)] by (metis (no_types, lifting) rtranclp_trans)
  let ?a = "List.map_filter appended (concat (map seen_as ?es))"
  let ?evs = "concat (map seen_as ?es) @ [ErrorEvent 0 (Inl m), Opened] @ concat (map seen_as ?es)"
  have both: "List.map_filter appended ?evs = ?a @ ?a"
    by (simp add: List.map_filter_def appended_def error_entry_def)
  have "length (List.map_filter appended (concat (map seen_as (map (LogData 0 p) ts)))) = length ts" for ts
    by (induction ts) (simp_all add: seen_as_simps appended_simps log_entry_def)
  from this [of "log_of source p n"] have len: "length ?a = n" unfolding length_log_of .
  have sent: "lines_sent p ?es = log_of source p n"
  proof -
    have "lines_sent p (map (LogData 0 p) ts) = ts" for ts by (induction ts) (simp_all add: lines_sent_Cons)
    then show ?thesis .
  qed
  have "Cleared \<notin> set ?evs" using no_clear [of ?es] by simp
  from stream_steps [OF this, of new_stream] have "lines (foldl stream_step new_stream ?evs) = lastn 2000 (numbered 0 (?a @ ?a))"
    unfolding both by (simp add: new_stream_def)
  also have "\<dots> = numbered 0 ?a @ numbered n ?a" using len assms(4) by (simp add: numbered_append lastn_def)
  finally have "lines_shown p (lines (foldl stream_step new_stream ?evs)) = lines_shown p (numbered 0 ?a) @ lines_shown p (numbered n ?a)"
    by (simp only: lines_shown_append)
  also have "\<dots> = map JStr (log_of source p n @ log_of source p n)" by (simp only: shown_seen sent map_append)
  finally have "lines_shown p (lines (foldl stream_step new_stream ?evs)) = map JStr (log_of source p n @ log_of source p n)" .
  with s show ?thesis by auto
qed

end
