(* ===== verification/Schema_Proxy.thy ===== *)
theory Schema_Proxy
  imports Api_Routes
begin

text \<open>
  The Go API's proxy of the clusters' schemas (\<open>backend/internal/api/openapi_proxy.go\<close>): it fetches a cluster's index or one
  group and version with the caller's token and keeps the answers in a cache, per caller, for an hour. The editor
  of templates loads them (\<open>Open_Api\<close>, \<open>Template_Editor\<close>).

  The LRU cache is a library and so a parameter, as are parsing and printing a URL, reading certificates and
  the cluster's answer to a request. Time is in milliseconds: a request reads the clock when it looks into the cache
  and again when it stores.
\<close>

section \<open>The cache and the outside\<close>

record schema_key =
  sk_cluster :: string
  sk_user :: string
  sk_gv :: string

record schema_entry =
  se_body :: string
  se_stored :: int
  se_type :: string

record 'h lru =
  lru_new :: "nat \<Rightarrow> 'h"
  lru_get :: "schema_key \<Rightarrow> 'h \<Rightarrow> schema_entry option \<times> 'h"
  lru_add :: "schema_key \<Rightarrow> schema_entry \<Rightarrow> 'h \<Rightarrow> 'h"
  lru_remove :: "schema_key \<Rightarrow> 'h \<Rightarrow> 'h"
  lru_keys :: "'h \<Rightarrow> schema_key list"

text \<open>How a cluster's certificate is checked.\<close>

datatype transport = Trusting string | Insecure

record http_answer =
  ha_status :: nat
  ha_type :: string
  ha_body :: "string + string"  \<comment> \<open>the error of reading it, or the body\<close>

record 'k http =
  url_path :: "string \<Rightarrow> string + string"
  url_with :: "string \<Rightarrow> string \<Rightarrow> string"
  new_request :: "string \<Rightarrow> string option"
  pem_ok :: "string \<Rightarrow> bool"
  allow_insecure :: string
  do_get :: "'k \<Rightarrow> transport \<Rightarrow> string \<Rightarrow> string \<Rightarrow> string + http_answer"

record ('k, 'h) proxy_world = "'k kworld" +
  schemas :: 'h
  transports :: "(string \<times> transport) list"

definition openapiTTL :: int where
  "openapiTTL = 60 * 60 * 1000"

definition openapiMaxBytes :: nat where
  "openapiMaxBytes = 10 * 1024 * 1024"

definition newOpenAPIProxy :: "'h lru \<Rightarrow> int \<Rightarrow> 'h" where
  "newOpenAPIProxy L entries = lru_new L (nat (if entries \<le> 0 then 64 else entries))"

section \<open>Certificates\<close>

definition buildTransport :: "'k http \<Rightarrow> string \<Rightarrow> string + transport" where
  "buildTransport H caBundle =
     (if go_trim caBundle = [] then
        (if allow_insecure H \<noteq> ''true'' then Inl ''cluster has no ca_bundle; set KBP_DEV_ALLOW_INSECURE_CLUSTERS=true for local dev'' else Inr Insecure)
      else if \<not> pem_ok H caBundle then Inl ''ca_bundle is not valid PEM'' else Inr (Trusting caBundle))"

definition transportFor :: "'k http \<Rightarrow> string \<Rightarrow> ('k, 'h, 'z) proxy_world_scheme \<Rightarrow> ('e + (string + transport)) \<times> ('k, 'h, 'z) proxy_world_scheme" where
  "transportFor H caBundle w = (case map_of (transports w) caBundle of Some t \<Rightarrow> (Inr (Inr t), w)
   | None \<Rightarrow> (case buildTransport H caBundle of Inl m \<Rightarrow> (Inr (Inl m), w)
     | Inr t \<Rightarrow> (Inr (Inr t), w\<lparr>transports := (caBundle, t) # transports w\<rparr>)))"

section \<open>The path\<close>

text \<open>\<open>URL.JoinPath\<close>: both paths' segments with \<open>.\<close> and \<open>..\<close> resolved, as \<open>path.Clean\<close> does, below the root.\<close>

definition clean_step :: "string list \<Rightarrow> string \<Rightarrow> string list" where
  "clean_step acc seg = (if seg = [] \<or> seg = ''.'' then acc else if seg = ''..'' then butlast acc else acc @ [seg])"

definition clean_segs :: "string list \<Rightarrow> string list" where
  "clean_segs segs = foldl clean_step [] segs"

fun slash_text :: "string list \<Rightarrow> string" where
  "slash_text [] = []"
| "slash_text (s # ss) = CHR ''/'' # s @ slash_text ss"

definition JoinPath :: "string \<Rightarrow> string \<Rightarrow> string" where
  "JoinPath base elem = (let ss = clean_segs (go_Split (CHR ''/'') base @ go_Split (CHR ''/'') elem) in
     if ss = [] then ''/'' else slash_text ss @ (if elem \<noteq> [] \<and> last elem = CHR ''/'' then ''/'' else []))"

definition upstreamPath :: "string \<Rightarrow> string" where
  "upstreamPath gv = (if gv = [] then ''/openapi/v3''
     else if CHR ''/'' \<notin> set gv then ''/openapi/v3/api/'' @ gv else ''/openapi/v3/apis/'' @ gv)"

section \<open>The handlers\<close>

datatype schema_body = Schema string string | NoSchema

definition on_cache :: "('h \<Rightarrow> 'a \<times> 'h) \<Rightarrow> ('k, 'h, 'z) proxy_world_scheme \<Rightarrow> ('e + 'a) \<times> ('k, 'h, 'z) proxy_world_scheme" where
  "on_cache f w = (case f (schemas w) of (x, h) \<Rightarrow> (Inr x, w\<lparr>schemas := h\<rparr>))"

text \<open>The body is read up to one byte past the limit.\<close>

definition schema_answer :: "string + http_answer \<Rightarrow> schema_body api_reply + string \<times> string" where
  "schema_answer resp = (case resp of Inl m \<Rightarrow> Inl (Problem 502 ''k8s-error'' m)
   | Inr a \<Rightarrow> (case ha_body a of Inl m \<Rightarrow> Inl (Problem 502 ''k8s-error'' m)
     | Inr full \<Rightarrow> (let body = take (openapiMaxBytes + 1) full in
         if openapiMaxBytes < length body then Inl (Problem 502 ''k8s-error'' ''OpenAPI response exceeds 10MiB limit'')
         else if 400 \<le> ha_status a then Inl (Problem (ha_status a) ''k8s-error'' body)
         else Inr ((if ha_type a = [] then ''application/json'' else ha_type a), body))))"

definition fetch_schema :: "'k http \<Rightarrow> 'h lru \<Rightarrow> caller \<Rightarrow> int \<Rightarrow> cluster_row \<Rightarrow> schema_key \<Rightarrow> string \<Rightarrow>
    ('k, 'h, 'z) proxy_world_scheme \<Rightarrow> (schema_body api_reply + schema_body api_reply) \<times> ('k, 'h, 'z) proxy_world_scheme" where
  "fetch_schema H L u kept clu key gv =
     (case url_path H (clu_url clu) of Inl m \<Rightarrow> stop (Problem 500 ''internal'' m)
      | Inr base \<Rightarrow>
        (let url = url_with H (clu_url clu) (JoinPath base (upstreamPath gv)) in
         case new_request H url of Some m \<Rightarrow> stop (Problem 500 ''internal'' m)
         | None \<Rightarrow> after (transportFor H (nullish (clu_ca clu) [])) (\<lambda>t. case t of
             Inl m \<Rightarrow> stop (Problem 500 ''cluster-config'' m)
           | Inr tr \<Rightarrow> after (\<lambda>w. (Inr (do_get H (kube_state w) tr url (cl_token u)), w)) (\<lambda>resp. case schema_answer resp of
               Inl r \<Rightarrow> stop r
             | Inr (ct, body) \<Rightarrow>
                 after (on_cache (\<lambda>h. ((), lru_add L key \<lparr>se_body = body, se_stored = kept, se_type = ct\<rparr> h))) (\<lambda>_.
                 give (Answer 200 (Schema ct body)))))))"

definition proxyOpenAPI :: "'k http \<Rightarrow> 'h lru \<Rightarrow> caller \<Rightarrow> int \<Rightarrow> int \<Rightarrow> string \<Rightarrow> string \<Rightarrow>
    ('k, 'h, 'z) proxy_world_scheme \<Rightarrow> (schema_body api_reply + schema_body api_reply) \<times> ('k, 'h, 'z) proxy_world_scheme" where
  "proxyOpenAPI H L u asked kept name gv = after (query (GetClusterByName name)) (\<lambda>q. case q of
     Inl _ \<Rightarrow> stop (Problem 404 ''not-found'' (''cluster '' @ name))
   | Inr clu \<Rightarrow>
     (let key = \<lparr>sk_cluster = name, sk_user = cl_sub u, sk_gv = gv\<rparr> in
      after (on_cache (lru_get L key)) (\<lambda>e. case e of
        Some e \<Rightarrow> if asked - se_stored e < openapiTTL then give (Answer 200 (Schema (se_type e) (se_body e)))
          else fetch_schema H L u kept clu key gv
      | None \<Rightarrow> fetch_schema H L u kept clu key gv)))"

text \<open>The parameter of the route begins with a slash. Refreshing forgets what the caller has of the cluster.\<close>

definition GetOpenAPIIndex :: "'k http \<Rightarrow> 'h lru \<Rightarrow> caller \<Rightarrow> int \<Rightarrow> int \<Rightarrow> string \<Rightarrow>
    ('k, 'h, 'z) proxy_world_scheme \<Rightarrow> (schema_body api_reply + schema_body api_reply) \<times> ('k, 'h, 'z) proxy_world_scheme" where
  "GetOpenAPIIndex H L u asked kept name = proxyOpenAPI H L u asked kept name []"

definition GetOpenAPIGroupVersion :: "'k http \<Rightarrow> 'h lru \<Rightarrow> caller \<Rightarrow> int \<Rightarrow> int \<Rightarrow> string \<Rightarrow> string \<Rightarrow>
    ('k, 'h, 'z) proxy_world_scheme \<Rightarrow> (schema_body api_reply + schema_body api_reply) \<times> ('k, 'h, 'z) proxy_world_scheme" where
  "GetOpenAPIGroupVersion H L u asked kept name param =
     (let gv = (if param \<noteq> [] \<and> hd param = CHR ''/'' then tl param else param) in
      if gv = [] then stop (bad_request ''gv required'') else proxyOpenAPI H L u asked kept name gv)"

definition RefreshOpenAPI :: "'h lru \<Rightarrow> caller \<Rightarrow> string \<Rightarrow>
    ('k, 'h, 'z) proxy_world_scheme \<Rightarrow> (schema_body api_reply + schema_body api_reply) \<times> ('k, 'h, 'z) proxy_world_scheme" where
  "RefreshOpenAPI L u clu = after (on_cache (\<lambda>h. ((), foldl (\<lambda>h k. if sk_cluster k = clu \<and> sk_user k = cl_sub u then lru_remove L k h else h)
     h (lru_keys L h)))) (\<lambda>_. give (Answer 204 NoSchema))"

text \<open>All requests of the API: those of \<open>Api_Routes\<close>, which do not touch the cache, and these, with the times at which they read the
  clock.\<close>

datatype schema_call = IndexR string | GroupVersionR string string | RefreshR string

definition schema_serve :: "('c, 'k) outside \<Rightarrow> 'k http \<Rightarrow> 'h lru \<Rightarrow> string \<Rightarrow> schema_call \<Rightarrow> int \<Rightarrow> int \<Rightarrow> ('k, 'h, 'z) proxy_world_scheme \<Rightarrow>
    schema_body api_reply \<times> ('k, 'h, 'z) proxy_world_scheme" where
  "schema_serve E H L header call asked kept w = (case requireAuth (o_verify E) (o_admins E) header of Inl r \<Rightarrow> (r, w)
   | Inr u \<Rightarrow> serve (case call of
       IndexR name \<Rightarrow> GetOpenAPIIndex H L u asked kept name
     | GroupVersionR name param \<Rightarrow> GetOpenAPIGroupVersion H L u asked kept name param
     | RefreshR name \<Rightarrow> RefreshOpenAPI L u name) w)"

datatype any_call = Tables string api_call | Schemas string schema_call int int

definition any_serve :: "('c, 'k) outside \<Rightarrow> 'k http \<Rightarrow> 'h lru \<Rightarrow> ('k, 'h, 'z) proxy_world_scheme \<Rightarrow> any_call \<Rightarrow> ('k, 'h, 'z) proxy_world_scheme" where
  "any_serve E H L w c = (case c of Tables header req \<Rightarrow> snd (api_serve E header req w)
   | Schemas header call asked kept \<Rightarrow> snd (schema_serve E H L header call asked kept w))"

section \<open>What is relied on of the cache\<close>

text \<open>The documented behaviour of an LRU cache: it finds what was added until it is removed or evicted, and invents nothing.\<close>

definition lru_ok :: "'h lru \<Rightarrow> ('h \<Rightarrow> schema_key \<Rightarrow> schema_entry option) \<Rightarrow> bool" where
  "lru_ok L view \<longleftrightarrow> (\<forall>n k. view (lru_new L n) k = None)
     \<and> (\<forall>k h. fst (lru_get L k h) = view h k \<and> view (snd (lru_get L k h)) = view h)
     \<and> (\<forall>k e h. view (lru_add L k e h) k = Some e \<and> (\<forall>j. j \<noteq> k \<longrightarrow> view (lru_add L k e h) j = None \<or> view (lru_add L k e h) j = view h j))
     \<and> (\<forall>k h. view (lru_remove L k h) = (view h)(k := None))
     \<and> (\<forall>h. set (lru_keys L h) = dom (view h))"

section \<open>The other requests leave the cache alone\<close>

definition frame :: "(('k, 'z) kworld_ext, 'e, 'a) act \<Rightarrow> bool" where
  "frame m \<longleftrightarrow> (\<forall>w. kworld.more (snd (m w)) = kworld.more w)"

lemma frame_steps:
  "frame (give x)" "frame (stop r)"
  "(\<And>e. x1 = Inl e \<Longrightarrow> frame (f1 e)) \<Longrightarrow> (\<And>y. x1 = Inr y \<Longrightarrow> frame (g1 y)) \<Longrightarrow> frame (case x1 of Inl e \<Rightarrow> f1 e | Inr y \<Rightarrow> g1 y)"
  "(x2 = None \<Longrightarrow> frame f2) \<Longrightarrow> (\<And>y. x2 = Some y \<Longrightarrow> frame (g2 y)) \<Longrightarrow> frame (case x2 of None \<Rightarrow> f2 | Some y \<Rightarrow> g2 y)"
  "(b \<Longrightarrow> frame m3) \<Longrightarrow> (\<not> b \<Longrightarrow> frame n3) \<Longrightarrow> frame (if b then m3 else n3)"
  "(\<And>a b. x4 = (a, b) \<Longrightarrow> frame (h4 a b)) \<Longrightarrow> frame (case x4 of (a, b) \<Rightarrow> h4 a b)"
  by (auto simp: frame_def give_def stop_def split: sum.splits option.splits prod.splits)

lemma frame_after: "frame m \<Longrightarrow> (\<And>x. frame (f x)) \<Longrightarrow> frame (after m f)"
  unfolding frame_def after_def by (auto split: prod.splits sum.splits) (metis snd_conv)+

lemma frame_stmt: "frame (stmt q)"
  by (auto simp: frame_def stmt_def Let_def split: sum.splits prod.splits)

lemma frame_query: "frame (query q)"
  using frame_stmt [of q] by (simp add: frame_def query_def case_prod_beta)

lemma frame_on_error: "frame m \<Longrightarrow> frame (on_error g m)"
  by (auto simp: frame_def on_error_def split: prod.splits sum.splits) (metis snd_conv)+

lemma frame_settle: "kworld.more (settle w) = kworld.more w"
  by (simp add: settle_def Let_def)

lemma frame_tx_stmt: "frame (tx_stmt q)"
  by (auto simp: frame_def tx_stmt_def Let_def frame_settle split: sum.splits prod.splits)

lemma frame_tx:
  assumes "frame m"
  shows "frame (with_tx name m)"
proof -
  have "kworld.more (snd (m v)) = kworld.more v" for v using assms by (simp add: frame_def)
  then have "m v = (r, v') \<Longrightarrow> kworld.more v' = kworld.more v" for v r v' by (metis snd_conv)
  then show ?thesis by (fastforce simp: frame_def with_tx_def Let_def frame_settle split: prod.splits sum.splits)
qed

lemma frame_cluster: "frame (on_cluster f)"
  by (auto simp: frame_def on_cluster_def split: prod.splits)

lemmas frame_rules = frame_steps frame_after frame_query frame_cluster frame_tx frame_tx_stmt frame_stmt frame_on_error

lemma frame_handlers:
  "frame ListTemplates" "frame (GetTemplate nm)" "frame (ListTemplateVersions nm)" "frame (GetVersion nm v)" "frame (CreateTemplate lib u b1)"
  "frame (CreateTemplateVersion lib u nm b2)" "frame (PublishVersion u nm v)" "frame (DeprecateVersion u nm v)" "frame (UndeprecateVersion u nm v)"
  "frame (DeleteTemplateVersion u nm v)" "frame (UpdateTemplateVersion lib u nm v b3)" "frame (UpdateTemplate u nm b4)" "frame (PreviewRender lib nm v b5)"
  "frame (PreviewTemplate lib b6)"
  unfolding template_handlers Let_def by (rule frame_rules)+

lemma frame_others:
  "frame (CreateRelease lib hn K ctx u b1)" "frame (ListReleases u l off)" "frame (GetRelease lib w32 K u i)" "frame (DeleteRelease lib K ctx u i f)"
  "frame (UpdateRelease lib K ctx u i b2)" "frame (CheckSelfSubjectAccess K u b3)" "frame (ListTeams u)" "frame (ListTeamMembers lib u i)"
  "frame ListClusters" "frame (GetMe u)" "frame (StreamReleaseLogs lib w32 K u i inst)"
  unfolding other_handlers Let_def by (rule frame_rules)+

lemma frame_admin:
  "frame (requireAdmin u (CreateCluster url b1))" "frame (requireAdmin u (CreateTeam b2))" "frame (requireAdmin u (AddTeamMember lib em i b3))"
  "frame (requireAdmin u (RemoveTeamMember lib i j))"
  unfolding requireAdmin_def CreateCluster_def CreateTeam_def AddTeamMember_def RemoveTeamMember_def by (rule frame_rules)+

lemma frame_answer: "frame m \<Longrightarrow> kworld.more (snd (answer_with f m w)) = kworld.more w"
  unfolding frame_def answer_with_def serve_def by (auto split: prod.splits sum.splits) (metis snd_conv)+

lemma tables_keep_cache: "kworld.more (snd (api_serve E header req w)) = kworld.more w"
proof (cases "requireAuth (o_verify E) (o_admins E) header :: any_body api_reply + caller")
  case (Inr u)
  then have "api_serve E header req w = dispatch E u req w" by (simp add: api_serve_def)
  then show ?thesis
    by (cases req) (simp_all add: dispatch_def Let_def frame_answer frame_handlers frame_others frame_admin)
qed (simp add: api_serve_def)

section \<open>Where a schema comes from\<close>

definition group_version :: "string \<Rightarrow> string" where
  "group_version param = (if param \<noteq> [] \<and> hd param = CHR ''/'' then tl param else param)"

definition wanted :: "schema_call \<Rightarrow> (string \<times> string) option" where
  "wanted call = (case call of IndexR name \<Rightarrow> Some (name, []) | GroupVersionR name param \<Rightarrow> Some (name, group_version param) | RefreshR _ \<Rightarrow> None)"

text \<open>What the cluster answered to one of the calls that were served, by the same user and for the same schemas: the row of that name in
  the table of clusters at that moment says where it is and which certificates to trust, and it was asked with the token of that call, at
  the path of the schemas.\<close>

definition came_from :: "('c, 'k) outside \<Rightarrow> 'k http \<Rightarrow> 'h lru \<Rightarrow> ('k, 'h, 'z) proxy_world_scheme \<Rightarrow> any_call list \<Rightarrow> schema_key \<Rightarrow> int \<Rightarrow> string \<Rightarrow> string \<Rightarrow> bool" where
  "came_from E H L w cs key at_time ct body \<longleftrightarrow> (\<exists>before header call asked rest u v clu base tr.
     cs = before @ Schemas header call asked at_time # rest \<and> v = foldl (any_serve E H L) w before
     \<and> requireAuth (o_verify E) (o_admins E) header = (Inr u :: schema_body api_reply + caller)
     \<and> cl_sub u = sk_user key \<and> wanted call = Some (sk_cluster key, sk_gv key)
     \<and> find (\<lambda>c. clu_name c = sk_cluster key) (clusters_t (others v (ticks v) (tables v))) = Some clu
     \<and> url_path H (clu_url clu) = Inr base \<and> buildTransport H (nullish (clu_ca clu) []) = Inr tr
     \<and> schema_answer (do_get H (kube_state v) tr (url_with H (clu_url clu) (JoinPath base (upstreamPath (sk_gv key)))) (cl_token u)) = Inr (ct, body))"

definition proxy_ok :: "('c, 'k) outside \<Rightarrow> 'k http \<Rightarrow> 'h lru \<Rightarrow> ('k, 'h, 'z) proxy_world_scheme \<Rightarrow> ('h \<Rightarrow> schema_key \<Rightarrow> schema_entry option) \<Rightarrow>
    any_call list \<Rightarrow> ('k, 'h, 'z) proxy_world_scheme \<Rightarrow> bool" where
  "proxy_ok E H L w0 view cs w \<longleftrightarrow> (\<forall>ca t. map_of (transports w) ca = Some t \<longrightarrow> buildTransport H ca = Inr t)
     \<and> (\<forall>key e. view (schemas w) key = Some e \<longrightarrow> came_from E H L w0 cs key (se_stored e) (se_type e) (se_body e))"

lemma came_from_mono:
  assumes "came_from E H L w cs key at_time ct body"
  shows "came_from E H L w (cs @ ds) key at_time ct body"
proof -
  from assms obtain before header call asked rest u v clu base tr where
    "cs = before @ Schemas header call asked at_time # rest" and more: "v = foldl (any_serve E H L) w before"
     "requireAuth (o_verify E) (o_admins E) header = (Inr u :: schema_body api_reply + caller)"
     "cl_sub u = sk_user key" "wanted call = Some (sk_cluster key, sk_gv key)"
     "find (\<lambda>c. clu_name c = sk_cluster key) (clusters_t (others v (ticks v) (tables v))) = Some clu"
     "url_path H (clu_url clu) = Inr base" "buildTransport H (nullish (clu_ca clu) []) = Inr tr"
     "schema_answer (do_get H (kube_state v) tr (url_with H (clu_url clu) (JoinPath base (upstreamPath (sk_gv key)))) (cl_token u)) = Inr (ct, body)"
    unfolding came_from_def by blast
  then have "cs @ ds = before @ Schemas header call asked at_time # (rest @ ds)" by simp
  with more show ?thesis unfolding came_from_def by blast
qed

lemma proxy_ok_mono: "proxy_ok E H L w0 view cs w \<Longrightarrow> proxy_ok E H L w0 view (cs @ ds) w"
  unfolding proxy_ok_def using came_from_mono by blast

lemma same_cache:
  "proxy_ok E H L w0 view cs w \<Longrightarrow> kworld.more w' = kworld.more w \<Longrightarrow> proxy_ok E H L w0 view cs w'"
  by (cases w; cases w') (simp add: proxy_ok_def)

text \<open>The transports that are kept are those that would be built.\<close>

lemma transport_run:
  assumes "proxy_ok E H L w0 view cs w" and "transportFor H ca w = (r, w')"
  shows "r = (Inr (buildTransport H ca) :: 'e + (string + transport)) \<and> proxy_ok E H L w0 view cs w' \<and> schemas w' = schemas w \<and> kube_state w' = kube_state w"
  using assms by (auto simp: transportFor_def proxy_ok_def split: option.splits sum.splits if_splits)

lemma lru_okD:
  assumes "lru_ok L view"
  shows "view (lru_new L n) k = None" "fst (lru_get L k h) = view h k" "view (snd (lru_get L k h)) = view h"
    "view (lru_add L k e h) k = Some e" "j \<noteq> k \<Longrightarrow> view (lru_add L k e h) j = Some x \<Longrightarrow> view h j = Some x"
    "view (lru_remove L k h) = (view h)(k := None)" "set (lru_keys L h) = dom (view h)"
  using assms unfolding lru_ok_def by (metis, metis, metis, metis, metis option.distinct(1), metis, metis)

text \<open>A handler that keeps the invariant and answers with what came from the cluster, not too long ago.\<close>

definition fair :: "('c, 'k) outside \<Rightarrow> 'k http \<Rightarrow> 'h lru \<Rightarrow> ('k, 'h, 'z) proxy_world_scheme \<Rightarrow> ('h \<Rightarrow> schema_key \<Rightarrow> schema_entry option) \<Rightarrow> any_call list \<Rightarrow> int \<Rightarrow> schema_key \<Rightarrow>
    (schema_body api_reply + schema_body api_reply) \<times> ('k, 'h, 'z) proxy_world_scheme \<Rightarrow> bool" where
  "fair E H L w0 view cs asked key rw \<longleftrightarrow> proxy_ok E H L w0 view cs (snd rw)
     \<and> (\<forall>s ct body. (fst rw = Inr (Answer s (Schema ct body)) \<or> fst rw = Inl (Answer s (Schema ct body)))
          \<longrightarrow> (\<exists>at_time. asked - at_time < openapiTTL \<and> came_from E H L w0 cs key at_time ct body))"

lemma fair_problem: "proxy_ok E H L w0 view cs w \<Longrightarrow> fair E H L w0 view cs asked key (stop (Problem s k m) w)"
  by (simp add: fair_def stop_def)

lemma fetch_fair:
  assumes L: "lru_ok L view" and ok: "proxy_ok E H L w0 view cs w" and later: "asked \<le> kept"
    and origin: "\<And>base tr ct body. url_path H (clu_url clu) = Inr base \<Longrightarrow> buildTransport H (nullish (clu_ca clu) []) = Inr tr \<Longrightarrow>
      schema_answer (do_get H (kube_state w) tr (url_with H (clu_url clu) (JoinPath base (upstreamPath gv))) (cl_token u)) = Inr (ct, body) \<Longrightarrow>
      came_from E H L w0 cs key kept ct body"
  shows "fair E H L w0 view cs asked key (fetch_schema H L u kept (clu :: cluster_row) key gv w)"
proof (cases "url_path H (clu_url clu)")
  case (Inl m)
  with ok show ?thesis by (simp add: fetch_schema_def fair_problem)
next
  case (Inr base)
  let ?url = "url_with H (clu_url clu) (JoinPath base (upstreamPath gv))" and ?ca = "nullish (clu_ca clu) []"
  note base = Inr
  show ?thesis
  proof (cases "new_request H ?url")
    case (Some m)
    with ok base show ?thesis by (simp add: fetch_schema_def fair_problem)
  next
    case None
    note req = None
    obtain r w1 where t: "transportFor H ?ca w = (r :: schema_body api_reply + (string + transport), w1)" by fastforce
    note t1 = transport_run [OF ok t]
    show ?thesis
    proof (cases "buildTransport H ?ca")
      case (Inl m)
      with t t1 base req show ?thesis by (simp add: fetch_schema_def after_def fair_problem)
    next
      case (Inr tr)
      note tr = Inr
      let ?resp = "do_get H (kube_state w1) tr ?url (cl_token u)"
      show ?thesis
      proof (cases "schema_answer ?resp")
        case (Inl r)
        then obtain s k m where "r = Problem s k m"
          by (auto simp: schema_answer_def Let_def split: sum.splits if_splits)
        with Inl t t1 tr base req show ?thesis by (simp add: fetch_schema_def after_def fair_problem)
      next
        case (Inr p)
        obtain ct body where p: "p = (ct, body)" by (cases p)
        let ?e = "\<lparr>se_body = body, se_stored = kept, se_type = ct\<rparr>"
        have run: "fetch_schema H L u kept clu key gv w = (Inr (Answer 200 (Schema ct body)), w1\<lparr>schemas := lru_add L key ?e (schemas w1)\<rparr>)"
          using t t1 tr base req Inr p by (simp add: fetch_schema_def after_def on_cache_def give_def)
        have origin: "came_from E H L w0 cs key kept ct body" using origin [OF base tr] t1 Inr p by simp
        have "came_from E H L w0 cs j (se_stored e) (se_type e) (se_body e)" if e: "view (lru_add L key ?e (schemas w1)) j = Some e" for j e
        proof (cases "j = key")
          case True
          with e lru_okD(4) [OF L, of key ?e "schemas w1"] origin show ?thesis by auto
        next
          case False
          from lru_okD(5) [OF L False e] t1 show ?thesis by (simp add: proxy_ok_def)
        qed
        with t1 have "proxy_ok E H L w0 view cs (w1\<lparr>schemas := lru_add L key ?e (schemas w1)\<rparr>)" by (simp add: proxy_ok_def)
        moreover have "asked - kept < openapiTTL" using later by (simp add: openapiTTL_def)
        ultimately show ?thesis using origin by (auto simp: run fair_def)
      qed
    qed
  qed
qed

lemma cluster_query:
  assumes "query (GetClusterByName name) w = ((r :: 'e + _), w')"
  shows "kworld.more w' = kworld.more w \<and> kube_state w' = kube_state w
    \<and> (\<exists>q. r = Inr q \<and> (\<forall>clu. q = Inr clu \<longrightarrow> find (\<lambda>c. clu_name c = name) (clusters_t (others w (ticks w) (tables w))) = Some clu))"
proof -
  have "kworld.more w' = kworld.more w" using frame_query [of "GetClusterByName name"] assms by (metis frame_def snd_conv)
  moreover have "kube_state w' = kube_state w \<and> (\<exists>q. r = Inr q \<and>
      (\<forall>clu. q = Inr clu \<longrightarrow> find (\<lambda>c. clu_name c = name) (clusters_t (others w (ticks w) (tables w))) = Some clu))"
    using assms by (auto simp: query_def stmt_def GetClusterByName_def one_row_def Let_def split: if_splits sum.splits option.splits prod.splits)
  ultimately show ?thesis by blast
qed

lemma proxy_fair:
  assumes L: "lru_ok L view" and ok: "proxy_ok E H L w0 view cs w"
    and call: "cs = before @ [Schemas header call asked kept]" "w = foldl (any_serve E H L) w0 before"
    and u: "requireAuth (o_verify E) (o_admins E) header = (Inr u :: schema_body api_reply + caller)"
    and want: "wanted call = Some (name, gv)" and later: "asked \<le> kept"
  shows "fair E H L w0 view cs asked \<lparr>sk_cluster = name, sk_user = cl_sub u, sk_gv = gv\<rparr> (proxyOpenAPI H L u asked kept name gv w)"
proof -
  let ?key = "\<lparr>sk_cluster = name, sk_user = cl_sub u, sk_gv = gv\<rparr>"
  obtain r w1 where q: "query (GetClusterByName name) w = (r :: schema_body api_reply + (dberr + cluster_row), w1)" by fastforce
  from cluster_query [OF q] obtain q1 where w1: "kworld.more w1 = kworld.more w" "kube_state w1 = kube_state w" "r = Inr q1"
    "\<And>clu. q1 = Inr clu \<Longrightarrow> find (\<lambda>c. clu_name c = name) (clusters_t (others w (ticks w) (tables w))) = Some clu" by blast
  note ok1 = same_cache [OF ok w1(1)]
  show ?thesis
  proof (cases q1)
    case (Inl e)
    with q w1 ok1 show ?thesis by (simp add: proxyOpenAPI_def after_def fair_problem)
  next
    case (Inr clu)
    let ?w2 = "w1\<lparr>schemas := snd (lru_get L ?key (schemas w1))\<rparr>"
    have get: "on_cache (lru_get L ?key) w1 = (Inr (view (schemas w1) ?key) :: schema_body api_reply + _, ?w2)"
      using lru_okD(2) [OF L, of ?key "schemas w1"] by (simp add: on_cache_def case_prod_beta)
    have ok2: "proxy_ok E H L w0 view cs ?w2" using ok1 lru_okD(3) [OF L] by (simp add: proxy_ok_def)
    have fetch: "fair E H L w0 view cs asked ?key (fetch_schema H L u kept clu ?key gv ?w2)"
    proof (rule fetch_fair [OF L ok2 later])
      fix base tr ct body
      assume "url_path H (clu_url clu) = Inr base" "buildTransport H (nullish (clu_ca clu) []) = Inr tr"
        "schema_answer (do_get H (kube_state ?w2) tr (url_with H (clu_url clu) (JoinPath base (upstreamPath gv))) (cl_token u)) = Inr (ct, body)"
      with w1(2) w1(4) [OF Inr] call u want show "came_from E H L w0 cs ?key kept ct body"
        unfolding came_from_def
        by (intro exI [of _ before] exI [of _ header] exI [of _ call] exI [of _ asked] exI [of _ "[]"] exI [of _ u] exI [of _ w] exI [of _ clu]
            exI [of _ base] exI [of _ tr]) simp
    qed
    have run: "proxyOpenAPI H L u asked kept name gv w = (case view (schemas w1) ?key of
        Some e \<Rightarrow> if asked - se_stored e < openapiTTL then give (Answer 200 (Schema (se_type e) (se_body e))) ?w2
          else fetch_schema H L u kept clu ?key gv ?w2
      | None \<Rightarrow> fetch_schema H L u kept clu ?key gv ?w2)"
      using q w1(3) Inr get by (simp add: proxyOpenAPI_def after_def Let_def split: option.split)
    show ?thesis
    proof (cases "view (schemas w1) ?key")
      case None
      with run fetch show ?thesis by simp
    next
      case (Some e)
      with ok1 have "came_from E H L w0 cs ?key (se_stored e) (se_type e) (se_body e)" by (simp add: proxy_ok_def)
      with run fetch Some ok2 show ?thesis by (auto simp: fair_def give_def)
    qed
  qed
qed

lemma fair_serve:
  assumes "fair E H L w0 view cs asked key (m w)" and "serve m w = (r, w')"
  shows "proxy_ok E H L w0 view cs w' \<and> (r = Answer s (Schema ct body) \<longrightarrow> (\<exists>at_time. asked - at_time < openapiTTL \<and> came_from E H L w0 cs key at_time ct body))"
  using assms by (auto simp: fair_def serve_def split: prod.splits sum.splits)

lemma refresh_run:
  assumes L: "lru_ok L view" and "RefreshOpenAPI L u name w = (r, w')"
  shows "r = Inr (Answer 204 NoSchema) \<and> kworld.truncate w' = kworld.truncate w \<and> transports w' = transports w
    \<and> view (schemas w') key = (if sk_cluster key = name \<and> sk_user key = cl_sub u then None else view (schemas w) key)"
proof -
  let ?drop = "\<lambda>h k. if sk_cluster k = name \<and> sk_user k = cl_sub u then lru_remove L k h else h"
  have "view (foldl ?drop h ks) j = (if j \<in> set ks \<and> sk_cluster j = name \<and> sk_user j = cl_sub u then None else view h j)" for h ks j
    by (induction ks arbitrary: h) (auto simp: lru_okD(6) [OF L])
  then have "view (foldl ?drop (schemas w) (lru_keys L (schemas w))) key =
      (if sk_cluster key = name \<and> sk_user key = cl_sub u then None else view (schemas w) key)"
    using lru_okD(7) [OF L, of "schemas w"] by (auto simp: domIff)
  with assms(2) show ?thesis by (auto simp: RefreshOpenAPI_def after_def on_cache_def give_def kworld.defs)
qed

lemma schema_serve_ok:
  assumes L: "lru_ok L view" and ok: "proxy_ok E H L w0 view cs w" and call: "cs = before @ [Schemas header call asked kept]" "w = foldl (any_serve E H L) w0 before"
    and later: "asked \<le> kept" and run: "schema_serve E H L header call asked kept w = (r, w')"
  shows "proxy_ok E H L w0 view cs w' \<and> (r = Answer s (Schema ct body) \<and> wanted call = Some (name, gv)
      \<and> requireAuth (o_verify E) (o_admins E) header = (Inr u :: schema_body api_reply + caller)
    \<longrightarrow> (\<exists>at_time. asked - at_time < openapiTTL \<and> came_from E H L w0 cs \<lparr>sk_cluster = name, sk_user = cl_sub u, sk_gv = gv\<rparr> at_time ct body))"
proof (cases "requireAuth (o_verify E) (o_admins E) header :: schema_body api_reply + caller")
  case (Inl m)
  with ok run show ?thesis by (auto simp: schema_serve_def)
next
  case (Inr v)
  have served: "proxy_ok E H L w0 view cs w' \<and> (r = Answer s (Schema ct body) \<longrightarrow>
      (\<exists>at_time. asked - at_time < openapiTTL \<and> came_from E H L w0 cs \<lparr>sk_cluster = nm, sk_user = cl_sub v, sk_gv = g\<rparr> at_time ct body))"
    if "wanted call = Some (nm, g)" "serve (proxyOpenAPI H L v asked kept nm g) w = (r, w')" for nm g
    by (rule fair_serve [where m = "proxyOpenAPI H L v asked kept nm g", OF proxy_fair [OF L ok call Inr that(1) later] that(2)])
  show ?thesis
  proof (cases call)
    case (IndexR n)
    with run Inr served [of n "[]"] show ?thesis by (auto simp: schema_serve_def GetOpenAPIIndex_def wanted_def)
  next
    case (GroupVersionR n param)
    show ?thesis
    proof (cases "group_version param = []")
      case True
      with run Inr GroupVersionR ok show ?thesis
        by (auto simp: schema_serve_def GetOpenAPIGroupVersion_def group_version_def serve_def stop_def)
    next
      case False
      with run Inr GroupVersionR served [of n "group_version param"] show ?thesis
        by (auto simp: schema_serve_def GetOpenAPIGroupVersion_def wanted_def Let_def simp flip: group_version_def)
    qed
  next
    case (RefreshR n)
    obtain r1 where one: "RefreshOpenAPI L v n w = (r1, w')" "serve (RefreshOpenAPI L v n) w = (r, w')"
      using run Inr RefreshR by (auto simp: schema_serve_def serve_def split: prod.splits sum.splits)
    have "proxy_ok E H L w0 view cs w'"
      using ok refresh_run [OF L one(1)] by (auto simp: proxy_ok_def split: if_splits)
    with RefreshR show ?thesis by (simp add: wanted_def)
  qed
qed

text \<open>Within a request the clock does not go back.\<close>

definition forward :: "any_call list \<Rightarrow> bool" where
  "forward cs \<longleftrightarrow> list_all (\<lambda>c. case c of Schemas header call asked kept \<Rightarrow> asked \<le> kept | _ \<Rightarrow> True) cs"

lemma any_run_ok:
  assumes L: "lru_ok L view" and fresh: "schemas w0 = newOpenAPIProxy L n" "transports w0 = []"
  shows "forward cs \<Longrightarrow> proxy_ok E H L w0 view cs (foldl (any_serve E H L) w0 cs)"
proof (induction cs rule: rev_induct)
  case Nil
  with fresh lru_okD(1) [OF L] show ?case by (simp add: proxy_ok_def newOpenAPIProxy_def)
next
  case (snoc c cs)
  let ?w = "foldl (any_serve E H L) w0 cs"
  have ok: "proxy_ok E H L w0 view (cs @ [c]) ?w" using snoc by (intro proxy_ok_mono) (simp add: forward_def)
  have "proxy_ok E H L w0 view (cs @ [c]) (any_serve E H L ?w c)"
  proof (cases c)
    case (Tables header req)
    with same_cache [OF ok tables_keep_cache] show ?thesis by (simp add: any_serve_def)
  next
    case (Schemas header call asked kept)
    with snoc(2) have later: "asked \<le> kept" by (simp add: forward_def)
    obtain r w' where run: "schema_serve E H L header call asked kept ?w = (r, w')" by fastforce
    from schema_serve_ok [OF L ok _ refl later run] Schemas run show ?thesis by (simp add: any_serve_def)
  qed
  then show ?case by simp
qed

text \<open>Property C17: The schemas a user gets are his own: whatever requests the API has served before, of whom, on which cluster, what he is
  shown is the answer to one of the served requests, of the same user for the same schemas, less than an hour ago: the cluster that the table had
  under that name at the time of that request was asked, at its address, at the schemas' path, with that request's token and
  over a connection that trusts its certificates. The cache, which all users share, gives nobody what was fetched with another's token.\<close>

theorem schemas_are_own:
  assumes "lru_ok L view" and "schemas w = newOpenAPIProxy L n" and "transports w = []"
    and "forward (cs @ [Schemas header call asked kept])" and "wanted call = Some (name, gv)"
    and "requireAuth (o_verify E) (o_admins E) header = (Inr u :: schema_body api_reply + caller)"
    and "fst (schema_serve E H L header call asked kept (foldl (any_serve E H L) w cs)) = Answer s (Schema ct body)"
  shows "\<exists>at_time. asked - at_time < openapiTTL
    \<and> came_from E H L w (cs @ [Schemas header call asked kept]) \<lparr>sk_cluster = name, sk_user = cl_sub u, sk_gv = gv\<rparr> at_time ct body"
proof -
  have later: "asked \<le> kept" and "forward cs" using assms(4) by (simp_all add: forward_def)
  note ok = proxy_ok_mono [OF any_run_ok [OF assms(1-3) \<open>forward cs\<close>, of E H], of "[Schemas header call asked kept]"]
  obtain r w' where run: "schema_serve E H L header call asked kept (foldl (any_serve E H L) w cs) = (r, w')" by fastforce
  from schema_serve_ok [OF assms(1) ok refl refl later run] assms(5-7) run show ?thesis by simp
qed

section \<open>Which paths can be asked for\<close>

lemma go_Split_at: "sep \<notin> set xs \<Longrightarrow> go_Split sep (xs @ sep # ys) = xs # go_Split sep ys"
  by (induction xs) auto

lemma go_Split_nonempty: "go_Split sep xs \<noteq> []"
  by (induction xs) (auto split: list.split)

lemma slash_split: "slash_text (go_Split (CHR ''/'') q) = CHR ''/'' # q"
proof (induction q)
  case (Cons c cs)
  then show ?case using go_Split_nonempty [of "CHR ''/''" cs] by (auto split: list.split)
qed simp

lemma clean_up: "length acc \<le> k \<Longrightarrow> foldl clean_step acc (replicate k ''..'') = []"
proof (induction k arbitrary: acc)
  case (Suc k)
  then show ?case by (simp add: clean_step_def)
qed simp

definition plain_segment :: "string \<Rightarrow> bool" where
  "plain_segment seg \<longleftrightarrow> seg \<noteq> [] \<and> seg \<noteq> ''.'' \<and> seg \<noteq> ''..''"

lemma clean_plain: "list_all plain_segment ss \<Longrightarrow> foldl clean_step acc ss = acc @ ss"
  by (induction ss arbitrary: acc) (auto simp: clean_step_def plain_segment_def)

text \<open>A group and version that goes up \<open>k\<close> times before it names a path.\<close>

definition up_and_down :: "nat \<Rightarrow> string \<Rightarrow> string" where
  "up_and_down k q = concat (replicate k ''../'') @ q"

lemma split_up: "go_Split (CHR ''/'') (up_and_down k q) = replicate k ''..'' @ go_Split (CHR ''/'') q"
  by (induction k) (simp_all add: up_and_down_def)

lemma escaped_path:
  assumes "list_all plain_segment (go_Split (CHR ''/'') q)" and "length (clean_segs (go_Split (CHR ''/'') base)) + 3 \<le> k"
  shows "JoinPath base (upstreamPath (up_and_down k q)) = CHR ''/'' # q"
proof -
  let ?gv = "up_and_down k q"
  obtain j where k: "k = Suc j" using assms(2) by (cases k) auto
  have path: "upstreamPath ?gv = ''/openapi/v3/apis/'' @ ?gv" by (simp add: upstreamPath_def up_and_down_def k)
  have "go_Split (CHR ''/'') (upstreamPath ?gv) = [[], ''openapi'', ''v3'', ''apis''] @ replicate k ''..'' @ go_Split (CHR ''/'') q"
    unfolding path by (simp add: split_up)
  then have "clean_segs (go_Split (CHR ''/'') base @ go_Split (CHR ''/'') (upstreamPath ?gv)) =
      foldl clean_step (foldl clean_step (clean_segs (go_Split (CHR ''/'') base) @ [''openapi'', ''v3'', ''apis'']) (replicate k ''..'')) (go_Split (CHR ''/'') q)"
    by (simp add: clean_segs_def clean_step_def)
  also have "\<dots> = go_Split (CHR ''/'') q"
    using assms clean_up [of "clean_segs (go_Split (CHR ''/'') base) @ [''openapi'', ''v3'', ''apis'']" k] by (simp add: clean_plain)
  finally have ss: "clean_segs (go_Split (CHR ''/'') base @ go_Split (CHR ''/'') (upstreamPath ?gv)) = go_Split (CHR ''/'') q" .
  have "last q \<noteq> CHR ''/''" if "q \<noteq> []"
  proof
    assume l: "last q = CHR ''/''"
    have "[] \<in> set (tl (go_Split (CHR ''/'') (xs @ ''/'')))" for xs
      by (induction xs) (auto split: list.split dest: list.set_sel(2) [rotated])
    then have "[] \<in> set (go_Split (CHR ''/'') (xs @ ''/''))" for xs by (metis go_Split_nonempty list.set_sel(2))
    moreover from l that have "q = butlast q @ ''/''" by (metis append_butlast_last_id)
    ultimately have "[] \<in> set (go_Split (CHR ''/'') q)" by metis
    with assms(1) show False by (auto simp: list_all_iff plain_segment_def)
  qed
  moreover have "q \<noteq> []" using assms(1) by (auto simp: plain_segment_def)
  ultimately have "last (upstreamPath ?gv) \<noteq> CHR ''/''" unfolding path by (simp add: up_and_down_def)
  with ss go_Split_nonempty [of "CHR ''/''" q] show ?thesis by (simp add: JoinPath_def slash_split)
qed

text \<open>Property C21: The proxy is not confined to schemas: \<open>..\<close> in the group and version of a request is resolved only after the
  schemas' prefix was put before it, so any caller can have the API fetch any path of a registered cluster with his token, and
  gets what the cluster answers there.\<close>

theorem schema_proxy_escapes:
  assumes "alone w" and "lru_ok L view" and "\<And>key. view (schemas w) key = None" and "transports w = []"
    and "GetClusterByName name (tables w) = Inr (clu, tables w)" and "url_path H (clu_url clu) = Inr base"
    and "buildTransport H (nullish (clu_ca clu) []) = Inr tr" and "list_all plain_segment (go_Split (CHR ''/'') q)"
    and "new_request H (url_with H (clu_url clu) (CHR ''/'' # q)) = None"
    and "schema_answer (do_get H (kube_state w) tr (url_with H (clu_url clu) (CHR ''/'' # q)) (cl_token u)) = Inr (ct, body)"
  shows "\<exists>gv. fst (serve (GetOpenAPIGroupVersion H L u asked kept name (CHR ''/'' # gv)) w) = Answer 200 (Schema ct body)"
proof -
  let ?gv = "up_and_down (length (clean_segs (go_Split (CHR ''/'') base)) + 3) q"
  let ?key = "\<lparr>sk_cluster = name, sk_user = cl_sub u, sk_gv = ?gv\<rparr>"
  let ?w1 = "w\<lparr>ticks := Suc (ticks w)\<rparr>"
  have q: "query (GetClusterByName name) w = (Inr (Inr clu) :: schema_body api_reply + _, ?w1)"
    using assms(5) by (simp add: query_alone [OF assms(1)])
  let ?w2 = "?w1\<lparr>schemas := snd (lru_get L ?key (schemas w))\<rparr>"
  have get: "on_cache (lru_get L ?key) ?w1 = (Inr None :: schema_body api_reply + _, ?w2)"
    using lru_okD(2) [OF assms(2), of ?key "schemas w"] assms(3) by (simp add: on_cache_def case_prod_beta)
  have "?gv \<noteq> []" by (simp add: up_and_down_def numeral_3_eq_3)
  then have "fst (serve (GetOpenAPIGroupVersion H L u asked kept name (CHR ''/'' # ?gv)) w) = Answer 200 (Schema ct body)"
    using q get assms(4,6,7,9,10) escaped_path [OF assms(8) order_refl]
    by (simp add: GetOpenAPIGroupVersion_def Let_def serve_def proxyOpenAPI_def fetch_schema_def after_def transportFor_def
        on_cache_def give_def case_prod_beta)
  then show ?thesis by blast
qed

section \<open>A concrete cache\<close>

type_synonym lru_list = "nat \<times> (schema_key \<times> schema_entry) list"

definition list_lru :: "lru_list lru" where
  "list_lru = \<lparr>lru_new = (\<lambda>n. (n - 1, [])),
     lru_get = (\<lambda>k h. (map_of (snd h) k, case map_of (snd h) k of None \<Rightarrow> h | Some e \<Rightarrow> (fst h, (k, e) # filter (\<lambda>x. fst x \<noteq> k) (snd h)))),
     lru_add = (\<lambda>k e h. (fst h, take (Suc (fst h)) ((k, e) # filter (\<lambda>x. fst x \<noteq> k) (snd h)))),
     lru_remove = (\<lambda>k h. (fst h, filter (\<lambda>x. fst x \<noteq> k) (snd h))),
     lru_keys = (\<lambda>h. map fst (snd h))\<rparr>"

definition list_view :: "lru_list \<Rightarrow> schema_key \<Rightarrow> schema_entry option" where
  "list_view h = map_of (snd h)"

lemma map_of_others: "map_of (filter (\<lambda>x. fst x \<noteq> k) es) j = (if j = k then None else map_of es j)"
  by (induction es) auto

lemma map_of_take: "map_of (take n es) j = None \<or> map_of (take n es) j = map_of es j"
  by (induction es arbitrary: n) (auto simp: take_Cons split: nat.split)

lemma list_lru_ok: "lru_ok list_lru list_view"
proof -
  have "map_of ((k, e) # filter (\<lambda>x. fst x \<noteq> k) es) = map_of es" if "map_of es k = Some e" for k e and es :: "(schema_key \<times> schema_entry) list"
    using that by (auto simp: map_of_others)
  moreover have "map_of (take n (filter (\<lambda>x. fst x \<noteq> k) es)) j = None \<or> map_of (take n (filter (\<lambda>x. fst x \<noteq> k) es)) j = map_of es j"
    if "j \<noteq> k" for n k j and es :: "(schema_key \<times> schema_entry) list"
    using map_of_take [of n "filter (\<lambda>x. fst x \<noteq> k) es" j] that by (simp add: map_of_others)
  ultimately show ?thesis
    by (auto simp: lru_ok_def list_lru_def list_view_def map_of_others dom_map_of_conv_image_fst split: option.split)
qed

definition demo_http :: "unit http" where
  "demo_http = \<lparr>url_path = (\<lambda>_. Inr []), url_with = (\<lambda>u p. u @ p), new_request = (\<lambda>_. None), pem_ok = (\<lambda>_. True), allow_insecure = ''true'',
     do_get = (\<lambda>_ _ url _. Inr \<lparr>ha_status = 200, ha_type = [], ha_body = Inr url\<rparr>)\<rparr>"

definition demo_proxy :: "(unit, lru_list) proxy_world" where
  "demo_proxy = \<lparr>tables = demo_db, committed = demo_db, others = (\<lambda>_ d. d), outage = (\<lambda>_. False), ticks = 0, kube_state = (),
     schemas = newOpenAPIProxy list_lru 0, transports = []\<rparr>"

definition unit_outside :: "(unit, unit) outside" where
  "unit_outside = \<lparr>o_lib = demo_lib, o_w32 = (\<lambda>_. 0), o_hostname = (\<lambda>_. True), o_email = (\<lambda>_. True), o_url = (\<lambda>_. True),
     o_kube = \<lparr>decoder = (\<lambda>_. []), object_gvk = (\<lambda>_. ([], [], [])), object_name = (\<lambda>_. []), object_namespace = (\<lambda>_. []), set_namespace = (\<lambda>_ d. d),
       marshal = (\<lambda>_. Inl []), secure_client = (\<lambda>_ _ _. Inr ()), insecure_client = (\<lambda>_ _. Inr ()), patch_object = (\<lambda>_ _ _ k. (None, k)),
       delete_collection = (\<lambda>_ _ _ _ k. (None, k)), list_pods = (\<lambda>_ _ _ _. Inr []), review_access = (\<lambda>_ _ _. Inl [])\<rparr>,
     o_ctx = demo_ctx, o_verify = (\<lambda>_. Inr a_user), o_admins = []\<rparr>"

lemma empty_cache: "list_view (newOpenAPIProxy list_lru n) key = None"
  by (simp add: newOpenAPIProxy_def list_lru_def list_view_def)

lemmas demo_proxy_defs = demo_http_def demo_proxy_def alone_def demo_db_def GetClusterByName_def one_row_def buildTransport_def go_trim_def
  schema_answer_def openapiMaxBytes_def

lemma schema_proxy_escapes_witness:
  "\<exists>gv. fst (serve (GetOpenAPIGroupVersion demo_http list_lru a_user 0 0 ''east'' (CHR ''/'' # gv)) demo_proxy)
     = Answer 200 (Schema ''application/json'' ''https://east/api/v1/secrets'')"
  by (rule schema_proxy_escapes [where view = list_view and clu = "hd (clusters_t demo_db)" and base = "[]" and tr = Insecure and q = "''api/v1/secrets''"])
    (simp_all add: list_lru_ok demo_proxy_defs plain_segment_def empty_cache)

lemma schemas_are_own_witness:
  "\<exists>at_time. 0 - at_time < openapiTTL \<and> came_from unit_outside demo_http list_lru demo_proxy [Schemas ''Bearer t'' (IndexR ''east'') 0 0]
     \<lparr>sk_cluster = ''east'', sk_user = ''carol'', sk_gv = []\<rparr> at_time ''application/json'' ''https://east/openapi/v3''"
proof -
  have auth: "requireAuth (o_verify unit_outside) (o_admins unit_outside) ''Bearer t'' = (Inr a_user :: schema_body api_reply + caller)"
    by (simp add: requireAuth_def bearer_scheme_def a_user_def unit_outside_def)
  have miss: "fst (lru_get list_lru key (newOpenAPIProxy list_lru 0)) = None" for key
    using lru_okD(2) [OF list_lru_ok] empty_cache by metis
  have "fst (schema_serve unit_outside demo_http list_lru ''Bearer t'' (IndexR ''east'') 0 0 (foldl (any_serve unit_outside demo_http list_lru) demo_proxy []))
      = Answer 200 (Schema ''application/json'' ''https://east/openapi/v3'')"
    using miss by (simp add: schema_serve_def auth GetOpenAPIIndex_def proxyOpenAPI_def fetch_schema_def serve_def after_def query_def stmt_def
        transportFor_def on_cache_def give_def case_prod_beta demo_proxy_defs upstreamPath_def JoinPath_def clean_segs_def clean_step_def Let_def)
  from schemas_are_own [OF list_lru_ok _ _ _ _ auth this, of 0 "''east''" "[]"] show ?thesis
    by (simp add: demo_proxy_def forward_def wanted_def a_user_def)
qed

end
