(* ===== verification/Ui_Elements.thy ===== *)
theory Ui_Elements
  imports Kp_Js
begin

text \<open>
  What React components return. Properties of an element are an object like any other, with the key
  \<open>children\<close> for what stands between its tags; an element is its tag, the name of a host element or of a component
  of a library, with its properties. A component is a function of the styling library and its properties. The
  locale \<open>forwarding\<close> is the contract of the components that wrap one element of a library: a property that is not
  their own reaches that element, and wins over the wrapper's.
\<close>

section \<open>Elements\<close>

datatype pval =
    PUndef | PNull | PBool bool | PNum jnum | PStr string
  | PName "nat list"
  | PFun string
  | PArr "pval list"
  | PObj "(string \<times> pval) list"
  | PEl string "(string \<times> pval) list"

type_synonym props = "(string, pval) obj"

fun ptruthy :: "pval \<Rightarrow> bool" where
  "ptruthy PUndef = False"
| "ptruthy PNull = False"
| "ptruthy (PBool b) = b"
| "ptruthy (PNum n) = (n \<noteq> NaN \<and> n \<noteq> Num 0)"
| "ptruthy (PStr s) = (s \<noteq> [])"
| "ptruthy (PName s) = (s \<noteq> [])"
| "ptruthy _ = True"

text \<open>\<open>v && w\<close>, \<open>v || w\<close> and \<open>v ?? w\<close>.\<close>

definition p_and :: "pval \<Rightarrow> pval \<Rightarrow> pval" where
  "p_and v w = (if ptruthy v then w else v)"

definition p_or :: "pval \<Rightarrow> pval \<Rightarrow> pval" where
  "p_or v w = (if ptruthy v then v else w)"

definition p_nullish :: "pval \<Rightarrow> pval \<Rightarrow> pval" where
  "p_nullish v w = (if v = PUndef \<or> v = PNull then w else v)"

text \<open>The patterns of a component's parameter: \<open>{ k }\<close>, \<open>{ k = d }\<close> and \<open>{ ks, ...rest }\<close>.\<close>

definition pget :: "props \<Rightarrow> string \<Rightarrow> pval" where
  "pget p k = nullish (oget p k) PUndef"

definition dflt :: "props \<Rightarrow> string \<Rightarrow> pval \<Rightarrow> pval" where
  "dflt p k d = (if pget p k = PUndef then d else pget p k)"

definition without :: "props \<Rightarrow> string list \<Rightarrow> props" where
  "without p ks = filter (\<lambda>e. fst e \<notin> set ks) p"

text \<open>The property \<open>children\<close> of an element with several children, written between its tags.\<close>

definition kids :: "pval list \<Rightarrow> pval" where
  "kids cs = (case cs of [c] \<Rightarrow> c | _ \<Rightarrow> PArr cs)"

text \<open>The elements of a tree, those in properties such as \<open>render\<close> included, in document order.\<close>

lemma size_in_props [termination_simp]: "(k, v) \<in> set ps \<Longrightarrow> size v < Suc (size_list (size_prod (\<lambda>_. 0) size) ps)"
  by (induction ps) auto

fun nodes :: "pval \<Rightarrow> (string \<times> props) list" where
  "nodes (PEl t ps) = (t, ps) # concat (map (\<lambda>(k, v). nodes v) ps)"
| "nodes (PArr vs) = concat (map nodes vs)"
| "nodes (PObj es) = concat (map (\<lambda>(k, v). nodes v) es)"
| "nodes _ = []"

text \<open>The ids of a tree's elements.\<close>

definition node_id :: "string \<times> props \<Rightarrow> string list" where
  "node_id n = (case pget (snd n) ''id'' of PStr i \<Rightarrow> [i] | _ \<Rightarrow> [])"

definition ids :: "pval \<Rightarrow> string list" where
  "ids v = concat (map node_id (nodes v))"

section \<open>The styling library\<close>

text \<open>
  \<open>twMerge\<close> and \<open>clsx\<close> join class names, \<open>cva\<close> chooses those of the variants (it gets the base classes, the classes of
  each variant, the default variants and the properties); \<open>mergeProps\<close> and \<open>useRender\<close> are Base UI's, for components
  that let the caller replace their element (it gets the default tag, the properties, the replacement and the
  state).
\<close>

record ui_lib =
  twMerge :: "string \<Rightarrow> string"
  clsx :: "pval list \<Rightarrow> string"
  cva :: "string \<Rightarrow> (string \<times> (string \<times> string) list) list \<Rightarrow> (string \<times> string) list \<Rightarrow> props \<Rightarrow> string"
  mergeProps :: "props \<Rightarrow> props \<Rightarrow> props"
  useRender :: "string \<Rightarrow> props \<Rightarrow> pval \<Rightarrow> props \<Rightarrow> pval"

type_synonym component = "ui_lib \<Rightarrow> props \<Rightarrow> pval"

definition cn :: "ui_lib \<Rightarrow> pval list \<Rightarrow> pval" where
  "cn K inputs = PStr (twMerge K (clsx K inputs))"

text \<open>A host element used as a component.\<close>

definition host :: "string \<Rightarrow> component" where
  "host tag K p = PEl tag p"

section \<open>The contract of a wrapper\<close>

fun root_props :: "pval \<Rightarrow> props" where
  "root_props (PEl t ps) = ps"
| "root_props _ = []"

fun root_tag :: "pval \<Rightarrow> string" where
  "root_tag (PEl t ps) = t"
| "root_tag _ = []"

lemma pget_oset: "pget (oset p k v) j = (if j = k then v else pget p j)"
  by (simp add: pget_def)

lemma pget_without: "pget (without p ks) k = (if k \<in> set ks then PUndef else pget p k)"
  unfolding without_def pget_def by (induction p) auto

lemma oget_without: "oget (without p ks) k = (if k \<in> set ks then None else oget p k)"
  unfolding without_def by (induction p) auto

lemma obj_ok_without: "obj_ok p \<Longrightarrow> obj_ok (without p ks)"
  unfolding without_def obj_ok_def by (induction p) auto

lemma cn_nodes [simp]: "nodes (cn K cs) = []"
  by (simp add: cn_def)

locale forwarding =
  fixes W :: component and own :: "string list" and tag :: string and slot :: string
  assumes one_element: "\<exists>ps. W K p = PEl tag ps"
    and forwards: "obj_ok p \<Longrightarrow> k \<notin> set own \<Longrightarrow> oget p k = Some v \<Longrightarrow> oget (root_props (W K p)) k = Some v"
    and slots: "oget p ''data-slot'' = None \<Longrightarrow> oget (root_props (W K p)) ''data-slot'' = Some (PStr slot)"
begin

lemma forwards_pget:
  assumes "obj_ok p" and "k \<notin> set own" and "oget p k \<noteq> None"
  shows "pget (root_props (W K p)) k = pget p k"
  using assms forwards by (fastforce simp: pget_def)

text \<open>Properties spread over others reach the element, whatever the others are.\<close>

lemma extra_wins:
  assumes "obj_ok p" and "obj_ok extra" and "k \<notin> set own" and "oget extra k = Some v"
  shows "oget (root_props (W K (ospread p extra))) k = Some v"
  using assms by (intro forwards) (simp_all add: oget_ospread_ok obj_ok_ospread)

end

lemma oget_rev_None: "oget (rev p) k = None \<longleftrightarrow> oget p k = None"
  by (simp add: map_of_eq_None_iff)

text \<open>For wrappers of the usual form: their own properties first, then what the caller gave, then children if they
  put some between the tags.\<close>

lemma spread_root:
  assumes "W = (\<lambda>K p. PEl tag (ospread (attrs K p) (without p own)))"
    and "\<And>K p. oget (attrs K p) ''data-slot'' = Some (PStr slot)"
  shows "forwarding W own tag slot"
proof
  show "\<exists>ps. W K p = PEl tag ps" for K p by (simp add: assms(1))
  show "oget (root_props (W K p)) k = Some v" if "obj_ok p" "k \<notin> set own" "oget p k = Some v" for K p k v
    using that by (simp add: assms(1) oget_ospread_ok obj_ok_without oget_without)
  show "oget (root_props (W K p)) ''data-slot'' = Some (PStr slot)" if "oget p ''data-slot'' = None" for K p
  proof -
    from that have "oget (rev (without p own)) ''data-slot'' = None" by (simp add: oget_rev_None oget_without)
    then show ?thesis by (simp add: assms oget_ospread)
  qed
qed

lemma spread_root_kids:
  assumes "W = (\<lambda>K p. PEl tag (oset (ospread (attrs K p) (without p own)) ''children'' (cs K p)))"
    and "\<And>K p. oget (attrs K p) ''data-slot'' = Some (PStr slot)"
  shows "forwarding W (''children'' # own) tag slot"
proof
  show "\<exists>ps. W K p = PEl tag ps" for K p by (simp add: assms(1))
  show "oget (root_props (W K p)) k = Some v" if "obj_ok p" "k \<notin> set (''children'' # own)" "oget p k = Some v" for K p k v
    using that by (simp add: assms(1) oget_ospread_ok obj_ok_without oget_without)
  show "oget (root_props (W K p)) ''data-slot'' = Some (PStr slot)" if "oget p ''data-slot'' = None" for K p
  proof -
    from that have "oget (rev (without p own)) ''data-slot'' = None" by (simp add: oget_rev_None oget_without)
    then show ?thesis by (simp add: assms oget_ospread)
  qed
qed

end
