(* ===== verification/Ui_Controls.thy ===== *)
theory Ui_Controls
  imports Ui_Elements
begin

text \<open>
  The controls of \<open>components/ui\<close>: \<open>label\<close>, \<open>input\<close>, \<open>button\<close>, \<open>separator\<close>, \<open>checkbox\<close>, \<open>switch\<close>, \<open>toggle\<close>,
  \<open>toggle-group\<close>, \<open>slider\<close>, \<open>select\<close>, \<open>tabs\<close> and \<open>badge\<close>, each a definition that gives the elements it returns. The
  primitives they style come from Base UI. Those that a form uses keep the contract \<open>forwarding\<close>.
\<close>

section \<open>Label, input and button\<close>

definition Label :: component where
  "Label K p = PEl ''label'' (ospread [(''data-slot'', PStr ''label''),
      (''className'', cn K [PStr ''flex items-center gap-2 text-sm leading-none font-medium select-none group-data-[disabled=true]:pointer-events-none group-data-[disabled=true]:opacity-50 peer-disabled:cursor-not-allowed peer-disabled:opacity-50'',
       pget p ''className''])] (without p [''className'']))"

definition Input :: component where
  "Input K p = PEl ''InputPrimitive'' (ospread [(''type'', pget p ''type''),
      (''data-slot'', PStr ''input''),
      (''className'', cn K [PStr ''h-8 w-full min-w-0 rounded-lg border border-input bg-transparent px-2.5 py-1 text-base transition-colors outline-none file:inline-flex file:h-6 file:border-0 file:bg-transparent file:text-sm file:font-medium file:text-foreground placeholder:text-muted-foreground focus-visible:border-ring focus-visible:ring-3 focus-visible:ring-ring/50 disabled:pointer-events-none disabled:cursor-not-allowed disabled:bg-input/50 disabled:opacity-50 aria-invalid:border-destructive aria-invalid:ring-3 aria-invalid:ring-destructive/20 md:text-sm dark:bg-input/30 dark:disabled:bg-input/80 dark:aria-invalid:border-destructive/50 dark:aria-invalid:ring-destructive/40'',
       pget p ''className''])]
     (without p [''className'', ''type'']))"

definition buttonVariants :: "ui_lib \<Rightarrow> props \<Rightarrow> pval" where
  "buttonVariants K p = PStr (cva K ''group/button inline-flex shrink-0 items-center justify-center rounded-lg border border-transparent bg-clip-padding text-sm font-medium whitespace-nowrap transition-all outline-none select-none focus-visible:border-ring focus-visible:ring-3 focus-visible:ring-ring/50 active:not-aria-[haspopup]:translate-y-px disabled:pointer-events-none disabled:opacity-50 aria-invalid:border-destructive aria-invalid:ring-3 aria-invalid:ring-destructive/20 dark:aria-invalid:border-destructive/50 dark:aria-invalid:ring-destructive/40 [&_svg]:pointer-events-none [&_svg]:shrink-0 [&_svg:not([class*='size-'])]:size-4''
     [(''variant'', [(''default'', ''bg-primary text-primary-foreground [a]:hover:bg-primary/80''),
       (''outline'', ''border-border bg-background hover:bg-muted hover:text-foreground aria-expanded:bg-muted aria-expanded:text-foreground dark:border-input dark:bg-input/30 dark:hover:bg-input/50''),
       (''secondary'', ''bg-secondary text-secondary-foreground hover:bg-secondary/80 aria-expanded:bg-secondary aria-expanded:text-secondary-foreground''),
       (''ghost'', ''hover:bg-muted hover:text-foreground aria-expanded:bg-muted aria-expanded:text-foreground dark:hover:bg-muted/50''),
       (''destructive'', ''bg-destructive/10 text-destructive hover:bg-destructive/20 focus-visible:border-destructive/40 focus-visible:ring-destructive/20 dark:bg-destructive/20 dark:hover:bg-destructive/30 dark:focus-visible:ring-destructive/40''),
       (''link'', ''text-primary underline-offset-4 hover:underline'')]),
      (''size'', [(''default'', ''h-8 gap-1.5 px-2.5 has-data-[icon=inline-end]:pr-2 has-data-[icon=inline-start]:pl-2''),
       (''xs'', ''h-6 gap-1 rounded-[min(var(--radius-md),10px)] px-2 text-xs in-data-[slot=button-group]:rounded-lg has-data-[icon=inline-end]:pr-1.5 has-data-[icon=inline-start]:pl-1.5 [&_svg:not([class*='size-'])]:size-3''),
       (''sm'', ''h-7 gap-1 rounded-[min(var(--radius-md),12px)] px-2.5 text-[0.8rem] in-data-[slot=button-group]:rounded-lg has-data-[icon=inline-end]:pr-1.5 has-data-[icon=inline-start]:pl-1.5 [&_svg:not([class*='size-'])]:size-3.5''),
       (''lg'', ''h-9 gap-1.5 px-2.5 has-data-[icon=inline-end]:pr-2 has-data-[icon=inline-start]:pl-2''),
       (''icon'', ''size-8''),
       (''icon-xs'', ''size-6 rounded-[min(var(--radius-md),10px)] in-data-[slot=button-group]:rounded-lg [&_svg:not([class*='size-'])]:size-3''),
       (''icon-sm'', ''size-7 rounded-[min(var(--radius-md),12px)] in-data-[slot=button-group]:rounded-lg''),
       (''icon-lg'', ''size-9'')])]
     [(''variant'', ''default''), (''size'', ''default'')] p)"

definition Button :: component where
  "Button K p = PEl ''ButtonPrimitive'' (ospread [(''data-slot'', PStr ''button''),
      (''className'', cn K [buttonVariants K [(''variant'', dflt p ''variant'' (PStr ''default'')),
        (''size'', dflt p ''size'' (PStr ''default'')),
        (''className'', pget p ''className'')]])]
     (without p [''className'', ''variant'', ''size'']))"

section \<open>Separator, checkbox and switch\<close>

definition Separator :: component where
  "Separator K p = PEl ''SeparatorPrimitive'' (ospread [(''data-slot'', PStr ''separator''),
      (''orientation'', dflt p ''orientation'' (PStr ''horizontal'')),
      (''className'', cn K [PStr ''shrink-0 bg-border data-horizontal:h-px data-horizontal:w-full data-vertical:w-px data-vertical:self-stretch'',
       pget p ''className''])]
     (without p [''className'', ''orientation'']))"

definition Checkbox :: component where
  "Checkbox K p = PEl ''CheckboxPrimitive.Root'' (oset (ospread [(''data-slot'', PStr ''checkbox''),
      (''className'', cn K [PStr ''peer relative flex size-4 shrink-0 items-center justify-center rounded-[4px] border border-input transition-colors outline-none group-has-disabled/field:opacity-50 after:absolute after:-inset-x-3 after:-inset-y-2 focus-visible:border-ring focus-visible:ring-3 focus-visible:ring-ring/50 disabled:cursor-not-allowed disabled:opacity-50 aria-invalid:border-destructive aria-invalid:ring-3 aria-invalid:ring-destructive/20 aria-invalid:aria-checked:border-primary dark:bg-input/30 dark:aria-invalid:border-destructive/50 dark:aria-invalid:ring-destructive/40 data-checked:border-primary data-checked:bg-primary data-checked:text-primary-foreground dark:data-checked:bg-primary'',
       pget p ''className''])]
     (without p [''className''])) ''children'' (PEl ''CheckboxPrimitive.Indicator'' [(''data-slot'', PStr ''checkbox-indicator''),
      (''className'', PStr ''grid place-content-center text-current transition-none [&>svg]:size-3.5''),
      (''children'', PEl ''CheckIcon'' [])]))"

definition Switch_ui :: component where
  "Switch_ui K p = PEl ''SwitchPrimitive.Root'' (oset (ospread [(''data-slot'', PStr ''switch''),
      (''data-size'', dflt p ''size'' (PStr ''default'')),
      (''className'', cn K [PStr ''peer group/switch relative inline-flex shrink-0 items-center rounded-full border border-transparent transition-all outline-none after:absolute after:-inset-x-3 after:-inset-y-2 focus-visible:border-ring focus-visible:ring-3 focus-visible:ring-ring/50 aria-invalid:border-destructive aria-invalid:ring-3 aria-invalid:ring-destructive/20 data-[size=default]:h-[18.4px] data-[size=default]:w-[32px] data-[size=sm]:h-[14px] data-[size=sm]:w-[24px] dark:aria-invalid:border-destructive/50 dark:aria-invalid:ring-destructive/40 data-checked:bg-primary data-unchecked:bg-input dark:data-unchecked:bg-input/80 data-disabled:cursor-not-allowed data-disabled:opacity-50'',
       pget p ''className''])]
     (without p [''className'', ''size''])) ''children'' (PEl ''SwitchPrimitive.Thumb'' [(''data-slot'', PStr ''switch-thumb''),
      (''className'', PStr ''pointer-events-none block rounded-full bg-background ring-0 transition-transform group-data-[size=default]/switch:size-4 group-data-[size=sm]/switch:size-3 group-data-[size=default]/switch:data-checked:translate-x-[calc(100%-2px)] group-data-[size=sm]/switch:data-checked:translate-x-[calc(100%-2px)] dark:data-checked:bg-primary-foreground group-data-[size=default]/switch:data-unchecked:translate-x-0 group-data-[size=sm]/switch:data-unchecked:translate-x-0 dark:data-unchecked:bg-foreground'')]))"

section \<open>Toggles\<close>

definition toggleVariants :: "ui_lib \<Rightarrow> props \<Rightarrow> pval" where
  "toggleVariants K p = PStr (cva K ''group/toggle inline-flex items-center justify-center gap-1 rounded-lg text-sm font-medium whitespace-nowrap transition-all outline-none hover:bg-muted hover:text-foreground focus-visible:border-ring focus-visible:ring-[3px] focus-visible:ring-ring/50 disabled:pointer-events-none disabled:opacity-50 aria-invalid:border-destructive aria-invalid:ring-destructive/20 aria-pressed:bg-muted data-[state=on]:bg-muted dark:aria-invalid:ring-destructive/40 [&_svg]:pointer-events-none [&_svg]:shrink-0 [&_svg:not([class*='size-'])]:size-4''
     [(''variant'', [(''default'', ''bg-transparent''),
       (''outline'', ''border border-input bg-transparent hover:bg-muted'')]),
      (''size'', [(''default'', ''h-8 min-w-8 px-2.5 has-data-[icon=inline-end]:pr-2 has-data-[icon=inline-start]:pl-2''),
       (''sm'', ''h-7 min-w-7 rounded-[min(var(--radius-md),12px)] px-2.5 text-[0.8rem] has-data-[icon=inline-end]:pr-1.5 has-data-[icon=inline-start]:pl-1.5 [&_svg:not([class*='size-'])]:size-3.5''),
       (''lg'', ''h-9 min-w-9 px-2.5 has-data-[icon=inline-end]:pr-2 has-data-[icon=inline-start]:pl-2'')])]
     [(''variant'', ''default''), (''size'', ''default'')] p)"

definition Toggle :: component where
  "Toggle K p = PEl ''TogglePrimitive'' (ospread [(''data-slot'', PStr ''toggle''),
      (''className'', cn K [toggleVariants K [(''variant'', dflt p ''variant'' (PStr ''default'')),
        (''size'', dflt p ''size'' (PStr ''default'')),
        (''className'', pget p ''className'')]])]
     (without p [''className'', ''variant'', ''size'']))"

text \<open>
  A group gives its variant, size, spacing and orientation to its items by a context; an item outside of groups sees the
  context's default. React renders an item below the provider, so the context is an argument here.
\<close>

definition toggle_context_default :: props where
  "toggle_context_default = [(''size'', PStr ''default''), (''variant'', PStr ''default''), (''spacing'', PNum (Num 0)),
     (''orientation'', PStr ''horizontal'')]"

definition toggle_context :: "props \<Rightarrow> props" where
  "toggle_context p = [(''variant'', pget p ''variant''), (''size'', pget p ''size''),
     (''spacing'', dflt p ''spacing'' (PNum (Num 0))), (''orientation'', dflt p ''orientation'' (PStr ''horizontal''))]"

definition ToggleGroup_ui :: component where
  "ToggleGroup_ui K p = PEl ''ToggleGroupPrimitive'' (oset (ospread [(''data-slot'', PStr ''toggle-group''),
      (''data-variant'', pget p ''variant''),
      (''data-size'', pget p ''size''),
      (''data-spacing'', dflt p ''spacing'' (PNum (Num 0))),
      (''data-orientation'', dflt p ''orientation'' (PStr ''horizontal'')),
      (''style'', PObj [(''--gap'', dflt p ''spacing'' (PNum (Num 0)))]),
      (''className'', cn K [PStr ''group/toggle-group flex w-fit flex-row items-center gap-[--spacing(var(--gap))] rounded-lg data-[size=sm]:rounded-[min(var(--radius-md),10px)] data-vertical:flex-col data-vertical:items-stretch'',
       pget p ''className''])]
     (without p [''className'', ''variant'', ''size'', ''spacing'', ''orientation'', ''children'']))
     ''children'' (PEl ''ToggleGroupContext.Provider'' [(''value'', PObj (toggle_context p)),
      (''children'', pget p ''children'')]))"

definition ToggleGroupItem :: "props \<Rightarrow> component" where
  "ToggleGroupItem context K p = (let variant = p_or (pget context ''variant'') (dflt p ''variant'' (PStr ''default''));
        size = p_or (pget context ''size'') (dflt p ''size'' (PStr ''default'')) in
     PEl ''TogglePrimitive'' (oset (ospread [(''data-slot'', PStr ''toggle-group-item''),
      (''data-variant'', variant),
      (''data-size'', size),
      (''data-spacing'', pget context ''spacing''),
      (''className'', cn K [PStr ''shrink-0 group-data-[spacing=0]/toggle-group:rounded-none group-data-[spacing=0]/toggle-group:px-2 focus:z-10 focus-visible:z-10 group-data-[spacing=0]/toggle-group:has-data-[icon=inline-end]:pr-1.5 group-data-[spacing=0]/toggle-group:has-data-[icon=inline-start]:pl-1.5 group-data-horizontal/toggle-group:data-[spacing=0]:first:rounded-l-lg group-data-vertical/toggle-group:data-[spacing=0]:first:rounded-t-lg group-data-horizontal/toggle-group:data-[spacing=0]:last:rounded-r-lg group-data-vertical/toggle-group:data-[spacing=0]:last:rounded-b-lg group-data-horizontal/toggle-group:data-[spacing=0]:data-[variant=outline]:border-l-0 group-data-vertical/toggle-group:data-[spacing=0]:data-[variant=outline]:border-t-0 group-data-horizontal/toggle-group:data-[spacing=0]:data-[variant=outline]:first:border-l group-data-vertical/toggle-group:data-[spacing=0]:data-[variant=outline]:first:border-t'',
       toggleVariants K [(''variant'', variant), (''size'', size)], pget p ''className''])]
     (without p [''className'', ''children'', ''variant'', ''size''])) ''children'' (pget p ''children'')))"

section \<open>Slider\<close>

text \<open>One thumb for each value: the caller's, the default's, or one at each end.\<close>

definition slider_values :: "props \<Rightarrow> pval list" where
  "slider_values p = (case pget p ''value'' of PArr vs \<Rightarrow> vs
     | _ \<Rightarrow> (case pget p ''defaultValue'' of PArr vs \<Rightarrow> vs
        | _ \<Rightarrow> [dflt p ''min'' (PNum (Num 0)), dflt p ''max'' (PNum (Num 100))]))"

definition Slider_ui :: component where
  "Slider_ui K p = PEl ''SliderPrimitive.Root'' (oset (ospread
     [(''className'', cn K [PStr ''data-horizontal:w-full data-vertical:h-full'', pget p ''className'']),
      (''data-slot'', PStr ''slider''),
      (''defaultValue'', pget p ''defaultValue''),
      (''value'', pget p ''value''),
      (''min'', dflt p ''min'' (PNum (Num 0))),
      (''max'', dflt p ''max'' (PNum (Num 100))),
      (''thumbAlignment'', PStr ''edge'')]
     (without p [''className'', ''defaultValue'', ''value'', ''min'', ''max'']))
     ''children'' (PEl ''SliderPrimitive.Control'' [
      (''className'', PStr ''relative flex w-full touch-none items-center select-none data-disabled:opacity-50 data-vertical:h-full data-vertical:min-h-40 data-vertical:w-auto data-vertical:flex-col''),
      (''children'', kids [PEl ''SliderPrimitive.Track'' [(''data-slot'', PStr ''slider-track''),
        (''className'', PStr ''relative grow overflow-hidden rounded-full bg-muted select-none data-horizontal:h-1 data-horizontal:w-full data-vertical:h-full data-vertical:w-1''),
        (''children'', PEl ''SliderPrimitive.Indicator'' [(''data-slot'', PStr ''slider-range''),
         (''className'', PStr ''bg-primary select-none data-horizontal:h-full data-vertical:w-full'')])],
       PArr (map (\<lambda>i. PEl ''SliderPrimitive.Thumb'' [(''data-slot'', PStr ''slider-thumb''),
         (''key'', PNum (Num (of_nat i))),
         (''className'', PStr ''relative block size-3 shrink-0 rounded-full border border-ring bg-white ring-ring/50 transition-[color,box-shadow] select-none after:absolute after:-inset-2 hover:ring-3 focus-visible:ring-3 focus-visible:outline-hidden active:ring-3 disabled:pointer-events-none disabled:opacity-50'')]) [0..<length (slider_values p)])])]))"

section \<open>Select\<close>

definition Select_ui :: component where
  "Select_ui = host ''SelectPrimitive.Root''"

definition SelectGroup :: component where
  "SelectGroup K p = PEl ''SelectPrimitive.Group'' (ospread [(''data-slot'', PStr ''select-group''),
      (''className'', cn K [PStr ''scroll-my-1 p-1'', pget p ''className''])] (without p [''className'']))"

definition SelectValue :: component where
  "SelectValue K p = PEl ''SelectPrimitive.Value'' (ospread [(''data-slot'', PStr ''select-value''),
      (''className'', cn K [PStr ''flex flex-1 text-left'', pget p ''className''])] (without p [''className'']))"

definition SelectTrigger :: component where
  "SelectTrigger K p = PEl ''SelectPrimitive.Trigger'' (oset (ospread [(''data-slot'', PStr ''select-trigger''),
      (''data-size'', dflt p ''size'' (PStr ''default'')),
      (''className'', cn K [PStr ''flex w-fit items-center justify-between gap-1.5 rounded-lg border border-input bg-transparent py-2 pr-2 pl-2.5 text-sm whitespace-nowrap transition-colors outline-none select-none focus-visible:border-ring focus-visible:ring-3 focus-visible:ring-ring/50 disabled:cursor-not-allowed disabled:opacity-50 aria-invalid:border-destructive aria-invalid:ring-3 aria-invalid:ring-destructive/20 data-placeholder:text-muted-foreground data-[size=default]:h-8 data-[size=sm]:h-7 data-[size=sm]:rounded-[min(var(--radius-md),10px)] *:data-[slot=select-value]:line-clamp-1 *:data-[slot=select-value]:flex *:data-[slot=select-value]:items-center *:data-[slot=select-value]:gap-1.5 dark:bg-input/30 dark:hover:bg-input/50 dark:aria-invalid:border-destructive/50 dark:aria-invalid:ring-destructive/40 [&_svg]:pointer-events-none [&_svg]:shrink-0 [&_svg:not([class*='size-'])]:size-4'',
       pget p ''className''])]
     (without p [''className'', ''size'', ''children''])) ''children'' (kids [pget p ''children'',
      PEl ''SelectPrimitive.Icon'' [(''render'', PEl ''ChevronDownIcon'' [(''className'', PStr ''pointer-events-none size-4 text-muted-foreground'')])]]))"

definition SelectLabel :: component where
  "SelectLabel K p = PEl ''SelectPrimitive.GroupLabel'' (ospread [(''data-slot'', PStr ''select-label''),
      (''className'', cn K [PStr ''px-1.5 py-1 text-xs text-muted-foreground'', pget p ''className''])] (without p [''className'']))"

definition SelectItem :: component where
  "SelectItem K p = PEl ''SelectPrimitive.Item'' (oset (ospread [(''data-slot'', PStr ''select-item''),
      (''className'', cn K [PStr ''relative flex w-full cursor-default items-center gap-1.5 rounded-md py-1 pr-8 pl-1.5 text-sm outline-hidden select-none focus:bg-accent focus:text-accent-foreground not-data-[variant=destructive]:focus:**:text-accent-foreground data-disabled:pointer-events-none data-disabled:opacity-50 [&_svg]:pointer-events-none [&_svg]:shrink-0 [&_svg:not([class*='size-'])]:size-4 *:[span]:last:flex *:[span]:last:items-center *:[span]:last:gap-2'',
       pget p ''className''])]
     (without p [''className'', ''children''])) ''children'' (kids [PEl ''SelectPrimitive.ItemText'' [(''className'', PStr ''flex flex-1 shrink-0 gap-2 whitespace-nowrap''),
       (''children'', pget p ''children'')],
      PEl ''SelectPrimitive.ItemIndicator'' [(''render'', PEl ''span'' [(''className'', PStr ''pointer-events-none absolute right-2 flex size-4 items-center justify-center'')]),
       (''children'', PEl ''CheckIcon'' [(''className'', PStr ''pointer-events-none'')])]]))"

definition SelectSeparator :: component where
  "SelectSeparator K p = PEl ''SelectPrimitive.Separator'' (ospread [(''data-slot'', PStr ''select-separator''),
      (''className'', cn K [PStr ''pointer-events-none -mx-1 my-1 h-px bg-border'', pget p ''className''])] (without p [''className'']))"

definition SelectScrollUpButton :: component where
  "SelectScrollUpButton K p = PEl ''SelectPrimitive.ScrollUpArrow'' (oset (ospread [(''data-slot'', PStr ''select-scroll-up-button''),
      (''className'', cn K [PStr ''top-0 z-10 flex w-full cursor-default items-center justify-center bg-popover py-1 [&_svg:not([class*='size-'])]:size-4'',
       pget p ''className''])]
     (without p [''className''])) ''children'' (PEl ''ChevronUpIcon'' []))"

definition SelectScrollDownButton :: component where
  "SelectScrollDownButton K p = PEl ''SelectPrimitive.ScrollDownArrow'' (oset (ospread [(''data-slot'', PStr ''select-scroll-down-button''),
      (''className'', cn K [PStr ''bottom-0 z-10 flex w-full cursor-default items-center justify-center bg-popover py-1 [&_svg:not([class*='size-'])]:size-4'',
       pget p ''className''])]
     (without p [''className''])) ''children'' (PEl ''ChevronDownIcon'' []))"

definition SelectContent :: component where
  "SelectContent K p = PEl ''SelectPrimitive.Portal'' [(''children'', PEl ''SelectPrimitive.Positioner'' [(''side'', dflt p ''side'' (PStr ''bottom'')),
       (''sideOffset'', dflt p ''sideOffset'' (PNum (Num 4))),
       (''align'', dflt p ''align'' (PStr ''center'')),
       (''alignOffset'', dflt p ''alignOffset'' (PNum (Num 0))),
       (''alignItemWithTrigger'', dflt p ''alignItemWithTrigger'' (PBool True)),
       (''className'', PStr ''isolate z-50''),
       (''children'', PEl ''SelectPrimitive.Popup'' (oset (ospread [(''data-slot'', PStr ''select-content''),
        (''data-align-trigger'', dflt p ''alignItemWithTrigger'' (PBool True)),
        (''className'', cn K [PStr ''relative isolate z-50 max-h-(--available-height) w-(--anchor-width) min-w-36 origin-(--transform-origin) overflow-x-hidden overflow-y-auto rounded-lg bg-popover text-popover-foreground shadow-md ring-1 ring-foreground/10 duration-100 data-[align-trigger=true]:animate-none data-[side=bottom]:slide-in-from-top-2 data-[side=inline-end]:slide-in-from-left-2 data-[side=inline-start]:slide-in-from-right-2 data-[side=left]:slide-in-from-right-2 data-[side=right]:slide-in-from-left-2 data-[side=top]:slide-in-from-bottom-2 data-open:animate-in data-open:fade-in-0 data-open:zoom-in-95 data-closed:animate-out data-closed:fade-out-0 data-closed:zoom-out-95'',
         pget p ''className''])]
       (without p [''className'',
        ''children'',
        ''side'',
        ''sideOffset'',
        ''align'',
        ''alignOffset'',
        ''alignItemWithTrigger''])) ''children'' (kids [SelectScrollUpButton K [],
        PEl ''SelectPrimitive.List'' [(''children'', pget p ''children'')],
        SelectScrollDownButton K []])))])]"

section \<open>Tabs and badge\<close>

definition tabsListVariants :: "ui_lib \<Rightarrow> props \<Rightarrow> pval" where
  "tabsListVariants K p = PStr (cva K ''group/tabs-list inline-flex w-fit items-center justify-center rounded-lg p-[3px] text-muted-foreground group-data-horizontal/tabs:h-8 group-data-vertical/tabs:h-fit group-data-vertical/tabs:flex-col data-[variant=line]:rounded-none''
     [(''variant'', [(''default'', ''bg-muted''), (''line'', ''gap-1 bg-transparent'')])]
     [(''variant'', ''default'')] p)"

definition Tabs :: component where
  "Tabs K p = PEl ''TabsPrimitive.Root'' (ospread [(''data-slot'', PStr ''tabs''),
      (''data-orientation'', dflt p ''orientation'' (PStr ''horizontal'')),
      (''className'', cn K [PStr ''group/tabs flex gap-2 data-horizontal:flex-col'', pget p ''className''])]
     (without p [''className'', ''orientation'']))"

definition TabsList :: component where
  "TabsList K p = PEl ''TabsPrimitive.List'' (ospread [(''data-slot'', PStr ''tabs-list''),
      (''data-variant'', dflt p ''variant'' (PStr ''default'')),
      (''className'', cn K [tabsListVariants K [(''variant'', dflt p ''variant'' (PStr ''default''))],
       pget p ''className''])]
     (without p [''className'', ''variant'']))"

definition TabsTrigger :: component where
  "TabsTrigger K p = PEl ''TabsPrimitive.Tab'' (ospread [(''data-slot'', PStr ''tabs-trigger''),
      (''className'', cn K [PStr ''relative inline-flex h-[calc(100%-1px)] flex-1 items-center justify-center gap-1.5 rounded-md border border-transparent px-1.5 py-0.5 text-sm font-medium whitespace-nowrap text-foreground/60 transition-all group-data-vertical/tabs:w-full group-data-vertical/tabs:justify-start hover:text-foreground focus-visible:border-ring focus-visible:ring-[3px] focus-visible:ring-ring/50 focus-visible:outline-1 focus-visible:outline-ring disabled:pointer-events-none disabled:opacity-50 has-data-[icon=inline-end]:pr-1 has-data-[icon=inline-start]:pl-1 aria-disabled:pointer-events-none aria-disabled:opacity-50 dark:text-muted-foreground dark:hover:text-foreground group-data-[variant=default]/tabs-list:data-active:shadow-sm group-data-[variant=line]/tabs-list:data-active:shadow-none [&_svg]:pointer-events-none [&_svg]:shrink-0 [&_svg:not([class*='size-'])]:size-4'',
       PStr ''group-data-[variant=line]/tabs-list:bg-transparent group-data-[variant=line]/tabs-list:data-active:bg-transparent dark:group-data-[variant=line]/tabs-list:data-active:border-transparent dark:group-data-[variant=line]/tabs-list:data-active:bg-transparent'',
       PStr ''data-active:bg-background data-active:text-foreground dark:data-active:border-input dark:data-active:bg-input/30 dark:data-active:text-foreground'',
       PStr ''after:absolute after:bg-foreground after:opacity-0 after:transition-opacity group-data-horizontal/tabs:after:inset-x-0 group-data-horizontal/tabs:after:bottom-[-5px] group-data-horizontal/tabs:after:h-0.5 group-data-vertical/tabs:after:inset-y-0 group-data-vertical/tabs:after:-right-1 group-data-vertical/tabs:after:w-0.5 group-data-[variant=line]/tabs-list:data-active:after:opacity-100'',
       pget p ''className''])] (without p [''className'']))"

definition TabsContent :: component where
  "TabsContent K p = PEl ''TabsPrimitive.Panel'' (ospread [(''data-slot'', PStr ''tabs-content''),
      (''className'', cn K [PStr ''flex-1 text-sm outline-none'', pget p ''className''])] (without p [''className'']))"

definition badgeVariants :: "ui_lib \<Rightarrow> props \<Rightarrow> pval" where
  "badgeVariants K p = PStr (cva K ''group/badge inline-flex h-5 w-fit shrink-0 items-center justify-center gap-1 overflow-hidden rounded-4xl border border-transparent px-2 py-0.5 text-xs font-medium whitespace-nowrap transition-all focus-visible:border-ring focus-visible:ring-[3px] focus-visible:ring-ring/50 has-data-[icon=inline-end]:pr-1.5 has-data-[icon=inline-start]:pl-1.5 aria-invalid:border-destructive aria-invalid:ring-destructive/20 dark:aria-invalid:ring-destructive/40 [&>svg]:pointer-events-none [&>svg]:size-3!''
     [(''variant'', [(''default'', ''bg-primary text-primary-foreground [a]:hover:bg-primary/80''),
       (''secondary'', ''bg-secondary text-secondary-foreground [a]:hover:bg-secondary/80''),
       (''destructive'', ''bg-destructive/10 text-destructive focus-visible:ring-destructive/20 dark:bg-destructive/20 dark:focus-visible:ring-destructive/40 [a]:hover:bg-destructive/20''),
       (''outline'', ''border-border text-foreground [a]:hover:bg-muted [a]:hover:text-muted-foreground''),
       (''ghost'', ''hover:bg-muted hover:text-muted-foreground dark:hover:bg-muted/50''),
       (''link'', ''text-primary underline-offset-4 hover:underline''),
       (''success'', ''bg-green-100 text-green-800 dark:bg-green-950 dark:text-green-200 [a]:hover:bg-green-200''),
       (''warning'', ''bg-amber-100 text-amber-800 dark:bg-amber-950 dark:text-amber-200 [a]:hover:bg-amber-200''),
       (''muted'', ''bg-muted text-muted-foreground [a]:hover:bg-muted/80'')])]
     [(''variant'', ''default'')] p)"

definition Badge :: component where
  "Badge K p = useRender K ''span''
     (mergeProps K [(''className'', cn K [badgeVariants K [(''variant'', dflt p ''variant'' (PStr ''default''))], pget p ''className''])]
       (without p [''className'', ''variant'', ''render'']))
     (pget p ''render'') [(''slot'', PStr ''badge''), (''variant'', dflt p ''variant'' (PStr ''default''))]"

section \<open>The wrappers that forward\<close>

interpretation w_label: forwarding Label "[''className'']" "''label''" "''label''"
  by (rule spread_root, intro ext, rule Label_def, simp)

interpretation w_input: forwarding Input "[''className'', ''type'']" "''InputPrimitive''" "''input''"
  by (rule spread_root, intro ext, rule Input_def, simp)

interpretation w_button: forwarding Button "[''className'', ''variant'', ''size'']" "''ButtonPrimitive''" "''button''"
  by (rule spread_root, intro ext, rule Button_def, simp)

interpretation w_separator: forwarding Separator "[''className'', ''orientation'']" "''SeparatorPrimitive''" "''separator''"
  by (rule spread_root, intro ext, rule Separator_def, simp)

interpretation w_checkbox: forwarding Checkbox "[''children'', ''className'']" "''CheckboxPrimitive.Root''" "''checkbox''"
  by (rule spread_root_kids, intro ext, rule Checkbox_def, simp)

interpretation w_switch: forwarding Switch_ui "[''children'', ''className'', ''size'']" "''SwitchPrimitive.Root''" "''switch''"
  by (rule spread_root_kids, intro ext, rule Switch_ui_def, simp)

interpretation w_toggle: forwarding Toggle "[''className'', ''variant'', ''size'']" "''TogglePrimitive''" "''toggle''"
  by (rule spread_root, intro ext, rule Toggle_def, simp)

interpretation w_group: forwarding ToggleGroup_ui "[''children'', ''className'', ''variant'', ''size'', ''spacing'', ''orientation'', ''children'']" "''ToggleGroupPrimitive''" "''toggle-group''"
  by (rule spread_root_kids, intro ext, rule ToggleGroup_ui_def, simp)

interpretation w_slider: forwarding Slider_ui "[''children'', ''className'', ''defaultValue'', ''value'', ''min'', ''max'']" "''SliderPrimitive.Root''" "''slider''"
  by (rule spread_root_kids, intro ext, rule Slider_ui_def, simp)

interpretation w_trigger: forwarding SelectTrigger "[''children'', ''className'', ''size'', ''children'']" "''SelectPrimitive.Trigger''" "''select-trigger''"
  by (rule spread_root_kids, intro ext, rule SelectTrigger_def, simp)

interpretation w_tabs: forwarding Tabs "[''className'', ''orientation'']" "''TabsPrimitive.Root''" "''tabs''"
  by (rule spread_root, intro ext, rule Tabs_def, simp)

end
