(* ===== verification/Form_Rows.thy ===== *)
theory Form_Rows
  imports Ui_Spec Ui_Controls
begin

text \<open>
  \<open>frontend/components/ui/form.tsx\<close> and the elements \<open>components/DynamicForm.tsx\<close> returns: how a field's label, control,
  help and error message refer to each other. The contexts and the hooks are arguments: the values of the two
  contexts, React's id for a \<open>FormItem\<close> and the errors of the form, which are the resolver's (\<open>Ui_Spec\<close>). A
  component that calls \<open>useFormField\<close> may throw, so it returns \<^typ>\<open>string + pval\<close>. An event handler is a name here;
  what it does is \<open>widget_change\<close>.
\<close>

section \<open>Fields\<close>

type_synonym form_errors = "(name, string \<times> string) obj"

definition context_get :: "pval \<Rightarrow> string \<Rightarrow> pval" where
  "context_get c k = (case c of PObj es \<Rightarrow> pget es k | _ \<Rightarrow> PUndef)"

text \<open>React Hook Form keeps a field's error under the field's name.\<close>

definition error_at :: "form_errors \<Rightarrow> pval \<Rightarrow> (string \<times> string) option" where
  "error_at errors name = (case name of PName n \<Rightarrow> oget errors n | _ \<Rightarrow> None)"

text \<open>What a template literal makes of an id.\<close>

definition in_template :: "pval \<Rightarrow> string" where
  "in_template v = (case v of PStr s \<Rightarrow> s | _ \<Rightarrow> ''undefined'')"

definition FormFieldContext :: pval where "FormFieldContext = PObj []"

definition FormItemContext :: pval where "FormItemContext = PObj []"

definition field_context :: "props \<Rightarrow> pval" where
  "field_context p = PObj [(''name'', pget p ''name'')]"

text \<open>\<open>Controller\<close> shows what its property \<open>render\<close> returns.\<close>

definition FormField :: "pval \<Rightarrow> props \<Rightarrow> pval" where
  "FormField shown p = PEl ''FormFieldContext.Provider'' [(''value'', field_context p),
     (''children'', PEl ''Controller'' (oset (ospread [] p) ''children'' shown))]"

record form_field =
  ff_id :: pval
  ff_name :: pval
  formItemId :: string
  formDescriptionId :: string
  formMessageId :: string
  ff_error :: "(string \<times> string) option"

definition useFormField :: "form_errors \<Rightarrow> pval \<Rightarrow> pval \<Rightarrow> string + form_field" where
  "useFormField errors fieldContext itemContext =
     (let fieldState = error_at errors (context_get fieldContext ''name'') in
      if \<not> ptruthy fieldContext then Inl ''useFormField should be used within <FormField>''
      else let i = context_get itemContext ''id'' in
        Inr \<lparr>ff_id = i, ff_name = context_get fieldContext ''name'',
          formItemId = in_template i @ ''-form-item'',
          formDescriptionId = in_template i @ ''-form-item-description'',
          formMessageId = in_template i @ ''-form-item-message'',
          ff_error = fieldState\<rparr>)"

definition in_field :: "form_errors \<Rightarrow> pval \<Rightarrow> pval \<Rightarrow> (form_field \<Rightarrow> pval) \<Rightarrow> string + pval" where
  "in_field errors fc ic show_field = (case useFormField errors fc ic of Inl e \<Rightarrow> Inl e | Inr ff \<Rightarrow> Inr (show_field ff))"

definition item_context :: "string \<Rightarrow> pval" where
  "item_context uid = PObj [(''id'', PStr uid)]"

definition FormItem :: "string \<Rightarrow> component" where
  "FormItem uid K p = PEl ''FormItemContext.Provider'' [(''value'', item_context uid),
     (''children'', PEl ''div'' (ospread [(''data-slot'', PStr ''form-item''),
        (''className'', cn K [PStr ''grid gap-2'', pget p ''className''])] (without p [''className''])))]"

definition FormLabel :: "form_errors \<Rightarrow> pval \<Rightarrow> pval \<Rightarrow> ui_lib \<Rightarrow> props \<Rightarrow> string + pval" where
  "FormLabel errors fc ic K p = in_field errors fc ic (\<lambda>ff. Label K (ospread [(''data-slot'', PStr ''form-label''),
     (''data-error'', PBool (ff_error ff \<noteq> None)),
     (''className'', cn K [PStr ''data-[error=true]:text-destructive'', pget p ''className'']),
     (''htmlFor'', PStr (formItemId ff))] (without p [''className''])))"

text \<open>\<open>React.cloneElement\<close>: the child's component with its properties under the given ones.\<close>

definition cloneElement :: "component \<times> props \<Rightarrow> props \<Rightarrow> component \<times> props" where
  "cloneElement e config = (fst e, ospread (snd e) config)"

definition FormControl :: "form_errors \<Rightarrow> pval \<Rightarrow> pval \<Rightarrow> ui_lib \<Rightarrow> component \<times> props \<Rightarrow> string + pval" where
  "FormControl errors fc ic K child = in_field errors fc ic (\<lambda>ff.
     let extra = [(''data-slot'', PStr ''form-control''), (''id'', PStr (formItemId ff)),
           (''aria-describedby'', PStr (if ff_error ff = None then formDescriptionId ff
              else formDescriptionId ff @ '' '' @ formMessageId ff)),
           (''aria-invalid'', PBool (ff_error ff \<noteq> None))];
         clone = cloneElement child (ospread (ospread [] (snd child)) extra) in
     fst clone K (snd clone))"

definition FormDescription :: "form_errors \<Rightarrow> pval \<Rightarrow> pval \<Rightarrow> ui_lib \<Rightarrow> props \<Rightarrow> string + pval" where
  "FormDescription errors fc ic K p = in_field errors fc ic (\<lambda>ff. PEl ''p'' (ospread [(''data-slot'', PStr ''form-description''),
     (''id'', PStr (formDescriptionId ff)),
     (''className'', cn K [PStr ''text-muted-foreground text-sm'', pget p ''className''])] (without p [''className''])))"

definition FormMessage :: "form_errors \<Rightarrow> pval \<Rightarrow> pval \<Rightarrow> ui_lib \<Rightarrow> props \<Rightarrow> string + pval" where
  "FormMessage errors fc ic K p = in_field errors fc ic (\<lambda>ff.
     let body = (case ff_error ff of Some (ty, m) \<Rightarrow> PStr m | None \<Rightarrow> pget p ''children'') in
     if \<not> ptruthy body then PNull
     else PEl ''p'' (oset (ospread [(''data-slot'', PStr ''form-message''),
       (''id'', PStr (formMessageId ff)),
       (''className'', cn K [PStr ''text-destructive text-sm'', pget p ''className''])] (without p [''className'']))
       ''children'' body))"

section \<open>Rows\<close>

definition of_js :: "jsval \<Rightarrow> pval" where
  "of_js v = (case v of JNull \<Rightarrow> PNull | JBool b \<Rightarrow> PBool b | JNum n \<Rightarrow> PNum n | JStr s \<Rightarrow> PStr s | _ \<Rightarrow> PUndef)"

definition opt_num :: "rat option \<Rightarrow> pval" where
  "opt_num q = (case q of None \<Rightarrow> PUndef | Some r \<Rightarrow> PNum (Num r))"

definition opt_str :: "string option \<Rightarrow> pval" where
  "opt_str s = (case s of None \<Rightarrow> PUndef | Some t \<Rightarrow> PStr t)"

text \<open>The element of a widget, not yet rendered: \<open>FormControl\<close> clones it.\<close>

definition widget_control :: "ui_lib \<Rightarrow> name \<Rightarrow> widget \<Rightarrow> component \<times> props" where
  "widget_control K name w = (case w of
     Switch c \<Rightarrow> (Switch_ui, [(''checked'', PBool c), (''onCheckedChange'', PFun ''switched'')])
   | Slider mn mx current \<Rightarrow> (host ''div'', [(''className'', PStr ''flex items-center gap-3''),
       (''children'', kids
         [Slider_ui K [(''min'', PNum (Num mn)), (''max'', PNum (Num mx)), (''value'', PArr [of_js current]),
            (''onValueChange'', PFun ''slid''), (''className'', PStr ''flex-1'')],
          PEl ''span'' [(''className'', PStr ''min-w-[2.5rem] text-right text-sm tabular-nums''), (''children'', of_js current)]])])
   | NumberInput mn mx text \<Rightarrow> (Input, [(''type'', PStr ''number''), (''min'', opt_num mn), (''max'', opt_num mx),
       (''value'', PStr text), (''onChange'', PFun ''typed''), (''onBlur'', PFun ''blurred''), (''name'', PName name)])
   | ToggleGroup vs current \<Rightarrow> (let given = [(''value'', PArr (map PStr current)), (''onValueChange'', PFun ''pressed'')] in
       (ToggleGroup_ui, given @ [(''children'', PArr (map (\<lambda>v. ToggleGroupItem (toggle_context given) K
          [(''key'', PStr v), (''value'', PStr v), (''children'', PStr v)]) vs))]))
   | Select vs current \<Rightarrow> (Select_ui, [(''value'', opt_str current), (''onValueChange'', PFun ''picked''),
       (''children'', kids
         [SelectTrigger K [(''className'', PStr ''w-full''), (''children'', SelectValue K [])],
          SelectContent K [(''children'', PArr (map (\<lambda>v. SelectItem K [(''key'', PStr v), (''value'', PStr v), (''children'', PStr v)]) vs))]])])
   | TextInput list_id placeholder text \<Rightarrow> (Input, [(''type'', PStr ''text'')]
       @ (case list_id of None \<Rightarrow> [] | Some i \<Rightarrow> [(''list'', PStr i)])
       @ [(''placeholder'', opt_str placeholder), (''value'', PStr text), (''onChange'', PFun ''typed''),
          (''onBlur'', PFun ''blurred''), (''name'', PName name)]))"

text \<open>The children of an element, if none of them throws.\<close>

fun all_right :: "(string + 'a) list \<Rightarrow> string + 'a list" where
  "all_right [] = Inr []"
| "all_right (Inl e # xs) = Inl e"
| "all_right (Inr v # xs) = (case all_right xs of Inl e \<Rightarrow> Inl e | Inr vs \<Rightarrow> Inr (v # vs))"

definition row_children :: "ui_lib \<Rightarrow> form_errors \<Rightarrow> pval \<Rightarrow> pval \<Rightarrow> form_row \<Rightarrow> (string + pval) list" where
  "row_children K errors fc ic r =
     [FormLabel errors fc ic K [(''children'', kids [PStr (fr_label r),
        if fr_star r then PEl ''span'' [(''className'', PStr ''ml-1 text-destructive''), (''children'', PStr ''*'')] else PNull])],
      FormControl errors fc ic K (widget_control K (fr_name r) (fr_widget r)),
      Inr (case fr_datalist r of None \<Rightarrow> PBool False
        | Some (i, vs) \<Rightarrow> PEl ''datalist'' [(''id'', PStr i),
            (''children'', PArr (map (\<lambda>v. PEl ''option'' [(''key'', PStr v), (''value'', PStr v)]) vs))]),
      (case fr_help r of None \<Rightarrow> Inr PNull | Some h \<Rightarrow> FormDescription errors fc ic K [(''children'', PStr h)]),
      Inr (case fr_pattern r of None \<Rightarrow> PNull
        | Some pat \<Rightarrow> PEl ''p'' [(''className'', PStr ''text-xs text-muted-foreground''),
            (''children'', kids [PStr ''pattern: /'', PStr pat, PStr ''/''])]),
      FormMessage errors fc ic K []]"

definition row_element :: "ui_lib \<Rightarrow> form_errors \<Rightarrow> string \<Rightarrow> form_row \<Rightarrow> string + pval" where
  "row_element K errors uid r = (let given = [(''name'', PName (fr_name r))] in
     case all_right (row_children K errors (field_context given) (item_context uid) r) of
       Inl e \<Rightarrow> Inl e
     | Inr cs \<Rightarrow> Inr (FormField (FormItem uid K [(''children'', kids cs)]) given))"

text \<open>The form with all its rows; \<open>uids\<close> are React's ids, one per \<open>FormItem\<close>.\<close>

definition form_element :: "ui_lib \<Rightarrow> form_errors \<Rightarrow> (nat \<Rightarrow> string) \<Rightarrow> string \<Rightarrow> bool \<Rightarrow> form_row list \<Rightarrow> string + pval" where
  "form_element K errors uids submitLabel disabled rows =
     (case all_right (map (\<lambda>(i, r). row_element K errors (uids i) r) (enumerate 0 rows)) of
        Inl e \<Rightarrow> Inl e
      | Inr es \<Rightarrow> Inr (PEl ''FormProvider'' [(''children'', PEl ''form'' [(''onSubmit'', PFun ''handleSubmit''),
          (''className'', PStr ''flex flex-col gap-4''),
          (''children'', kids [PArr es, PEl ''div'' [(''className'', PStr ''flex justify-end''),
             (''children'', Button K [(''type'', PStr ''submit''), (''disabled'', PBool disabled),
                (''children'', PStr submitLabel)])]])])]))"

section \<open>What is below a control\<close>

text \<open>The properties of the elements in one slot, in document order.\<close>

definition in_slot :: "string \<Rightarrow> pval \<Rightarrow> props list" where
  "in_slot s v = map snd (filter (\<lambda>n. pget (snd n) ''data-slot'' = PStr s) (nodes v))"

text \<open>Elements that neither have an id nor take part in the wiring of a field.\<close>

definition quiet_props :: "props \<Rightarrow> bool" where
  "quiet_props ps \<longleftrightarrow> pget ps ''id'' = PUndef
     \<and> pget ps ''data-slot'' \<notin> {PStr ''form-control'', PStr ''form-label'', PStr ''form-message'', PStr ''form-description''}"

definition all_quiet :: "pval \<Rightarrow> bool" where
  "all_quiet v \<longleftrightarrow> (\<forall>n \<in> set (nodes v). quiet_props (snd n))"

definition quiet_values :: "props \<Rightarrow> bool" where
  "quiet_values ps \<longleftrightarrow> (\<forall>v \<in> snd ` set ps. all_quiet v)"

named_theorems quiet

lemma all_quiet_simps [quiet]:
  "all_quiet PUndef" "all_quiet PNull" "all_quiet (PBool b)" "all_quiet (PNum n)" "all_quiet (PStr s)" "all_quiet (PName nm)"
  "all_quiet (PFun fn)" "all_quiet (PArr vs) \<longleftrightarrow> (\<forall>v \<in> set vs. all_quiet v)" "all_quiet (PObj es) \<longleftrightarrow> quiet_values es"
  "all_quiet (PEl t ps) \<longleftrightarrow> quiet_props ps \<and> quiet_values ps" "all_quiet (cn K cs)"
  by (auto simp: all_quiet_def quiet_values_def) fastforce+

lemma quiet_values_simps [quiet]:
  "quiet_values []" "quiet_values ((k, v) # ps) \<longleftrightarrow> all_quiet v \<and> quiet_values ps"
  "quiet_values (ps @ qs) \<longleftrightarrow> quiet_values ps \<and> quiet_values qs"
  by (auto simp: quiet_values_def)

lemma quiet_oset [quiet]: "quiet_values ps \<Longrightarrow> all_quiet v \<Longrightarrow> quiet_values (oset ps k v)"
  by (induction ps k v rule: oset.induct) (auto simp: quiet)

lemma quiet_ospread [quiet]: "quiet_values ps \<Longrightarrow> quiet_values qs \<Longrightarrow> quiet_values (ospread ps qs)"
  by (induction ps qs rule: ospread.induct) (auto simp: quiet)

lemma quiet_without [quiet]: "quiet_values ps \<Longrightarrow> quiet_values (without ps ks)"
  by (auto simp: quiet_values_def without_def)

lemma quiet_pget [quiet]: "quiet_values ps \<Longrightarrow> all_quiet (pget ps k)"
  by (induction ps) (auto simp: quiet pget_def nullish_def split: option.splits)

lemma quiet_dflt [quiet]: "quiet_values ps \<Longrightarrow> all_quiet d \<Longrightarrow> all_quiet (dflt ps k d)"
  by (simp add: dflt_def quiet)

lemma quiet_p_or [quiet]: "all_quiet v \<Longrightarrow> all_quiet w \<Longrightarrow> all_quiet (p_or v w)"
  by (simp add: p_or_def)

lemma quiet_kids [quiet]: "all_quiet (kids cs) \<longleftrightarrow> (\<forall>c \<in> set cs. all_quiet c)"
  by (auto simp: kids_def quiet split: list.split)

lemma quiet_of_js [quiet]: "all_quiet (of_js v)" "all_quiet (opt_num q)" "all_quiet (opt_str s)"
  by (auto simp: of_js_def opt_num_def opt_str_def quiet split: jsval.split option.split)

lemma quiet_variants [quiet]: "all_quiet (toggleVariants K p)"
  by (simp add: toggleVariants_def quiet)

text \<open>A quiet tree adds neither ids nor slots.\<close>

lemma quiet_nodes:
  assumes "\<forall>n \<in> set ns. quiet_props (snd n)"
  shows "concat (map node_id ns) = []"
    and "s \<in> {''form-control'', ''form-label'', ''form-message'', ''form-description''} \<Longrightarrow> filter (\<lambda>n. pget (snd n) ''data-slot'' = PStr s) ns = []"
  using assms by (auto simp: quiet_props_def node_id_def filter_empty_conv)

lemma quiet_tree:
  assumes "all_quiet v"
  shows "ids v = []"
    and "s \<in> {''form-control'', ''form-label'', ''form-message'', ''form-description''} \<Longrightarrow> in_slot s v = []"
  using quiet_nodes [of "nodes v"] assms by (auto simp: all_quiet_def ids_def in_slot_def)

lemma quiet_below:
  assumes "quiet_values ps"
  shows "ids (PEl t ps) = node_id (t, ps)"
    and "s \<in> {''form-control'', ''form-label'', ''form-message'', ''form-description''} \<Longrightarrow>
      in_slot s (PEl t ps) = (if pget ps ''data-slot'' = PStr s then [ps] else [])"
proof -
  let ?ns = "concat (map (\<lambda>(k, v). nodes v) ps)"
  have "\<forall>n \<in> set ?ns. quiet_props (snd n)" using assms by (fastforce simp: quiet_values_def all_quiet_def)
  note below = quiet_nodes [OF this]
  from below(1) show "ids (PEl t ps) = node_id (t, ps)" by (simp add: ids_def)
  show "s \<in> {''form-control'', ''form-label'', ''form-message'', ''form-description''} \<Longrightarrow>
      in_slot s (PEl t ps) = (if pget ps ''data-slot'' = PStr s then [ps] else [])"
    using below(2) [of s] by (auto simp: in_slot_def)
qed

section \<open>The wiring of a row\<close>

lemma pget_simps: "pget [] k = PUndef" "pget ((j, v) # ps) k = (if j = k then v else pget ps k)"
  by (simp_all add: pget_def)

lemmas props_simps = pget_simps pget_oset kids_def without_def obj_ok_def

lemma quiet_items:
  "all_quiet (ToggleGroupItem context K [(''key'', PStr v), (''value'', PStr v), (''children'', PStr v)])" if "quiet_values context"
  using that by (simp add: ToggleGroupItem_def Let_def quiet quiet_props_def props_simps)

lemma quiet_select_parts:
  "all_quiet (SelectItem K [(''key'', PStr v), (''value'', PStr v), (''children'', PStr v)])"
  "all_quiet (SelectValue K [])" "all_quiet (SelectScrollUpButton K [])" "all_quiet (SelectScrollDownButton K [])"
  by (simp_all add: SelectItem_def SelectValue_def SelectScrollUpButton_def SelectScrollDownButton_def quiet quiet_props_def props_simps)

lemma quiet_select_controls:
  "all_quiet (SelectTrigger K [(''className'', PStr c), (''children'', v)])" if "all_quiet v"
  using that by (simp add: SelectTrigger_def quiet quiet_props_def props_simps)

lemma quiet_select_content:
  "all_quiet (SelectContent K [(''children'', v)])" if "all_quiet v"
  using that by (simp add: SelectContent_def quiet quiet_select_parts quiet_props_def props_simps)

lemma quiet_slider:
  "all_quiet (Slider_ui K [(''min'', PNum mn), (''max'', PNum mx), (''value'', PArr [of_js v]), (''onValueChange'', PFun h), (''className'', PStr c)])"
  by (simp add: Slider_ui_def quiet quiet_props_def props_simps)

text \<open>The controls of a form: each is one element, which its properties reach and below which nothing else is wired.\<close>

definition controls :: "component set" where
  "controls = {Switch_ui, host ''div'', Input, ToggleGroup_ui, Select_ui}"

definition free_keys :: "string list" where
  "free_keys = [''data-slot'', ''id'', ''aria-describedby'', ''aria-invalid'']"

lemma control_element:
  assumes "W \<in> controls" and "quiet_values p"
  shows "\<exists>t qs. W K p = PEl t qs \<and> quiet_values qs
    \<and> (obj_ok p \<longrightarrow> (\<forall>k \<in> set free_keys. \<forall>v. oget p k = Some v \<longrightarrow> oget qs k = Some v))"
proof -
  have "oget (root_props (W K p)) k = Some v" if "obj_ok p" "k \<in> set free_keys" "oget p k = Some v" for k v
    using that assms(1) w_switch.forwards [of p k v K] w_input.forwards [of p k v K] w_group.forwards [of p k v K]
    by (auto simp: controls_def free_keys_def host_def Select_ui_def)
  moreover have "\<exists>t. W K p = PEl t (root_props (W K p)) \<and> quiet_values (root_props (W K p))"
    using assms by (auto simp: controls_def Switch_ui_def host_def Input_def ToggleGroup_ui_def Select_ui_def toggle_context_def
        quiet quiet_props_def pget_simps)
  ultimately show ?thesis by metis
qed

lemma widget_control_parts:
  "fst (widget_control K name w) \<in> controls \<and> quiet_values (snd (widget_control K name w)) \<and> obj_ok (snd (widget_control K name w))"
proof (cases w)
  case (Slider mn mx v)
  then show ?thesis
    by (simp add: widget_control_def controls_def quiet quiet_slider quiet_props_def props_simps)
qed (auto simp: widget_control_def controls_def Let_def quiet quiet_items quiet_select_parts quiet_select_controls quiet_select_content
    quiet_props_def props_simps toggle_context_def dflt_def split: option.split)

abbreviation item_id :: "string \<Rightarrow> string" where "item_id uid \<equiv> uid @ ''-form-item''"

abbreviation help_id :: "string \<Rightarrow> string" where "help_id uid \<equiv> uid @ ''-form-item-description''"

abbreviation error_id :: "string \<Rightarrow> string" where "error_id uid \<equiv> uid @ ''-form-item-message''"

text \<open>The guard of \<open>useFormField\<close> never fires: even the default of the context is an object.\<close>

lemma useFormField_outside:
  "\<exists>ff. useFormField errors FormFieldContext FormItemContext = Inr ff \<and> formItemId ff = ''undefined-form-item''"
  by (simp add: useFormField_def FormFieldContext_def FormItemContext_def context_get_def in_template_def pget_simps)

lemma in_field_given [simp]:
  "in_field errors (field_context [(''name'', PName n)]) (item_context uid) g =
     Inr (g \<lparr>ff_id = PStr uid, ff_name = PName n, formItemId = item_id uid, formDescriptionId = help_id uid,
       formMessageId = error_id uid, ff_error = oget errors n\<rparr>)"
  by (simp add: in_field_def useFormField_def field_context_def item_context_def context_get_def in_template_def error_at_def
      pget_simps Let_def)

definition wired :: "string \<Rightarrow> bool \<Rightarrow> props \<Rightarrow> bool" where
  "wired uid invalid qs \<longleftrightarrow> pget qs ''id'' = PStr (item_id uid) \<and> pget qs ''aria-invalid'' = PBool invalid
     \<and> pget qs ''aria-describedby'' = PStr (if invalid then help_id uid @ '' '' @ error_id uid else help_id uid)"

lemma control_wired:
  "\<exists>t qs. FormControl errors (field_context [(''name'', PName n)]) (item_context uid) K (widget_control K n' w) = Inr (PEl t qs)
     \<and> quiet_values qs \<and> pget qs ''data-slot'' = PStr ''form-control'' \<and> wired uid (oget errors n \<noteq> None) qs"
proof -
  obtain c ps where w: "widget_control K n' w = (c, ps)" by fastforce
  define extra where "extra = [(''data-slot'', PStr ''form-control''), (''id'', PStr (item_id uid)),
     (''aria-describedby'', PStr (if oget errors n = None then help_id uid else help_id uid @ '' '' @ error_id uid)),
     (''aria-invalid'', PBool (oget errors n \<noteq> None))]"
  define clone where "clone = ospread ps (ospread (ospread [] ps) extra)"
  from widget_control_parts [of K n' w] w have parts: "c \<in> controls" "quiet_values ps" "obj_ok ps" by simp_all
  have oks: "obj_ok extra" "quiet_values extra" by (simp_all add: extra_def obj_ok_def quiet)
  have "quiet_values clone" "obj_ok clone"
    unfolding clone_def using parts oks by (auto intro!: quiet_ospread obj_ok_ospread simp: quiet)
  with control_element [OF parts(1), of clone K] obtain t qs where el: "c K clone = PEl t qs" "quiet_values qs"
    and free: "\<forall>k \<in> set free_keys. \<forall>v. oget clone k = Some v \<longrightarrow> oget qs k = Some v" by blast
  have "\<exists>v. oget extra k = Some v" if "k \<in> set free_keys" for k
    using that by (auto simp: free_keys_def extra_def)
  moreover have "oget clone k = Some v" if "oget extra k = Some v" for k v
    using that oks(1) parts(3) unfolding clone_def by (simp add: oget_ospread_ok obj_ok_ospread)
  ultimately have reach: "pget qs k = pget extra k" if "k \<in> set free_keys" for k
    using that free unfolding pget_def by metis
  have "wired uid (oget errors n \<noteq> None) qs" "pget qs ''data-slot'' = PStr ''form-control''"
    unfolding wired_def by (simp_all add: reach free_keys_def) (simp_all add: extra_def pget_simps)
  moreover have "FormControl errors (field_context [(''name'', PName n)]) (item_context uid) K (widget_control K n' w) = Inr (c K clone)"
    by (simp add: FormControl_def w cloneElement_def clone_def extra_def Let_def)
  ultimately show ?thesis using el by auto
qed

text \<open>What a row shows of an error: the message, if it is not empty.\<close>

definition shown_error :: "(string \<times> string) option \<Rightarrow> string list" where
  "shown_error e = (case e of Some (ty, m) \<Rightarrow> if m = [] then [] else [m] | None \<Rightarrow> [])"

lemma message_element:
  "\<exists>v. FormMessage errors (field_context [(''name'', PName n)]) (item_context uid) K [] = Inr v
     \<and> ids v = map (\<lambda>_. error_id uid) (shown_error (oget errors n))
     \<and> map (\<lambda>ps. pget ps ''children'') (in_slot ''form-message'' v) = map PStr (shown_error (oget errors n))
     \<and> in_slot ''form-control'' v = [] \<and> in_slot ''form-label'' v = []"
  by (auto simp: FormMessage_def Let_def shown_error_def ids_def in_slot_def node_id_def props_simps split: option.split)

lemma description_element:
  "\<exists>v. FormDescription errors (field_context [(''name'', PName n)]) (item_context uid) K [(''children'', PStr h)] = Inr v
     \<and> ids v = [help_id uid] \<and> in_slot ''form-control'' v = [] \<and> in_slot ''form-label'' v = [] \<and> in_slot ''form-message'' v = []"
  by (simp add: FormDescription_def ids_def in_slot_def node_id_def props_simps)

lemma label_element:
  "\<exists>v ps. FormLabel errors (field_context [(''name'', PName n)]) (item_context uid) K
       [(''children'', kids [PStr l, if star then PEl ''span'' [(''className'', PStr c), (''children'', PStr s)] else PNull])] = Inr v
     \<and> ids v = [] \<and> in_slot ''form-label'' v = [ps] \<and> pget ps ''htmlFor'' = PStr (item_id uid)
     \<and> in_slot ''form-control'' v = [] \<and> in_slot ''form-message'' v = []"
  by (simp add: FormLabel_def Label_def ids_def in_slot_def node_id_def props_simps)

lemma row_frame:
  assumes "length cs \<noteq> 1"
  shows "ids (FormField (FormItem uid K [(''children'', kids cs)]) [(''name'', PName n)]) = concat (map ids cs)"
    and "s \<noteq> ''form-item'' \<Longrightarrow>
      in_slot s (FormField (FormItem uid K [(''children'', kids cs)]) [(''name'', PName n)]) = concat (map (in_slot s) cs)"
proof -
  have "kids cs = PArr cs" using assms by (cases cs) (auto simp: kids_def split: list.split)
  moreover have "concat (map node_id (concat (map nodes cs))) = concat (map ids cs)"
    by (induction cs) (simp_all add: ids_def)
  moreover have "map snd (filter P (concat (map nodes cs))) = concat (map (\<lambda>c. map snd (filter P (nodes c))) cs)" for P
    by (induction cs) simp_all
  ultimately show "ids (FormField (FormItem uid K [(''children'', kids cs)]) [(''name'', PName n)]) = concat (map ids cs)"
    and "s \<noteq> ''form-item'' \<Longrightarrow>
      in_slot s (FormField (FormItem uid K [(''children'', kids cs)]) [(''name'', PName n)]) = concat (map (in_slot s) cs)"
    by (simp_all add: FormField_def FormItem_def field_context_def item_context_def ids_def [of "PEl _ _"] in_slot_def [abs_def]
        node_id_def pget_simps without_def)
qed

lemma row_wired:
  "\<exists>T label control. row_element K errors uid r = Inr T
     \<and> in_slot ''form-label'' T = [label] \<and> pget label ''htmlFor'' = PStr (item_id uid)
     \<and> in_slot ''form-control'' T = [control] \<and> wired uid (oget errors (fr_name r) \<noteq> None) control
     \<and> map (\<lambda>ps. pget ps ''children'') (in_slot ''form-message'' T) = map PStr (shown_error (oget errors (fr_name r)))
     \<and> ids T = item_id uid # (case fr_datalist r of None \<Rightarrow> [] | Some (i, vs) \<Rightarrow> [i])
         @ (if fr_help r = None then [] else [help_id uid]) @ map (\<lambda>_. error_id uid) (shown_error (oget errors (fr_name r)))"
proof -
  let ?fc = "field_context [(''name'', PName (fr_name r))]" and ?ic = "item_context uid"
  obtain l label where l: "FormLabel errors ?fc ?ic K [(''children'', kids [PStr (fr_label r),
        if fr_star r then PEl ''span'' [(''className'', PStr ''ml-1 text-destructive''), (''children'', PStr ''*'')] else PNull])] = Inr l"
    "ids l = []" "in_slot ''form-label'' l = [label]" "pget label ''htmlFor'' = PStr (item_id uid)"
    "in_slot ''form-control'' l = []" "in_slot ''form-message'' l = []"
    using label_element [of errors "fr_name r" uid K "fr_label r" "fr_star r" "''ml-1 text-destructive''" "''*''"] by blast
  obtain t control where c: "FormControl errors ?fc ?ic K (widget_control K (fr_name r) (fr_widget r)) = Inr (PEl t control)"
    "quiet_values control" "pget control ''data-slot'' = PStr ''form-control''" "wired uid (oget errors (fr_name r) \<noteq> None) control"
    using control_wired [of errors "fr_name r" uid K "fr_name r" "fr_widget r"] by blast
  from c have c': "ids (PEl t control) = [item_id uid]" "in_slot ''form-label'' (PEl t control) = []"
    "in_slot ''form-control'' (PEl t control) = [control]" "in_slot ''form-message'' (PEl t control) = []"
    by (simp_all add: quiet_below wired_def node_id_def)
  define d where "d = (case fr_datalist r of None \<Rightarrow> PBool False
        | Some (i, vs) \<Rightarrow> PEl ''datalist'' [(''id'', PStr i),
            (''children'', PArr (map (\<lambda>v. PEl ''option'' [(''key'', PStr v), (''value'', PStr v)]) vs))])"
  have d: "ids d = (case fr_datalist r of None \<Rightarrow> [] | Some (i, vs) \<Rightarrow> [i])"
    "in_slot ''form-label'' d = []" "in_slot ''form-control'' d = []" "in_slot ''form-message'' d = []"
    by (auto simp: d_def ids_def in_slot_def node_id_def pget_simps comp_def filter_empty_conv split: option.split)
  define p where "p = (case fr_pattern r of None \<Rightarrow> PNull
        | Some pat \<Rightarrow> PEl ''p'' [(''className'', PStr ''text-xs text-muted-foreground''),
            (''children'', kids [PStr ''pattern: /'', PStr pat, PStr ''/''])])"
  have p: "ids p = []" "in_slot ''form-label'' p = []" "in_slot ''form-control'' p = []" "in_slot ''form-message'' p = []"
    by (auto simp: p_def ids_def in_slot_def node_id_def props_simps split: option.split)
  obtain h where h: "(case fr_help r of None \<Rightarrow> Inr PNull | Some h \<Rightarrow> FormDescription errors ?fc ?ic K [(''children'', PStr h)]) = Inr h"
    "ids h = (if fr_help r = None then [] else [help_id uid])"
    "in_slot ''form-label'' h = []" "in_slot ''form-control'' h = []" "in_slot ''form-message'' h = []"
    using description_element [of errors "fr_name r" uid K]
    by (cases "fr_help r") (auto simp: ids_def in_slot_def)
  obtain m where m: "FormMessage errors ?fc ?ic K [] = Inr m" "ids m = map (\<lambda>_. error_id uid) (shown_error (oget errors (fr_name r)))"
    "map (\<lambda>ps. pget ps ''children'') (in_slot ''form-message'' m) = map PStr (shown_error (oget errors (fr_name r)))"
    "in_slot ''form-control'' m = []" "in_slot ''form-label'' m = []"
    using message_element [of errors "fr_name r" uid K] by blast
  have "row_element K errors uid r
      = Inr (FormField (FormItem uid K [(''children'', kids [l, PEl t control, d, h, p, m])]) [(''name'', PName (fr_name r))])"
    by (simp add: row_element_def row_children_def l(1) c(1) h(1) m(1) d_def [symmetric] p_def [symmetric])
  then show ?thesis using l c(4) c' d p h m by (simp add: row_frame)
qed

section \<open>The whole form\<close>

lemma all_right_map: "(\<And>x. x \<in> set xs \<Longrightarrow> g x = Inr (h x)) \<Longrightarrow> all_right (map g xs) = Inr (map h xs)"
  by (induction xs) auto

definition row_ids :: "form_errors \<Rightarrow> string \<Rightarrow> form_row \<Rightarrow> string list" where
  "row_ids errors uid r = item_id uid # (case fr_datalist r of None \<Rightarrow> [] | Some (i, vs) \<Rightarrow> [i])
     @ (if fr_help r = None then [] else [help_id uid]) @ map (\<lambda>_. error_id uid) (shown_error (oget errors (fr_name r)))"

lemma row_wired_maps:
  "\<exists>T. row_element K errors uid r = Inr T \<and> ids T = row_ids errors uid r
     \<and> map (\<lambda>ps. pget ps ''htmlFor'') (in_slot ''form-label'' T) = [PStr (item_id uid)]
     \<and> map (\<lambda>ps. pget ps ''id'') (in_slot ''form-control'' T) = [PStr (item_id uid)]
     \<and> list_all (wired uid (oget errors (fr_name r) \<noteq> None)) (in_slot ''form-control'' T)
     \<and> map (\<lambda>ps. pget ps ''children'') (in_slot ''form-message'' T) = map PStr (shown_error (oget errors (fr_name r)))"
  using row_wired [of K errors uid r] unfolding row_ids_def by (auto simp: wired_def)

lemma form_frame:
  assumes "ids (Button K [(''type'', PStr ''submit''), (''disabled'', PBool disabled), (''children'', PStr submitLabel)]) = []"
  shows "ids (PEl ''FormProvider'' [(''children'', PEl ''form'' [(''onSubmit'', PFun ''handleSubmit''),
          (''className'', PStr ''flex flex-col gap-4''),
          (''children'', kids [PArr es, PEl ''div'' [(''className'', PStr ''flex justify-end''),
             (''children'', Button K [(''type'', PStr ''submit''), (''disabled'', PBool disabled),
                (''children'', PStr submitLabel)])]])])]) = concat (map ids es)"
proof -
  have "concat (map node_id (concat (map nodes es))) = concat (map ids es)" by (induction es) (simp_all add: ids_def)
  with assms show ?thesis by (simp add: ids_def [of "PEl _ _"] ids_def [of "Button K ps" for K ps] node_id_def props_simps)
qed

lemma form_frame_slots:
  assumes "in_slot s (Button K [(''type'', PStr ''submit''), (''disabled'', PBool disabled), (''children'', PStr submitLabel)]) = []"
  shows "in_slot s (PEl ''FormProvider'' [(''children'', PEl ''form'' [(''onSubmit'', PFun ''handleSubmit''),
          (''className'', PStr ''flex flex-col gap-4''),
          (''children'', kids [PArr es, PEl ''div'' [(''className'', PStr ''flex justify-end''),
             (''children'', Button K [(''type'', PStr ''submit''), (''disabled'', PBool disabled),
                (''children'', PStr submitLabel)])]])])]) = concat (map (in_slot s) es)"
proof -
  have "map snd (filter P (concat (map nodes es))) = concat (map (\<lambda>c. map snd (filter P (nodes c))) es)" for P
    by (induction es) simp_all
  with assms show ?thesis by (simp add: in_slot_def [abs_def] props_simps)
qed

lemma quiet_submit:
  "all_quiet (Button K [(''type'', PStr ''submit''), (''disabled'', PBool disabled), (''children'', PStr submitLabel)])"
  by (simp add: Button_def quiet quiet_props_def props_simps)

lemma form_rows:
  "\<exists>T es. form_element K errors uids submitLabel disabled rows = Inr T \<and> length es = length rows
     \<and> (\<forall>i < length rows. row_element K errors (uids i) (rows ! i) = Inr (es ! i))
     \<and> ids T = concat (map ids es)
     \<and> (\<forall>s \<in> {''form-control'', ''form-label'', ''form-message''}. in_slot s T = concat (map (in_slot s) es))"
proof -
  define h where "h = (\<lambda>(i, r). projr (row_element K errors (uids i) r))"
  define es where "es = map h (enumerate 0 rows)"
  have row: "row_element K errors uid r = Inr (projr (row_element K errors uid r))" for uid r
    using row_wired_maps [of K errors uid r] by auto
  then have "all_right (map (\<lambda>(i, r). row_element K errors (uids i) r) (enumerate 0 rows)) = Inr es"
    unfolding es_def h_def by (intro all_right_map) auto
  then have "form_element K errors uids submitLabel disabled rows = Inr (PEl ''FormProvider'' [(''children'', PEl ''form''
       [(''onSubmit'', PFun ''handleSubmit''), (''className'', PStr ''flex flex-col gap-4''),
          (''children'', kids [PArr es, PEl ''div'' [(''className'', PStr ''flex justify-end''),
             (''children'', Button K [(''type'', PStr ''submit''), (''disabled'', PBool disabled),
                (''children'', PStr submitLabel)])]])])])" by (simp add: form_element_def)
  moreover have "row_element K errors (uids i) (rows ! i) = Inr (es ! i)" if "i < length rows" for i
    using that row by (simp add: es_def h_def nth_enumerate_eq)
  moreover have "length es = length rows" by (simp add: es_def)
  ultimately show ?thesis
    using form_frame [OF quiet_tree(1) [OF quiet_submit]] form_frame_slots [OF quiet_tree(2) [OF quiet_submit]] by auto
qed

text \<open>React's ids are unique; the only other ids of a form are those of suggestion lists, which begin with another letter.\<close>

definition react_ids :: "(nat \<Rightarrow> string) \<Rightarrow> bool" where
  "react_ids uids \<longleftrightarrow> inj uids \<and> (\<forall>i. uids i \<noteq> [] \<and> hd (uids i) \<noteq> CHR ''d'')"

definition suggestion_ids :: "spec_field \<Rightarrow> string list" where
  "suggestion_ids f = (case f_kind f of KAutocomplete vs d mn mx pat ph \<Rightarrow> [autocompleteListId (f_path f)] | _ \<Rightarrow> [])"

lemma own_ids_differ:
  "item_id u = item_id v \<longleftrightarrow> u = v" "help_id u = help_id v \<longleftrightarrow> u = v" "error_id u = error_id v \<longleftrightarrow> u = v"
  "item_id u \<noteq> help_id v" "item_id u \<noteq> error_id v" "help_id u \<noteq> error_id v"
  "help_id u \<noteq> item_id v" "error_id u \<noteq> item_id v" "error_id u \<noteq> help_id v"
  using arg_cong [of "item_id u" "help_id v" last] arg_cong [of "item_id u" "error_id v" last] arg_cong [of "help_id u" "error_id v" last]
    arg_cong [of "help_id u" "item_id v" last] arg_cong [of "error_id u" "item_id v" last] arg_cong [of "error_id u" "help_id v" last]
  by auto

lemma row_ids_of_field:
  "row_ids errors uid (FieldRow other f vals) = item_id uid # suggestion_ids f
     @ (if truthy_str (f_help f) then [help_id uid] else []) @ map (\<lambda>_. error_id uid) (shown_error (oget errors (encodeKey (units (f_path f)))))"
  by (auto simp: row_ids_def FieldRow_def suggestion_ids_def some_truthy_def split: field_kind.split)

lemma distinct_concat_map:
  assumes "distinct xs" and "\<And>x. x \<in> set xs \<Longrightarrow> distinct (g x)"
    and "\<And>x y. x \<in> set xs \<Longrightarrow> y \<in> set xs \<Longrightarrow> x \<noteq> y \<Longrightarrow> set (g x) \<inter> set (g y) = {}"
  shows "distinct (concat (map g xs))"
  using assms by (induction xs) fastforce+

lemma distinct_concat_disjoint:
  "distinct (concat xss) \<Longrightarrow> i < j \<Longrightarrow> j < length xss \<Longrightarrow> set (xss ! i) \<inter> set (xss ! j) = {}"
proof (induction xss arbitrary: i j)
  case (Cons xs xss)
  from Cons.prems(2,3) obtain j' where j: "j = Suc j'" "j' < length xss" by (cases j) auto
  then have "xss ! j' \<in> set xss" by simp
  then have "set xs \<inter> set (xss ! j') = {}" using Cons.prems(1) by auto
  with Cons j show ?case by (cases i) auto
qed simp

lemma suggestion_ids_cases: "suggestion_ids f = [] \<or> suggestion_ids f = [autocompleteListId (f_path f)]"
  by (simp add: suggestion_ids_def split: field_kind.split)

lemma shown_error_cases: "shown_error e = [] \<or> (\<exists>m. shown_error e = [m])"
  by (auto simp: shown_error_def split: option.split)

definition own_ids :: "string \<Rightarrow> string set" where
  "own_ids u = {item_id u, help_id u, error_id u}"

lemma own_ids_disjoint: "u \<noteq> v \<Longrightarrow> own_ids u \<inter> own_ids v = {}"
  unfolding own_ids_def by (simp add: own_ids_differ)

lemma own_ids_suggestions:
  assumes "react_ids uids"
  shows "own_ids (uids i) \<inter> set (suggestion_ids f) = {}"
proof -
  have "hd (uids i @ ys) \<noteq> CHR ''d''" for ys using assms by (simp add: react_ids_def)
  then have "hd x \<noteq> CHR ''d''" if "x \<in> own_ids (uids i)" for x
    using that unfolding own_ids_def by blast
  moreover have "hd x = CHR ''d''" if "x \<in> set (suggestion_ids f)" for x
    using that suggestion_ids_cases [of f] by (auto simp: autocompleteListId_def)
  ultimately show ?thesis by blast
qed

lemma row_ids_within: "set (row_ids errors uid (FieldRow other f vals)) \<subseteq> own_ids uid \<union> set (suggestion_ids f)"
  using shown_error_cases [of "oget errors (encodeKey (units (f_path f)))"]
  unfolding row_ids_of_field own_ids_def by (elim disjE exE) auto

lemma distinct_between:
  "distinct (a # h @ e) \<Longrightarrow> set (a # h @ e) \<subseteq> S \<Longrightarrow> distinct s \<Longrightarrow> S \<inter> set s = {} \<Longrightarrow> distinct (a # s @ h @ e)"
  by auto

lemma row_ids_distinct:
  assumes "own_ids uid \<inter> set (suggestion_ids f) = {}"
  shows "distinct (row_ids errors uid (FieldRow other f vals))"
proof -
  have "distinct (item_id uid # (if truthy_str (f_help f) then [help_id uid] else []) @ map (\<lambda>_. error_id uid) (shown_error e))" for e
    using shown_error_cases [of e] by (elim disjE exE) (simp_all add: own_ids_differ)
  moreover have "set (item_id uid # (if truthy_str (f_help f) then [help_id uid] else []) @ map (\<lambda>_. error_id uid) (shown_error e))
      \<subseteq> own_ids uid" for e
    using shown_error_cases [of e] unfolding own_ids_def by (elim disjE exE) auto
  moreover have "distinct (suggestion_ids f)" using suggestion_ids_cases [of f] by (elim disjE) simp_all
  ultimately show ?thesis unfolding row_ids_of_field by (intro distinct_between [OF _ _ _ assms])
qed

lemma form_ids_distinct:
  assumes "react_ids uids" and "distinct (concat (map suggestion_ids fs))"
  shows "distinct (concat (map (\<lambda>i. row_ids errors (uids i) (FieldRow other (fs ! i) vals)) [0..<length fs]))"
proof (rule distinct_concat_map)
  note beside = own_ids_suggestions [OF assms(1)]
  show "distinct (row_ids errors (uids i) (FieldRow other (fs ! i) vals))" for i
    by (rule row_ids_distinct) (rule beside)
  show "set (row_ids errors (uids i) (FieldRow other (fs ! i) vals)) \<inter> set (row_ids errors (uids j) (FieldRow other (fs ! j) vals)) = {}"
    if "i \<in> set [0..<length fs]" "j \<in> set [0..<length fs]" "i \<noteq> j" for i j
  proof -
    from that assms(1) have u: "uids i \<noteq> uids j" by (auto simp: react_ids_def dest: injD)
    have "set (suggestion_ids (fs ! i)) \<inter> set (suggestion_ids (fs ! j)) = {}"
      using that distinct_concat_disjoint [OF assms(2), of i j] distinct_concat_disjoint [OF assms(2), of j i]
      by (cases "i < j") auto
    with own_ids_disjoint [OF u] beside [of i "fs ! j"] beside [of j "fs ! i"]
    have "(own_ids (uids i) \<union> set (suggestion_ids (fs ! i))) \<inter> (own_ids (uids j) \<union> set (suggestion_ids (fs ! j))) = {}" by blast
    with row_ids_within [of errors "uids i" other "fs ! i" vals] row_ids_within [of errors "uids j" other "fs ! j" vals]
    show ?thesis by blast
  qed
qed simp

text \<open>What the schema has against a field's value: the first issue of its path.\<close>

definition field_issue :: "parser \<Rightarrow> (name, jsval) obj \<Rightarrow> spec_field \<Rightarrow> issue option" where
  "field_issue safeParse vals f = (case safeParse (decodeValues vals) of Inr data \<Rightarrow> None
     | Inl issues \<Rightarrow> find (\<lambda>i. encodeKey (join_units DOT (iss_path i)) = encodeKey (units (f_path f))) issues)"

lemma resolver_error:
  "oget (snd (resolver safeParse vals)) (encodeKey (units (f_path f)))
     = map_option (\<lambda>i. (iss_code i, iss_message i)) (field_issue safeParse vals f)"
  by (simp add: resolver_def field_issue_def oget_collect_errors split: sum.split)

definition issue_text :: "issue option \<Rightarrow> string list" where
  "issue_text i = (case i of None \<Rightarrow> [] | Some j \<Rightarrow> if iss_message j = [] then [] else [iss_message j])"

lemma shown_issue: "shown_error (map_option (\<lambda>i. (iss_code i, iss_message i)) i) = issue_text i"
  by (simp add: shown_error_def issue_text_def split: option.split)

lemma concat_rows:
  assumes "length es = n" and "\<And>i. i < n \<Longrightarrow> g (es ! i) = x i"
  shows "concat (map g es) = concat (map x [0..<n])"
proof -
  from assms have "map g es = map x [0..<n]" by (intro nth_equalityI) simp_all
  then show ?thesis by simp
qed

lemma concat_singletons: "concat (map (\<lambda>i. [x i]) is') = map x is'"
  by (induction is') simp_all


text \<open>The description of a field without help is referred to, but is not there.\<close>

lemma help_reference_dangles:
  assumes "f_help f = None"
  shows "\<exists>T control. row_element K [] uid (FieldRow other f vals) = Inr T \<and> in_slot ''form-control'' T = [control]
    \<and> pget control ''aria-describedby'' = PStr (help_id uid) \<and> (help_id uid \<in> set (ids T) \<longrightarrow> help_id uid \<in> set (suggestion_ids f))"
  using row_wired [of K "[]" uid "FieldRow other f vals"] row_ids_of_field [of "[]" uid other f vals] assms
  by (auto simp: wired_def row_ids_def shown_error_def own_ids_differ)

definition plain_ui :: ui_lib where
  "plain_ui = \<lparr>twMerge = id, clsx = (\<lambda>_. []), cva = (\<lambda>_ _ _ _. []), mergeProps = ospread, useRender = (\<lambda>t p _ _. PEl t p)\<rparr>"


end
