(* ===== verification/Ui_Containers.thy ===== *)
theory Ui_Containers
  imports Ui_Controls
begin

text \<open>
  The containers and overlays of \<open>components/ui\<close>: \<open>tooltip\<close>, \<open>card\<close>, \<open>table\<close>, \<open>breadcrumb\<close>, \<open>scroll-area\<close>,
  \<open>resizable\<close>, \<open>dialog\<close>, \<open>alert-dialog\<close> and \<open>dropdown-menu\<close>, as in \<open>Ui_Controls\<close>.
\<close>

section \<open>Tooltip\<close>

definition TooltipProvider :: component where
  "TooltipProvider K p = PEl ''TooltipPrimitive.Provider'' (ospread [(''data-slot'', PStr ''tooltip-provider''), (''delay'', dflt p ''delay'' (PNum (Num 0)))] (without p [''delay'']))"

definition Tooltip :: component where
  "Tooltip K p = PEl ''TooltipPrimitive.Root'' (ospread [(''data-slot'', PStr ''tooltip'')] p)"

definition TooltipTrigger :: component where
  "TooltipTrigger K p = PEl ''TooltipPrimitive.Trigger'' (ospread [(''data-slot'', PStr ''tooltip-trigger'')] p)"

definition TooltipContent :: component where
  "TooltipContent K p = PEl ''TooltipPrimitive.Portal'' [(''children'', PEl ''TooltipPrimitive.Positioner'' [(''align'', dflt p ''align'' (PStr ''center'')),
       (''alignOffset'', dflt p ''alignOffset'' (PNum (Num 0))),
       (''side'', dflt p ''side'' (PStr ''top'')),
       (''sideOffset'', dflt p ''sideOffset'' (PNum (Num 4))),
       (''className'', PStr ''isolate z-50''),
       (''children'', PEl ''TooltipPrimitive.Popup'' (oset (ospread [(''data-slot'', PStr ''tooltip-content''),
        (''className'', cn K [PStr ''z-50 inline-flex w-fit max-w-xs origin-(--transform-origin) items-center gap-1.5 rounded-md bg-foreground px-3 py-1.5 text-xs text-background has-data-[slot=kbd]:pr-1.5 data-[side=bottom]:slide-in-from-top-2 data-[side=inline-end]:slide-in-from-left-2 data-[side=inline-start]:slide-in-from-right-2 data-[side=left]:slide-in-from-right-2 data-[side=right]:slide-in-from-left-2 data-[side=top]:slide-in-from-bottom-2 **:data-[slot=kbd]:relative **:data-[slot=kbd]:isolate **:data-[slot=kbd]:z-50 **:data-[slot=kbd]:rounded-sm data-[state=delayed-open]:animate-in data-[state=delayed-open]:fade-in-0 data-[state=delayed-open]:zoom-in-95 data-open:animate-in data-open:fade-in-0 data-open:zoom-in-95 data-closed:animate-out data-closed:fade-out-0 data-closed:zoom-out-95'',
         pget p ''className''])]
       (without p [''className'', ''side'', ''sideOffset'', ''align'', ''alignOffset'', ''children''])) ''children'' (kids [pget p ''children'',
        PEl ''TooltipPrimitive.Arrow'' [(''className'', PStr ''z-50 size-2.5 translate-y-[calc(-50%-2px)] rotate-45 rounded-[2px] bg-foreground fill-foreground data-[side=bottom]:top-1 data-[side=inline-end]:top-1/2! data-[side=inline-end]:-left-1 data-[side=inline-end]:-translate-y-1/2 data-[side=inline-start]:top-1/2! data-[side=inline-start]:-right-1 data-[side=inline-start]:-translate-y-1/2 data-[side=left]:top-1/2! data-[side=left]:-right-1 data-[side=left]:-translate-y-1/2 data-[side=right]:top-1/2! data-[side=right]:-left-1 data-[side=right]:-translate-y-1/2 data-[side=top]:-bottom-2.5'')]])))])]"

section \<open>Card\<close>

definition Card :: component where
  "Card K p = PEl ''div'' (ospread [(''data-slot'', PStr ''card''),
      (''data-size'', dflt p ''size'' (PStr ''default'')),
      (''className'', cn K [PStr ''group/card flex flex-col gap-4 overflow-hidden rounded-xl bg-card py-4 text-sm text-card-foreground ring-1 ring-foreground/10 has-data-[slot=card-footer]:pb-0 has-[>img:first-child]:pt-0 data-[size=sm]:gap-3 data-[size=sm]:py-3 data-[size=sm]:has-data-[slot=card-footer]:pb-0 *:[img:first-child]:rounded-t-xl *:[img:last-child]:rounded-b-xl'',
       pget p ''className''])]
     (without p [''className'', ''size'']))"

definition CardHeader :: component where
  "CardHeader K p = PEl ''div'' (ospread [(''data-slot'', PStr ''card-header''),
      (''className'', cn K [PStr ''group/card-header @container/card-header grid auto-rows-min items-start gap-1 rounded-t-xl px-4 group-data-[size=sm]/card:px-3 has-data-[slot=card-action]:grid-cols-[1fr_auto] has-data-[slot=card-description]:grid-rows-[auto_auto] [.border-b]:pb-4 group-data-[size=sm]/card:[.border-b]:pb-3'',
       pget p ''className''])] (without p [''className'']))"

definition CardTitle :: component where
  "CardTitle K p = PEl ''div'' (ospread [(''data-slot'', PStr ''card-title''),
      (''className'', cn K [PStr ''font-heading text-base leading-snug font-medium group-data-[size=sm]/card:text-sm'',
       pget p ''className''])] (without p [''className'']))"

definition CardDescription :: component where
  "CardDescription K p = PEl ''div'' (ospread [(''data-slot'', PStr ''card-description''),
      (''className'', cn K [PStr ''text-sm text-muted-foreground'', pget p ''className''])] (without p [''className'']))"

definition CardAction :: component where
  "CardAction K p = PEl ''div'' (ospread [(''data-slot'', PStr ''card-action''),
      (''className'', cn K [PStr ''col-start-2 row-span-2 row-start-1 self-start justify-self-end'', pget p ''className''])] (without p [''className'']))"

definition CardContent :: component where
  "CardContent K p = PEl ''div'' (ospread [(''data-slot'', PStr ''card-content''),
      (''className'', cn K [PStr ''px-4 group-data-[size=sm]/card:px-3'', pget p ''className''])] (without p [''className'']))"

definition CardFooter :: component where
  "CardFooter K p = PEl ''div'' (ospread [(''data-slot'', PStr ''card-footer''),
      (''className'', cn K [PStr ''flex items-center rounded-b-xl border-t bg-muted/50 p-4 group-data-[size=sm]/card:p-3'',
       pget p ''className''])] (without p [''className'']))"

section \<open>Table\<close>

definition Table :: component where
  "Table K p = PEl ''div'' [(''data-slot'', PStr ''table-container''),
      (''className'', PStr ''relative w-full overflow-x-auto''),
      (''children'', PEl ''table'' (ospread [(''data-slot'', PStr ''table''),
       (''className'', cn K [PStr ''w-full caption-bottom text-sm'', pget p ''className''])] (without p [''className''])))]"

definition TableHeader :: component where
  "TableHeader K p = PEl ''thead'' (ospread [(''data-slot'', PStr ''table-header''),
      (''className'', cn K [PStr ''[&_tr]:border-b'', pget p ''className''])] (without p [''className'']))"

definition TableBody :: component where
  "TableBody K p = PEl ''tbody'' (ospread [(''data-slot'', PStr ''table-body''),
      (''className'', cn K [PStr ''[&_tr:last-child]:border-0'', pget p ''className''])] (without p [''className'']))"

definition TableFooter :: component where
  "TableFooter K p = PEl ''tfoot'' (ospread [(''data-slot'', PStr ''table-footer''),
      (''className'', cn K [PStr ''border-t bg-muted/50 font-medium [&>tr]:last:border-b-0'', pget p ''className''])] (without p [''className'']))"

definition TableRow :: component where
  "TableRow K p = PEl ''tr'' (ospread [(''data-slot'', PStr ''table-row''),
      (''className'', cn K [PStr ''border-b transition-colors hover:bg-muted/50 has-aria-expanded:bg-muted/50 data-[state=selected]:bg-muted'',
       pget p ''className''])] (without p [''className'']))"

definition TableHead :: component where
  "TableHead K p = PEl ''th'' (ospread [(''data-slot'', PStr ''table-head''),
      (''className'', cn K [PStr ''h-10 px-2 text-left align-middle font-medium whitespace-nowrap text-foreground [&:has([role=checkbox])]:pr-0'',
       pget p ''className''])] (without p [''className'']))"

definition TableCell :: component where
  "TableCell K p = PEl ''td'' (ospread [(''data-slot'', PStr ''table-cell''),
      (''className'', cn K [PStr ''p-2 align-middle whitespace-nowrap [&:has([role=checkbox])]:pr-0'',
       pget p ''className''])] (without p [''className'']))"

definition TableCaption :: component where
  "TableCaption K p = PEl ''caption'' (ospread [(''data-slot'', PStr ''table-caption''),
      (''className'', cn K [PStr ''mt-4 text-sm text-muted-foreground'', pget p ''className''])] (without p [''className'']))"

section \<open>Breadcrumb\<close>

definition Breadcrumb :: component where
  "Breadcrumb K p = PEl ''nav'' (ospread [(''aria-label'', PStr ''breadcrumb''),
      (''data-slot'', PStr ''breadcrumb''),
      (''className'', cn K [pget p ''className''])] (without p [''className'']))"

definition BreadcrumbList :: component where
  "BreadcrumbList K p = PEl ''ol'' (ospread [(''data-slot'', PStr ''breadcrumb-list''),
      (''className'', cn K [PStr ''flex flex-wrap items-center gap-1.5 text-sm wrap-break-word text-muted-foreground'',
       pget p ''className''])] (without p [''className'']))"

definition BreadcrumbItem :: component where
  "BreadcrumbItem K p = PEl ''li'' (ospread [(''data-slot'', PStr ''breadcrumb-item''),
      (''className'', cn K [PStr ''inline-flex items-center gap-1'', pget p ''className''])] (without p [''className'']))"

definition BreadcrumbPage :: component where
  "BreadcrumbPage K p = PEl ''span'' (ospread [(''data-slot'', PStr ''breadcrumb-page''),
      (''role'', PStr ''link''),
      (''aria-disabled'', PStr ''true''),
      (''aria-current'', PStr ''page''),
      (''className'', cn K [PStr ''font-normal text-foreground'', pget p ''className''])] (without p [''className'']))"

definition BreadcrumbSeparator :: component where
  "BreadcrumbSeparator K p = PEl ''li'' (oset (ospread [(''data-slot'', PStr ''breadcrumb-separator''),
      (''role'', PStr ''presentation''),
      (''aria-hidden'', PStr ''true''),
      (''className'', cn K [PStr ''[&>svg]:size-3.5'', pget p ''className''])]
     (without p [''children'', ''className''])) ''children'' (p_nullish (pget p ''children'') (PEl ''ChevronRightIcon'' [])))"

definition BreadcrumbEllipsis :: component where
  "BreadcrumbEllipsis K p = PEl ''span'' (oset (ospread [(''data-slot'', PStr ''breadcrumb-ellipsis''),
      (''role'', PStr ''presentation''),
      (''aria-hidden'', PStr ''true''),
      (''className'', cn K [PStr ''flex size-5 items-center justify-center [&>svg]:size-4'', pget p ''className''])]
     (without p [''className''])) ''children'' (kids [PEl ''MoreHorizontalIcon'' [],
      PEl ''span'' [(''className'', PStr ''sr-only''), (''children'', PStr ''More'')]]))"

definition BreadcrumbLink :: component where
  "BreadcrumbLink K p = useRender K ''a''
     (mergeProps K [(''className'', cn K [PStr ''transition-colors hover:text-foreground'', pget p ''className''])] (without p [''className'', ''render'']))
     (pget p ''render'') [(''slot'', PStr ''breadcrumb-link'')]"

section \<open>Scroll area\<close>

definition ScrollBar :: component where
  "ScrollBar K p = PEl ''ScrollAreaPrimitive.Scrollbar'' (oset (ospread [(''data-slot'', PStr ''scroll-area-scrollbar''),
      (''data-orientation'', dflt p ''orientation'' (PStr ''vertical'')),
      (''orientation'', dflt p ''orientation'' (PStr ''vertical'')),
      (''className'', cn K [PStr ''flex touch-none p-px transition-colors select-none data-horizontal:h-2.5 data-horizontal:flex-col data-horizontal:border-t data-horizontal:border-t-transparent data-vertical:h-full data-vertical:w-2.5 data-vertical:border-l data-vertical:border-l-transparent'',
       pget p ''className''])]
     (without p [''className'', ''orientation''])) ''children'' (PEl ''ScrollAreaPrimitive.Thumb'' [(''data-slot'', PStr ''scroll-area-thumb''),
      (''className'', PStr ''relative flex-1 rounded-full bg-border'')]))"

definition ScrollArea :: component where
  "ScrollArea K p = PEl ''ScrollAreaPrimitive.Root'' (oset (ospread [(''data-slot'', PStr ''scroll-area''),
      (''className'', cn K [PStr ''relative'', pget p ''className''])]
     (without p [''className'', ''children''])) ''children'' (kids [PEl ''ScrollAreaPrimitive.Viewport'' [(''data-slot'', PStr ''scroll-area-viewport''),
       (''className'', PStr ''size-full rounded-[inherit] transition-[color,box-shadow] outline-none focus-visible:ring-[3px] focus-visible:ring-ring/50 focus-visible:outline-1''),
       (''children'', pget p ''children'')],
      ScrollBar K [],
      PEl ''ScrollAreaPrimitive.Corner'' []]))"

section \<open>Resizable panels\<close>

definition ResizablePanelGroup :: component where
  "ResizablePanelGroup K p = PEl ''ResizablePrimitive.Group'' (ospread [(''data-slot'', PStr ''resizable-panel-group''),
      (''className'', cn K [PStr ''flex h-full w-full aria-[orientation=vertical]:flex-col'', pget p ''className''])] (without p [''className'']))"

definition ResizablePanel :: component where
  "ResizablePanel K p = PEl ''ResizablePrimitive.Panel'' (ospread [(''data-slot'', PStr ''resizable-panel'')] p)"

definition ResizableHandle :: component where
  "ResizableHandle K p = PEl ''ResizablePrimitive.Separator'' (oset (ospread [(''data-slot'', PStr ''resizable-handle''),
      (''className'', cn K [PStr ''relative flex w-px items-center justify-center bg-border ring-offset-background after:absolute after:inset-y-0 after:left-1/2 after:w-1 after:-translate-x-1/2 focus-visible:ring-1 focus-visible:ring-ring focus-visible:outline-hidden aria-[orientation=horizontal]:h-px aria-[orientation=horizontal]:w-full aria-[orientation=horizontal]:after:left-0 aria-[orientation=horizontal]:after:h-1 aria-[orientation=horizontal]:after:w-full aria-[orientation=horizontal]:after:translate-x-0 aria-[orientation=horizontal]:after:-translate-y-1/2 [&[aria-orientation=horizontal]>div]:rotate-90'',
       pget p ''className''])]
     (without p [''withHandle'', ''className''])) ''children'' (p_and (pget p ''withHandle'') (PEl ''div'' [(''className'', PStr ''z-10 flex h-6 w-1 shrink-0 rounded-lg bg-border'')])))"

section \<open>Dialog\<close>

definition Dialog :: component where
  "Dialog K p = PEl ''DialogPrimitive.Root'' (ospread [(''data-slot'', PStr ''dialog'')] p)"

definition DialogTrigger :: component where
  "DialogTrigger K p = PEl ''DialogPrimitive.Trigger'' (ospread [(''data-slot'', PStr ''dialog-trigger'')] p)"

definition DialogPortal :: component where
  "DialogPortal K p = PEl ''DialogPrimitive.Portal'' (ospread [(''data-slot'', PStr ''dialog-portal'')] p)"

definition DialogClose :: component where
  "DialogClose K p = PEl ''DialogPrimitive.Close'' (ospread [(''data-slot'', PStr ''dialog-close'')] p)"

definition DialogOverlay :: component where
  "DialogOverlay K p = PEl ''DialogPrimitive.Backdrop'' (ospread [(''data-slot'', PStr ''dialog-overlay''),
      (''className'', cn K [PStr ''fixed inset-0 isolate z-50 bg-black/10 duration-100 supports-backdrop-filter:backdrop-blur-xs data-open:animate-in data-open:fade-in-0 data-closed:animate-out data-closed:fade-out-0'',
       pget p ''className''])] (without p [''className'']))"

definition DialogContent :: component where
  "DialogContent K p = DialogPortal K [(''children'', kids [DialogOverlay K [],
       PEl ''DialogPrimitive.Popup'' (oset (ospread [(''data-slot'', PStr ''dialog-content''),
        (''className'', cn K [PStr ''fixed top-1/2 left-1/2 z-50 grid w-full max-w-[calc(100%-2rem)] -translate-x-1/2 -translate-y-1/2 gap-4 rounded-xl bg-popover p-4 text-sm text-popover-foreground ring-1 ring-foreground/10 duration-100 outline-none sm:max-w-sm data-open:animate-in data-open:fade-in-0 data-open:zoom-in-95 data-closed:animate-out data-closed:fade-out-0 data-closed:zoom-out-95'',
         pget p ''className''])]
       (without p [''className'', ''children'', ''showCloseButton''])) ''children'' (kids [pget p ''children'',
        p_and (dflt p ''showCloseButton'' (PBool True)) (PEl ''DialogPrimitive.Close'' [(''data-slot'', PStr ''dialog-close''),
         (''render'', Button K [(''variant'', PStr ''ghost''),
          (''className'', PStr ''absolute top-2 right-2''),
          (''size'', PStr ''icon-sm'')]),
         (''children'', kids [PEl ''XIcon'' [],
          PEl ''span'' [(''className'', PStr ''sr-only''), (''children'', PStr ''Close'')]])])]))])]"

definition DialogHeader :: component where
  "DialogHeader K p = PEl ''div'' (ospread [(''data-slot'', PStr ''dialog-header''),
      (''className'', cn K [PStr ''flex flex-col gap-2'', pget p ''className''])] (without p [''className'']))"

definition DialogFooter :: component where
  "DialogFooter K p = PEl ''div'' (oset (ospread [(''data-slot'', PStr ''dialog-footer''),
      (''className'', cn K [PStr ''-mx-4 -mb-4 flex flex-col-reverse gap-2 rounded-b-xl border-t bg-muted/50 p-4 sm:flex-row sm:justify-end'',
       pget p ''className''])]
     (without p [''className'', ''showCloseButton'', ''children''])) ''children'' (kids [pget p ''children'',
      p_and (dflt p ''showCloseButton'' (PBool False)) (PEl ''DialogPrimitive.Close'' [(''render'', Button K [(''variant'', PStr ''outline'')]), (''children'', PStr ''Close'')])]))"

definition DialogTitle :: component where
  "DialogTitle K p = PEl ''DialogPrimitive.Title'' (ospread [(''data-slot'', PStr ''dialog-title''),
      (''className'', cn K [PStr ''font-heading text-base leading-none font-medium'', pget p ''className''])] (without p [''className'']))"

definition DialogDescription :: component where
  "DialogDescription K p = PEl ''DialogPrimitive.Description'' (ospread [(''data-slot'', PStr ''dialog-description''),
      (''className'', cn K [PStr ''text-sm text-muted-foreground *:[a]:underline *:[a]:underline-offset-3 *:[a]:hover:text-foreground'',
       pget p ''className''])] (without p [''className'']))"

section \<open>Alert dialog\<close>

definition AlertDialog :: component where
  "AlertDialog K p = PEl ''AlertDialogPrimitive.Root'' (ospread [(''data-slot'', PStr ''alert-dialog'')] p)"

definition AlertDialogTrigger :: component where
  "AlertDialogTrigger K p = PEl ''AlertDialogPrimitive.Trigger'' (ospread [(''data-slot'', PStr ''alert-dialog-trigger'')] p)"

definition AlertDialogPortal :: component where
  "AlertDialogPortal K p = PEl ''AlertDialogPrimitive.Portal'' (ospread [(''data-slot'', PStr ''alert-dialog-portal'')] p)"

definition AlertDialogOverlay :: component where
  "AlertDialogOverlay K p = PEl ''AlertDialogPrimitive.Backdrop'' (ospread [(''data-slot'', PStr ''alert-dialog-overlay''),
      (''className'', cn K [PStr ''fixed inset-0 isolate z-50 bg-black/10 duration-100 supports-backdrop-filter:backdrop-blur-xs data-open:animate-in data-open:fade-in-0 data-closed:animate-out data-closed:fade-out-0'',
       pget p ''className''])] (without p [''className'']))"

definition AlertDialogContent :: component where
  "AlertDialogContent K p = AlertDialogPortal K [(''children'', kids [AlertDialogOverlay K [],
       PEl ''AlertDialogPrimitive.Popup'' (ospread [(''data-slot'', PStr ''alert-dialog-content''),
        (''data-size'', dflt p ''size'' (PStr ''default'')),
        (''className'', cn K [PStr ''group/alert-dialog-content fixed top-1/2 left-1/2 z-50 grid w-full -translate-x-1/2 -translate-y-1/2 gap-4 rounded-xl bg-popover p-4 text-popover-foreground ring-1 ring-foreground/10 duration-100 outline-none data-[size=default]:max-w-xs data-[size=sm]:max-w-xs data-[size=default]:sm:max-w-sm data-open:animate-in data-open:fade-in-0 data-open:zoom-in-95 data-closed:animate-out data-closed:fade-out-0 data-closed:zoom-out-95'',
         pget p ''className''])]
       (without p [''className'', ''size'']))])]"

definition AlertDialogHeader :: component where
  "AlertDialogHeader K p = PEl ''div'' (ospread [(''data-slot'', PStr ''alert-dialog-header''),
      (''className'', cn K [PStr ''grid grid-rows-[auto_1fr] place-items-center gap-1.5 text-center has-data-[slot=alert-dialog-media]:grid-rows-[auto_auto_1fr] has-data-[slot=alert-dialog-media]:gap-x-4 sm:group-data-[size=default]/alert-dialog-content:place-items-start sm:group-data-[size=default]/alert-dialog-content:text-left sm:group-data-[size=default]/alert-dialog-content:has-data-[slot=alert-dialog-media]:grid-rows-[auto_1fr]'',
       pget p ''className''])] (without p [''className'']))"

definition AlertDialogFooter :: component where
  "AlertDialogFooter K p = PEl ''div'' (ospread [(''data-slot'', PStr ''alert-dialog-footer''),
      (''className'', cn K [PStr ''-mx-4 -mb-4 flex flex-col-reverse gap-2 rounded-b-xl border-t bg-muted/50 p-4 group-data-[size=sm]/alert-dialog-content:grid group-data-[size=sm]/alert-dialog-content:grid-cols-2 sm:flex-row sm:justify-end'',
       pget p ''className''])] (without p [''className'']))"

definition AlertDialogMedia :: component where
  "AlertDialogMedia K p = PEl ''div'' (ospread [(''data-slot'', PStr ''alert-dialog-media''),
      (''className'', cn K [PStr ''mb-2 inline-flex size-10 items-center justify-center rounded-md bg-muted sm:group-data-[size=default]/alert-dialog-content:row-span-2 *:[svg:not([class*='size-'])]:size-6'',
       pget p ''className''])] (without p [''className'']))"

definition AlertDialogTitle :: component where
  "AlertDialogTitle K p = PEl ''AlertDialogPrimitive.Title'' (ospread [(''data-slot'', PStr ''alert-dialog-title''),
      (''className'', cn K [PStr ''font-heading text-base font-medium sm:group-data-[size=default]/alert-dialog-content:group-has-data-[slot=alert-dialog-media]/alert-dialog-content:col-start-2'',
       pget p ''className''])] (without p [''className'']))"

definition AlertDialogDescription :: component where
  "AlertDialogDescription K p = PEl ''AlertDialogPrimitive.Description'' (ospread [(''data-slot'', PStr ''alert-dialog-description''),
      (''className'', cn K [PStr ''text-sm text-balance text-muted-foreground md:text-pretty *:[a]:underline *:[a]:underline-offset-3 *:[a]:hover:text-foreground'',
       pget p ''className''])] (without p [''className'']))"

definition AlertDialogAction :: component where
  "AlertDialogAction K p = Button K (ospread [(''data-slot'', PStr ''alert-dialog-action''), (''className'', cn K [pget p ''className''])] (without p [''className'']))"

definition AlertDialogCancel :: component where
  "AlertDialogCancel K p = PEl ''AlertDialogPrimitive.Close'' (ospread [(''data-slot'', PStr ''alert-dialog-cancel''),
      (''className'', cn K [pget p ''className'']),
      (''render'', Button K [(''variant'', dflt p ''variant'' (PStr ''outline'')),
       (''size'', dflt p ''size'' (PStr ''default''))])]
     (without p [''className'', ''variant'', ''size'']))"

section \<open>Dropdown menu\<close>

definition DropdownMenu :: component where
  "DropdownMenu K p = PEl ''MenuPrimitive.Root'' (ospread [(''data-slot'', PStr ''dropdown-menu'')] p)"

definition DropdownMenuPortal :: component where
  "DropdownMenuPortal K p = PEl ''MenuPrimitive.Portal'' (ospread [(''data-slot'', PStr ''dropdown-menu-portal'')] p)"

definition DropdownMenuTrigger :: component where
  "DropdownMenuTrigger K p = PEl ''MenuPrimitive.Trigger'' (ospread [(''data-slot'', PStr ''dropdown-menu-trigger'')] p)"

definition DropdownMenuContent :: component where
  "DropdownMenuContent K p = PEl ''MenuPrimitive.Portal'' [(''children'', PEl ''MenuPrimitive.Positioner'' [(''className'', PStr ''isolate z-50 outline-none''),
       (''align'', dflt p ''align'' (PStr ''start'')),
       (''alignOffset'', dflt p ''alignOffset'' (PNum (Num 0))),
       (''side'', dflt p ''side'' (PStr ''bottom'')),
       (''sideOffset'', dflt p ''sideOffset'' (PNum (Num 4))),
       (''children'', PEl ''MenuPrimitive.Popup'' (ospread [(''data-slot'', PStr ''dropdown-menu-content''),
        (''className'', cn K [PStr ''z-50 max-h-(--available-height) w-(--anchor-width) min-w-32 origin-(--transform-origin) overflow-x-hidden overflow-y-auto rounded-lg bg-popover p-1 text-popover-foreground shadow-md ring-1 ring-foreground/10 duration-100 outline-none data-[side=bottom]:slide-in-from-top-2 data-[side=inline-end]:slide-in-from-left-2 data-[side=inline-start]:slide-in-from-right-2 data-[side=left]:slide-in-from-right-2 data-[side=right]:slide-in-from-left-2 data-[side=top]:slide-in-from-bottom-2 data-open:animate-in data-open:fade-in-0 data-open:zoom-in-95 data-closed:animate-out data-closed:overflow-hidden data-closed:fade-out-0 data-closed:zoom-out-95'',
         pget p ''className''])]
       (without p [''align'', ''alignOffset'', ''side'', ''sideOffset'', ''className''])))])]"

definition DropdownMenuGroup :: component where
  "DropdownMenuGroup K p = PEl ''MenuPrimitive.Group'' (ospread [(''data-slot'', PStr ''dropdown-menu-group'')] p)"

definition DropdownMenuLabel :: component where
  "DropdownMenuLabel K p = PEl ''MenuPrimitive.GroupLabel'' (ospread [(''data-slot'', PStr ''dropdown-menu-label''),
      (''data-inset'', pget p ''inset''),
      (''className'', cn K [PStr ''px-1.5 py-1 text-xs font-medium text-muted-foreground data-inset:pl-7'',
       pget p ''className''])]
     (without p [''className'', ''inset'']))"

definition DropdownMenuItem :: component where
  "DropdownMenuItem K p = PEl ''MenuPrimitive.Item'' (ospread [(''data-slot'', PStr ''dropdown-menu-item''),
      (''data-inset'', pget p ''inset''),
      (''data-variant'', dflt p ''variant'' (PStr ''default'')),
      (''className'', cn K [PStr ''group/dropdown-menu-item relative flex cursor-default items-center gap-1.5 rounded-md px-1.5 py-1 text-sm outline-hidden select-none focus:bg-accent focus:text-accent-foreground not-data-[variant=destructive]:focus:**:text-accent-foreground data-inset:pl-7 data-[variant=destructive]:text-destructive data-[variant=destructive]:focus:bg-destructive/10 data-[variant=destructive]:focus:text-destructive dark:data-[variant=destructive]:focus:bg-destructive/20 data-disabled:pointer-events-none data-disabled:opacity-50 [&_svg]:pointer-events-none [&_svg]:shrink-0 [&_svg:not([class*='size-'])]:size-4 data-[variant=destructive]:*:[svg]:text-destructive'',
       pget p ''className''])]
     (without p [''className'', ''inset'', ''variant'']))"

definition DropdownMenuSub :: component where
  "DropdownMenuSub K p = PEl ''MenuPrimitive.SubmenuRoot'' (ospread [(''data-slot'', PStr ''dropdown-menu-sub'')] p)"

definition DropdownMenuSubTrigger :: component where
  "DropdownMenuSubTrigger K p = PEl ''MenuPrimitive.SubmenuTrigger'' (oset (ospread [(''data-slot'', PStr ''dropdown-menu-sub-trigger''),
      (''data-inset'', pget p ''inset''),
      (''className'', cn K [PStr ''flex cursor-default items-center gap-1.5 rounded-md px-1.5 py-1 text-sm outline-hidden select-none focus:bg-accent focus:text-accent-foreground not-data-[variant=destructive]:focus:**:text-accent-foreground data-inset:pl-7 data-popup-open:bg-accent data-popup-open:text-accent-foreground data-open:bg-accent data-open:text-accent-foreground [&_svg]:pointer-events-none [&_svg]:shrink-0 [&_svg:not([class*='size-'])]:size-4'',
       pget p ''className''])]
     (without p [''className'', ''inset'', ''children''])) ''children'' (kids [pget p ''children'', PEl ''ChevronRightIcon'' [(''className'', PStr ''ml-auto'')]]))"

definition DropdownMenuSubContent :: component where
  "DropdownMenuSubContent K p = DropdownMenuContent K (ospread [(''data-slot'', PStr ''dropdown-menu-sub-content''),
      (''className'', cn K [PStr ''w-auto min-w-[96px] rounded-lg bg-popover p-1 text-popover-foreground shadow-lg ring-1 ring-foreground/10 duration-100 data-[side=bottom]:slide-in-from-top-2 data-[side=left]:slide-in-from-right-2 data-[side=right]:slide-in-from-left-2 data-[side=top]:slide-in-from-bottom-2 data-open:animate-in data-open:fade-in-0 data-open:zoom-in-95 data-closed:animate-out data-closed:fade-out-0 data-closed:zoom-out-95'',
       pget p ''className'']),
      (''align'', dflt p ''align'' (PStr ''start'')),
      (''alignOffset'', dflt p ''alignOffset'' (PNum (Num (-3)))),
      (''side'', dflt p ''side'' (PStr ''right'')),
      (''sideOffset'', dflt p ''sideOffset'' (PNum (Num 0)))]
     (without p [''align'', ''alignOffset'', ''side'', ''sideOffset'', ''className'']))"

definition DropdownMenuCheckboxItem :: component where
  "DropdownMenuCheckboxItem K p = PEl ''MenuPrimitive.CheckboxItem'' (oset (ospread [(''data-slot'', PStr ''dropdown-menu-checkbox-item''),
      (''data-inset'', pget p ''inset''),
      (''className'', cn K [PStr ''relative flex cursor-default items-center gap-1.5 rounded-md py-1 pr-8 pl-1.5 text-sm outline-hidden select-none focus:bg-accent focus:text-accent-foreground focus:**:text-accent-foreground data-inset:pl-7 data-disabled:pointer-events-none data-disabled:opacity-50 [&_svg]:pointer-events-none [&_svg]:shrink-0 [&_svg:not([class*='size-'])]:size-4'',
       pget p ''className'']),
      (''checked'', pget p ''checked'')]
     (without p [''className'', ''children'', ''checked'', ''inset''])) ''children'' (kids [PEl ''span'' [(''className'', PStr ''pointer-events-none absolute right-2 flex items-center justify-center''),
       (''data-slot'', PStr ''dropdown-menu-checkbox-item-indicator''),
       (''children'', PEl ''MenuPrimitive.CheckboxItemIndicator'' [(''children'', PEl ''CheckIcon'' [])])],
      pget p ''children'']))"

definition DropdownMenuRadioGroup :: component where
  "DropdownMenuRadioGroup K p = PEl ''MenuPrimitive.RadioGroup'' (ospread [(''data-slot'', PStr ''dropdown-menu-radio-group'')] p)"

definition DropdownMenuRadioItem :: component where
  "DropdownMenuRadioItem K p = PEl ''MenuPrimitive.RadioItem'' (oset (ospread [(''data-slot'', PStr ''dropdown-menu-radio-item''),
      (''data-inset'', pget p ''inset''),
      (''className'', cn K [PStr ''relative flex cursor-default items-center gap-1.5 rounded-md py-1 pr-8 pl-1.5 text-sm outline-hidden select-none focus:bg-accent focus:text-accent-foreground focus:**:text-accent-foreground data-inset:pl-7 data-disabled:pointer-events-none data-disabled:opacity-50 [&_svg]:pointer-events-none [&_svg]:shrink-0 [&_svg:not([class*='size-'])]:size-4'',
       pget p ''className''])]
     (without p [''className'', ''children'', ''inset''])) ''children'' (kids [PEl ''span'' [(''className'', PStr ''pointer-events-none absolute right-2 flex items-center justify-center''),
       (''data-slot'', PStr ''dropdown-menu-radio-item-indicator''),
       (''children'', PEl ''MenuPrimitive.RadioItemIndicator'' [(''children'', PEl ''CheckIcon'' [])])],
      pget p ''children'']))"

definition DropdownMenuSeparator :: component where
  "DropdownMenuSeparator K p = PEl ''MenuPrimitive.Separator'' (ospread [(''data-slot'', PStr ''dropdown-menu-separator''),
      (''className'', cn K [PStr ''-mx-1 my-1 h-px bg-border'', pget p ''className''])] (without p [''className'']))"

definition DropdownMenuShortcut :: component where
  "DropdownMenuShortcut K p = PEl ''span'' (ospread [(''data-slot'', PStr ''dropdown-menu-shortcut''),
      (''className'', cn K [PStr ''ml-auto text-xs tracking-widest text-muted-foreground group-focus/dropdown-menu-item:text-accent-foreground'',
       pget p ''className''])] (without p [''className'']))"

end
