(* ===== verification/Page_Chrome.thy ===== *)
theory Page_Chrome
  imports Ui_Containers
begin

text \<open>
  What frames the pages: \<open>frontend/app/layout.tsx\<close>, \<open>app/providers.tsx\<close>, \<open>app/page.tsx\<close>, the drawer with the sidebar on
  small screens (\<open>components/MobileSidebar.tsx\<close>, \<open>MobileSidebarShell.tsx\<close>), the language menu
  (\<open>components/LocaleSwitch.tsx\<close>), the editor's panels (\<open>components/editor/EditorLayout.tsx\<close>) and the text editor
  (\<open>components/YamlEditor.tsx\<close>, \<open>MonacoPanel.tsx\<close>). Components of the repository that only stand in the tree appear by
  their names.
\<close>

section \<open>Layout\<close>

definition metadata :: props where
  "metadata = [(''title'', PStr ''kuberport''), (''description'', PStr ''Self-service portal for Kubernetes resources'')]"

text \<open>The options of the client that caches queries.\<close>

definition query_options :: props where
  "query_options = [(''defaultOptions'', PObj [(''queries'', PObj [(''staleTime'', PNum (Num 30000)),
     (''refetchOnWindowFocus'', PBool False)])])]"

text \<open>The state keeps the client of the first rendering: \<open>made\<close> is what \<open>new QueryClient\<close> gives.\<close>

definition query_client :: "(props \<Rightarrow> pval) \<Rightarrow> pval option \<Rightarrow> pval" where
  "query_client made kept = (case kept of Some c \<Rightarrow> c | None \<Rightarrow> made query_options)"

definition Providers :: "(props \<Rightarrow> pval) \<Rightarrow> pval option \<Rightarrow> props \<Rightarrow> pval" where
  "Providers made kept p = PEl ''QueryClientProvider'' [(''client'', query_client made kept), (''children'', pget p ''children'')]"

text \<open>The variables are the classes of the two fonts.\<close>

definition RootLayout :: "string \<Rightarrow> string \<Rightarrow> pval \<Rightarrow> pval \<Rightarrow> (props \<Rightarrow> pval) \<Rightarrow> pval option \<Rightarrow> props \<Rightarrow> pval" where
  "RootLayout sans_variable mono_variable locale' messages made kept p = PEl ''html'' [(''lang'', locale'),
     (''className'', PStr (sans_variable @ '' '' @ mono_variable @ '' h-full antialiased'')),
     (''children'', PEl ''body'' [(''className'', PStr ''min-h-full bg-background text-foreground''),
        (''children'', PEl ''NextIntlClientProvider'' [(''locale'', locale'), (''messages'', messages),
           (''children'', Providers made kept [(''children'', PEl ''AppShell'' [(''children'', pget p ''children'')])])])])]"

definition Home :: pval where
  "Home = PEl ''main'' [(''className'', PStr ''p-8 text-lg font-mono''),
     (''children'', kids [PStr ''kuberport is running. Go to '',
        PEl ''a'' [(''className'', PStr ''text-primary underline''), (''href'', PStr ''/catalog''), (''children'', PStr ''catalog'')],
        PStr ''.''])]"

section \<open>The drawer\<close>

text \<open>
  The drawer is open or closed; the effect that closes it runs when the drawer appears and whenever the path has
  changed.
\<close>

record drawer =
  dr_open :: bool
  dr_path :: string

datatype drawer_event = OpenChange bool | PathIs string

definition open_drawer :: "string \<Rightarrow> drawer" where
  "open_drawer path = \<lparr>dr_open = False, dr_path = path\<rparr>"

fun drawer_step :: "drawer \<Rightarrow> drawer_event \<Rightarrow> drawer" where
  "drawer_step d (OpenChange b) = d\<lparr>dr_open := b\<rparr>"
| "drawer_step d (PathIs path) = (if path = dr_path d then d else \<lparr>dr_open = False, dr_path = path\<rparr>)"

definition MobileSidebarShell :: "ui_lib \<Rightarrow> drawer \<Rightarrow> string \<Rightarrow> pval \<Rightarrow> pval" where
  "MobileSidebarShell K d triggerLabel children = PEl ''DialogPrimitive.Root'' [(''open'', PBool (dr_open d)), (''onOpenChange'', PFun ''setOpen''),
     (''children'', kids
       [PEl ''DialogPrimitive.Trigger'' [(''aria-label'', PStr triggerLabel),
          (''className'', PStr ''md:hidden inline-flex h-9 w-9 items-center justify-center rounded-md text-foreground hover:bg-accent''),
          (''children'', PEl ''MenuIcon'' [(''className'', PStr ''h-5 w-5'')])],
        PEl ''DialogPrimitive.Portal'' [(''children'', kids
          [PEl ''DialogPrimitive.Backdrop'' [(''className'', PStr ''fixed inset-0 z-50 bg-black/30 supports-backdrop-filter:backdrop-blur-xs data-open:animate-in data-open:fade-in-0 data-closed:animate-out data-closed:fade-out-0 duration-150'')],
           PEl ''DialogPrimitive.Popup'' [(''className'', cn K
               [PStr ''fixed inset-y-0 left-0 z-50 flex w-72 flex-col border-r border-sidebar-border bg-sidebar text-sidebar-foreground outline-none'',
                PStr ''data-open:animate-in data-open:slide-in-from-left data-closed:animate-out data-closed:slide-out-to-left duration-200'']),
             (''children'', children)]])]])]"

definition MobileSidebar :: "ui_lib \<Rightarrow> drawer \<Rightarrow> (string \<Rightarrow> string) \<Rightarrow> string \<Rightarrow> pval" where
  "MobileSidebar K d t role = MobileSidebarShell K d (t ''openMenu'') (PEl ''SidebarBody'' [(''role'', PStr role)])"

text \<open>However the drawer was opened, it is closed on every page one has just reached.\<close>

lemma drawer_closed_after_navigation:
  assumes "path \<noteq> dr_path (foldl drawer_step (open_drawer start_path) evs)"
  shows "\<not> dr_open (drawer_step (foldl drawer_step (open_drawer start_path) evs) (PathIs path))"
  using assms by simp

section \<open>The language menu\<close>

text \<open>The names of the languages are given in English.\<close>

definition locale_options :: "(string \<times> string) list" where
  "locale_options = [(''ko'', ''Korean''), (''en'', ''English'')]"

definition LocaleSwitch :: "(string \<Rightarrow> string) \<Rightarrow> string \<Rightarrow> bool \<Rightarrow> pval" where
  "LocaleSwitch t current pending = PEl ''select'' [(''aria-label'', PStr (t ''localeSwitchLabel'')), (''value'', PStr current),
     (''disabled'', PBool pending), (''onChange'', PFun ''pick''),
     (''className'', PStr ''rounded-md border border-border bg-card px-2 py-1 text-xs text-foreground disabled:opacity-60''),
     (''children'', PArr (map (\<lambda>(v, l). PEl ''option'' [(''key'', PStr v), (''value'', PStr v), (''children'', PStr l)]) locale_options))]"

section \<open>The editor\<close>

definition EditorLayout :: "ui_lib \<Rightarrow> pval \<Rightarrow> pval \<Rightarrow> pval \<Rightarrow> pval" where
  "EditorLayout K tree inspector preview = ResizablePanelGroup K [(''orientation'', PStr ''horizontal''),
     (''className'', PStr ''min-h-[calc(100vh-220px)] rounded-md border''),
     (''children'', kids
       [ResizablePanel K [(''defaultSize'', PNum (Num 25)), (''minSize'', PNum (Num 18)),
          (''children'', PEl ''div'' [(''className'', PStr ''h-full overflow-auto p-3''), (''children'', tree)])],
        ResizableHandle K [(''withHandle'', PBool True)],
        ResizablePanel K [(''defaultSize'', PNum (Num 35)), (''minSize'', PNum (Num 20)),
          (''children'', PEl ''div'' [(''className'', PStr ''h-full overflow-auto p-3''), (''children'', inspector)])],
        ResizableHandle K [(''withHandle'', PBool True)],
        ResizablePanel K [(''defaultSize'', PNum (Num 40)), (''minSize'', PNum (Num 25)),
          (''children'', PEl ''div'' [(''className'', PStr ''h-full overflow-auto''), (''children'', preview)])]])]"

definition MonacoPanel :: "props \<Rightarrow> pval" where
  "MonacoPanel p = PEl ''Editor'' [(''value'', pget p ''value''), (''language'', dflt p ''language'' (PStr ''yaml'')),
     (''height'', dflt p ''height'' (PStr ''100%'')), (''theme'', PStr ''vs-dark''), (''onChange'', pget p ''onChange''),
     (''options'', PObj [(''readOnly'', dflt p ''readOnly'' (PBool False)), (''minimap'', PObj [(''enabled'', PBool False)]),
        (''scrollBeyondLastLine'', PBool False), (''fontSize'', PNum (Num 13)), (''tabSize'', PNum (Num 2))])]"

text \<open>The editor may report no text; the page then gets an empty one.\<close>

definition yaml_change :: "string option \<Rightarrow> string" where
  "yaml_change v = nullish v []"

definition YamlEditor :: "string \<Rightarrow> string \<Rightarrow> pval" where
  "YamlEditor label value' = PEl ''div'' [(''className'', PStr ''border rounded bg-white''),
     (''children'', kids
       [PEl ''div'' [(''className'', PStr ''px-3 py-1.5 text-xs font-mono border-b bg-muted/40''), (''children'', PStr label)],
        PEl ''Monaco'' [(''height'', PStr ''40vh''), (''language'', PStr ''yaml''), (''value'', PStr value'),
          (''onChange'', PFun ''yaml_change''), (''options'', PObj [(''minimap'', PObj [(''enabled'', PBool False)])])]])]"

end
