(* ===== verification/Connections.thy ===== *)
theory Connections
  imports Kp_Js
begin

text \<open>
  \<open>frontend/lib/db.ts\<close> and \<open>lib/oidc.ts\<close>: the two objects the server makes once and keeps, the pool of database
  connections and the configuration of the identity provider. Making one is an argument: the library's constructor for
  the pool, a request over the network for the configuration, which may fail and during which other requests run.
\<close>

section \<open>The pool\<close>

text \<open>
  \<open>pool\<close> stands for a pool that is made at its first use. Its state is the pool, if there is one, and the
  connection strings it was made with so far.
\<close>

record 'p pool_state =
  the_pool :: "'p option"
  made_with :: "string list"

definition no_pool :: "'p pool_state" where
  "no_pool = \<lparr>the_pool = None, made_with = []\<rparr>"

definition getPool :: "(string \<Rightarrow> 'p) \<Rightarrow> string option \<Rightarrow> 'p pool_state \<Rightarrow> (string + 'p) \<times> 'p pool_state" where
  "getPool new_pool database_url s = (case the_pool s of
     Some p \<Rightarrow> (Inr p, s)
   | None \<Rightarrow> if \<not> truthy_str database_url then (Inl ''DATABASE_URL is not set'', s)
       else (let p = new_pool (the database_url) in (Inr p, \<lparr>the_pool = Some p, made_with = made_with s @ [the database_url]\<rparr>)))"

text \<open>Reading a property: a method is bound to the pool, so that it does not see the proxy.\<close>

datatype ('p, 'v) pool_member = Method 'v | BoundTo 'p 'v | Plain 'v

definition pool_get :: "(string \<Rightarrow> 'p) \<Rightarrow> ('p \<Rightarrow> string \<Rightarrow> ('p, 'v) pool_member) \<Rightarrow> string option \<Rightarrow> string \<Rightarrow> 'p pool_state
    \<Rightarrow> (string + ('p, 'v) pool_member) \<times> 'p pool_state" where
  "pool_get new_pool reflect database_url key s = (case getPool new_pool database_url s of
     (Inl e, s') \<Rightarrow> (Inl e, s')
   | (Inr p, s') \<Rightarrow> (Inr (case reflect p key of Method f \<Rightarrow> BoundTo p f | v \<Rightarrow> v), s'))"

fun pool_uses :: "(string \<Rightarrow> 'p) \<Rightarrow> string option list \<Rightarrow> 'p pool_state \<Rightarrow> (string + 'p) list \<times> 'p pool_state" where
  "pool_uses new_pool [] s = ([], s)"
| "pool_uses new_pool (u # us) s = (case getPool new_pool u s of (r, s') \<Rightarrow> (case pool_uses new_pool us s' of (rs, s'') \<Rightarrow> (r # rs, s'')))"

lemma pool_kept: "the_pool s = Some p \<Longrightarrow> pool_uses new_pool us s = (map (\<lambda>_. Inr p) us, s)"
  by (induction us) (simp_all add: getPool_def)

text \<open>However often the pool is used, whatever becomes of the environment, one pool is made at most: with the first
  connection string there is. Uses before it fail, all later ones get that pool.\<close>

lemma one_pool:
  "pool_uses new_pool us no_pool =
     (let early = takeWhile (\<lambda>u. \<not> truthy_str u) us; later = dropWhile (\<lambda>u. \<not> truthy_str u) us in
      (map (\<lambda>_. Inl ''DATABASE_URL is not set'') early @ map (\<lambda>_. Inr (new_pool (the (hd later)))) later,
       if later = [] then no_pool else \<lparr>the_pool = Some (new_pool (the (hd later))), made_with = [the (hd later)]\<rparr>))"
proof (induction us)
  case (Cons u us)
  show ?case
  proof (cases "truthy_str u")
    case True
    then show ?thesis by (simp add: getPool_def no_pool_def Let_def pool_kept)
  next
    case False
    then have "getPool new_pool u no_pool = (Inl ''DATABASE_URL is not set'', no_pool)" by (simp add: getPool_def no_pool_def)
    with False Cons.IH show ?thesis by (simp add: Let_def)
  qed
qed simp

section \<open>The identity provider\<close>

record oidc_env =
  OIDC_ISSUER :: string
  OIDC_CLIENT_ID :: string
  OIDC_CLIENT_SECRET :: string
  NODE_ENV :: string

text \<open>What is asked of the provider: issuer, client, secret and whether plain HTTP is allowed.\<close>

record discovery_request =
  dq_issuer :: string
  dq_client :: string
  dq_secret :: string
  dq_insecure :: bool

text \<open>
  The calls of \<open>getConfig\<close> are numbered as they come. A call that finds a configuration returns at once, one whose
  issuer is no URL throws, and every other one asks the provider and waits; its answer is an event.
\<close>

record 'c oidc_state =
  cached :: "'c option"
  asked :: "(nat \<times> discovery_request) list"
  waiting :: "nat set"
  returned :: "(nat \<times> (string + 'c)) list"
  calls :: nat

definition no_config :: "'c oidc_state" where
  "no_config = \<lparr>cached = None, asked = [], waiting = {}, returned = [], calls = 0\<rparr>"

datatype 'c oidc_event = GetConfig | Discovered nat "string + 'c"

definition discovery_of :: "oidc_env \<Rightarrow> discovery_request" where
  "discovery_of E = \<lparr>dq_issuer = OIDC_ISSUER E, dq_client = OIDC_CLIENT_ID E, dq_secret = OIDC_CLIENT_SECRET E,
     dq_insecure = (NODE_ENV E \<noteq> ''production'')\<rparr>"

definition getConfig :: "(string \<Rightarrow> string option) \<Rightarrow> oidc_env \<Rightarrow> 'c oidc_state \<Rightarrow> 'c oidc_state" where
  "getConfig url_error E s = (let n = calls s; s' = s\<lparr>calls := n + 1\<rparr> in
     case cached s of
       Some c \<Rightarrow> s'\<lparr>returned := returned s @ [(n, Inr c)]\<rparr>
     | None \<Rightarrow> (case url_error (OIDC_ISSUER E) of
         Some e \<Rightarrow> s'\<lparr>returned := returned s @ [(n, Inl e)]\<rparr>
       | None \<Rightarrow> s'\<lparr>asked := asked s @ [(n, discovery_of E)], waiting := insert n (waiting s)\<rparr>))"

fun oidc_step :: "(string \<Rightarrow> string option) \<Rightarrow> oidc_env \<Rightarrow> 'c oidc_state \<Rightarrow> 'c oidc_event \<Rightarrow> 'c oidc_state" where
  "oidc_step url_error E s GetConfig = getConfig url_error E s"
| "oidc_step url_error E s (Discovered n r) = (if n \<notin> waiting s then s
     else (case r of
         Inl e \<Rightarrow> s\<lparr>waiting := waiting s - {n}, returned := returned s @ [(n, Inl e)]\<rparr>
       | Inr c \<Rightarrow> s\<lparr>waiting := waiting s - {n}, returned := returned s @ [(n, Inr c)], cached := Some c\<rparr>))"

definition oidc_ok :: "'c oidc_state \<Rightarrow> bool" where
  "oidc_ok s \<longleftrightarrow> waiting s \<subseteq> fst ` set (asked s) \<and> fst ` set (asked s) \<subseteq> {..<calls s} \<and> fst ` set (returned s) \<subseteq> {..<calls s}
     \<and> distinct (map fst (asked s)) \<and> distinct (map fst (returned s))
     \<and> waiting s \<inter> fst ` set (returned s) = {} \<and> waiting s \<union> fst ` set (returned s) = {..<calls s}
     \<and> (cached s = None \<longrightarrow> (\<forall>(n, r) \<in> set (returned s). \<exists>e. r = Inl e))
     \<and> (\<forall>c. cached s = Some c \<longrightarrow> (\<exists>n. (n, Inr c) \<in> set (returned s)))"

lemma oidc_step_ok:
  assumes "oidc_ok s"
  shows "oidc_ok (oidc_step url_error E s ev)"
proof (cases ev)
  case GetConfig
  have "calls s \<notin> fst ` set (asked s)" "calls s \<notin> fst ` set (returned s)" "calls s \<notin> waiting s"
    using assms by (auto simp: oidc_ok_def)
  with assms GetConfig show ?thesis
    unfolding oidc_ok_def by (auto simp: getConfig_def Let_def lessThan_Suc split: option.splits)
next
  case (Discovered n r)
  with assms show ?thesis
    unfolding oidc_ok_def by (auto split: sum.split)
qed

interpretation oidc: event_component "oidc_step url_error E" oidc_ok
  by unfold_locales (rule oidc_step_ok)

lemma no_config_ok: "oidc_ok no_config"
  by (simp add: oidc_ok_def no_config_def)

text \<open>Once the provider has answered, it is not asked again.\<close>

lemma asked_no_more:
  "cached s \<noteq> None \<Longrightarrow> asked (foldl (oidc_step url_error E) s evs) = asked s \<and> cached (foldl (oidc_step url_error E) s evs) \<noteq> None"
proof (induction evs arbitrary: s)
  case (Cons ev evs)
  then have "asked (oidc_step url_error E s ev) = asked s \<and> cached (oidc_step url_error E s ev) \<noteq> None"
    by (cases ev) (auto simp: getConfig_def Let_def split: sum.split)
  with Cons.IH [of "oidc_step url_error E s ev"] show ?case by simp
qed simp

text \<open>
  Whatever order calls and answers come in: each call returns at most once, and has returned when none is waiting;
  a configuration is returned and kept only if the provider gave it; a failure is not kept, so that the next call asks
  again.
\<close>

lemma oidc_calls:
  assumes "s = foldl (oidc_step url_error E) no_config evs"
  shows "distinct (map fst (returned s)) \<and> (waiting s = {} \<longrightarrow> fst ` set (returned s) = {..<calls s})
    \<and> (\<forall>c. cached s = Some c \<longrightarrow> (\<exists>n. (n, Inr c) \<in> set (returned s)))
    \<and> (cached s = None \<and> url_error (OIDC_ISSUER E) = None \<longrightarrow>
         asked (oidc_step url_error E s GetConfig) = asked s @ [(calls s, discovery_of E)])"
  using oidc.run_inv [OF no_config_ok, of url_error E evs] assms
  by (auto simp: oidc_ok_def getConfig_def Let_def)

lemma replicate_snoc: "replicate (Suc n) x = replicate n x @ [x]"
  by (simp add: replicate_append_same)

text \<open>Nothing joins calls that come before the first answer: each of them asks the provider, and the answer that comes
  last is kept.\<close>

lemma first_calls_all_ask:
  fixes a b :: 'c
  assumes "url_error (OIDC_ISSUER E) = None"
  shows "asked (foldl (oidc_step url_error E) (no_config :: 'c oidc_state) (replicate n GetConfig)) = map (\<lambda>i. (i, discovery_of E)) [0..<n]
    \<and> cached (foldl (oidc_step url_error E) no_config [GetConfig, GetConfig, Discovered 1 (Inr b), Discovered 0 (Inr a)]) = Some a"
proof -
  have "foldl (oidc_step url_error E) (no_config :: 'c oidc_state) (replicate n GetConfig)
      = \<lparr>cached = None, asked = map (\<lambda>i. (i, discovery_of E)) [0..<n], waiting = {..<n}, returned = [], calls = n\<rparr>"
  proof (induction n)
    case (Suc n)
    with assms show ?case by (simp add: replicate_snoc getConfig_def lessThan_Suc del: replicate_Suc)
  qed (simp add: no_config_def)
  moreover have "cached (foldl (oidc_step url_error E) no_config [GetConfig, GetConfig, Discovered 1 (Inr b), Discovered 0 (Inr a)]) = Some a"
    using assms by (simp add: no_config_def getConfig_def Let_def)
  ultimately show ?thesis by simp
qed

end
