(* ===== verification/Editor_Modes.thy ===== *)
theory Editor_Modes
  imports Template_Editor Page_Chrome Shell
begin

text \<open>
  The two editors of a page and the tabs between them (\<open>frontend/app/templates/new/page.tsx\<close>,
  \<open>app/templates/[name]/versions/[v]/edit/page.tsx\<close>): which editor is on the page is the parameter \<open>mode\<close> of its
  address. \<open>URLSearchParams\<close> is modelled with its text form: percent encoding of the name and value of every
  parameter, each kept here as the bytes of its UTF-8. Then the texts a new template starts from, and two elements of the shell
  (\<open>components/Sidebar.tsx\<close>, \<open>KubeTermsToggle.tsx\<close>). Labels are given in English.
\<close>

section \<open>Parameters of an address\<close>

type_synonym params = "(string \<times> string) list"

definition is_alnum :: "char \<Rightarrow> bool" where
  "is_alnum c \<longleftrightarrow> c \<in> set ''ABCDEFGHIJKLMNOPQRSTUVWXYZabcdefghijklmnopqrstuvwxyz0123456789''"

definition hex_digit :: "nat \<Rightarrow> char" where
  "hex_digit n = ''0123456789ABCDEF'' ! n"

definition hex_value :: "char \<Rightarrow> nat option" where
  "hex_value c = map_of (zip ''0123456789ABCDEFabcdef'' ([0..<16] @ [10..<16])) c"

definition escape_byte :: "char \<Rightarrow> string" where
  "escape_byte c = (if is_alnum c \<or> c \<in> set ''*-._'' then [c] else if c = CHR '' '' then ''+''
     else [CHR ''%'', hex_digit (of_char c div 16), hex_digit (of_char c mod 16)])"

definition escape :: "string \<Rightarrow> string" where
  "escape s = concat (map escape_byte s)"

fun unescape :: "string \<Rightarrow> string" where
  "unescape (c # a # b # r) = (if c = CHR ''%'' then
       (case (hex_value a, hex_value b) of (Some x, Some y) \<Rightarrow> char_of (16 * x + y) # unescape r
        | _ \<Rightarrow> c # unescape (a # b # r))
     else (if c = CHR ''+'' then CHR '' '' else c) # unescape (a # b # r))"
| "unescape (c # r) = (if c = CHR ''+'' then CHR '' '' else c) # unescape r"
| "unescape [] = []"

text \<open>\<open>toString\<close>.\<close>

definition pair_text :: "string \<times> string \<Rightarrow> string" where
  "pair_text e = escape (fst e) @ CHR ''='' # escape (snd e)"

fun params_text :: "params \<Rightarrow> string" where
  "params_text [] = []"
| "params_text [e] = pair_text e"
| "params_text (e # es) = pair_text e @ CHR ''&'' # params_text es"

text \<open>Reading the query of an address: empty pieces are skipped, and a piece without an equals sign is a name.\<close>

fun pieces :: "string \<Rightarrow> string list" where
  "pieces [] = [[]]"
| "pieces (c # r) = (if c = CHR ''&'' then [] # pieces r else (c # hd (pieces r)) # tl (pieces r))"

definition read_pair :: "string \<Rightarrow> string \<times> string" where
  "read_pair s = (unescape (takeWhile (\<lambda>c. c \<noteq> CHR ''='') s), unescape (drop 1 (dropWhile (\<lambda>c. c \<noteq> CHR ''='') s)))"

definition read_params :: "string \<Rightarrow> params" where
  "read_params s = map read_pair (filter (\<lambda>x. x \<noteq> []) (pieces s))"

text \<open>\<open>get\<close>, and \<open>set\<close>: the first parameter of the name gets the value, the others of the name are removed.\<close>

definition params_get :: "params \<Rightarrow> string \<Rightarrow> string option" where
  "params_get ps k = map_of ps k"

fun params_set :: "params \<Rightarrow> string \<Rightarrow> string \<Rightarrow> params" where
  "params_set [] k v = [(k, v)]"
| "params_set (e # es) k v = (if fst e = k then (k, v) # filter (\<lambda>e. fst e \<noteq> k) es else e # params_set es k v)"

lemma params_get_set [simp]: "params_get (params_set ps k v) k = Some v"
  by (induction ps) (auto simp: params_get_def)

lemma params_set_others [simp]: "filter (\<lambda>e. fst e \<noteq> k) (params_set ps k v) = filter (\<lambda>e. fst e \<noteq> k) ps"
  by (induction ps) auto

lemma high_digit: "(of_char (c :: char) :: nat) div 16 < 16"
  using of_char_mod_256 [of c, where ?'a = nat] mod_less_divisor [of 256 "of_char c :: nat"]
  by (simp add: less_mult_imp_div_less)

lemma hex_value_digit: "n < 16 \<Longrightarrow> hex_value (hex_digit n) = Some n"
proof -
  have "\<forall>n \<in> set [0..<16]. hex_value (hex_digit n) = Some n" by code_simp
  then show "n < 16 \<Longrightarrow> ?thesis" by simp
qed

lemma byte_from_digits: "char_of (16 * (of_char c div 16) + of_char c mod 16 :: nat) = (c :: char)"
  by (simp add: mult_div_mod_eq)

text \<open>What is escaped holds neither an ampersand nor an equals sign, and is read back.\<close>

lemma escape_byte_safe: "CHR ''&'' \<notin> set (escape_byte c) \<and> CHR ''='' \<notin> set (escape_byte c)"
proof -
  have "\<forall>n \<in> set [0..<16]. hex_digit n \<noteq> CHR ''&'' \<and> hex_digit n \<noteq> CHR ''=''" by code_simp
  then have digit: "hex_digit n \<noteq> CHR ''&'' \<and> hex_digit n \<noteq> CHR ''=''" if "n < 16" for n using that by simp
  have low: "(of_char c :: nat) mod 16 < 16" by simp
  show ?thesis using digit [OF high_digit [of c]] digit [OF low] by (auto simp: escape_byte_def is_alnum_def)
qed

lemma escape_safe: "CHR ''&'' \<notin> set (escape s) \<and> CHR ''='' \<notin> set (escape s)"
  using escape_byte_safe by (auto simp: escape_def)

lemma unescape_plain:
  "c \<noteq> CHR ''%'' \<Longrightarrow> unescape (c # r) = (if c = CHR ''+'' then CHR '' '' else c) # unescape r"
  by (cases r rule: unescape.cases) auto

lemma unescape_byte: "unescape (escape_byte c @ r) = c # unescape r"
proof (cases "is_alnum c \<or> c \<in> set ''*-._''")
  case True
  then have "c \<noteq> CHR ''%'' \<and> c \<noteq> CHR ''+''" by (auto simp: is_alnum_def)
  with True show ?thesis by (simp add: escape_byte_def unescape_plain)
next
  case False
  with False show ?thesis by (simp add: escape_byte_def unescape_plain hex_value_digit high_digit byte_from_digits)
qed

lemma unescape_escape: "unescape (escape s) = s"
  by (induction s) (simp_all add: escape_def unescape_byte)

lemma read_pair_text: "read_pair (pair_text e) = e"
proof -
  have "takeWhile (\<lambda>c. c \<noteq> CHR ''='') (pair_text e) = escape (fst e)"
    "dropWhile (\<lambda>c. c \<noteq> CHR ''='') (pair_text e) = CHR ''='' # escape (snd e)"
    using escape_safe [of "fst e"] by (auto simp: pair_text_def takeWhile_append dropWhile_append takeWhile_eq_all_conv)
  then show ?thesis by (simp add: read_pair_def unescape_escape)
qed

lemma pieces_alone: "CHR ''&'' \<notin> set s \<Longrightarrow> pieces s = [s]"
  by (induction s) auto

lemma pieces_joined: "CHR ''&'' \<notin> set s \<Longrightarrow> pieces (s @ CHR ''&'' # r) = s # pieces r"
  by (induction s) auto

lemma pair_text_piece: "CHR ''&'' \<notin> set (pair_text e) \<and> pair_text e \<noteq> []"
  using escape_safe by (auto simp: pair_text_def)

lemma read_params_text: "read_params (params_text ps) = ps"
proof (induction ps rule: params_text.induct)
  case (2 e)
  show ?case using pair_text_piece [of e] by (simp add: read_params_def pieces_alone read_pair_text)
next
  case (3 e e' es)
  then show ?case using pair_text_piece [of e] by (simp add: read_params_def pieces_joined read_pair_text)
qed (simp add: read_params_def)

section \<open>The tabs\<close>

datatype editor_mode = UiMode | YamlMode

definition mode_of :: "params \<Rightarrow> editor_mode" where
  "mode_of searchParams = (if params_get searchParams ''mode'' = Some ''yaml'' then YamlMode else UiMode)"

text \<open>The address a tab leads to, and the parameters of the page there.\<close>

definition switchMode :: "string \<Rightarrow> params \<Rightarrow> string \<Rightarrow> string" where
  "switchMode pathname searchParams next = pathname @ ''?'' @ params_text (params_set searchParams ''mode'' next)"

definition address_params :: "string \<Rightarrow> params" where
  "address_params url = read_params (drop 1 (dropWhile (\<lambda>c. c \<noteq> CHR ''?'') url))"

definition new_tabs :: "ui_lib \<Rightarrow> editor_mode \<Rightarrow> pval \<Rightarrow> pval" where
  "new_tabs K mode handler = Tabs K [(''value'', PStr (if mode = YamlMode then ''yaml'' else ''ui'')), (''onValueChange'', handler),
     (''children'', TabsList K [(''children'', kids
        [TabsTrigger K [(''value'', PStr ''ui''), (''children'', PStr ''UI mode'')],
         TabsTrigger K [(''value'', PStr ''yaml''), (''children'', PStr ''YAML mode'')]])])]"

definition NewTemplatePageInner :: "ui_lib \<Rightarrow> params \<Rightarrow> pval" where
  "NewTemplatePageInner K searchParams = PEl ''div'' [(''className'', PStr ''space-y-4''), (''children'', kids
     [PEl ''div'' [(''className'', PStr ''flex items-center justify-between''), (''children'', kids
        [PEl ''h1'' [(''className'', PStr ''text-xl font-bold''), (''children'', PStr ''New template'')],
         new_tabs K (mode_of searchParams) (PFun ''switchMode'')])],
      PEl (if mode_of searchParams = YamlMode then ''YamlModeNew'' else ''UIModeNew'') []])]"

definition EditUITemplateVersionInner :: "ui_lib \<Rightarrow> params \<Rightarrow> pval" where
  "EditUITemplateVersionInner K searchParams = PEl ''div'' [(''className'', PStr ''space-y-4''), (''children'', kids
     [PEl ''div'' [(''className'', PStr ''flex items-center justify-end''), (''children'',
         new_tabs K (mode_of searchParams) (PFun ''switchMode''))],
      PEl (if mode_of searchParams = YamlMode then ''YamlModeEdit'' else ''UIModeEdit'') []])]"

lemma address_params_switch:
  assumes "CHR ''?'' \<notin> set pathname"
  shows "address_params (switchMode pathname searchParams next) = params_set searchParams ''mode'' next"
proof -
  have "dropWhile (\<lambda>c. c \<noteq> CHR ''?'') (switchMode pathname searchParams next)
      = CHR ''?'' # params_text (params_set searchParams ''mode'' next)"
    using assms by (auto simp: switchMode_def dropWhile_append)
  then show ?thesis by (simp add: address_params_def read_params_text)
qed

section \<open>What a switch does to the page\<close>

text \<open>The texts a new template starts from. The second one's label is given in English.\<close>

definition text_lines :: "string list \<Rightarrow> string" where
  "text_lines ls = concat (map (\<lambda>l. l @ [CHR 0x0A]) ls)"

definition STARTER_RESOURCES :: string where
  "STARTER_RESOURCES = text_lines
    [''apiVersion: apps/v1'',
     ''kind: Deployment'',
     ''metadata: { name: web }'',
     ''spec:'',
     ''  replicas: 1'',
     ''  selector: { matchLabels: { app: web } }'',
     ''  template:'',
     ''    metadata: { labels: { app: web } }'',
     ''    spec:'',
     ''      containers:'',
     ''        - name: app'',
     ''          image: nginx:1.25'',
     ''          ports: [{ containerPort: 80 }]'']"

definition STARTER_UISPEC :: string where
  "STARTER_UISPEC = text_lines
    [''fields:'',
     ''  - path: Deployment[web].spec.replicas'',
     ''    label: \"Number of instances\"'',
     ''    type: integer'',
     ''    min: 1'',
     ''    max: 20'',
     ''    default: 3'']"

text \<open>The page of a new template: its parameters and the editor mounted for them. An editor that comes on the page
  starts anew, with the cluster remembered for the session; events of an editor that is no longer there change
  nothing on the page.\<close>

datatype 'f editor = UIModeNew "'f new_page" | YamlModeNew "'f yaml_new"

record 'f new_modes =
  search_params :: params
  editor :: "'f editor"

datatype 'f modes_event = OfUi "'f new_event" | OfYaml yaml_new_event | PickTab "string option" string

definition mount_editor :: "string option \<Rightarrow> params \<Rightarrow> 'f editor" where
  "mount_editor remembered ps = (case mode_of ps of UiMode \<Rightarrow> UIModeNew (open_new remembered)
     | YamlMode \<Rightarrow> YamlModeNew (open_yaml_new STARTER_RESOURCES STARTER_UISPEC))"

definition open_modes :: "string option \<Rightarrow> params \<Rightarrow> 'f new_modes" where
  "open_modes remembered ps = \<lparr>search_params = ps, editor = mount_editor remembered ps\<rparr>"

definition same_editor :: "'f editor \<Rightarrow> params \<Rightarrow> bool" where
  "same_editor ed ps = (case ed of UIModeNew s \<Rightarrow> mode_of ps = UiMode | YamlModeNew s \<Rightarrow> mode_of ps = YamlMode)"

fun modes_step :: "nat \<Rightarrow> 'f new_modes \<Rightarrow> 'f modes_event \<Rightarrow> 'f new_modes" where
  "modes_step fuel s (OfUi e) = (case editor s of UIModeNew p \<Rightarrow> s\<lparr>editor := UIModeNew (new_step fuel p e)\<rparr> | YamlModeNew p \<Rightarrow> s)"
| "modes_step fuel s (OfYaml e) = (case editor s of UIModeNew p \<Rightarrow> s | YamlModeNew p \<Rightarrow> s\<lparr>editor := YamlModeNew (yaml_new_step p e)\<rparr>)"
| "modes_step fuel s (PickTab remembered next) =
     (let ps = address_params (switchMode ''/templates/new'' (search_params s) next)
      in s\<lparr>search_params := ps, editor := (if same_editor (editor s) ps then editor s else mount_editor remembered ps)\<rparr>)"

definition modes_inv :: "'f new_modes \<Rightarrow> bool" where
  "modes_inv s \<longleftrightarrow> same_editor (editor s) (search_params s)"

lemma mount_editor_same: "same_editor (mount_editor remembered ps) ps"
  by (simp add: same_editor_def mount_editor_def split: editor_mode.splits)

lemma modes_step_inv: "modes_inv s \<Longrightarrow> modes_inv (modes_step fuel s ev)"
  by (cases ev) (auto simp: modes_inv_def same_editor_def mount_editor_same [unfolded same_editor_def] Let_def split: editor.splits)

interpretation modes: event_component "modes_step fuel" modes_inv
  by unfold_locales (rule modes_step_inv)

text \<open>Whatever has happened on the page, the editor on it is the one its address names, a tab leads to its editor and
  keeps every other parameter of the address, and going to the other editor and back ends in an editor as it was first
  opened: what had been entered in both is gone.\<close>

lemma tabs_start_anew:
  fixes s :: "'f new_modes"
  assumes "s = foldl (modes_step fuel) (open_modes remembered ps) evs"
  shows "same_editor (editor s) (search_params s)"
    and "mode_of (search_params (modes_step fuel s (PickTab r next))) = (if next = ''yaml'' then YamlMode else UiMode)"
    and "filter (\<lambda>e. fst e \<noteq> ''mode'') (search_params (modes_step fuel s (PickTab r next)))
       = filter (\<lambda>e. fst e \<noteq> ''mode'') (search_params s)"
    and "mode_of (search_params s) = YamlMode \<Longrightarrow>
      editor (modes_step fuel (modes_step fuel s (PickTab r ''ui'')) (PickTab r' ''yaml''))
        = YamlModeNew (open_yaml_new STARTER_RESOURCES STARTER_UISPEC)"
    and "mode_of (search_params s) = UiMode \<Longrightarrow>
      editor (modes_step fuel (modes_step fuel s (PickTab r ''yaml'')) (PickTab r' ''ui'')) = UIModeNew (open_new r')"
proof -
  have "modes_inv s"
    unfolding assms by (rule modes.run_inv) (simp add: modes_inv_def open_modes_def mount_editor_same)
  then show same: "same_editor (editor s) (search_params s)" by (simp add: modes_inv_def)
  note at = address_params_switch [of "''/templates/new''"]
  show "mode_of (search_params (modes_step fuel s (PickTab r next))) = (if next = ''yaml'' then YamlMode else UiMode)"
    by (simp add: at Let_def mode_of_def)
  show "filter (\<lambda>e. fst e \<noteq> ''mode'') (search_params (modes_step fuel s (PickTab r next)))
       = filter (\<lambda>e. fst e \<noteq> ''mode'') (search_params s)"
    by (simp add: at Let_def)
  show "editor (modes_step fuel (modes_step fuel s (PickTab r ''ui'')) (PickTab r' ''yaml''))
        = YamlModeNew (open_yaml_new STARTER_RESOURCES STARTER_UISPEC)" if "mode_of (search_params s) = YamlMode"
    using that same by (auto simp: at Let_def mode_of_def same_editor_def mount_editor_def split: editor.splits if_splits)
  show "editor (modes_step fuel (modes_step fuel s (PickTab r ''yaml'')) (PickTab r' ''ui'')) = UIModeNew (open_new r')"
    if "mode_of (search_params s) = UiMode"
    using that same by (auto simp: at Let_def mode_of_def same_editor_def mount_editor_def split: editor.splits if_splits)
qed

section \<open>Two elements of the shell\<close>

definition Sidebar :: "string \<Rightarrow> pval" where
  "Sidebar role = PEl ''aside'' [(''className'', PStr ''hidden md:flex w-60 shrink-0 flex-col border-r border-sidebar-border bg-sidebar text-sidebar-foreground''),
     (''children'', PEl ''SidebarBody'' [(''role'', PStr role)])]"

text \<open>The switch for the vocabulary; its change calls \<open>toggle\<close> (\<open>toggle_terms\<close>).\<close>

definition KubeTermsToggle :: "ui_lib \<Rightarrow> kube_terms \<Rightarrow> pval" where
  "KubeTermsToggle K s = PEl ''label'' [(''className'', PStr ''inline-flex items-center gap-2 text-xs text-muted-foreground''),
     (''children'', kids [Switch_ui K [(''checked'', PBool (showKubeTerms s)), (''onCheckedChange'', PFun ''toggle'')],
        PStr ''Show the original k8s terms''])]"

text \<open>The switch passes its state and its handler to the library's root.\<close>

lemma toggle_shows_state:
  fixes made :: props
  assumes "made = root_props (Switch_ui K [(''checked'', PBool (showKubeTerms s)), (''onCheckedChange'', PFun ''toggle'')])"
  shows "oget made ''checked'' = Some (PBool (showKubeTerms s)) \<and> oget made ''onCheckedChange'' = Some (PFun ''toggle'')"
  unfolding assms by (intro conjI w_switch.forwards) (simp_all add: obj_ok_def)

end
